(* ===== verification/Prelude.thy ===== *)
theory Prelude
  imports Main "HOL-Library.Word" "HOL-Library.Monad_Syntax"
begin

text \<open>
  Vocabulary shared by every theory of the development.

  The kernel is 32-bit x86 C (ILP32): \<open>int\<close>, \<open>long\<close>, \<open>size_t\<close> and pointers are all
  32 bits wide, so a C value of any of these types is a \<open>32 word\<close>; a comparison of signed
  values is written with \<open>sint\<close>. A faulting access (an unmapped address, a freed block, a
  call through a null pointer, a write past an array) and a loop that never ends are both the
  value \<open>None\<close> of the option monad: a theorem that an operation returns says \<open>= Some \<dots>\<close>.
  Error codes are those of \<^verbatim>\<open>libraries/libc/include/errno.h\<close>, returned negated.
\<close>

unbundle bit_operations_syntax

type_synonym u8 = "8 word"
type_synonym u16 = "16 word"
type_synonym u32 = "32 word"
type_synonym u64 = "64 word"
type_synonym ptr = "32 word"

subsection \<open>Collections of hints\<close>

named_theorems err_simps "equations about the negated error codes"
named_theorems fault_simps "equations that decide whether a step of the option monad faults"

subsection \<open>Sizes fixed by the headers\<close>

definition NAME_MAX :: nat where "NAME_MAX = 128"
definition PATH_MAX :: nat where "PATH_MAX = 4096"
definition OPEN_MAX :: nat where "OPEN_MAX = 512"
definition CHILD_MAX :: nat where "CHILD_MAX = 25"

lemmas limits_def = NAME_MAX_def PATH_MAX_def OPEN_MAX_def CHILD_MAX_def

subsection \<open>Error codes\<close>

datatype errno =
    ENOMEM | ECHILD | EEXIST | ENODEV | ENAMETOOLONG | EIO | EINVAL | EINPROGRESS
  | EINTR | ENOSYS | EOVERFLOW | EISDIR | EBUSY | ENOENT | EMFILE

fun errno_code :: "errno \<Rightarrow> u32" where
  "errno_code ENOMEM = 1"
| "errno_code ECHILD = 2"
| "errno_code EEXIST = 3"
| "errno_code ENODEV = 4"
| "errno_code ENAMETOOLONG = 5"
| "errno_code EIO = 6"
| "errno_code EINVAL = 7"
| "errno_code EINPROGRESS = 8"
| "errno_code EINTR = 9"
| "errno_code ENOSYS = 10"
| "errno_code EOVERFLOW = 11"
| "errno_code EISDIR = 12"
| "errno_code EBUSY = 13"
| "errno_code ENOENT = 14"
| "errno_code EMFILE = 15"

text \<open>What the code returns for an error: \<open>-NEWLAND_E...\<close>, at 32 bits.\<close>

definition err :: "errno \<Rightarrow> u32" where
  "err e = - errno_code e"

lemma errno_code_inj [err_simps, simp]: "errno_code e = errno_code e' \<longleftrightarrow> e = e'"
  by (cases e; cases e') simp_all

lemma err_inj [err_simps, simp]: "err e = err e' \<longleftrightarrow> e = e'"
  by (simp add: err_def)

lemma err_neq_0 [err_simps, simp]: "err e \<noteq> 0" "0 \<noteq> err e"
  by (cases e; simp add: err_def)+

lemma err_negative [err_simps, simp]: "sint (err e) < 0"
  by (cases e) (simp_all add: err_def)

lemma err_large: "0xFFFFFFF0 < err e"
  by (cases e) (simp_all add: err_def)

subsection \<open>The option monad: evaluation of a step never looks behind a fault\<close>

lemma bind_weak_cong: "x = y \<Longrightarrow> Option.bind x f = Option.bind y f"
  by simp

definition guard :: "bool \<Rightarrow> unit option" where
  "guard b = (if b then Some () else None)"

lemma guard_simps [fault_simps, simp]: "guard True = Some ()" "guard False = None"
  by (simp_all add: guard_def)

lemma guard_eq_Some [fault_simps, simp]: "guard b = Some u \<longleftrightarrow> b"
  by (simp add: guard_def)

text \<open>
  The C idiom \<open>for (i = 0; i < n; i++)\<close> over an unsigned 32-bit counter: the values the
  counter takes, in order, and folds of a loop body over them.
\<close>

lemma unat_u32_less [simp]: "unat (n :: u32) < 4294967296"
  using unsigned_less [of n, where ?'a = nat] by simp

lemma unat_of_nat_small: "k < 4294967296 \<Longrightarrow> unat (of_nat k :: u32) = k"
  by (rule of_nat_inverse [OF refl]) simp

lemma of_nat_u32_inj:
  "j < 4294967296 \<Longrightarrow> k < 4294967296 \<Longrightarrow> (of_nat j :: u32) = of_nat k \<longleftrightarrow> j = k"
  by (metis unat_of_nat_small)

lemma of_nat_pred: "0 < n \<Longrightarrow> (of_nat (n - Suc 0) :: 'a :: len word) = of_nat n - 1"
  by (simp add: of_nat_diff Suc_le_eq)

lemma unat_u8_less [simp]: "unat (n :: u8) < 256"
  using unsigned_less [of n, where ?'a = nat] by simp

text \<open>A word below a power of two has no bits from there up.\<close>

lemma take_bit_small_self: "unat (w :: 'a :: len word) < 2 ^ n \<Longrightarrow> take_bit n w = w"
  by (simp add: word_unat_eq_iff unsigned_take_bit_eq take_bit_nat_eq_self_iff)

lemma no_high_bit: "unat (w :: 'a :: len word) < 2 ^ n \<Longrightarrow> n \<le> k \<Longrightarrow> \<not> bit w k"
  by (metis bit_take_bit_iff not_less take_bit_small_self)

text \<open>The values of the counter, in order.\<close>

definition upto_u32 :: "u32 \<Rightarrow> u32 list" where
  "upto_u32 n = map of_nat [0..<unat n]"

lemma length_upto_u32 [simp]: "length (upto_u32 n) = unat n"
  by (simp add: upto_u32_def)

lemma nth_upto_u32 [simp]: "i < unat n \<Longrightarrow> upto_u32 n ! i = of_nat i"
  by (simp add: upto_u32_def)

lemma upto_u32_0 [simp]: "upto_u32 0 = []"
  by (simp add: upto_u32_def)

lemma set_upto_u32 [simp]: "i \<in> set (upto_u32 n) \<longleftrightarrow> i < n"
proof
  assume "i \<in> set (upto_u32 n)"
  then obtain k where k: "i = of_nat k" "k < unat n" by (auto simp: upto_u32_def)
  then have "unat i = k"
    by (simp add: unat_of_nat_small less_trans [OF _ unat_u32_less])
  with k show "i < n" by (simp add: word_less_nat_alt)
next
  assume "i < n"
  then have "unat i < unat n" by (simp add: word_less_nat_alt)
  then have "of_nat (unat i) \<in> set (upto_u32 n)"
    unfolding upto_u32_def by (simp only: set_map set_upt) (rule imageI, simp)
  then show "i \<in> set (upto_u32 n)" by simp
qed

lemma distinct_upto_u32 [simp]: "distinct (upto_u32 n)"
proof -
  have "inj_on (of_nat :: nat \<Rightarrow> u32) (set [0..<unat n])"
  proof (rule inj_onI)
    fix x y assume xy: "x \<in> set [0..<unat n]" "y \<in> set [0..<unat n]" "(of_nat x :: u32) = of_nat y"
    have "x < 4294967296" "y < 4294967296"
      using xy(1,2) unat_u32_less [of n] by (simp_all del: unat_u32_less)
    with xy(3) show "x = y"
      by (metis unat_of_nat_small)
  qed
  then show ?thesis by (simp add: upto_u32_def distinct_map)
qed

fun foldM :: "('i \<Rightarrow> 's \<Rightarrow> 's option) \<Rightarrow> 'i list \<Rightarrow> 's \<Rightarrow> 's option" where
  "foldM f [] s = Some s"
| "foldM f (i # is) s = (case f i s of None \<Rightarrow> None | Some s' \<Rightarrow> foldM f is s')"

lemma foldM_append: "foldM f (xs @ ys) s = Option.bind (foldM f xs s) (foldM f ys)"
  by (induction xs arbitrary: s) (auto split: option.splits)

lemma foldM_invariant:
  assumes "foldM f xs s = Some s'" "P s"
    and "\<And>i s s'. i \<in> set xs \<Longrightarrow> P s \<Longrightarrow> f i s = Some s' \<Longrightarrow> P s'"
  shows "P s'"
  using assms
proof (induction xs arbitrary: s)
  case Nil
  then show ?case by simp
next
  case (Cons x xs)
  then obtain s1 where "f x s = Some s1" "foldM f xs s1 = Some s'"
    by (auto split: option.splits)
  moreover from this Cons.prems have "P s1" by auto
  ultimately show ?case using Cons by (meson list.set_intros(2))
qed

lemma foldM_total:
  assumes "P s" and "\<And>i s. i \<in> set xs \<Longrightarrow> P s \<Longrightarrow> \<exists>s'. f i s = Some s' \<and> P s'"
  shows "\<exists>s'. foldM f xs s = Some s' \<and> P s'"
  using assms
proof (induction xs arbitrary: s)
  case Nil
  then show ?case by simp
next
  case (Cons x xs)
  then obtain s1 where "f x s = Some s1" "P s1" by force
  with Cons show ?case by auto
qed

text \<open>
  The idiom \<open>for (\<dots>) { int r = f (i); if (r < 0) return r; } return 0;\<close>: the first negative
  result ends the loop and is returned.
\<close>

fun for_r :: "('i \<Rightarrow> 's \<Rightarrow> (u32 \<times> 's) option) \<Rightarrow> 'i list \<Rightarrow> 's \<Rightarrow> (u32 \<times> 's) option" where
  "for_r f [] s = Some (0, s)"
| "for_r f (i # is) s = (case f i s of
      None \<Rightarrow> None
    | Some (r, t) \<Rightarrow> if sint r < 0 then Some (r, t) else for_r f is t)"

lemma for_r_total:
  assumes "P s" and "\<And>i s. i \<in> set xs \<Longrightarrow> P s \<Longrightarrow> \<exists>r t. f i s = Some (r, t) \<and> P t"
  shows "\<exists>r t. for_r f xs s = Some (r, t) \<and> P t"
  using assms
proof (induction xs arbitrary: s)
  case Nil
  then show ?case by simp
next
  case (Cons x xs)
  then obtain r t where "f x s = Some (r, t)" "P t" by force
  with Cons show ?case by auto
qed

lemma for_r_zero:
  assumes "P s" and "\<And>i s. P s \<Longrightarrow> \<exists>t. f i s = Some (0, t) \<and> P t"
  shows "\<exists>t. for_r f xs s = Some (0, t) \<and> P t"
  using assms(1)
proof (induction xs arbitrary: s)
  case (Cons x xs)
  then obtain t where "f x s = Some (0, t)" "P t" using assms(2) by blast
  with Cons.IH show ?case by simp
qed simp

text \<open>A loop over the numbers below \<open>n\<close>, with an invariant that mentions the number of rounds.\<close>

lemma for_r_counted:
  assumes "P 0 s" and "\<And>i s. i < n \<Longrightarrow> P i s \<Longrightarrow> \<exists>t. f (g i) s = Some (0, t) \<and> P (Suc i) t"
  shows "\<exists>t. for_r f (map g [0..<n]) s = Some (0, t) \<and> P n t"
proof -
  have "\<exists>t. for_r f (map g [k..<n]) s = Some (0, t) \<and> P n t" if "k \<le> n" "P k s" for k s
    using that
  proof (induction "n - k" arbitrary: k s)
    case (Suc m)
    then have k: "k < n" by linarith
    obtain t where "f (g k) s = Some (0, t)" "P (Suc k) t" using assms(2) [OF k Suc.prems(2)] by blast
    then show ?case using Suc.hyps(1) [of "Suc k" t] Suc.hyps(2) k by (simp add: upt_conv_Cons)
  qed simp
  from this [of 0 s] show ?thesis using assms(1) by simp
qed

text \<open>The address space is finite, so the blocks in use can be counted.\<close>

lemma card_dom_insert:
  fixes h h' :: "ptr \<Rightarrow> 'a option"
  assumes "dom h' \<subseteq> insert p (dom h)"
  shows "card (dom h') \<le> Suc (card (dom h))"
proof -
  have "card (dom h') \<le> card (insert p (dom h))" by (rule card_mono [OF _ assms]) simp
  then show ?thesis by (simp add: card_insert_if split: if_splits)
qed

text \<open>A small allocator, for concrete runs: the first of 31 addresses that holds nothing.\<close>

definition first_free :: "(ptr \<Rightarrow> 'a option) \<Rightarrow> ptr" where
  "first_free h = hd (filter (\<lambda>p. h p = None) (map of_nat [1..<32]) @ [0])"

lemma first_free_fresh:
  assumes "card (dom h) < 31"
  shows "first_free h \<noteq> 0" "h (first_free h) = None"
proof -
  let ?A = "map of_nat [1..<32] :: ptr list" and ?F = "filter (\<lambda>p. h p = None) (map of_nat [1..<32])"
  have A: "distinct ?A" "length ?A = 31" "0 \<notin> set ?A" by code_simp+
  have "\<not> set ?A \<subseteq> dom h"
  proof
    assume "set ?A \<subseteq> dom h"
    then have "card (set ?A) \<le> card (dom h)" by (intro card_mono) simp_all
    then show False using assms A(2) distinct_card [OF A(1)] by linarith
  qed
  then obtain p where "p \<in> set ?A" "p \<notin> dom h" by blast
  then have ne: "?F \<noteq> []" unfolding filter_empty_conv domIff by blast
  have "first_free h = hd ?F" using ne by (simp only: first_free_def hd_append if_False)
  then have "first_free h \<in> set ?F" using hd_in_set [OF ne] by argo
  then have "first_free h \<in> set ?A \<and> h (first_free h) = None" unfolding set_filter by blast
  then show "first_free h \<noteq> 0" "h (first_free h) = None" using A(3) by metis+
qed

lemma for_r_append:
  assumes "for_r f xs s = Some (0, t)"
  shows "for_r f (xs @ ys) s = for_r f ys t"
  using assms by (induction xs arbitrary: s) (auto split: option.splits if_splits)

subsection \<open>Characters as bytes\<close>

text \<open>A C \<open>char\<close> is a byte; string literals of the model are Isabelle strings.\<close>

definition byte :: "char \<Rightarrow> u8" where
  "byte c = of_char c"

definition char_of_byte :: "u8 \<Rightarrow> char" where
  "char_of_byte b = char_of (unat b)"

lemma unat_byte: "unat (byte c) = of_char c"
proof (rule of_nat_inverse)
  show "word_of_nat (of_char c) = byte c"
    by (simp add: byte_def of_nat_of_char)
  show "of_char c < (2 :: nat) ^ LENGTH(8)"
    using nat_of_char_less_256 [of c] by simp
qed

lemma char_of_byte_byte [simp]: "char_of_byte (byte c) = c"
  by (simp add: char_of_byte_def unat_byte)

lemma byte_char_of_byte [simp]: "byte (char_of_byte b) = b"
proof -
  have "unat (byte (char_of_byte b)) = unat b"
    by (simp add: unat_byte char_of_byte_def)
  then show ?thesis by (simp only: word_unat_eq_iff)
qed

lemma byte_inj [simp]: "byte c = byte d \<longleftrightarrow> c = d"
  by (metis char_of_byte_byte)

lemma byte_NUL [simp]: "byte (CHR 0x00) = 0"
  by (simp add: byte_def)

lemma byte_eq_0 [simp]: "byte c = 0 \<longleftrightarrow> c = CHR 0x00"
  by (metis byte_inj byte_NUL)

lemma char_of_byte_eq_NUL [simp]: "char_of_byte b = CHR 0x00 \<longleftrightarrow> b = 0"
  by (metis byte_NUL byte_char_of_byte char_of_byte_byte)

subsection \<open>Strings as the registries see them\<close>

text \<open>
  \<open>strcpy\<close> into an array field of a given capacity: with its terminator the string has to
  fit, or the copy writes past the array, which the model counts as a fault.
\<close>

definition strcpy_field :: "nat \<Rightarrow> string \<Rightarrow> string option" where
  "strcpy_field cap s = (if length s < cap then Some s else None)"

lemma strcpy_field_Some [fault_simps, simp]:
  "strcpy_field cap s = Some t \<longleftrightarrow> length s < cap \<and> t = s"
  by (auto simp: strcpy_field_def)

lemma strcpy_field_fits [simp]: "length s < cap \<Longrightarrow> strcpy_field cap s = Some s"
  by (simp add: strcpy_field_def)

lemma strcpy_field_overflow [fault_simps]: "cap \<le> length s \<Longrightarrow> strcpy_field cap s = None"
  by (simp add: strcpy_field_def)

text \<open>
  \<open>strncpy\<close> with the field's own size as the bound never overflows; it keeps the first
  \<open>cap\<close> characters.
\<close>

definition strncpy_field :: "nat \<Rightarrow> string \<Rightarrow> string" where
  "strncpy_field cap s = take cap s"

text \<open>A number printed with \<open>%d\<close>.\<close>

definition digit_char :: "nat \<Rightarrow> char" where
  "digit_char d = char_of (d + 48)"

fun dec_digits :: "nat \<Rightarrow> string" where
  "dec_digits n =
     (let high = (if 10 \<le> n then dec_digits (n div 10) else []) in high @ [digit_char (n mod 10)])"

declare dec_digits.simps [simp del]

definition sdec :: "u32 \<Rightarrow> string" where
  "sdec w = (if sint w < 0 then CHR 0x2D # dec_digits (nat (- sint w)) else dec_digits (unat w))"

end
