(* ===== verification/Slist.thy ===== *)
theory Slist
  imports Prelude
begin

text \<open>
  The intrusive singly linked lists of \<^verbatim>\<open>libraries/liblist/include/liblist.h\<close>. Every table of
  the kernel (devices, block devices, TTYs, buses, filesystems, mountpoints, modules,
  processes) is a list head and nodes linked through an embedded \<open>sle_next\<close> pointer.

  A heap maps the addresses of live nodes to a cell: the structure's own fields (\<open>cell_val\<close>)
  and its link. Address 0 is \<open>NULL\<close>. The macros are translated one by one; an access to an
  address with no live cell is a fault (\<open>None\<close>), and so is a loop that never ends.
  \<open>slist_rep h p xs\<close> says that the list whose head is \<open>p\<close> holds exactly the nodes \<open>xs\<close>,
  given as pairs of address and fields, in order; the lemmas give each macro's effect on \<open>xs\<close>.
\<close>

datatype 'a cell = Cell (cell_val: 'a) (sle_next: ptr)

type_synonym 'a heap = "ptr \<Rightarrow> 'a cell option"

subsection \<open>The macros\<close>

definition SLIST_NEXT :: "'a heap \<Rightarrow> ptr \<Rightarrow> ptr option" where
  "SLIST_NEXT h elem = map_option sle_next (h elem)"

definition SLIST_SET_NEXT :: "'a heap \<Rightarrow> ptr \<Rightarrow> ptr \<Rightarrow> 'a heap option" where
  "SLIST_SET_NEXT h elem q = (case h elem of
      None \<Rightarrow> None
    | Some c \<Rightarrow> Some (h(elem \<mapsto> Cell (cell_val c) q)))"

definition SLIST_EMPTY :: "ptr \<Rightarrow> bool" where
  "SLIST_EMPTY head \<longleftrightarrow> head = 0"

definition SLIST_INSERT_HEAD :: "'a heap \<Rightarrow> ptr \<Rightarrow> ptr \<Rightarrow> ('a heap \<times> ptr) option" where
  "SLIST_INSERT_HEAD h head elem = (case SLIST_SET_NEXT h elem head of
      None \<Rightarrow> None
    | Some h' \<Rightarrow> Some (h', elem))"

definition SLIST_REMOVE_HEAD :: "'a heap \<Rightarrow> ptr \<Rightarrow> ('a heap \<times> ptr) option" where
  "SLIST_REMOVE_HEAD h head = (case SLIST_NEXT h head of
      None \<Rightarrow> None
    | Some n \<Rightarrow> Some (h, n))"

text \<open>
  \<open>while (SLIST_NEXT(currlm) != elem) currlm = SLIST_NEXT(currlm)\<close>: the node before \<open>elem\<close>.
\<close>

partial_function (option) slist_pred :: "'a heap \<Rightarrow> ptr \<Rightarrow> ptr \<Rightarrow> ptr option" where
  "slist_pred h elem currlm = (case SLIST_NEXT h currlm of
      None \<Rightarrow> None
    | Some n \<Rightarrow> if n \<noteq> elem then slist_pred h elem n else Some currlm)"

definition SLIST_REMOVE :: "'a heap \<Rightarrow> ptr \<Rightarrow> ptr \<Rightarrow> ('a heap \<times> ptr) option" where
  "SLIST_REMOVE h head elem =
     (if head = elem then SLIST_REMOVE_HEAD h head
      else do {
        currlm \<leftarrow> slist_pred h elem head;
        n \<leftarrow> SLIST_NEXT h currlm;
        n2 \<leftarrow> SLIST_NEXT h n;
        h' \<leftarrow> SLIST_SET_NEXT h currlm n2;
        Some (h', head)
      })"

subsection \<open>The shapes of SLIST_FOREACH the code uses\<close>

text \<open>\<open>SLIST_FOREACH (var, head) { if (P(var)) return var; } return NULL;\<close>\<close>

partial_function (option) slist_find :: "'a heap \<Rightarrow> ('a \<Rightarrow> bool) \<Rightarrow> ptr \<Rightarrow> ptr option" where
  "slist_find h P p =
     (if p = 0 then Some 0
      else case h p of
        None \<Rightarrow> None
      | Some c \<Rightarrow> if P (cell_val c) then Some p else slist_find h P (sle_next c))"

text \<open>
  \<open>SLIST_FOREACH (var, head) { if (P(var)) return index; index++; } return -1;\<close>
\<close>

partial_function (option) slist_indexof ::
  "'a heap \<Rightarrow> ('a \<Rightarrow> bool) \<Rightarrow> ptr \<Rightarrow> u32 \<Rightarrow> u32 option" where
  "slist_indexof h P p index =
     (if p = 0 then Some (- 1)
      else case h p of
        None \<Rightarrow> None
      | Some c \<Rightarrow> if P (cell_val c) then Some index
          else slist_indexof h P (sle_next c) (index + 1))"

text \<open>
  \<open>SLIST_FOREACH (var, head) { if (index == i) return var; index++; } return NULL;\<close>
  The node found is not read.
\<close>

partial_function (option) slist_get :: "'a heap \<Rightarrow> ptr \<Rightarrow> u32 \<Rightarrow> u32 \<Rightarrow> ptr option" where
  "slist_get h p index i =
     (if p = 0 then Some 0
      else if index = i then Some p
      else case SLIST_NEXT h p of
        None \<Rightarrow> None
      | Some n \<Rightarrow> slist_get h n (index + 1) i)"

text \<open>\<open>SLIST_FOREACH (var, head) i++;\<close>\<close>

partial_function (option) slist_count :: "'a heap \<Rightarrow> ptr \<Rightarrow> u32 \<Rightarrow> u32 option" where
  "slist_count h p i =
     (if p = 0 then Some i
      else case SLIST_NEXT h p of
        None \<Rightarrow> None
      | Some n \<Rightarrow> slist_count h n (i + 1))"

text \<open>Reading a structure through a pointer, writing one of its fields, and releasing it.\<close>

definition deref :: "'a heap \<Rightarrow> ptr \<Rightarrow> 'a option" where
  "deref h p = map_option cell_val (h p)"

definition set_val :: "'a heap \<Rightarrow> ptr \<Rightarrow> ('a \<Rightarrow> 'a) \<Rightarrow> 'a heap option" where
  "set_val h p f = (case h p of
      None \<Rightarrow> None
    | Some c \<Rightarrow> Some (h(p \<mapsto> Cell (f (cell_val c)) (sle_next c))))"

definition heap_free :: "'a heap \<Rightarrow> ptr \<Rightarrow> 'a heap" where
  "heap_free h p = h(p := None)"

subsection \<open>What a list in the heap represents\<close>

primrec slist_seg :: "'a heap \<Rightarrow> ptr \<Rightarrow> (ptr \<times> 'a) list \<Rightarrow> ptr \<Rightarrow> bool" where
  "slist_seg h p [] q \<longleftrightarrow> p = q"
| "slist_seg h p (x # xs) q \<longleftrightarrow>
     p = fst x \<and> p \<noteq> 0 \<and> (\<exists>n. h p = Some (Cell (snd x) n) \<and> slist_seg h n xs q)"

abbreviation slist_rep :: "'a heap \<Rightarrow> ptr \<Rightarrow> (ptr \<times> 'a) list \<Rightarrow> bool" where
  "slist_rep h p xs \<equiv> slist_seg h p xs 0"

abbreviation addrs :: "(ptr \<times> 'a) list \<Rightarrow> ptr set" where
  "addrs xs \<equiv> fst ` set xs"

definition slist_del :: "ptr \<Rightarrow> (ptr \<times> 'a) list \<Rightarrow> (ptr \<times> 'a) list" where
  "slist_del e xs = filter (\<lambda>x. fst x \<noteq> e) xs"

definition slist_upd :: "ptr \<Rightarrow> ('a \<Rightarrow> 'a) \<Rightarrow> (ptr \<times> 'a) list \<Rightarrow> (ptr \<times> 'a) list" where
  "slist_upd e f xs = map (\<lambda>x. if fst x = e then (fst x, f (snd x)) else x) xs"

definition find_ptr :: "('a \<Rightarrow> bool) \<Rightarrow> (ptr \<times> 'a) list \<Rightarrow> ptr" where
  "find_ptr P xs = (case find (P \<circ> snd) xs of None \<Rightarrow> 0 | Some x \<Rightarrow> fst x)"

definition first_index :: "('a \<Rightarrow> bool) \<Rightarrow> (ptr \<times> 'a) list \<Rightarrow> nat" where
  "first_index P xs = length (takeWhile (\<lambda>x. \<not> P (snd x)) xs)"

lemma slist_seg_append:
  "slist_seg h p (xs @ ys) q \<longleftrightarrow> (\<exists>r. slist_seg h p xs r \<and> slist_seg h r ys q)"
  by (induction xs arbitrary: p) auto

lemma slist_seg_upd_other [simp]:
  "a \<notin> addrs xs \<Longrightarrow> slist_seg (h(a := c)) p xs q \<longleftrightarrow> slist_seg h p xs q"
  by (induction xs arbitrary: p) auto

lemma slist_seg_cong:
  "(\<And>a. a \<in> addrs xs \<Longrightarrow> h a = h' a) \<Longrightarrow> slist_seg h p xs q \<longleftrightarrow> slist_seg h' p xs q"
  by (induction xs arbitrary: p) auto

lemma slist_rep_det: "slist_rep h p xs \<Longrightarrow> slist_rep h p ys \<Longrightarrow> xs = ys"
proof (induction xs arbitrary: p ys)
  case Nil
  then show ?case by (cases ys) auto
next
  case (Cons x xs)
  then show ?case by (cases ys) (auto simp: prod_eq_iff)
qed

lemma slist_rep_nonzero: "slist_seg h p xs q \<Longrightarrow> 0 \<notin> addrs xs"
  by (induction xs arbitrary: p) auto

lemma slist_rep_live: "slist_seg h p xs q \<Longrightarrow> a \<in> addrs xs \<Longrightarrow> h a \<noteq> None"
  by (induction xs arbitrary: p) auto

lemma fresh_not_listed: "slist_seg h p xs q \<Longrightarrow> h a = None \<Longrightarrow> a \<notin> addrs xs"
  using slist_rep_live by blast

lemma slist_rep_deref: "slist_seg h p xs q \<Longrightarrow> (a, v) \<in> set xs \<Longrightarrow> deref h a = Some v"
  by (induction xs arbitrary: p) (auto simp: deref_def)

lemma slist_rep_suffix:
  "slist_rep h p xs \<Longrightarrow> (a, v) \<in> set xs \<Longrightarrow> \<exists>ys. slist_rep h a ((a, v) # ys) \<and> length ys < length xs"
proof (induction xs arbitrary: p)
  case Nil
  then show ?case by simp
next
  case (Cons x xs)
  then obtain n where n: "h (fst x) = Some (Cell (snd x) n)" "slist_rep h n xs" "fst x \<noteq> 0" by auto
  show ?case
  proof (cases "(a, v) = x")
    case True
    with n show ?thesis by (intro exI [of _ xs]) auto
  next
    case False
    with Cons.prems have "(a, v) \<in> set xs" by simp
    with Cons.IH [OF n(2)] obtain ys where "slist_rep h a ((a, v) # ys)" "length ys < length xs" by blast
    then show ?thesis by (intro exI [of _ ys]) simp
  qed
qed

lemma slist_rep_distinct: "slist_rep h p xs \<Longrightarrow> distinct (map fst xs)"
proof (induction xs arbitrary: p)
  case Nil
  then show ?case by simp
next
  case (Cons x xs)
  then obtain n where n: "h (fst x) = Some (Cell (snd x) n)" "slist_rep h n xs" "p = fst x" by auto
  have "fst x \<notin> addrs xs"
  proof
    assume "fst x \<in> addrs xs"
    then obtain v where "(fst x, v) \<in> set xs" by auto
    with n(2) obtain ys where ys: "slist_rep h (fst x) ((fst x, v) # ys)" "length ys < length xs"
      using slist_rep_suffix [OF n(2)] by blast
    have "x # xs = (fst x, v) # ys"
      using ys(1) n(3) by (intro slist_rep_det [OF Cons.prems]) (simp only:)
    then have "length xs = length ys" by simp
    with ys(2) show False by simp
  qed
  with Cons.IH [OF n(2)] show ?case by simp
qed

subsection \<open>The searches return what the list says\<close>

lemma slist_find_rep: "slist_rep h p xs \<Longrightarrow> slist_find h P p = Some (find_ptr P xs)"
proof (induction xs arbitrary: p)
  case Nil
  then show ?case by (simp add: slist_find.simps find_ptr_def)
next
  case (Cons x xs)
  then show ?case by (subst slist_find.simps) (auto simp: find_ptr_def)
qed

lemma find_ptr_Nil [simp]: "find_ptr P [] = 0"
  by (simp add: find_ptr_def)

lemma find_ptr_Cons [simp]: "find_ptr P (x # xs) = (if P (snd x) then fst x else find_ptr P xs)"
  by (simp add: find_ptr_def)

lemma find_ptr_0_iff: "0 \<notin> addrs xs \<Longrightarrow> find_ptr P xs = 0 \<longleftrightarrow> (\<forall>x \<in> set xs. \<not> P (snd x))"
proof (induction xs)
  case (Cons x xs)
  then have "fst x \<noteq> 0" by force
  with Cons show ?case by simp
qed simp

lemma find_ptr_neq_0: "0 \<notin> addrs xs \<Longrightarrow> x \<in> set xs \<Longrightarrow> P (snd x) \<Longrightarrow> find_ptr P xs \<noteq> 0"
  by (simp add: find_ptr_0_iff) blast

lemma find_ptr_eq_0: "0 \<notin> addrs xs \<Longrightarrow> \<forall>x \<in> set xs. \<not> P (snd x) \<Longrightarrow> find_ptr P xs = 0"
  by (simp add: find_ptr_0_iff)

lemma key_image: "k \<in> f ` snd ` S \<longleftrightarrow> (\<exists>x \<in> S. f (snd x) = k)"
  by auto

lemma find_ptr_in: "find_ptr P xs \<noteq> 0 \<Longrightarrow> \<exists>v. (find_ptr P xs, v) \<in> set xs \<and> P v"
proof (induction xs)
  case (Cons x xs)
  show ?case
  proof (cases "P (snd x)")
    case True
    then show ?thesis by (intro exI [of _ "snd x"]) simp
  next
    case False
    with Cons show ?thesis by auto
  qed
qed simp

lemma find_ptr_unique:
  assumes "(a, v) \<in> set xs" "P v"
    and "\<And>b w. (b, w) \<in> set xs \<Longrightarrow> P w \<Longrightarrow> b = a"
  shows "find_ptr P xs = a"
  using assms
proof (induction xs)
  case (Cons x xs)
  show ?case
  proof (cases "P (snd x)")
    case True
    then have "fst x = a" using Cons.prems(3) [of "fst x" "snd x"] by simp
    with True show ?thesis by simp
  next
    case False
    with Cons.prems(1,2) have "(a, v) \<in> set xs" by auto
    then have "find_ptr P xs = a"
      using Cons.prems(2)
    proof (rule Cons.IH)
      fix b w assume "(b, w) \<in> set xs" "P w"
      then show "b = a" by (intro Cons.prems(3)) simp_all
    qed
    with False show ?thesis by simp
  qed
qed simp

lemma slist_indexof_rep:
  "slist_rep h p xs \<Longrightarrow>
   slist_indexof h P p i = Some (if first_index P xs < length xs then i + of_nat (first_index P xs) else - 1)"
proof (induction xs arbitrary: p i)
  case Nil
  then show ?case by (simp add: slist_indexof.simps)
next
  case (Cons x xs)
  then show ?case by (subst slist_indexof.simps) (auto simp: first_index_def algebra_simps)
qed

lemma slist_get_rep_aux:
  assumes "slist_rep h p xs" "k + j < 4294967296"
  shows "slist_get h p (of_nat k) (of_nat (k + j)) = Some (if j < length xs then fst (xs ! j) else 0)"
  using assms
proof (induction xs arbitrary: p k j)
  case Nil
  then show ?case by (simp add: slist_get.simps)
next
  case (Cons x xs)
  then obtain n where n: "p = fst x" "p \<noteq> 0" "h p = Some (Cell (snd x) n)" "slist_rep h n xs" by auto
  show ?case
  proof (cases j)
    case 0
    with n show ?thesis by (subst slist_get.simps) simp
  next
    case (Suc j')
    have ne: "(of_nat k :: u32) \<noteq> of_nat (k + j)"
      using Cons.prems Suc by (subst of_nat_u32_inj) auto
    have "slist_get h n (of_nat (Suc k)) (of_nat (Suc k + j')) =
      Some (if j' < length xs then fst (xs ! j') else 0)"
      using Cons.prems Suc n by (intro Cons.IH) auto
    with n ne Suc show ?thesis
      by (subst slist_get.simps) (simp add: SLIST_NEXT_def add.commute)
  qed
qed

lemma slist_get_rep:
  assumes "slist_rep h p xs"
  shows "slist_get h p 0 i = Some (if unat i < length xs then fst (xs ! unat i) else 0)"
  using slist_get_rep_aux [OF assms(1), of 0 "unat i"] by simp

lemma slist_count_rep: "slist_rep h p xs \<Longrightarrow> slist_count h p i = Some (i + of_nat (length xs))"
proof (induction xs arbitrary: p i)
  case Nil
  then show ?case by (simp add: slist_count.simps)
next
  case (Cons x xs)
  then obtain n where n: "p \<noteq> 0" "h p = Some (Cell (snd x) n)" "slist_rep h n xs" by auto
  then have "slist_count h p i = slist_count h n (i + 1)"
    by (subst slist_count.simps) (simp add: SLIST_NEXT_def)
  with Cons.IH [OF n(3), of "i + 1"] show ?case by simp
qed

subsection \<open>The macros that change a list\<close>

lemma SLIST_INSERT_HEAD_rep:
  assumes "slist_rep h p xs" "e \<noteq> 0" "e \<notin> addrs xs"
  shows "SLIST_INSERT_HEAD (h(e \<mapsto> Cell v n)) p e = Some (h(e \<mapsto> Cell v p), e)"
    and "slist_rep (h(e \<mapsto> Cell v p)) e ((e, v) # xs)"
  using assms by (simp_all add: SLIST_INSERT_HEAD_def SLIST_SET_NEXT_def)

lemma slist_pred_rep:
  assumes "slist_rep h p (xs @ (c, v) # (e, w) # ys)"
  shows "slist_pred h e p = Some c"
proof -
  have "distinct (map fst (xs @ (c, v) # (e, w) # ys))"
    using assms by (rule slist_rep_distinct)
  then have "e \<notin> addrs xs" by auto
  with assms show ?thesis
  proof (induction xs arbitrary: p)
    case Nil
    then show ?case by (subst slist_pred.simps) (auto simp: SLIST_NEXT_def)
  next
    case (Cons x xs)
    then obtain n where n: "h p = Some (Cell (snd x) n)" "slist_rep h n (xs @ (c, v) # (e, w) # ys)"
      by auto
    have "n \<noteq> e"
    proof
      assume "n = e"
      have "e \<noteq> c" using slist_rep_distinct [OF n(2)] by auto
      with n(2) \<open>n = e\<close> Cons.prems(2) show False by (cases xs) auto
    qed
    with Cons.IH [OF n(2)] Cons.prems(2) n(1) show ?case
      by (subst slist_pred.simps) (simp add: SLIST_NEXT_def)
  qed
qed

lemma slist_del_absent: "e \<notin> addrs xs \<Longrightarrow> slist_del e xs = xs"
  unfolding slist_del_def by (intro filter_True) force

lemma slist_del_split:
  assumes "distinct (map fst (xs @ (e, w) # ys))"
  shows "slist_del e (xs @ (e, w) # ys) = xs @ ys"
proof -
  have "e \<notin> addrs xs" "e \<notin> addrs ys" using assms by auto
  then have "slist_del e xs = xs" "slist_del e ys = ys"
    by (simp_all add: slist_del_absent)
  then show ?thesis by (simp add: slist_del_def)
qed

text \<open>
  Removing a listed node unlinks it and leaves every other node, its fields and the
  other lists of the heap alone.
\<close>

lemma SLIST_REMOVE_rep:
  assumes rep: "slist_rep h p xs" and e: "e \<in> addrs xs"
  obtains h' p' where "SLIST_REMOVE h p e = Some (h', p')" "slist_rep h' p' (slist_del e xs)"
    "\<And>a. a \<notin> addrs xs \<Longrightarrow> h' a = h a" "\<And>a. h' a = None \<longleftrightarrow> h a = None" "h' e = h e"
    "\<And>a. deref h' a = deref h a"
proof -
  obtain as w bs where split: "xs = as @ (e, w) # bs"
    using e by (metis (no_types, lifting) image_iff prod.collapse split_list)
  have dist: "distinct (map fst (as @ (e, w) # bs))"
    using slist_rep_distinct [OF rep] by (simp add: split)
  have del: "slist_del e xs = as @ bs"
    using slist_del_split [OF dist] by (simp add: split)
  show ?thesis
  proof (cases as rule: rev_cases)
    case Nil
    with rep split obtain n where "h e = Some (Cell w n)" "slist_rep h n bs" "p = e" by auto
    with Nil del show ?thesis
      by (intro that [of h n]) (simp_all add: SLIST_REMOVE_def SLIST_REMOVE_HEAD_def SLIST_NEXT_def)
  next
    case (snoc as' c)
    obtain a v where c: "c = (a, v)" by force
    from rep split snoc c have rep': "slist_rep h p (as' @ (a, v) # (e, w) # bs)" by simp
    then obtain n2 where n2: "slist_seg h p as' a" "a \<noteq> 0" "h a = Some (Cell v e)" "e \<noteq> 0"
      "h e = Some (Cell w n2)" "slist_rep h n2 bs"
      by (auto simp: slist_seg_append)
    have ae: "a \<noteq> e" "a \<notin> addrs as'" "a \<notin> addrs bs" "e \<notin> addrs as'"
      using dist snoc c by auto
    have "p \<noteq> e"
    proof
      assume "p = e"
      with rep split snoc c ae show False by (cases as') auto
    qed
    then have "SLIST_REMOVE h p e = Some (h(a \<mapsto> Cell v n2), p)"
      using slist_pred_rep [OF rep'] n2
      by (simp add: SLIST_REMOVE_def SLIST_NEXT_def SLIST_SET_NEXT_def)
    moreover have "slist_rep (h(a \<mapsto> Cell v n2)) p (slist_del e xs)"
      using n2 ae del snoc c by (simp add: slist_seg_append)
    ultimately show ?thesis
      using n2 ae split snoc c
      by (intro that [of "h(a \<mapsto> Cell v n2)" p]) (auto simp: deref_def)
  qed
qed

lemma set_val_rep:
  assumes "slist_rep h p xs" "e \<in> addrs xs"
  obtains h' where "set_val h e f = Some h'" "slist_rep h' p (slist_upd e f xs)"
    "\<And>a. a \<noteq> e \<Longrightarrow> h' a = h a"
proof -
  obtain c where c: "h e = Some c"
    using slist_rep_live [OF assms] by blast
  have "slist_rep (h(e \<mapsto> Cell (f (cell_val c)) (sle_next c))) p (slist_upd e f xs)"
    using assms(1) c slist_rep_distinct [OF assms(1)]
  proof (induction xs arbitrary: p)
    case Nil
    then show ?case by (simp add: slist_upd_def)
  next
    case (Cons x xs)
    have "slist_upd e f xs = xs" if "e \<notin> addrs xs"
      unfolding slist_upd_def using that by (intro map_idI) force
    with Cons show ?case by (auto simp: slist_upd_def)
  qed
  with c show ?thesis
    by (intro that [of "h(e \<mapsto> Cell (f (cell_val c)) (sle_next c))"]) (auto simp: set_val_def)
qed

lemma heap_free_rep:
  "a \<notin> addrs xs \<Longrightarrow> slist_seg (heap_free h a) p xs q \<longleftrightarrow> slist_seg h p xs q"
  unfolding heap_free_def by (rule slist_seg_cong) auto

lemma set_slist_del: "set (slist_del e xs) = {x \<in> set xs. fst x \<noteq> e}"
  by (simp add: slist_del_def)

lemma distinct_map_slist_del: "distinct (map f xs) \<Longrightarrow> distinct (map f (slist_del e xs))"
  unfolding slist_del_def by (rule distinct_map_filter)

lemma addrs_slist_del [simp]: "addrs (slist_del e xs) = addrs xs - {e}"
  by (auto simp: slist_del_def)

lemma length_slist_upd [simp]: "length (slist_upd e f xs) = length xs"
  by (simp add: slist_upd_def)

lemma map_fst_slist_upd [simp]: "map fst (slist_upd e f xs) = map fst xs"
  by (simp add: slist_upd_def)

lemma addrs_slist_upd [simp]: "addrs (slist_upd e f xs) = addrs xs"
  by (metis map_fst_slist_upd list.set_map)

lemma length_slist_del:
  "distinct (map fst xs) \<Longrightarrow> e \<in> addrs xs \<Longrightarrow> length (slist_del e xs) = length xs - 1"
proof (induction xs)
  case (Cons x xs)
  show ?case
  proof (cases "fst x = e")
    case True
    with Cons.prems have "e \<notin> addrs xs" by auto
    then have "slist_del e xs = xs" by (rule slist_del_absent)
    with True show ?thesis by (simp add: slist_del_def)
  next
    case False
    with Cons have "e \<in> addrs xs" by auto
    moreover from this have "0 < length xs" by auto
    ultimately show ?thesis using Cons False by (simp add: slist_del_def)
  qed
qed simp

text \<open>
  Addresses are 32-bit and not null, so a list never has \<open>2 ^ 32\<close> nodes: a 32-bit counter over
  it does not wrap, and a position is never the \<open>(size_t)-1\<close> that reports a failed search.
\<close>

lemma slist_rep_length: "slist_rep h p xs \<Longrightarrow> length xs < 4294967296"
proof -
  assume rep: "slist_rep h p xs"
  have "length xs = card (addrs xs)"
    using distinct_card [OF slist_rep_distinct [OF rep]] by simp
  also have "\<dots> = card (unat ` addrs xs)"
    by (rule card_image [symmetric]) (simp add: inj_on_def word_unat_eq_iff)
  also have "\<dots> \<le> card {1 ..< 4294967296 :: nat}"
  proof (rule card_mono)
    show "unat ` addrs xs \<subseteq> {1 ..< 4294967296}"
    proof (rule image_subsetI)
      fix a assume "a \<in> addrs xs"
      then have "a \<noteq> 0" using slist_rep_nonzero [OF rep] by metis
      then show "unat a \<in> {1 ..< 4294967296}" by (simp add: Suc_le_eq unat_gt_0)
    qed
  qed simp
  finally show ?thesis by simp
qed

lemma first_index_neq_minus_1:
  "slist_rep h p xs \<Longrightarrow> first_index P xs < length xs \<Longrightarrow> (of_nat (first_index P xs) :: u32) \<noteq> - 1"
proof
  assume rep: "slist_rep h p xs" and lt: "first_index P xs < length xs"
    and eq: "(of_nat (first_index P xs) :: u32) = - 1"
  have "unat (of_nat (first_index P xs) :: u32) = first_index P xs"
    using slist_rep_length [OF rep] lt by (intro unat_of_nat_small) simp
  moreover have "unat (- 1 :: u32) = 4294967295" by (simp add: unsigned_minus_1_eq_mask mask_eq_exp_minus_1)
  ultimately show False using eq slist_rep_length [OF rep] lt by simp
qed

lemma first_index_less_iff: "first_index P xs < length xs \<longleftrightarrow> (\<exists>x \<in> set xs. P (snd x))"
  by (induction xs) (auto simp: first_index_def)

lemma first_index_listed: "(p, v) \<in> set xs \<Longrightarrow> P v \<Longrightarrow> first_index P xs < length xs"
  unfolding first_index_less_iff by (rule bexI [of _ "(p, v)"]) simp_all

lemma first_index_nth: "first_index P xs < length xs \<Longrightarrow> P (snd (xs ! first_index P xs))"
  unfolding first_index_def using nth_length_takeWhile by blast

lemma first_index_before: "k < first_index P xs \<Longrightarrow> \<not> P (snd (xs ! k))"
proof -
  let ?ys = "takeWhile (\<lambda>x. \<not> P (snd x)) xs"
  assume "k < first_index P xs"
  then have k: "k < length ?ys" by (simp add: first_index_def)
  then have "?ys ! k \<in> set ?ys" by (rule nth_mem)
  then have "\<not> P (snd (?ys ! k))" by (auto dest: set_takeWhileD)
  then show ?thesis using takeWhile_nth [OF k] by simp
qed

lemma find_ptr_nth: "first_index P xs < length xs \<Longrightarrow> find_ptr P xs = fst (xs ! first_index P xs)"
  by (induction xs) (auto simp: first_index_def)

text \<open>The links of the list, by position, and element-wise updates.\<close>

lemma SLIST_NEXT_nth:
  "slist_rep h p xs \<Longrightarrow> i < length xs \<Longrightarrow>
   SLIST_NEXT h (fst (xs ! i)) = Some (if Suc i < length xs then fst (xs ! Suc i) else 0)"
proof (induction xs arbitrary: p i)
  case (Cons x xs)
  then obtain n where n: "h (fst x) = Some (Cell (snd x) n)" "slist_rep h n xs" by auto
  show ?case
  proof (cases i)
    case 0
    have "n = (if xs = [] then 0 else fst (xs ! 0))" using n(2) by (cases xs) auto
    then show ?thesis using n(1) 0 by (simp add: SLIST_NEXT_def)
  next
    case (Suc j)
    then show ?thesis using Cons.IH [OF n(2), of j] Cons.prems(2) by simp
  qed
qed simp

lemma slist_head_nth: "slist_rep h p xs \<Longrightarrow> p = (if xs = [] then 0 else fst (xs ! 0))"
  by (cases xs) auto

lemma nth_slist_upd:
  "i < length xs \<Longrightarrow> slist_upd e f xs ! i = (if fst (xs ! i) = e then (fst (xs ! i), f (snd (xs ! i))) else xs ! i)"
  by (simp add: slist_upd_def)

lemma ball_slist_upd:
  "(\<And>x. x \<in> set xs \<Longrightarrow> P (snd x) \<and> P (f (snd x))) \<Longrightarrow> \<forall>x \<in> set (slist_upd e f xs). P (snd x)"
  by (auto simp: slist_upd_def)

lemma slist_upd_mem: "(p, d) \<in> set xs \<Longrightarrow> (p, f d) \<in> set (slist_upd p f xs)"
  unfolding slist_upd_def set_map by (rule image_eqI [of _ _ "(p, d)"]) simp_all

lemma map_snd_slist_upd:
  "(\<And>v. g (f v) = g v) \<Longrightarrow> map (g \<circ> snd) (slist_upd e f xs) = map (g \<circ> snd) xs"
  by (simp add: slist_upd_def)

lemma set_val_Some: "h e = Some c \<Longrightarrow> set_val h e f = Some (h(e \<mapsto> Cell (f (cell_val c)) (sle_next c)))"
  by (simp add: set_val_def)

text \<open>Removing an element whose memory is gone reads its link, and faults.\<close>

lemma slist_pred_next: "slist_pred h e p = Some c \<Longrightarrow> SLIST_NEXT h c = Some e"
proof -
  assume "slist_pred h e p = Some c"
  then show ?thesis
    by (rule slist_pred.raw_induct [rotated]) (auto split: option.splits if_splits)
qed

lemma SLIST_REMOVE_freed: "h e = None \<Longrightarrow> SLIST_REMOVE h p e = None"
  using slist_pred_next [of h e p]
  by (cases "slist_pred h e p") (auto simp: SLIST_REMOVE_def SLIST_REMOVE_HEAD_def SLIST_NEXT_def)

subsection \<open>A heap that holds a given list\<close>

definition first_ptr :: "(ptr \<times> 'a) list \<Rightarrow> ptr" where
  "first_ptr xs = (case xs of [] \<Rightarrow> 0 | x # _ \<Rightarrow> fst x)"

lemma first_ptr_simps [simp]: "first_ptr [] = 0" "first_ptr (x # xs) = fst x"
  by (simp_all add: first_ptr_def)

primrec heap_of :: "(ptr \<times> 'a) list \<Rightarrow> 'a heap" where
  "heap_of [] = Map.empty"
| "heap_of (x # xs) = (heap_of xs)(fst x \<mapsto> Cell (snd x) (first_ptr xs))"

lemma heap_of_None: "heap_of xs a = None \<longleftrightarrow> a \<notin> addrs xs"
  by (induction xs) auto

lemma slist_rep_heap_of: "distinct (map fst xs) \<Longrightarrow> 0 \<notin> addrs xs \<Longrightarrow> slist_rep (heap_of xs) (first_ptr xs) xs"
  by (induction xs) auto

lemma deref_heap_of: "distinct (map fst xs) \<Longrightarrow> (a, v) \<in> set xs \<Longrightarrow> deref (heap_of xs) a = Some v"
proof (induction xs)
  case (Cons x xs)
  then show ?case by (cases x) (auto simp: deref_def image_iff)
qed simp

end
