(* ===== verification/Fs_Types.thy ===== *)
theory Fs_Types
  imports Slist
begin

text \<open>
  The structures of \<^verbatim>\<open>newland/include/newland/fs.h\<close> that drivers and the filesystem layer
  share: file nodes, their operation tables and open file descriptors. A function pointer is
  the code address it holds, 0 for \<open>NULL\<close>; a pointer to a structure is its address.
\<close>

definition FS_NODE_FILE :: u32 where "FS_NODE_FILE = 1"
definition FS_NODE_DIR :: u32 where "FS_NODE_DIR = 2"
definition FS_NODE_SOCK :: u32 where "FS_NODE_SOCK = 3"
definition FS_NODE_LINK :: u32 where "FS_NODE_LINK = 4"
definition FS_NODE_BLK :: u32 where "FS_NODE_BLK = 5"
definition FS_NODE_CHR :: u32 where "FS_NODE_CHR = 6"

definition FS_NODE_TYPE_SET :: "u32 \<Rightarrow> u32 \<Rightarrow> u32" where
  "FS_NODE_TYPE_SET mode type = mode OR push_bit (unat type) 6"

definition FS_NODE_TYPE_GET :: "u32 \<Rightarrow> u32" where
  "FS_NODE_TYPE_GET mode = drop_bit 6 mode"

lemmas FS_NODE_defs = FS_NODE_FILE_def FS_NODE_DIR_def FS_NODE_SOCK_def FS_NODE_LINK_def
  FS_NODE_BLK_def FS_NODE_CHR_def

record fd =
  fd_node :: ptr
  fd_gid :: u32
  fd_uid :: u32
  fd_pid :: u32
  fd_offset :: u32
  fd_mode :: u32

record fs_node_opts =
  op_open :: u32
  op_close :: u32
  op_get_child :: u32
  op_mknode :: u32
  op_rmnode :: u32
  op_read :: u32
  op_write :: u32
  op_ioctl :: u32

text \<open>An operation table with every pointer \<open>NULL\<close>, as a partial initialiser leaves the rest.\<close>

definition no_opts :: fs_node_opts where
  "no_opts = \<lparr>op_open = 0, op_close = 0, op_get_child = 0, op_mknode = 0, op_rmnode = 0,
     op_read = 0, op_write = 0, op_ioctl = 0\<rparr>"

record fs_node =
  node_name :: string
  node_dev :: u32
  node_ino :: u32
  node_mode :: u32
  node_nlink :: u32
  node_uid :: u32
  node_gid :: u32
  node_rdev :: u32
  node_size :: u32
  node_blksize :: u32
  node_blkcnt :: u32
  node_atime :: u32
  node_mtime :: u32
  node_ctime :: u32
  node_opts :: fs_node_opts
  node_impl :: ptr

lemma FS_NODE_TYPE_GET_SET_file:
  "FS_NODE_TYPE_GET (FS_NODE_TYPE_SET 0 FS_NODE_FILE) = 0"
  "FS_NODE_TYPE_GET (FS_NODE_TYPE_SET 0 FS_NODE_DIR) = 0"
  "FS_NODE_TYPE_GET (FS_NODE_TYPE_SET 0 FS_NODE_LINK) = 1"
  by (simp_all add: FS_NODE_TYPE_GET_def FS_NODE_TYPE_SET_def FS_NODE_defs)

end
