(* ===== verification/Registry.thy ===== *)
theory Registry
  imports Slist
begin

text \<open>
  The contract the kernel's tables share. Devices, TTYs, block devices, filesystems, bus
  devices and modules are each a list of entries with a key (a name, or a device number), a
  lookup that returns the entry's address or \<open>NULL\<close>, a registration that refuses a key in
  use, and a counter. \<open>rep s xs\<close> says that state \<open>s\<close> holds the entries \<open>xs\<close>, newest
  first; \<open>fresh s p\<close> that \<open>kmalloc\<close> may answer \<open>p\<close> in state \<open>s\<close>; \<open>adm s e\<close> that
  the entry satisfies what else the table's registration asks of it.
\<close>

locale key_table =
  fixes rep :: "'s \<Rightarrow> (ptr \<times> 'e) list \<Rightarrow> bool"
    and fresh :: "'s \<Rightarrow> ptr \<Rightarrow> bool"
    and adm :: "'s \<Rightarrow> 'e \<Rightarrow> bool"
    and key :: "'e \<Rightarrow> 'k"
    and lookup :: "'s \<Rightarrow> 'k \<Rightarrow> ptr option"
    and register :: "'s \<Rightarrow> ptr \<Rightarrow> 'e \<Rightarrow> (u32 \<times> 's) option"
    and count :: "'s \<Rightarrow> u32"
  assumes rep_addrs: "rep s xs \<Longrightarrow> 0 \<notin> addrs xs"
    and rep_distinct: "rep s xs \<Longrightarrow> distinct (map fst xs)"
    and rep_keys: "rep s xs \<Longrightarrow> distinct (map (key \<circ> snd) xs)"
    and count_rep: "rep s xs \<Longrightarrow> count s = of_nat (length xs)"
    and lookup_rep: "rep s xs \<Longrightarrow> lookup s k = Some (find_ptr (\<lambda>e. key e = k) xs)"
    and register_dup: "rep s xs \<Longrightarrow> adm s e \<Longrightarrow> key e \<in> key ` snd ` set xs \<Longrightarrow>
      register s p e = Some (err EEXIST, s)"
    and register_oom: "rep s xs \<Longrightarrow> adm s e \<Longrightarrow> key e \<notin> key ` snd ` set xs \<Longrightarrow>
      register s 0 e = Some (err ENOMEM, s)"
    and register_new: "rep s xs \<Longrightarrow> adm s e \<Longrightarrow> key e \<notin> key ` snd ` set xs \<Longrightarrow> fresh s p \<Longrightarrow>
      \<exists>s'. register s p e = Some (0, s') \<and> rep s' ((p, e) # xs)"
begin

lemma lookup_listed:
  assumes "rep s xs" "(p, e) \<in> set xs"
  shows "lookup s (key e) = Some p"
proof -
  have "find_ptr (\<lambda>e'. key e' = key e) xs = p"
  proof (rule find_ptr_unique [OF assms(2) refl])
    fix b w assume bw: "(b, w) \<in> set xs" "key w = key e"
    have inj: "inj_on (key \<circ> snd) (set xs)"
      using rep_keys [OF assms(1)] by (simp add: distinct_map)
    have "(b, w) = (p, e)"
      by (rule inj_onD [OF inj]) (use bw assms(2) in simp_all)
    then show "b = p" by simp
  qed
  then show ?thesis using lookup_rep [OF assms(1)] by simp
qed

lemma lookup_unlisted:
  assumes "rep s xs" "k \<notin> key ` snd ` set xs"
  shows "lookup s k = Some 0"
  using lookup_rep [OF assms(1)] assms(2)
    find_ptr_0_iff [OF rep_addrs [OF assms(1)], of "\<lambda>e. key e = k"]
  by auto

lemma lookup_null_iff:
  assumes "rep s xs"
  shows "lookup s k = Some 0 \<longleftrightarrow> k \<notin> key ` snd ` set xs"
proof
  assume "lookup s k = Some 0"
  then have "find_ptr (\<lambda>e. key e = k) xs = 0" using lookup_rep [OF assms] by simp
  then show "k \<notin> key ` snd ` set xs"
    using find_ptr_0_iff [OF rep_addrs [OF assms], of "\<lambda>e. key e = k"] by auto
qed (rule lookup_unlisted [OF assms])

text \<open>
  A successful registration: the new entry is found under its key, every other key is
  answered as before, the counter grows by one, and registering the key again is refused
  without an effect.
\<close>

lemma register_found:
  assumes "rep s xs" "adm s e" "key e \<notin> key ` snd ` set xs" "fresh s p"
  obtains s' where "register s p e = Some (0, s')" "rep s' ((p, e) # xs)"
    "lookup s' (key e) = Some p" "\<And>k. k \<noteq> key e \<Longrightarrow> lookup s' k = lookup s k"
    "count s' = count s + 1"
    "\<And>e' q. key e' = key e \<Longrightarrow> adm s' e' \<Longrightarrow> register s' q e' = Some (err EEXIST, s')"
proof -
  obtain s' where s': "register s p e = Some (0, s')" "rep s' ((p, e) # xs)"
    using register_new [OF assms] by blast
  show ?thesis
  proof (rule that [OF s'])
    show "lookup s' (key e) = Some p" using lookup_listed [OF s'(2)] by simp
    show "lookup s' k = lookup s k" if "k \<noteq> key e" for k
      using that by (simp add: lookup_rep [OF s'(2)] lookup_rep [OF assms(1)])
    show "count s' = count s + 1"
      by (simp add: count_rep [OF s'(2)] count_rep [OF assms(1)] add.commute)
    show "register s' q e' = Some (err EEXIST, s')" if "key e' = key e" "adm s' e'" for e' q
      using that by (intro register_dup [OF s'(2)]) auto
  qed
qed

end

text \<open>A table whose entries can also be withdrawn by key; \<open>missing\<close> is its error for an absent key.\<close>

locale registry = key_table rep fresh adm key lookup register count
  for rep :: "'s \<Rightarrow> (ptr \<times> 'e) list \<Rightarrow> bool"
    and fresh adm and key :: "'e \<Rightarrow> 'k" and lookup register count +
  fixes unregister :: "'s \<Rightarrow> 'k \<Rightarrow> (u32 \<times> 's) option"
    and missing :: errno
  assumes unregister_absent: "rep s xs \<Longrightarrow> k \<notin> key ` snd ` set xs \<Longrightarrow>
      unregister s k = Some (err missing, s)"
    and unregister_present: "rep s xs \<Longrightarrow> (p, e) \<in> set xs \<Longrightarrow>
      \<exists>s'. unregister s (key e) = Some (0, s') \<and> rep s' (slist_del p xs)"
begin

text \<open>Withdrawing an entry takes away its key and no other, and frees it for reuse.\<close>

lemma unregister_forgets:
  assumes "rep s xs" "(p, e) \<in> set xs"
  obtains s' where "unregister s (key e) = Some (0, s')" "rep s' (slist_del p xs)"
    "lookup s' (key e) = Some 0" "\<And>k. k \<noteq> key e \<Longrightarrow> lookup s' k = lookup s k"
    "unregister s' (key e) = Some (err missing, s')"
proof -
  obtain s' where s': "unregister s (key e) = Some (0, s')" "rep s' (slist_del p xs)"
    using unregister_present [OF assms] by blast
  have keys: "inj_on (key \<circ> snd) (set xs)"
    using rep_keys [OF assms(1)] by (simp add: distinct_map)
  have gone: "key e \<notin> key ` snd ` set (slist_del p xs)"
  proof
    assume "key e \<in> key ` snd ` set (slist_del p xs)"
    then obtain x where x: "x \<in> set xs" "fst x \<noteq> p" "key (snd x) = key e"
      by (auto simp: slist_del_def)
    then have "x = (p, e)" using assms(2) by (intro inj_onD [OF keys]) simp_all
    with x(2) show False by simp
  qed
  show ?thesis
  proof (rule that [OF s' lookup_unlisted [OF s'(2) gone] _ unregister_absent [OF s'(2) gone]])
    fix k assume k: "k \<noteq> key e"
    have "key (snd x) \<noteq> k" if "x \<in> set xs" "fst x = p" for x
    proof -
      have "inj_on fst (set xs)" using rep_distinct [OF assms(1)] by (simp add: distinct_map)
      then have "x = (p, e)" using that assms(2) by (auto dest: inj_onD [of fst "set xs" x "(p, e)"])
      with k show ?thesis by simp
    qed
    then have "find_ptr (\<lambda>e. key e = k) (slist_del p xs) = find_ptr (\<lambda>e. key e = k) xs"
      by (induction xs) (auto simp: slist_del_def)
    then show "lookup s' k = lookup s k"
      by (simp add: lookup_rep [OF s'(2)] lookup_rep [OF assms(1)])
  qed
qed

text \<open>Registering and withdrawing are inverse: the table is back to the entries it had.\<close>

lemma register_unregister:
  assumes "rep s xs" "adm s e" "key e \<notin> key ` snd ` set xs" "fresh s p"
  obtains s' s'' where "register s p e = Some (0, s')" "unregister s' (key e) = Some (0, s'')"
    "rep s'' xs" "count s'' = count s"
proof -
  obtain s' where s': "register s p e = Some (0, s')" "rep s' ((p, e) # xs)"
    using register_new [OF assms] by blast
  obtain s'' where s'': "unregister s' (key e) = Some (0, s'')" "rep s'' (slist_del p ((p, e) # xs))"
    using unregister_present [OF s'(2), of p e] by auto
  have "p \<notin> addrs xs" using rep_distinct [OF s'(2)] by simp
  then have "slist_del p ((p, e) # xs) = xs"
    using slist_del_absent [of p xs] by (simp add: slist_del_def)
  with s'' have again: "rep s'' xs" by simp
  show ?thesis
    by (rule that [OF s'(1) s''(1) again]) (simp add: count_rep [OF assms(1)] count_rep [OF again])
qed

end

end
