(* ===== verification/Dev.thy ===== *)
theory Dev
  imports Fs_Types Registry
begin

text \<open>
  The device registry, \<^verbatim>\<open>newland/src/dev.c\<close> and \<^verbatim>\<open>newland/include/newland/dev.h\<close>.

  The state holds the live \<open>device_t\<close> structures, the head of the list and the counter. It
  extends \<open>klog_state\<close>, the record of the kernel's \<open>printk\<close> calls, and is extended in turn by
  the components that register devices, so every function is over \<open>'z dev_state_scheme\<close>. The
  address \<open>kmalloc\<close> returns is an argument of the operation that calls it (0 when it fails).
  Names are compared with \<open>strcmp\<close>, which is equality of the strings they hold. The registry
  satisfies the contract of \<open>Registry\<close> twice: keyed by name and keyed by device number.
\<close>

record klog_state =
  klog_calls :: "(string \<times> string) list"

text \<open>A \<open>printk\<close> call is recorded with its format and the string it prints.\<close>

definition printk_s :: "string \<Rightarrow> string \<Rightarrow> 'z klog_state_scheme \<Rightarrow> 'z klog_state_scheme" where
  "printk_s fmt arg s = s\<lparr>klog_calls := klog_calls s @ [(fmt, arg)]\<rparr>"

text \<open>The level prefix of a message: \<open>KLOG_SOH\<close> and the digit of the level.\<close>

definition KLOG_SOH :: string where
  "KLOG_SOH = [CHR 0x01]"

definition KLOG_INFO :: string where
  "KLOG_INFO = KLOG_SOH @ ''1''"

definition DEV_MAJOR :: "u32 \<Rightarrow> u32" where
  "DEV_MAJOR dev = drop_bit 8 dev"

definition DEV_MINOR :: "u32 \<Rightarrow> u32" where
  "DEV_MINOR dev = dev AND 0xFF"

definition MKDEV :: "u32 \<Rightarrow> u32 \<Rightarrow> u32" where
  "MKDEV ma mi = push_bit 8 ma OR mi"

definition DEVMAJ_BLOCK :: u32 where "DEVMAJ_BLOCK = 1"
definition DEVMAJ_TTY :: u32 where "DEVMAJ_TTY = 2"
definition DEVMAJ_MBMOD :: u32 where "DEVMAJ_MBMOD = 3"

lemmas DEVMAJ_defs = DEVMAJ_BLOCK_def DEVMAJ_TTY_def DEVMAJ_MBMOD_def

record device =
  device_dev :: u32
  device_size :: u32
  device_name :: string
  device_opts :: fs_node_opts

record dev_state = klog_state +
  dev_heap :: "device heap"
  devices :: ptr
  dev_count :: u32

subsection \<open>Operations\<close>

definition device_count :: "'z dev_state_scheme \<Rightarrow> u32" where
  "device_count s = dev_count s"

definition device_indexof :: "'z dev_state_scheme \<Rightarrow> ptr \<Rightarrow> u32 option" where
  "device_indexof s device =
     (if devices s = 0 then Some (- 1)
      else do {
        d \<leftarrow> deref (dev_heap s) device;
        slist_indexof (dev_heap s) (\<lambda>dev. device_name dev = device_name d) (devices s) 0
      })"

definition device_get :: "'z dev_state_scheme \<Rightarrow> u32 \<Rightarrow> ptr option" where
  "device_get s i = slist_get (dev_heap s) (devices s) 0 i"

definition device_fromdev :: "'z dev_state_scheme \<Rightarrow> u32 \<Rightarrow> ptr option" where
  "device_fromdev s dev = slist_find (dev_heap s) (\<lambda>d. device_dev d = dev) (devices s)"

definition device_fromname :: "'z dev_state_scheme \<Rightarrow> string \<Rightarrow> ptr option" where
  "device_fromname s name =
     (if length name > NAME_MAX then Some 0
      else slist_find (dev_heap s) (\<lambda>d. device_name d = name) (devices s))"

definition register_device ::
  "'z dev_state_scheme \<Rightarrow> ptr \<Rightarrow> u32 \<Rightarrow> string \<Rightarrow> fs_node_opts \<Rightarrow> u32 \<Rightarrow>
   (u32 \<times> 'z dev_state_scheme) option" where
  "register_device s p dev name opts sz =
     (if length name > NAME_MAX then Some (err ENAMETOOLONG, s)
      else do {
        byname \<leftarrow> device_fromname s name;
        dup \<leftarrow> (if byname \<noteq> 0 then Some True
               else map_option (\<lambda>d. d \<noteq> 0) (device_fromdev s dev));
        if dup then Some (err EEXIST, s)
        else if p = 0 then Some (err ENOMEM, s)
        else do {
          nm \<leftarrow> strcpy_field NAME_MAX name;
          (h, head) \<leftarrow> SLIST_INSERT_HEAD
            ((dev_heap s)(p \<mapsto> Cell \<lparr>device_dev = dev, device_size = sz, device_name = nm,
                device_opts = opts\<rparr> 0)) (devices s) p;
          Some (0, s\<lparr>dev_heap := h, devices := head, dev_count := dev_count s + 1\<rparr>)
        }
      })"

definition unregister_device ::
  "'z dev_state_scheme \<Rightarrow> u32 \<Rightarrow> (u32 \<times> 'z dev_state_scheme) option" where
  "unregister_device s dev = do {
     device \<leftarrow> device_fromdev s dev;
     if device = 0 then Some (err ENODEV, s)
     else do {
       (h, head) \<leftarrow> SLIST_REMOVE (dev_heap s) (devices s) device;
       Some (0, s\<lparr>dev_heap := heap_free h device, devices := head, dev_count := dev_count s - 1\<rparr>)
     }
   }"

subsection \<open>Device numbers\<close>

lemma DEV_MINOR_MKDEV: "mi < 256 \<Longrightarrow> DEV_MINOR (MKDEV ma mi) = mi"
proof -
  assume "mi < 256"
  then have hi: "\<not> bit mi k" if "8 \<le> k" for k
    using that by (intro no_high_bit [of _ 8]) (simp_all add: word_less_nat_alt)
  have "DEV_MINOR w = take_bit 8 w" for w
    by (simp add: DEV_MINOR_def take_bit_eq_mask mask_eq_exp_minus_1)
  then show ?thesis
    using hi by (intro bit_word_eqI) (auto simp: MKDEV_def bit_simps intro: ccontr)
qed

lemma DEV_MAJOR_MKDEV: "mi < 256 \<Longrightarrow> ma < 0x1000000 \<Longrightarrow> DEV_MAJOR (MKDEV ma mi) = ma"
proof -
  assume mi: "mi < 256" and ma: "ma < 0x1000000"
  have hi: "\<not> bit mi k" if "8 \<le> k" for k
    using mi that by (intro no_high_bit [of _ 8]) (simp_all add: word_less_nat_alt)
  have "k < 24" if "bit ma k" for k
    using ma that no_high_bit [of ma 24 k] by (auto simp: word_less_nat_alt intro: ccontr)
  then show ?thesis
    using hi by (intro bit_word_eqI) (auto simp: DEV_MAJOR_def MKDEV_def bit_simps not_le)
qed

lemma MKDEV_inj:
  assumes "ma < 0x1000000" "ma' < 0x1000000" "mi < 256" "mi' < 256"
  shows "MKDEV ma mi = MKDEV ma' mi' \<longleftrightarrow> ma = ma' \<and> mi = mi'"
  using DEV_MAJOR_MKDEV [OF assms(3,1)] DEV_MAJOR_MKDEV [OF assms(4,2)]
    DEV_MINOR_MKDEV [OF assms(3)] DEV_MINOR_MKDEV [OF assms(4)] by metis

subsection \<open>What the registry holds\<close>

definition device_rep :: "'z dev_state_scheme \<Rightarrow> (ptr \<times> device) list \<Rightarrow> bool" where
  "device_rep s xs \<longleftrightarrow> slist_rep (dev_heap s) (devices s) xs \<and> dev_count s = of_nat (length xs) \<and>
     distinct (map (device_name \<circ> snd) xs) \<and> distinct (map (device_dev \<circ> snd) xs) \<and>
     (\<forall>x \<in> set xs. length (device_name (snd x)) < NAME_MAX)"

definition dev_fresh :: "'z dev_state_scheme \<Rightarrow> ptr \<Rightarrow> bool" where
  "dev_fresh s p \<longleftrightarrow> p \<noteq> 0 \<and> dev_heap s p = None"

lemma device_rep_klog [simp]: "device_rep (s\<lparr>klog_calls := c\<rparr>) xs \<longleftrightarrow> device_rep s xs"
  by (simp add: device_rep_def)

lemma device_fromdev_rep:
  "device_rep s xs \<Longrightarrow> device_fromdev s dev = Some (find_ptr (\<lambda>d. device_dev d = dev) xs)"
  by (simp add: device_rep_def device_fromdev_def slist_find_rep)

lemma device_fromname_rep:
  assumes "device_rep s xs"
  shows "device_fromname s name = Some (find_ptr (\<lambda>d. device_name d = name) xs)"
proof (cases "length name > NAME_MAX")
  case True
  have "0 \<notin> addrs xs" using assms by (auto simp: device_rep_def dest: slist_rep_nonzero)
  moreover have "\<forall>x \<in> set xs. device_name (snd x) \<noteq> name"
    using assms True by (auto simp: device_rep_def)
  ultimately show ?thesis using True find_ptr_0_iff [of xs "\<lambda>d. device_name d = name"]
    by (simp add: device_fromname_def)
next
  case False
  then show ?thesis using assms by (simp add: device_rep_def device_fromname_def slist_find_rep)
qed

lemma device_get_rep:
  "device_rep s xs \<Longrightarrow> device_get s i = Some (if unat i < length xs then fst (xs ! unat i) else 0)"
  by (simp add: device_rep_def device_get_def slist_get_rep)

lemma device_indexof_rep:
  assumes "device_rep s xs" "deref (dev_heap s) p = Some d"
  shows "device_indexof s p =
    Some (if first_index (\<lambda>e. device_name e = device_name d) xs < length xs
      then of_nat (first_index (\<lambda>e. device_name e = device_name d) xs) else - 1)"
proof (cases "devices s = 0")
  case True
  then have "xs = []" using assms(1) by (cases xs) (auto simp: device_rep_def)
  with True show ?thesis by (simp add: device_indexof_def)
next
  case False
  then show ?thesis
    using assms slist_indexof_rep [of "dev_heap s" "devices s" xs "\<lambda>e. device_name e = device_name d" 0]
    by (simp add: device_rep_def device_indexof_def)
qed

text \<open>Registration and withdrawal, on every branch.\<close>

lemma register_device_toolong:
  "NAME_MAX < length name \<Longrightarrow> register_device s p dev name opts sz = Some (err ENAMETOOLONG, s)"
  by (simp add: register_device_def)

lemma register_device_dup:
  assumes "device_rep s xs" "length name \<le> NAME_MAX"
    and "\<exists>x \<in> set xs. device_name (snd x) = name \<or> device_dev (snd x) = dev"
  shows "register_device s p dev name opts sz = Some (err EEXIST, s)"
proof -
  have nz: "0 \<notin> addrs xs" using assms(1) by (auto simp: device_rep_def dest: slist_rep_nonzero)
  obtain x where x: "x \<in> set xs" "device_name (snd x) = name \<or> device_dev (snd x) = dev"
    using assms(3) by blast
  have "find_ptr (\<lambda>d. device_name d = name) xs \<noteq> 0" if "device_name (snd x) = name"
    by (rule find_ptr_neq_0 [OF nz x(1)]) (rule that)
  moreover have "find_ptr (\<lambda>d. device_dev d = dev) xs \<noteq> 0" if "device_dev (snd x) = dev"
    by (rule find_ptr_neq_0 [OF nz x(1)]) (rule that)
  ultimately show ?thesis
    using assms(2) x(2)
    by (auto simp: register_device_def device_fromname_rep [OF assms(1)] device_fromdev_rep [OF assms(1)])
qed

lemma no_device:
  assumes "device_rep s xs"
    and "\<forall>x \<in> set xs. device_name (snd x) \<noteq> name \<and> device_dev (snd x) \<noteq> dev"
  shows "device_fromname s name = Some 0" "device_fromdev s dev = Some 0"
proof -
  have nz: "0 \<notin> addrs xs" using assms(1) by (auto simp: device_rep_def dest: slist_rep_nonzero)
  show "device_fromname s name = Some 0"
    using assms(2) find_ptr_0_iff [OF nz, of "\<lambda>d. device_name d = name"]
    by (simp add: device_fromname_rep [OF assms(1)])
  show "device_fromdev s dev = Some 0"
    using assms(2) find_ptr_0_iff [OF nz, of "\<lambda>d. device_dev d = dev"]
    by (simp add: device_fromdev_rep [OF assms(1)])
qed

lemma register_device_oom:
  assumes "device_rep s xs" "length name \<le> NAME_MAX"
    and "\<forall>x \<in> set xs. device_name (snd x) \<noteq> name \<and> device_dev (snd x) \<noteq> dev"
  shows "register_device s 0 dev name opts sz = Some (err ENOMEM, s)"
  using assms(2) no_device [OF assms(1,3)] by (simp add: register_device_def)

lemma register_device_new:
  fixes opts :: fs_node_opts and sz :: u32
  assumes "device_rep s xs" "length name < NAME_MAX" "dev_fresh s p"
    and "\<forall>x \<in> set xs. device_name (snd x) \<noteq> name \<and> device_dev (snd x) \<noteq> dev"
  defines "d \<equiv> \<lparr>device_dev = dev, device_size = sz, device_name = name, device_opts = opts\<rparr>"
  defines "s' \<equiv> s\<lparr>dev_heap := (dev_heap s)(p \<mapsto> Cell d (devices s)), devices := p,
    dev_count := dev_count s + 1\<rparr>"
  shows "register_device s p dev name opts sz = Some (0, s')" "device_rep s' ((p, d) # xs)"
proof -
  have p: "p \<noteq> 0" "p \<notin> addrs xs"
    using assms(1,3) by (auto simp: device_rep_def dev_fresh_def dest: slist_rep_live)
  have rep: "slist_rep (dev_heap s) (devices s) xs" using assms(1) by (simp add: device_rep_def)
  show "register_device s p dev name opts sz = Some (0, s')"
    using assms(2) p(1) no_device [OF assms(1,4)] SLIST_INSERT_HEAD_rep(1) [OF rep p, of d 0]
    by (simp add: register_device_def s'_def d_def)
  have "device_name d = name" "device_dev d = dev" by (simp_all add: d_def)
  then show "device_rep s' ((p, d) # xs)"
    using assms(1,2,4) SLIST_INSERT_HEAD_rep(2) [OF rep p, of d]
    by (auto simp: device_rep_def s'_def add.commute)
qed

text \<open>A name of exactly \<open>NAME_MAX\<close> characters passes the length check and overruns the field.\<close>

lemma register_device_overrun:
  assumes "device_rep s xs" "length name = NAME_MAX" "p \<noteq> 0"
    and "\<forall>x \<in> set xs. device_dev (snd x) \<noteq> dev"
  shows "register_device s p dev name opts sz = None"
proof -
  have "\<forall>x \<in> set xs. device_name (snd x) \<noteq> name \<and> device_dev (snd x) \<noteq> dev"
    using assms(1,2,4) by (auto simp: device_rep_def)
  from no_device [OF assms(1) this] show ?thesis
    using assms(2,3) by (simp add: register_device_def strcpy_field_overflow)
qed

lemma unregister_device_absent:
  assumes "device_rep s xs" "\<forall>x \<in> set xs. device_dev (snd x) \<noteq> dev"
  shows "unregister_device s dev = Some (err ENODEV, s)"
proof -
  have nz: "0 \<notin> addrs xs" using assms(1) by (auto simp: device_rep_def dest: slist_rep_nonzero)
  show ?thesis
    using assms(2) find_ptr_0_iff [OF nz, of "\<lambda>d. device_dev d = dev"]
    by (simp add: unregister_device_def device_fromdev_rep [OF assms(1)])
qed

lemma unregister_device_present:
  assumes "device_rep s xs" "(p, d) \<in> set xs" "device_dev d = dev"
  obtains h head where
    "unregister_device s dev =
      Some (0, s\<lparr>dev_heap := h, devices := head, dev_count := dev_count s - 1\<rparr>)"
    "device_rep (s\<lparr>dev_heap := h, devices := head, dev_count := dev_count s - 1\<rparr>) (slist_del p xs)"
    "h p = None"
proof -
  have rep: "slist_rep (dev_heap s) (devices s) xs" using assms(1) by (simp add: device_rep_def)
  have in_p: "p \<in> addrs xs" using assms(2) by force
  then have pnz: "p \<noteq> 0" using slist_rep_nonzero [OF rep] by metis
  have inj: "inj_on (device_dev \<circ> snd) (set xs)"
    using assms(1) by (simp add: device_rep_def distinct_map)
  have fp: "find_ptr (\<lambda>d. device_dev d = dev) xs = p"
  proof (rule find_ptr_unique [OF assms(2)])
    fix b w assume "(b, w) \<in> set xs" "device_dev w = dev"
    then have "(b, w) = (p, d)" using assms(2,3) by (intro inj_onD [OF inj]) simp_all
    then show "b = p" by simp
  qed (use assms(3) in simp)
  obtain h head where rm: "SLIST_REMOVE (dev_heap s) (devices s) p = Some (h, head)"
    "slist_rep h head (slist_del p xs)"
    using SLIST_REMOVE_rep [OF rep in_p] by metis
  have rep': "slist_rep (heap_free h p) head (slist_del p xs)"
    using rm(2) by (simp add: heap_free_rep)
  have len: "length (slist_del p xs) = length xs - 1" "0 < length xs"
    using length_slist_del [OF slist_rep_distinct [OF rep] in_p] in_p by auto
  have rep2: "device_rep (s\<lparr>dev_heap := heap_free h p, devices := head, dev_count := dev_count s - 1\<rparr>)
      (slist_del p xs)"
    using assms(1) rep' len by (auto simp: device_rep_def distinct_map_slist_del of_nat_diff Suc_le_eq
      set_slist_del)
  show ?thesis
    by (rule that [OF _ rep2])
      (simp_all add: unregister_device_def device_fromdev_rep [OF assms(1)] fp pnz rm(1) heap_free_def)
qed

subsection \<open>The registry contract\<close>

text \<open>Registration of an entry given as the structure it becomes.\<close>

definition register_entry ::
  "'z dev_state_scheme \<Rightarrow> ptr \<Rightarrow> device \<Rightarrow> (u32 \<times> 'z dev_state_scheme) option" where
  "register_entry s p e =
     register_device s p (device_dev e) (device_name e) (device_opts e) (device_size e)"

definition name_free :: "'z dev_state_scheme \<Rightarrow> device \<Rightarrow> bool" where
  "name_free s e \<longleftrightarrow> length (device_name e) < NAME_MAX \<and> device_fromname s (device_name e) = Some 0"

definition number_free :: "'z dev_state_scheme \<Rightarrow> device \<Rightarrow> bool" where
  "number_free s e \<longleftrightarrow> length (device_name e) < NAME_MAX \<and> device_fromdev s (device_dev e) = Some 0"

lemma name_free_rep:
  assumes "device_rep s xs"
  shows "name_free s e \<longleftrightarrow> length (device_name e) < NAME_MAX \<and>
    (\<forall>x \<in> set xs. device_name (snd x) \<noteq> device_name e)"
  using find_ptr_0_iff [of xs "\<lambda>d. device_name d = device_name e"] assms
  by (auto simp: name_free_def device_fromname_rep [OF assms] device_rep_def dest: slist_rep_nonzero)

lemma number_free_rep:
  assumes "device_rep s xs"
  shows "number_free s e \<longleftrightarrow> length (device_name e) < NAME_MAX \<and>
    (\<forall>x \<in> set xs. device_dev (snd x) \<noteq> device_dev e)"
  using find_ptr_0_iff [of xs "\<lambda>d. device_dev d = device_dev e"] assms
  by (auto simp: number_free_def device_fromdev_rep [OF assms] device_rep_def dest: slist_rep_nonzero)

lemma register_entry_new:
  assumes "device_rep s xs" "length (device_name e) < NAME_MAX" "dev_fresh s p"
    and "\<forall>x \<in> set xs. device_name (snd x) \<noteq> device_name e \<and> device_dev (snd x) \<noteq> device_dev e"
  shows "\<exists>s'. register_entry s p e = Some (0, s') \<and> device_rep s' ((p, e) # xs)"
  using register_device_new [OF assms(1,2,3,4), where opts = "device_opts e" and sz = "device_size e"]
  by (cases e) (simp add: register_entry_def)

interpretation dev_numbers: registry device_rep dev_fresh name_free device_dev device_fromdev
  register_entry device_count unregister_device ENODEV
proof unfold_locales
  fix s :: "'a dev_state_scheme" and xs
  assume rep: "device_rep s xs"
  show "0 \<notin> addrs xs" "distinct (map fst xs)"
    using rep by (auto simp: device_rep_def dest: slist_rep_nonzero slist_rep_distinct)
  show "distinct (map (device_dev \<circ> snd) xs)" "device_count s = of_nat (length xs)"
    using rep by (simp_all add: device_rep_def device_count_def)
  show "device_fromdev s k = Some (find_ptr (\<lambda>e. device_dev e = k) xs)" for k
    by (rule device_fromdev_rep [OF rep])
  show "register_entry s p e = Some (err EEXIST, s)"
    if "name_free s e" "device_dev e \<in> device_dev ` snd ` set xs" for e p
    using that register_device_dup [OF rep, of "device_name e" "device_dev e"]
    by (simp add: register_entry_def name_free_rep [OF rep] key_image)
  show "register_entry s 0 e = Some (err ENOMEM, s)"
    if "name_free s e" "device_dev e \<notin> device_dev ` snd ` set xs" for e
    using that register_device_oom [OF rep, of "device_name e" "device_dev e"]
    by (simp add: register_entry_def name_free_rep [OF rep] key_image)
  show "\<exists>s'. register_entry s p e = Some (0, s') \<and> device_rep s' ((p, e) # xs)"
    if "name_free s e" "device_dev e \<notin> device_dev ` snd ` set xs" "dev_fresh s p" for e p
    using that register_entry_new [OF rep, of e p] by (simp add: name_free_rep [OF rep] key_image)
  show "unregister_device s k = Some (err ENODEV, s)" if "k \<notin> device_dev ` snd ` set xs" for k
    using that unregister_device_absent [OF rep, of k] by (simp add: key_image)
  show "\<exists>s'. unregister_device s (device_dev e) = Some (0, s') \<and> device_rep s' (slist_del p xs)"
    if "(p, e) \<in> set xs" for e p
    using unregister_device_present [OF rep that refl] by metis
qed

interpretation dev_names: key_table device_rep dev_fresh number_free device_name device_fromname
  register_entry device_count
proof unfold_locales
  fix s :: "'a dev_state_scheme" and xs
  assume rep: "device_rep s xs"
  show "0 \<notin> addrs xs" "distinct (map fst xs)"
    using rep by (auto simp: device_rep_def dest: slist_rep_nonzero slist_rep_distinct)
  show "distinct (map (device_name \<circ> snd) xs)" "device_count s = of_nat (length xs)"
    using rep by (simp_all add: device_rep_def device_count_def)
  show "device_fromname s k = Some (find_ptr (\<lambda>e. device_name e = k) xs)" for k
    by (rule device_fromname_rep [OF rep])
  show "register_entry s p e = Some (err EEXIST, s)"
    if "number_free s e" "device_name e \<in> device_name ` snd ` set xs" for e p
    using that register_device_dup [OF rep, of "device_name e" "device_dev e"]
    by (simp add: register_entry_def number_free_rep [OF rep] key_image)
  show "register_entry s 0 e = Some (err ENOMEM, s)"
    if "number_free s e" "device_name e \<notin> device_name ` snd ` set xs" for e
    using that register_device_oom [OF rep, of "device_name e" "device_dev e"]
    by (simp add: register_entry_def number_free_rep [OF rep] key_image)
  show "\<exists>s'. register_entry s p e = Some (0, s') \<and> device_rep s' ((p, e) # xs)"
    if "number_free s e" "device_name e \<notin> device_name ` snd ` set xs" "dev_fresh s p" for e p
    using that register_entry_new [OF rep, of e p] by (simp add: number_free_rep [OF rep] key_image)
qed

subsection \<open>Properties\<close>

text \<open>C33: the device registry. A device whose name fits and whose name and number are free is registered and then found under
  both, counted once, and refused a second time with \<open>-NEWLAND_EEXIST\<close>; every other number finds what it found
  before; \<open>unregister_device\<close> of the number restores the registry, after which the number finds nothing.\<close>

theorem register_unregister_device:
  assumes "device_rep s xs" "length name < NAME_MAX" "p \<noteq> 0" "dev_heap s p = None"
    and "\<forall>x \<in> set xs. device_name (snd x) \<noteq> name \<and> device_dev (snd x) \<noteq> dev"
  shows "\<exists>t u. register_device s p dev name opts sz = Some (0, t) \<and> device_fromdev t dev = Some p \<and>
    device_fromname t name = Some p \<and> device_count t = device_count s + 1 \<and>
    (\<forall>k. k \<noteq> dev \<longrightarrow> device_fromdev t k = device_fromdev s k) \<and>
    register_device t q dev name opts sz = Some (err EEXIST, t) \<and>
    unregister_device t dev = Some (0, u) \<and> device_rep u xs \<and> device_fromdev u dev = Some 0"
proof -
  let ?d = "\<lparr>device_dev = dev, device_size = sz, device_name = name, device_opts = opts\<rparr>"
  have fresh: "dev_fresh s p" using assms(3,4) by (simp add: dev_fresh_def)
  obtain t where t: "register_device s p dev name opts sz = Some (0, t)" "device_rep t ((p, ?d) # xs)"
    using register_device_new [OF assms(1,2) fresh assms(5)] by blast
  have new: "p \<notin> addrs xs" using assms(1,4) unfolding device_rep_def by (metis fresh_not_listed)
  obtain u where u: "unregister_device t dev = Some (0, u)" "device_rep u (slist_del p ((p, ?d) # xs))"
    using unregister_device_present [OF t(2), of p ?d dev] by auto
  have "slist_del p ((p, ?d) # xs) = xs" using slist_del_absent [OF new] by (simp add: slist_del_def)
  then have u': "device_rep u xs" using u(2) by simp
  have "find_ptr (\<lambda>d. device_dev d = dev) xs = 0"
    using assms(1,5) by (intro find_ptr_eq_0) (auto simp: device_rep_def dest: slist_rep_nonzero)
  then have gone: "device_fromdev u dev = Some 0" by (simp add: device_fromdev_rep [OF u'])
  have "device_fromname t name = Some p" using assms(2) by (simp add: device_fromname_rep [OF t(2)])
  moreover have "register_device t q dev name opts sz = Some (err EEXIST, t)"
    using assms(2) by (intro register_device_dup [OF t(2)]) simp_all
  moreover have "device_count t = device_count s + 1"
    using assms(1) t(2) by (simp add: device_rep_def device_count_def)
  ultimately show ?thesis
    using t(1) u(1) u' gone
    by (intro exI [of _ t] exI [of _ u]) (auto simp: device_fromdev_rep [OF t(2)] device_fromdev_rep [OF assms(1)])
qed

definition empty_dev :: dev_state where
  "empty_dev = \<lparr>klog_calls = [], dev_heap = Map.empty, devices = 0, dev_count = 0\<rparr>"

lemma empty_dev_rep: "device_rep empty_dev []"
  by (simp add: empty_dev_def device_rep_def)

theorem register_unregister_device_witness:
  "\<exists>t u. register_device empty_dev 0x40 (MKDEV 2 0) ''tty0'' no_opts 0 = Some (0, t) \<and>
    device_fromname t ''tty0'' = Some 0x40 \<and> unregister_device t (MKDEV 2 0) = Some (0, u) \<and> device_rep u []"
  using register_unregister_device [OF empty_dev_rep, of "''tty0''" "0x40" "MKDEV 2 0" no_opts 0 0]
  by (auto simp: empty_dev_def NAME_MAX_def)

text \<open>The length check of \<open>register_device\<close> is off by one: a name of exactly \<open>NAME_MAX\<close> characters passes it and
  is copied with its terminator past the end of the name field.\<close>

theorem register_device_name_overrun:
  assumes "device_rep s xs" "length name = NAME_MAX" "p \<noteq> 0" "\<forall>x \<in> set xs. device_dev (snd x) \<noteq> dev"
  shows "register_device s p dev name opts sz = None"
  by (rule register_device_overrun [OF assms])

theorem register_device_name_overrun_witness:
  "register_device empty_dev 0x40 7 (replicate 128 (CHR ''a'')) no_opts 0 = None"
  by (rule register_device_name_overrun [OF empty_dev_rep]) (simp_all add: NAME_MAX_def)

end
