(* ===== verification/Blkdev.thy ===== *)
theory Blkdev
  imports Dev
begin

text \<open>
  Block devices, \<^verbatim>\<open>newland/src/dev/block.c\<close> and \<^verbatim>\<open>newland/include/newland/dev/block.h\<close>.

  A block device is kept in a list of its own and also registered as a device whose minor
  number is the count of block devices at the time. The state extends the device registry's,
  so both registrations act on one record. \<open>kmalloc\<close> is called twice by
  \<open>register_blkdev\<close> (once inside \<open>register_device\<close>): its answers are the arguments \<open>p\<close>
  and \<open>q\<close>. \<open>blkdev_fsopts\<close>, the table of this file's node operations, holds code addresses
  the linker assigns and is a parameter; so is \<open>call\<close>, the effect of calling a driver's
  \<open>read_block\<close> or \<open>write_block\<close> through its pointer.
\<close>

definition BLKDEV_SIZE :: u32 where "BLKDEV_SIZE = 1"
definition BLKDEV_COUNT :: u32 where "BLKDEV_COUNT = 2"

record blkdev_opts =
  read_block :: u32
  write_block :: u32

record blkdev =
  blkdev_size :: u32
  blkdev_cnt :: u32
  blkdev_name :: string
  blkdev_opts :: blkdev_opts

record blk_state = dev_state +
  blk_heap :: "blkdev heap"
  block_devices :: ptr
  block_device_count :: u32

subsection \<open>Operations\<close>

definition blkdev_count :: "'z blk_state_scheme \<Rightarrow> u32" where
  "blkdev_count s = block_device_count s"

definition blkdev_indexof :: "'z blk_state_scheme \<Rightarrow> ptr \<Rightarrow> u32 option" where
  "blkdev_indexof s blkdev1 =
     (if block_devices s = 0 then Some (- 1)
      else do {
        b \<leftarrow> deref (blk_heap s) blkdev1;
        slist_indexof (blk_heap s) (\<lambda>blkdev2. blkdev_name blkdev2 = blkdev_name b) (block_devices s) 0
      })"

definition blkdev_get :: "'z blk_state_scheme \<Rightarrow> u32 \<Rightarrow> ptr option" where
  "blkdev_get s i = slist_get (blk_heap s) (block_devices s) 0 i"

definition blkdev_fromname :: "'z blk_state_scheme \<Rightarrow> string \<Rightarrow> ptr option" where
  "blkdev_fromname s name = slist_find (blk_heap s) (\<lambda>b. blkdev_name b = name) (block_devices s)"

text \<open>
  \<open>read_block\<close> and \<open>write_block\<close> are called as \<open>call f blkdev block buff size\<close>; the block
  index is a \<open>uint16_t\<close>. Dividing by a zero block size is a fault.
\<close>

type_synonym 's block_call = "u32 \<Rightarrow> ptr \<Rightarrow> u16 \<Rightarrow> ptr \<Rightarrow> u32 \<Rightarrow> 's \<Rightarrow> (u32 \<times> 's) option"

definition block_of :: "u32 \<Rightarrow> u32 \<Rightarrow> u16 option" where
  "block_of offset sz = (if sz = 0 then None else Some (ucast (offset div sz)))"

definition blkdev_read ::
  "'z blk_state_scheme block_call \<Rightarrow> 'z blk_state_scheme \<Rightarrow> fs_node \<Rightarrow> u32 \<Rightarrow> ptr \<Rightarrow> u32 \<Rightarrow>
   (u32 \<times> 'z blk_state_scheme) option" where
  "blkdev_read call s node offset buff sz = do {
     blkdev \<leftarrow> blkdev_get s (DEV_MINOR (node_rdev node));
     if blkdev = 0 then Some (err ENODEV, s)
     else do {
       b \<leftarrow> deref (blk_heap s) blkdev;
       if read_block (blkdev_opts b) = 0 then Some (err ENOSYS, s)
       else do {
         block \<leftarrow> block_of offset (blkdev_size b);
         call (read_block (blkdev_opts b)) blkdev block buff sz s
       }
     }
   }"

definition blkdev_write ::
  "'z blk_state_scheme block_call \<Rightarrow> 'z blk_state_scheme \<Rightarrow> fs_node \<Rightarrow> u32 \<Rightarrow> ptr \<Rightarrow> u32 \<Rightarrow>
   (u32 \<times> 'z blk_state_scheme) option" where
  "blkdev_write call s node offset buff sz = do {
     blkdev \<leftarrow> blkdev_get s (DEV_MINOR (node_rdev node));
     if blkdev = 0 then Some (err ENODEV, s)
     else do {
       b \<leftarrow> deref (blk_heap s) blkdev;
       if write_block (blkdev_opts b) = 0 then Some (err ENOSYS, s)
       else do {
         block \<leftarrow> block_of offset (blkdev_size b);
         call (write_block (blkdev_opts b)) blkdev block buff sz s
       }
     }
   }"

text \<open>
  \<open>ioctl\<close> stores its answer through the pointer in the variable arguments: the second
  component is that store, if any.
\<close>

definition blkdev_ioctl ::
  "'z blk_state_scheme \<Rightarrow> fs_node \<Rightarrow> u32 \<Rightarrow> ptr \<Rightarrow> (u32 \<times> (ptr \<times> u32) option) option" where
  "blkdev_ioctl s node req ap = do {
     blkdev \<leftarrow> blkdev_get s (DEV_MINOR (node_rdev node));
     if blkdev = 0 then Some (err ENODEV, None)
     else if req = BLKDEV_SIZE then do {
       b \<leftarrow> deref (blk_heap s) blkdev;
       Some (0, Some (ap, blkdev_size b))
     }
     else if req = BLKDEV_COUNT then do {
       b \<leftarrow> deref (blk_heap s) blkdev;
       Some (0, Some (ap, blkdev_cnt b))
     }
     else Some (err EINVAL, None)
   }"

definition register_blkdev ::
  "fs_node_opts \<Rightarrow> 'z blk_state_scheme \<Rightarrow> ptr \<Rightarrow> ptr \<Rightarrow> string \<Rightarrow> u32 \<Rightarrow> u32 \<Rightarrow> blkdev_opts \<Rightarrow>
   (u32 \<times> 'z blk_state_scheme) option" where
  "register_blkdev blkdev_fsopts s p q name blksize blkcnt opts = do {
     byname \<leftarrow> blkdev_fromname s name;
     dup \<leftarrow> (if byname \<noteq> 0 then Some True
            else map_option (\<lambda>d. d \<noteq> 0) (device_fromname s name));
     if dup then Some (err EEXIST, s)
     else if p = 0 then Some (err ENOMEM, s)
     else do {
       nm \<leftarrow> strcpy_field NAME_MAX name;
       let b = \<lparr>blkdev_size = blksize, blkdev_cnt = blkcnt, blkdev_name = nm, blkdev_opts = opts\<rparr>;
       let s1 = s\<lparr>blk_heap := (blk_heap s)(p \<mapsto> Cell b 0)\<rparr>;
       (r, s2) \<leftarrow> register_device s1 q (MKDEV DEVMAJ_BLOCK (block_device_count s1)) name
         blkdev_fsopts (blksize * blkcnt);
       if sint r < 0 then Some (r, s2\<lparr>blk_heap := heap_free (blk_heap s2) p\<rparr>)
       else do {
         let s3 = printk_s (KLOG_INFO @ ''blkdev: registered %s'') name s2;
         (h, head) \<leftarrow> SLIST_INSERT_HEAD (blk_heap s3) (block_devices s3) p;
         Some (0, s3\<lparr>blk_heap := h, block_devices := head,
           block_device_count := block_device_count s3 + 1\<rparr>)
       }
     }
   }"

definition unregister_blkdev ::
  "'z blk_state_scheme \<Rightarrow> string \<Rightarrow> (u32 \<times> 'z blk_state_scheme) option" where
  "unregister_blkdev s name = do {
     blkdev \<leftarrow> blkdev_fromname s name;
     missing \<leftarrow> (if blkdev = 0 then Some True
                else map_option (\<lambda>d. d = 0) (device_fromname s name));
     if missing then Some (err ENODEV, s)
     else do {
       idx \<leftarrow> blkdev_indexof s blkdev;
       (r, s1) \<leftarrow> unregister_device s (MKDEV DEVMAJ_BLOCK idx);
       if sint r < 0 then Some (r, s1)
       else do {
         let s2 = printk_s (KLOG_INFO @ ''blkdev: unregistered %s'') name s1;
         (h, head) \<leftarrow> SLIST_REMOVE (blk_heap s2) (block_devices s2) blkdev;
         Some (0, s2\<lparr>blk_heap := heap_free h blkdev, block_devices := head,
           block_device_count := block_device_count s2 - 1\<rparr>)
       }
     }
   }"

subsection \<open>What the list holds\<close>

definition blkdev_rep :: "'z blk_state_scheme \<Rightarrow> (ptr \<times> blkdev) list \<Rightarrow> bool" where
  "blkdev_rep s xs \<longleftrightarrow> slist_rep (blk_heap s) (block_devices s) xs \<and>
     block_device_count s = of_nat (length xs) \<and> distinct (map (blkdev_name \<circ> snd) xs)"

lemma device_rep_blk [simp]:
  "device_rep (s\<lparr>blk_heap := h\<rparr>) ds \<longleftrightarrow> device_rep s ds"
  "device_rep (s\<lparr>block_devices := p\<rparr>) ds \<longleftrightarrow> device_rep s ds"
  "device_rep (s\<lparr>block_device_count := n\<rparr>) ds \<longleftrightarrow> device_rep s ds"
  by (simp_all add: device_rep_def)

lemma blkdev_rep_nonzero: "blkdev_rep s xs \<Longrightarrow> 0 \<notin> addrs xs"
  by (auto simp: blkdev_rep_def dest: slist_rep_nonzero)

lemma blkdev_rep_deref: "blkdev_rep s xs \<Longrightarrow> (p, b) \<in> set xs \<Longrightarrow> deref (blk_heap s) p = Some b"
  by (rule slist_rep_deref [of "blk_heap s" "block_devices s" xs 0]) (simp_all add: blkdev_rep_def)

lemma blkdev_fromname_rep:
  "blkdev_rep s xs \<Longrightarrow> blkdev_fromname s name = Some (find_ptr (\<lambda>b. blkdev_name b = name) xs)"
  by (simp add: blkdev_rep_def blkdev_fromname_def slist_find_rep)

lemma blkdev_get_rep:
  "blkdev_rep s xs \<Longrightarrow> blkdev_get s i = Some (if unat i < length xs then fst (xs ! unat i) else 0)"
  by (simp add: blkdev_rep_def blkdev_get_def slist_get_rep)

lemma blkdev_indexof_rep:
  assumes "blkdev_rep s xs" "(p, b) \<in> set xs"
  shows "blkdev_indexof s p = Some (of_nat (first_index (\<lambda>e. blkdev_name e = blkdev_name b) xs))"
proof -
  have rep: "slist_rep (blk_heap s) (block_devices s) xs" using assms(1) by (simp add: blkdev_rep_def)
  have "block_devices s \<noteq> 0" using rep assms(2) by (cases xs) auto
  moreover have "first_index (\<lambda>e. blkdev_name e = blkdev_name b) xs < length xs"
    by (rule first_index_listed [OF assms(2) refl])
  ultimately show ?thesis
    using slist_rep_deref [OF rep assms(2)]
      slist_indexof_rep [OF rep, of "\<lambda>e. blkdev_name e = blkdev_name b" 0]
    by (simp add: blkdev_indexof_def)
qed

subsection \<open>Registration, on every branch\<close>

lemma register_blkdev_dup:
  assumes "device_rep s ds" "blkdev_rep s xs"
    and "(\<exists>x \<in> set xs. blkdev_name (snd x) = name) \<or> (\<exists>x \<in> set ds. device_name (snd x) = name)"
  shows "register_blkdev fsopts s p q name blksize blkcnt opts = Some (err EEXIST, s)"
proof -
  have nz: "0 \<notin> addrs ds" using assms(1) by (auto simp: device_rep_def dest: slist_rep_nonzero)
  from assms(3) show ?thesis
  proof (elim disjE bexE)
    fix x assume "x \<in> set xs" "blkdev_name (snd x) = name"
    then have "find_ptr (\<lambda>b. blkdev_name b = name) xs \<noteq> 0"
      by (rule find_ptr_neq_0 [OF blkdev_rep_nonzero [OF assms(2)]])
    then show ?thesis by (simp add: register_blkdev_def blkdev_fromname_rep [OF assms(2)])
  next
    fix x assume "x \<in> set ds" "device_name (snd x) = name"
    then have "find_ptr (\<lambda>d. device_name d = name) ds \<noteq> 0"
      by (rule find_ptr_neq_0 [OF nz])
    then show ?thesis
      by (simp add: register_blkdev_def blkdev_fromname_rep [OF assms(2)] device_fromname_rep [OF assms(1)])
  qed
qed

text \<open>The name is free in both registries.\<close>

definition blk_name_free :: "(ptr \<times> device) list \<Rightarrow> (ptr \<times> blkdev) list \<Rightarrow> string \<Rightarrow> bool" where
  "blk_name_free ds xs name \<longleftrightarrow> (\<forall>x \<in> set xs. blkdev_name (snd x) \<noteq> name) \<and>
     (\<forall>x \<in> set ds. device_name (snd x) \<noteq> name)"

lemma blk_name_free_lookup:
  assumes "device_rep s ds" "blkdev_rep s xs" "blk_name_free ds xs name"
  shows "blkdev_fromname s name = Some 0" "device_fromname s name = Some 0"
proof -
  show "blkdev_fromname s name = Some 0"
    using assms(3) find_ptr_eq_0 [OF blkdev_rep_nonzero [OF assms(2)], of "\<lambda>b. blkdev_name b = name"]
    by (simp add: blkdev_fromname_rep [OF assms(2)] blk_name_free_def)
  have "0 \<notin> addrs ds" using assms(1) by (auto simp: device_rep_def dest: slist_rep_nonzero)
  then show "device_fromname s name = Some 0"
    using assms(3) find_ptr_eq_0 [of ds "\<lambda>b. device_name b = name"]
    by (simp add: device_fromname_rep [OF assms(1)] blk_name_free_def)
qed

lemma register_blkdev_oom:
  assumes "device_rep s ds" "blkdev_rep s xs" "blk_name_free ds xs name"
  shows "register_blkdev fsopts s 0 q name blksize blkcnt opts = Some (err ENOMEM, s)"
  by (simp add: register_blkdev_def blk_name_free_lookup [OF assms])

text \<open>
  A block device takes the number of block devices so far as its minor. When that device number
  is taken, or the device's own allocation fails, the block device is released again and the
  state is as before.
\<close>

lemma register_blkdev_undone:
  assumes "device_rep s ds" "blkdev_rep s xs" "blk_name_free ds xs name"
    and "length name < NAME_MAX" "p \<noteq> 0" "blk_heap s p = None"
    and "(\<exists>x \<in> set ds. device_dev (snd x) = MKDEV DEVMAJ_BLOCK (block_device_count s)) \<or> q = 0"
  shows "register_blkdev fsopts s p q name blksize blkcnt opts =
    Some (if \<exists>x \<in> set ds. device_dev (snd x) = MKDEV DEVMAJ_BLOCK (block_device_count s)
      then err EEXIST else err ENOMEM, s)"
proof -
  let ?b = "\<lparr>blkdev_size = blksize, blkdev_cnt = blkcnt, blkdev_name = name, blkdev_opts = opts\<rparr>"
  let ?s1 = "s\<lparr>blk_heap := (blk_heap s)(p \<mapsto> Cell ?b 0)\<rparr>"
  let ?dup = "\<exists>x \<in> set ds. device_dev (snd x) = MKDEV DEVMAJ_BLOCK (block_device_count s)"
  have rep: "device_rep ?s1 ds" using assms(1) by simp
  have "register_device ?s1 q (MKDEV DEVMAJ_BLOCK (block_device_count s)) name fsopts (blksize * blkcnt) =
      Some (if ?dup then err EEXIST else err ENOMEM, ?s1)"
  proof (cases ?dup)
    case True
    then have "\<exists>x \<in> set ds. device_name (snd x) = name \<or>
        device_dev (snd x) = MKDEV DEVMAJ_BLOCK (block_device_count s)" by blast
    from register_device_dup [OF rep _ this] show ?thesis using True assms(4) by simp
  next
    case False
    then show ?thesis
      using register_device_oom [OF rep, of name "MKDEV DEVMAJ_BLOCK (block_device_count s)"] assms(3,4,7)
      by (auto simp: blk_name_free_def)
  qed
  moreover have "heap_free ((blk_heap s)(p \<mapsto> c)) p = blk_heap s" for c
    using assms(6) by (auto simp: heap_free_def)
  ultimately show ?thesis
    using assms(4,5) by (simp add: register_blkdev_def blk_name_free_lookup [OF assms(1-3)])
qed

lemma register_blkdev_new:
  fixes s :: "'z blk_state_scheme"
  assumes "device_rep s ds" "blkdev_rep s xs" "blk_name_free ds xs name"
    and "length name < NAME_MAX" "p \<noteq> 0" "blk_heap s p = None" "dev_fresh s q"
    and "\<forall>x \<in> set ds. device_dev (snd x) \<noteq> MKDEV DEVMAJ_BLOCK (of_nat (length xs))"
  obtains s' :: "'z blk_state_scheme" where
    "register_blkdev fsopts s p q name blksize blkcnt opts = Some (0, s')"
    "device_rep s' ((q, \<lparr>device_dev = MKDEV DEVMAJ_BLOCK (of_nat (length xs)),
      device_size = blksize * blkcnt, device_name = name, device_opts = fsopts\<rparr>) # ds)"
    "blkdev_rep s' ((p, \<lparr>blkdev_size = blksize, blkdev_cnt = blkcnt, blkdev_name = name,
      blkdev_opts = opts\<rparr>) # xs)"
proof -
  define b where "b = \<lparr>blkdev_size = blksize, blkdev_cnt = blkcnt, blkdev_name = name, blkdev_opts = opts\<rparr>"
  define d where "d = \<lparr>device_dev = MKDEV DEVMAJ_BLOCK (of_nat (length xs)),
      device_size = blksize * blkcnt, device_name = name, device_opts = fsopts\<rparr>"
  define s1 where "s1 = s\<lparr>blk_heap := (blk_heap s)(p \<mapsto> Cell b 0)\<rparr>"
  have cnt: "block_device_count s = of_nat (length xs)" using assms(2) by (simp add: blkdev_rep_def)
  have rep: "slist_rep (blk_heap s) (block_devices s) xs" using assms(2) by (simp add: blkdev_rep_def)
  have p: "p \<notin> addrs xs" using fresh_not_listed [OF rep assms(6)] .
  have rep1: "device_rep s1 ds" "dev_fresh s1 q" using assms(1,7) by (simp_all add: s1_def dev_fresh_def)
  have free: "\<forall>x \<in> set ds. device_name (snd x) \<noteq> name \<and>
      device_dev (snd x) \<noteq> MKDEV DEVMAJ_BLOCK (of_nat (length xs))"
    using assms(3,8) by (simp add: blk_name_free_def)
  note reg = register_device_new [OF rep1(1) assms(4) rep1(2) free,
      where opts = fsopts and sz = "blksize * blkcnt", folded d_def]
  let ?s2 = "s1\<lparr>dev_heap := (dev_heap s1)(q \<mapsto> Cell d (devices s1)), devices := q,
    dev_count := dev_count s1 + 1\<rparr>"
  let ?s3 = "printk_s (KLOG_INFO @ ''blkdev: registered %s'') name ?s2"
  let ?s4 = "?s3\<lparr>blk_heap := (blk_heap s)(p \<mapsto> Cell b (block_devices s)), block_devices := p,
    block_device_count := block_device_count s + 1\<rparr>"
  have ins: "SLIST_INSERT_HEAD (blk_heap ?s3) (block_devices ?s3) p =
      Some ((blk_heap s)(p \<mapsto> Cell b (block_devices s)), p)"
    using SLIST_INSERT_HEAD_rep(1) [OF rep assms(5) p, of b 0] by (simp add: s1_def printk_s_def)
  have "register_blkdev fsopts s p q name blksize blkcnt opts = Some (0, ?s4)"
    using assms(4,5) reg(1) ins cnt
    by (simp add: register_blkdev_def blk_name_free_lookup [OF assms(1-3)] b_def [symmetric]
        s1_def [symmetric]) (simp add: s1_def printk_s_def)
  moreover have "device_rep ?s4 ((q, d) # ds)"
    using reg(2) by (simp add: printk_s_def)
  moreover have "blkdev_name b = name" by (simp add: b_def)
  then have "blkdev_rep ?s4 ((p, b) # xs)"
    using SLIST_INSERT_HEAD_rep(2) [OF rep assms(5) p, of b] assms(2,3)
    by (auto simp: blkdev_rep_def blk_name_free_def add.commute)
  ultimately show ?thesis using that by (simp add: b_def d_def)
qed

subsection \<open>Numbering\<close>

text \<open>
  New block devices go to the front of the list while their minor is the count so far, so the
  device at position \<open>i\<close> of \<open>n\<close> has minor \<open>n - 1 - i\<close>: the order of the list is the
  reverse of the order of the minors. \<open>blkdev_get\<close> and \<open>unregister_blkdev\<close> use positions.
\<close>

definition blk_numbered :: "(ptr \<times> device) list \<Rightarrow> (ptr \<times> blkdev) list \<Rightarrow> bool" where
  "blk_numbered ds xs \<longleftrightarrow> (\<forall>i < length xs. \<exists>x \<in> set ds.
     device_name (snd x) = blkdev_name (snd (xs ! i)) \<and>
     device_dev (snd x) = MKDEV DEVMAJ_BLOCK (of_nat (length xs - 1 - i)))"

lemma blk_numbered_Nil [simp]: "blk_numbered ds []"
  by (simp add: blk_numbered_def)

lemma blk_numbered_Cons:
  assumes "blk_numbered ds xs" "device_name d = blkdev_name b"
    and "device_dev d = MKDEV DEVMAJ_BLOCK (of_nat (length xs))"
  shows "blk_numbered ((q, d) # ds) ((p, b) # xs)"
  unfolding blk_numbered_def
proof (intro allI impI)
  fix i assume i: "i < length ((p, b) # xs)"
  show "\<exists>x \<in> set ((q, d) # ds). device_name (snd x) = blkdev_name (snd (((p, b) # xs) ! i)) \<and>
    device_dev (snd x) = MKDEV DEVMAJ_BLOCK (of_nat (length ((p, b) # xs) - 1 - i))"
  proof (cases i)
    case 0
    then show ?thesis using assms(2,3) by simp
  next
    case (Suc j)
    then have "j < length xs" using i by simp
    with assms(1) obtain x where "x \<in> set ds" "device_name (snd x) = blkdev_name (snd (xs ! j))"
      "device_dev (snd x) = MKDEV DEVMAJ_BLOCK (of_nat (length xs - 1 - j))"
      unfolding blk_numbered_def by blast
    then show ?thesis using Suc by (intro bexI [of _ x]) auto
  qed
qed

text \<open>What a node with minor \<open>m\<close> reaches: the entry at position \<open>m\<close>.\<close>

lemma blkdev_ioctl_rep:
  assumes "blkdev_rep s xs" "unat (DEV_MINOR (node_rdev node)) < length xs"
  shows "blkdev_ioctl s node BLKDEV_SIZE ap =
      Some (0, Some (ap, blkdev_size (snd (xs ! unat (DEV_MINOR (node_rdev node))))))"
    and "blkdev_ioctl s node BLKDEV_COUNT ap =
      Some (0, Some (ap, blkdev_cnt (snd (xs ! unat (DEV_MINOR (node_rdev node))))))"
proof -
  let ?x = "xs ! unat (DEV_MINOR (node_rdev node))"
  have mem: "?x \<in> set xs" using assms(2) by simp
  then have nz: "fst ?x \<noteq> 0" using blkdev_rep_nonzero [OF assms(1)] by (metis imageI)
  have "deref (blk_heap s) (fst ?x) = Some (snd ?x)"
    using mem by (intro blkdev_rep_deref [OF assms(1)]) simp
  with nz show "blkdev_ioctl s node BLKDEV_SIZE ap = Some (0, Some (ap, blkdev_size (snd ?x)))"
    and "blkdev_ioctl s node BLKDEV_COUNT ap = Some (0, Some (ap, blkdev_cnt (snd ?x)))"
    using assms by (simp_all add: blkdev_ioctl_def blkdev_get_rep BLKDEV_SIZE_def BLKDEV_COUNT_def)
qed

lemma blkdev_read_rep:
  assumes "blkdev_rep s xs" "unat (DEV_MINOR (node_rdev node)) < length xs"
    and "(p, b) = xs ! unat (DEV_MINOR (node_rdev node))"
    and "read_block (blkdev_opts b) \<noteq> 0" "blkdev_size b \<noteq> 0"
  shows "blkdev_read call s node offset buff sz =
    call (read_block (blkdev_opts b)) p (ucast (offset div blkdev_size b)) buff sz s"
proof -
  have mem: "(p, b) \<in> set xs" using assms(2,3) by simp
  then have nz: "p \<noteq> 0" using blkdev_rep_nonzero [OF assms(1)] by force
  have "deref (blk_heap s) p = Some b" by (rule blkdev_rep_deref [OF assms(1) mem])
  with nz show ?thesis
    using assms(2,4,5) by (simp add: blkdev_read_def blkdev_get_rep [OF assms(1)] block_of_def
        assms(3) [symmetric])
qed

lemma blkdev_missing:
  assumes "blkdev_rep s xs" "length xs \<le> unat (DEV_MINOR (node_rdev node))"
  shows "blkdev_read call s node offset buff sz = Some (err ENODEV, s)"
    and "blkdev_write call s node offset buff sz = Some (err ENODEV, s)"
    and "blkdev_ioctl s node req ap = Some (err ENODEV, None)"
  using assms(2) by (simp_all add: blkdev_read_def blkdev_write_def blkdev_ioctl_def
      blkdev_get_rep [OF assms(1)])

subsection \<open>Withdrawal\<close>

lemma unregister_blkdev_absent:
  assumes "device_rep s ds" "blkdev_rep s xs"
    and "(\<forall>x \<in> set xs. blkdev_name (snd x) \<noteq> name) \<or> (\<forall>x \<in> set ds. device_name (snd x) \<noteq> name)"
  shows "unregister_blkdev s name = Some (err ENODEV, s)"
proof -
  have nz: "0 \<notin> addrs ds" using assms(1) by (auto simp: device_rep_def dest: slist_rep_nonzero)
  from assms(3) show ?thesis
  proof
    assume "\<forall>x \<in> set xs. blkdev_name (snd x) \<noteq> name"
    then have "find_ptr (\<lambda>b. blkdev_name b = name) xs = 0"
      by (rule find_ptr_eq_0 [OF blkdev_rep_nonzero [OF assms(2)]])
    then show ?thesis by (simp add: unregister_blkdev_def blkdev_fromname_rep [OF assms(2)])
  next
    assume "\<forall>x \<in> set ds. device_name (snd x) \<noteq> name"
    then have "find_ptr (\<lambda>d. device_name d = name) ds = 0" by (rule find_ptr_eq_0 [OF nz])
    then show ?thesis
      by (simp add: unregister_blkdev_def blkdev_fromname_rep [OF assms(2)] device_fromname_rep [OF assms(1)])
  qed
qed

lemma blkdev_found:
  assumes "blkdev_rep s xs" "i < length xs"
  shows "find_ptr (\<lambda>b. blkdev_name b = blkdev_name (snd (xs ! i))) xs = fst (xs ! i)"
    and "first_index (\<lambda>b. blkdev_name b = blkdev_name (snd (xs ! i))) xs = i"
proof -
  let ?P = "\<lambda>b. blkdev_name b = blkdev_name (snd (xs ! i))"
  have dist: "distinct (map (blkdev_name \<circ> snd) xs)" using assms(1) by (simp add: blkdev_rep_def)
  have lt: "first_index ?P xs < length xs"
    by (rule first_index_listed [of "fst (xs ! i)" "snd (xs ! i)"]) (use assms(2) in simp_all)
  have "map (blkdev_name \<circ> snd) xs ! first_index ?P xs = map (blkdev_name \<circ> snd) xs ! i"
    using first_index_nth [OF lt] lt assms(2) by simp
  then show idx: "first_index ?P xs = i"
    using nth_eq_iff_index_eq [OF dist, of "first_index ?P xs" i] lt assms(2) by simp
  then show "find_ptr ?P xs = fst (xs ! i)" using find_ptr_nth [OF lt] by simp
qed

text \<open>
  \<open>unregister_blkdev\<close> withdraws the block device it is asked for, and the device whose minor
  is that block device's position, which belongs to the entry mirrored in the list.
\<close>

lemma unregister_blkdev_mirror:
  fixes s :: "'z blk_state_scheme"
  assumes "device_rep s ds" "blkdev_rep s xs" "blk_numbered ds xs" "i < length xs"
  obtains s' :: "'z blk_state_scheme" and q d where
    "unregister_blkdev s (blkdev_name (snd (xs ! i))) = Some (0, s')"
    "blkdev_rep s' (slist_del (fst (xs ! i)) xs)" "device_rep s' (slist_del q ds)"
    "(q, d) \<in> set ds" "device_name d = blkdev_name (snd (xs ! (length xs - 1 - i)))"
proof -
  let ?p = "fst (xs ! i)" and ?name = "blkdev_name (snd (xs ! i))"
  have rep: "slist_rep (blk_heap s) (block_devices s) xs" using assms(2) by (simp add: blkdev_rep_def)
  have mem: "(?p, snd (xs ! i)) \<in> set xs" using assms(4) by simp
  then have pin: "?p \<in> addrs xs" using assms(4) by force
  then have pnz: "?p \<noteq> 0" using slist_rep_nonzero [OF rep] by metis
  have j: "length xs - 1 - i < length xs" "length xs - 1 - (length xs - 1 - i) = i"
    using assms(4) by simp_all
  obtain x where x: "x \<in> set ds" "device_name (snd x) = blkdev_name (snd (xs ! (length xs - 1 - i)))"
    "device_dev (snd x) = MKDEV DEVMAJ_BLOCK (of_nat i)"
    using assms(3) j unfolding blk_numbered_def by metis
  obtain y where y: "y \<in> set ds" "device_name (snd y) = ?name"
    using assms(3,4) unfolding blk_numbered_def by metis
  have nz: "0 \<notin> addrs ds" using assms(1) by (auto simp: device_rep_def dest: slist_rep_nonzero)
  have dfound: "find_ptr (\<lambda>d. device_name d = ?name) ds \<noteq> 0"
    by (rule find_ptr_neq_0 [OF nz y(1)]) (rule y(2))
  have idx: "blkdev_indexof s ?p = Some (of_nat i)"
    using blkdev_indexof_rep [OF assms(2) mem] blkdev_found(2) [OF assms(2,4)] by simp
  obtain h head where un: "unregister_device s (MKDEV DEVMAJ_BLOCK (of_nat i)) =
      Some (0, s\<lparr>dev_heap := h, devices := head, dev_count := dev_count s - 1\<rparr>)"
    "device_rep (s\<lparr>dev_heap := h, devices := head, dev_count := dev_count s - 1\<rparr>) (slist_del (fst x) ds)"
    using unregister_device_present [OF assms(1), of "fst x" "snd x"] x by (metis prod.collapse)
  obtain h' head' where rm: "SLIST_REMOVE (blk_heap s) (block_devices s) ?p = Some (h', head')"
    "slist_rep h' head' (slist_del ?p xs)"
    using SLIST_REMOVE_rep [OF rep pin] by metis
  let ?s1 = "s\<lparr>dev_heap := h, devices := head, dev_count := dev_count s - 1\<rparr>"
  let ?s2 = "(printk_s (KLOG_INFO @ ''blkdev: unregistered %s'') ?name ?s1)
    \<lparr>blk_heap := heap_free h' ?p, block_devices := head', block_device_count := block_device_count s - 1\<rparr>"
  have "unregister_blkdev s ?name = Some (0, ?s2)"
    using pnz dfound idx un(1) rm(1)
    by (simp add: unregister_blkdev_def blkdev_fromname_rep [OF assms(2)] blkdev_found(1) [OF assms(2,4)]
        device_fromname_rep [OF assms(1)] printk_s_def)
  moreover have "slist_rep (heap_free h' ?p) head' (slist_del ?p xs)"
    using rm(2) by (simp add: heap_free_rep)
  then have "blkdev_rep ?s2 (slist_del ?p xs)"
    using assms(2) length_slist_del [OF slist_rep_distinct [OF rep] pin] assms(4)
    by (auto simp: blkdev_rep_def distinct_map_slist_del of_nat_pred)
  moreover have "device_rep ?s2 (slist_del (fst x) ds)"
    using un(2) by (simp add: printk_s_def)
  ultimately show ?thesis using that [of ?s2 "fst x" "snd x"] x(1,2) by simp
qed

subsection \<open>The table contract\<close>

text \<open>
  For an allocator \<open>alloc\<close> that answers the inner \<open>kmalloc\<close>, block devices form a key table
  by name, as long as the name and the next minor are free in the device registry.
\<close>

definition register_blkdev_entry ::
  "fs_node_opts \<Rightarrow> ('z blk_state_scheme \<Rightarrow> ptr) \<Rightarrow> 'z blk_state_scheme \<Rightarrow> ptr \<Rightarrow> blkdev \<Rightarrow>
   (u32 \<times> 'z blk_state_scheme) option" where
  "register_blkdev_entry fsopts alloc s p b =
     register_blkdev fsopts s p (alloc s) (blkdev_name b) (blkdev_size b) (blkdev_cnt b) (blkdev_opts b)"

definition blk_adm :: "'z blk_state_scheme \<Rightarrow> blkdev \<Rightarrow> bool" where
  "blk_adm s b \<longleftrightarrow> length (blkdev_name b) < NAME_MAX \<and>
     device_fromdev s (MKDEV DEVMAJ_BLOCK (block_device_count s)) = Some 0 \<and>
     (blkdev_fromname s (blkdev_name b) = Some 0 \<longrightarrow> device_fromname s (blkdev_name b) = Some 0)"

definition blk_tables :: "'z blk_state_scheme \<Rightarrow> (ptr \<times> blkdev) list \<Rightarrow> bool" where
  "blk_tables s xs \<longleftrightarrow> blkdev_rep s xs \<and> (\<exists>ds. device_rep s ds)"

definition blk_fresh :: "('z blk_state_scheme \<Rightarrow> ptr) \<Rightarrow> 'z blk_state_scheme \<Rightarrow> ptr \<Rightarrow> bool" where
  "blk_fresh alloc s p \<longleftrightarrow> p \<noteq> 0 \<and> blk_heap s p = None \<and> dev_fresh s (alloc s)"

lemma blk_adm_rep:
  assumes "blkdev_rep s xs" "device_rep s ds" "blk_adm s b"
    "blkdev_name b \<notin> blkdev_name ` snd ` set xs"
  shows "blk_name_free ds xs (blkdev_name b)"
    and "\<forall>x \<in> set ds. device_dev (snd x) \<noteq> MKDEV DEVMAJ_BLOCK (of_nat (length xs))"
proof -
  have nz: "0 \<notin> addrs ds" using assms(2) by (auto simp: device_rep_def dest: slist_rep_nonzero)
  have free: "\<forall>x \<in> set xs. blkdev_name (snd x) \<noteq> blkdev_name b"
    using assms(4) by (simp add: key_image)
  then have "find_ptr (\<lambda>e. blkdev_name e = blkdev_name b) xs = 0"
    by (rule find_ptr_eq_0 [OF blkdev_rep_nonzero [OF assms(1)]])
  then have "device_fromname s (blkdev_name b) = Some 0"
    using assms(3) by (simp add: blk_adm_def blkdev_fromname_rep [OF assms(1)])
  then show "blk_name_free ds xs (blkdev_name b)"
    using free find_ptr_0_iff [OF nz] by (simp add: device_fromname_rep [OF assms(2)] blk_name_free_def)
  show "\<forall>x \<in> set ds. device_dev (snd x) \<noteq> MKDEV DEVMAJ_BLOCK (of_nat (length xs))"
    using assms(1,3) find_ptr_0_iff [OF nz]
    by (simp add: blk_adm_def device_fromdev_rep [OF assms(2)] blkdev_rep_def)
qed

interpretation blk_names: key_table blk_tables "blk_fresh alloc" blk_adm blkdev_name blkdev_fromname
  "register_blkdev_entry fsopts alloc" blkdev_count
  for alloc :: "'a blk_state_scheme \<Rightarrow> ptr" and fsopts
proof unfold_locales
  fix s :: "'a blk_state_scheme" and xs
  assume t: "blk_tables s xs"
  then obtain ds where reps: "blkdev_rep s xs" "device_rep s ds" by (auto simp: blk_tables_def)
  show "0 \<notin> addrs xs" "distinct (map fst xs)"
    using reps(1) by (auto simp: blkdev_rep_def dest: slist_rep_nonzero slist_rep_distinct)
  show "distinct (map (blkdev_name \<circ> snd) xs)" "blkdev_count s = of_nat (length xs)"
    using reps(1) by (simp_all add: blkdev_rep_def blkdev_count_def)
  show "blkdev_fromname s k = Some (find_ptr (\<lambda>e. blkdev_name e = k) xs)" for k
    by (rule blkdev_fromname_rep [OF reps(1)])
  show "register_blkdev_entry fsopts alloc s p e = Some (err EEXIST, s)"
    if "blkdev_name e \<in> blkdev_name ` snd ` set xs" for e p
    using that register_blkdev_dup [OF reps(2,1), of "blkdev_name e"]
    by (simp add: register_blkdev_entry_def key_image)
  show "register_blkdev_entry fsopts alloc s 0 e = Some (err ENOMEM, s)"
    if "blk_adm s e" "blkdev_name e \<notin> blkdev_name ` snd ` set xs" for e
    using register_blkdev_oom [OF reps(2,1) blk_adm_rep(1) [OF reps that]]
    by (simp add: register_blkdev_entry_def)
  show "\<exists>s'. register_blkdev_entry fsopts alloc s p e = Some (0, s') \<and> blk_tables s' ((p, e) # xs)"
    if adm: "blk_adm s e" and free: "blkdev_name e \<notin> blkdev_name ` snd ` set xs"
      and fresh: "blk_fresh alloc s p" for e p
  proof -
    have len: "length (blkdev_name e) < NAME_MAX" using adm by (simp add: blk_adm_def)
    have p: "p \<noteq> 0" "blk_heap s p = None" "dev_fresh s (alloc s)"
      using fresh by (simp_all add: blk_fresh_def)
    have e: "\<lparr>blkdev_size = blkdev_size e, blkdev_cnt = blkdev_cnt e, blkdev_name = blkdev_name e,
        blkdev_opts = blkdev_opts e\<rparr> = e" by (cases e) simp
    obtain s' ds' where "register_blkdev_entry fsopts alloc s p e = Some (0, s')" "device_rep s' ds'"
        "blkdev_rep s' ((p, e) # xs)"
      using register_blkdev_new [OF reps(2,1) blk_adm_rep(1) [OF reps adm free] len p
          blk_adm_rep(2) [OF reps adm free]]
      unfolding register_blkdev_entry_def by (metis e)
    then show ?thesis by (auto simp: blk_tables_def)
  qed
qed

subsection \<open>Properties\<close>

text \<open>Registering a block device under a free name adds it to the block devices and adds a device of the same name,
  of size block size times block count, whose minor number is the number of block devices so far.\<close>

theorem register_blkdev_adds:
  fixes s :: "'z blk_state_scheme"
  assumes "device_rep s ds" "blkdev_rep s xs"
    and "\<forall>x \<in> set ds. device_name (snd x) \<noteq> name" "\<forall>x \<in> set xs. blkdev_name (snd x) \<noteq> name"
    and "length name < NAME_MAX" "p \<noteq> 0" "blk_heap s p = None" "q \<noteq> 0" "dev_heap s q = None"
    and "\<forall>x \<in> set ds. device_dev (snd x) \<noteq> MKDEV DEVMAJ_BLOCK (of_nat (length xs))"
  shows "\<exists>s' :: 'z blk_state_scheme. register_blkdev fsopts s p q name blksize blkcnt opts = Some (0, s') \<and>
    device_rep s' ((q, \<lparr>device_dev = MKDEV DEVMAJ_BLOCK (of_nat (length xs)), device_size = blksize * blkcnt,
      device_name = name, device_opts = fsopts\<rparr>) # ds) \<and>
    blkdev_rep s' ((p, \<lparr>blkdev_size = blksize, blkdev_cnt = blkcnt, blkdev_name = name, blkdev_opts = opts\<rparr>) # xs)"
proof -
  have "blk_name_free ds xs name" "dev_fresh s q" using assms(3,4,8,9) by (auto simp: blk_name_free_def dev_fresh_def)
  from register_blkdev_new [OF assms(1,2) this(1) assms(5-7) this(2) assms(10), of fsopts blksize blkcnt opts]
  show ?thesis by metis
qed

definition sample_blkdev :: "string \<Rightarrow> blkdev" where
  "sample_blkdev name = \<lparr>blkdev_size = 512, blkdev_cnt = 8, blkdev_name = name, blkdev_opts = \<lparr>read_block = 1, write_block = 2\<rparr>\<rparr>"

definition sample_blk_device :: "string \<Rightarrow> u32 \<Rightarrow> device" where
  "sample_blk_device name minor = \<lparr>device_dev = MKDEV DEVMAJ_BLOCK minor, device_size = 4096, device_name = name, device_opts = no_opts\<rparr>"

abbreviation two_blkdevs :: "(ptr \<times> blkdev) list" where
  "two_blkdevs \<equiv> [(0x20, sample_blkdev ''hdb''), (0x10, sample_blkdev ''hda'')]"

abbreviation two_devices :: "(ptr \<times> device) list" where
  "two_devices \<equiv> [(0x40, sample_blk_device ''hdb'' 1), (0x30, sample_blk_device ''hda'' 0)]"

definition two_blk_state :: blk_state where
  "two_blk_state = \<lparr>klog_calls = [], dev_heap = heap_of two_devices, devices = 0x40, dev_count = 2,
     blk_heap = heap_of two_blkdevs, block_devices = 0x20, block_device_count = 2\<rparr>"

lemma two_blk_state_rep: "device_rep two_blk_state two_devices" "blkdev_rep two_blk_state two_blkdevs"
  "blk_numbered two_devices two_blkdevs"
  by (simp_all add: device_rep_def blkdev_rep_def two_blk_state_def blk_numbered_def sample_blk_device_def sample_blkdev_def
      NAME_MAX_def MKDEV_def DEVMAJ_BLOCK_def less_Suc_eq all_conj_distrib imp_conjL split: nat.splits)

theorem register_blkdev_adds_witness:
  "\<exists>t. register_blkdev no_opts two_blk_state 0x50 0x60 ''hdc'' 512 4 \<lparr>read_block = 1, write_block = 2\<rparr> = Some (0, t)"
  using register_blkdev_adds [OF two_blk_state_rep(1,2), of "''hdc''" "0x50" "0x60" no_opts 512 4 "\<lparr>read_block = 1, write_block = 2\<rparr>"]
  by (auto simp: two_blk_state_def sample_blk_device_def sample_blkdev_def NAME_MAX_def MKDEV_def DEVMAJ_BLOCK_def)

text \<open>\<open>unregister_blkdev\<close> takes away the wrong device. Minors are given in order of registration, but the list is
  newest first and the minor to remove is computed from the position in it: unregistering the \<open>i\<close>-th newest of \<open>n\<close> block devices
  returns 0, removes that block device, and removes the device of the \<open>(n - 1 - i)\<close>-th, its mirror image, from the device
  table.\<close>

theorem unregister_blkdev_mirrors:
  fixes s :: "'z blk_state_scheme"
  assumes "device_rep s ds" "blkdev_rep s xs" "blk_numbered ds xs" "i < length xs"
  shows "\<exists>(s' :: 'z blk_state_scheme) q d. unregister_blkdev s (blkdev_name (snd (xs ! i))) = Some (0, s') \<and>
    blkdev_rep s' (slist_del (fst (xs ! i)) xs) \<and> device_rep s' (slist_del q ds) \<and>
    (q, d) \<in> set ds \<and> device_name d = blkdev_name (snd (xs ! (length xs - 1 - i)))"
  by (rule unregister_blkdev_mirror [OF assms]) blast

theorem unregister_blkdev_mirrors_witness:
  "\<exists>t. unregister_blkdev two_blk_state ''hdb'' = Some (0, t) \<and> device_rep t [(0x40, sample_blk_device ''hdb'' 1)]"
  using unregister_blkdev_mirrors [OF two_blk_state_rep, of 0]
  by (auto simp: sample_blk_device_def sample_blkdev_def slist_del_def)

end
