(* ===== verification/Tty.thy ===== *)
theory Tty
  imports Blkdev
begin

text \<open>
  TTYs, \<^verbatim>\<open>newland/src/dev/tty.c\<close> and \<^verbatim>\<open>newland/include/newland/dev/tty.h\<close>. A TTY is
  registered twice, like a block device: in the list of TTYs and as a device whose minor is the
  count of TTYs so far. The driver's operations are code addresses. \<open>p\<close> and \<open>q\<close> are the
  answers of the two \<open>kmalloc\<close> calls. The lemmas follow those of block devices.
\<close>

record tty_opts =
  tty_read :: u32
  tty_write :: u32
  cursor_set :: u32
  cursor_move :: u32
  cursor_get :: u32
  win_get :: u32
  win_set :: u32

record tty =
  tty_name :: string
  tty_opts :: tty_opts

record tty_state = blk_state +
  tty_heap :: "tty heap"
  ttys :: ptr
  tty_cnt :: u32

subsection \<open>Operations\<close>

definition tty_count :: "'z tty_state_scheme \<Rightarrow> u32" where
  "tty_count s = tty_cnt s"

definition tty_indexof :: "'z tty_state_scheme \<Rightarrow> ptr \<Rightarrow> u32 option" where
  "tty_indexof s tty1 =
     (if ttys s = 0 then Some (- 1)
      else do {
        b \<leftarrow> deref (tty_heap s) tty1;
        slist_indexof (tty_heap s) (\<lambda>tty2. tty_name tty2 = tty_name b) (ttys s) 0
      })"

definition tty_get :: "'z tty_state_scheme \<Rightarrow> u32 \<Rightarrow> ptr option" where
  "tty_get s i = slist_get (tty_heap s) (ttys s) 0 i"

definition tty_fromname :: "'z tty_state_scheme \<Rightarrow> string \<Rightarrow> ptr option" where
  "tty_fromname s name = slist_find (tty_heap s) (\<lambda>b. tty_name b = name) (ttys s)"

text \<open>\<open>static fs_node_opts_t tty_fsopts = {}\<close>: a TTY's node has no operations.\<close>

definition tty_fsopts :: fs_node_opts where
  "tty_fsopts = no_opts"

definition register_tty ::
  "'z tty_state_scheme \<Rightarrow> ptr \<Rightarrow> ptr \<Rightarrow> string \<Rightarrow> tty_opts \<Rightarrow>
   (u32 \<times> 'z tty_state_scheme) option" where
  "register_tty s p q name opts = do {
     byname \<leftarrow> tty_fromname s name;
     dup \<leftarrow> (if byname \<noteq> 0 then Some True
            else map_option (\<lambda>d. d \<noteq> 0) (device_fromname s name));
     if dup then Some (err EEXIST, s)
     else if p = 0 then Some (err ENOMEM, s)
     else do {
       nm \<leftarrow> strcpy_field NAME_MAX name;
       let b = \<lparr>tty_name = nm, tty_opts = opts\<rparr>;
       let s1 = s\<lparr>tty_heap := (tty_heap s)(p \<mapsto> Cell b 0)\<rparr>;
       (r, s2) \<leftarrow> register_device s1 q (MKDEV DEVMAJ_TTY (tty_cnt s1)) name
         tty_fsopts 0;
       if sint r < 0 then Some (r, s2\<lparr>tty_heap := heap_free (tty_heap s2) p\<rparr>)
       else do {
         let s3 = printk_s (KLOG_INFO @ ''tty: registered %s'' @ [CHR 0x0A]) name s2;
         (h, head) \<leftarrow> SLIST_INSERT_HEAD (tty_heap s3) (ttys s3) p;
         Some (0, s3\<lparr>tty_heap := h, ttys := head,
           tty_cnt := tty_cnt s3 + 1\<rparr>)
       }
     }
   }"

definition unregister_tty ::
  "'z tty_state_scheme \<Rightarrow> string \<Rightarrow> (u32 \<times> 'z tty_state_scheme) option" where
  "unregister_tty s name = do {
     tty \<leftarrow> tty_fromname s name;
     missing \<leftarrow> (if tty = 0 then Some True
                else map_option (\<lambda>d. d = 0) (device_fromname s name));
     if missing then Some (err ENODEV, s)
     else do {
       idx \<leftarrow> tty_indexof s tty;
       (r, s1) \<leftarrow> unregister_device s (MKDEV DEVMAJ_TTY idx);
       if sint r < 0 then Some (r, s1)
       else do {
         let s2 = printk_s (KLOG_INFO @ ''tty: unregistered %s'' @ [CHR 0x0A]) name s1;
         (h, head) \<leftarrow> SLIST_REMOVE (tty_heap s2) (ttys s2) tty;
         Some (0, s2\<lparr>tty_heap := heap_free h tty, ttys := head,
           tty_cnt := tty_cnt s2 - 1\<rparr>)
       }
     }
   }"

subsection \<open>What the list holds\<close>

definition tty_rep :: "'z tty_state_scheme \<Rightarrow> (ptr \<times> tty) list \<Rightarrow> bool" where
  "tty_rep s xs \<longleftrightarrow> slist_rep (tty_heap s) (ttys s) xs \<and>
     tty_cnt s = of_nat (length xs) \<and> distinct (map (tty_name \<circ> snd) xs)"

lemma device_rep_tty [simp]:
  "device_rep (s\<lparr>tty_heap := h\<rparr>) ds \<longleftrightarrow> device_rep s ds"
  "device_rep (s\<lparr>ttys := p\<rparr>) ds \<longleftrightarrow> device_rep s ds"
  "device_rep (s\<lparr>tty_cnt := n\<rparr>) ds \<longleftrightarrow> device_rep s ds"
  by (simp_all add: device_rep_def)

lemma tty_rep_nonzero: "tty_rep s xs \<Longrightarrow> 0 \<notin> addrs xs"
  by (auto simp: tty_rep_def dest: slist_rep_nonzero)

lemma tty_rep_deref: "tty_rep s xs \<Longrightarrow> (p, b) \<in> set xs \<Longrightarrow> deref (tty_heap s) p = Some b"
  by (rule slist_rep_deref [of "tty_heap s" "ttys s" xs 0]) (simp_all add: tty_rep_def)

lemma tty_fromname_rep:
  "tty_rep s xs \<Longrightarrow> tty_fromname s name = Some (find_ptr (\<lambda>b. tty_name b = name) xs)"
  by (simp add: tty_rep_def tty_fromname_def slist_find_rep)

lemma tty_get_rep:
  "tty_rep s xs \<Longrightarrow> tty_get s i = Some (if unat i < length xs then fst (xs ! unat i) else 0)"
  by (simp add: tty_rep_def tty_get_def slist_get_rep)

lemma tty_indexof_rep:
  assumes "tty_rep s xs" "(p, b) \<in> set xs"
  shows "tty_indexof s p = Some (of_nat (first_index (\<lambda>e. tty_name e = tty_name b) xs))"
proof -
  have rep: "slist_rep (tty_heap s) (ttys s) xs" using assms(1) by (simp add: tty_rep_def)
  have "ttys s \<noteq> 0" using rep assms(2) by (cases xs) auto
  moreover have "first_index (\<lambda>e. tty_name e = tty_name b) xs < length xs"
    by (rule first_index_listed [OF assms(2) refl])
  ultimately show ?thesis
    using slist_rep_deref [OF rep assms(2)]
      slist_indexof_rep [OF rep, of "\<lambda>e. tty_name e = tty_name b" 0]
    by (simp add: tty_indexof_def)
qed

subsection \<open>Registration, on every branch\<close>

lemma register_tty_dup:
  assumes "device_rep s ds" "tty_rep s xs"
    and "(\<exists>x \<in> set xs. tty_name (snd x) = name) \<or> (\<exists>x \<in> set ds. device_name (snd x) = name)"
  shows "register_tty s p q name opts = Some (err EEXIST, s)"
proof -
  have nz: "0 \<notin> addrs ds" using assms(1) by (auto simp: device_rep_def dest: slist_rep_nonzero)
  from assms(3) show ?thesis
  proof (elim disjE bexE)
    fix x assume "x \<in> set xs" "tty_name (snd x) = name"
    then have "find_ptr (\<lambda>b. tty_name b = name) xs \<noteq> 0"
      by (rule find_ptr_neq_0 [OF tty_rep_nonzero [OF assms(2)]])
    then show ?thesis by (simp add: register_tty_def tty_fromname_rep [OF assms(2)])
  next
    fix x assume "x \<in> set ds" "device_name (snd x) = name"
    then have "find_ptr (\<lambda>d. device_name d = name) ds \<noteq> 0"
      by (rule find_ptr_neq_0 [OF nz])
    then show ?thesis
      by (simp add: register_tty_def tty_fromname_rep [OF assms(2)] device_fromname_rep [OF assms(1)])
  qed
qed

text \<open>The name is free in both registries.\<close>

definition tty_name_free :: "(ptr \<times> device) list \<Rightarrow> (ptr \<times> tty) list \<Rightarrow> string \<Rightarrow> bool" where
  "tty_name_free ds xs name \<longleftrightarrow> (\<forall>x \<in> set xs. tty_name (snd x) \<noteq> name) \<and>
     (\<forall>x \<in> set ds. device_name (snd x) \<noteq> name)"

lemma tty_name_free_lookup:
  assumes "device_rep s ds" "tty_rep s xs" "tty_name_free ds xs name"
  shows "tty_fromname s name = Some 0" "device_fromname s name = Some 0"
proof -
  show "tty_fromname s name = Some 0"
    using assms(3) find_ptr_eq_0 [OF tty_rep_nonzero [OF assms(2)], of "\<lambda>b. tty_name b = name"]
    by (simp add: tty_fromname_rep [OF assms(2)] tty_name_free_def)
  have "0 \<notin> addrs ds" using assms(1) by (auto simp: device_rep_def dest: slist_rep_nonzero)
  then show "device_fromname s name = Some 0"
    using assms(3) find_ptr_eq_0 [of ds "\<lambda>b. device_name b = name"]
    by (simp add: device_fromname_rep [OF assms(1)] tty_name_free_def)
qed

lemma register_tty_oom:
  assumes "device_rep s ds" "tty_rep s xs" "tty_name_free ds xs name"
  shows "register_tty s 0 q name opts = Some (err ENOMEM, s)"
  by (simp add: register_tty_def tty_name_free_lookup [OF assms])

text \<open>
  A TTY takes the number of TTYs so far as its minor. When that device number
  is taken, or the device's own allocation fails, the TTY is released again and the
  state is as before.
\<close>

lemma register_tty_undone:
  assumes "device_rep s ds" "tty_rep s xs" "tty_name_free ds xs name"
    and "length name < NAME_MAX" "p \<noteq> 0" "tty_heap s p = None"
    and "(\<exists>x \<in> set ds. device_dev (snd x) = MKDEV DEVMAJ_TTY (tty_cnt s)) \<or> q = 0"
  shows "register_tty s p q name opts =
    Some (if \<exists>x \<in> set ds. device_dev (snd x) = MKDEV DEVMAJ_TTY (tty_cnt s)
      then err EEXIST else err ENOMEM, s)"
proof -
  let ?b = "\<lparr>tty_name = name, tty_opts = opts\<rparr>"
  let ?s1 = "s\<lparr>tty_heap := (tty_heap s)(p \<mapsto> Cell ?b 0)\<rparr>"
  let ?dup = "\<exists>x \<in> set ds. device_dev (snd x) = MKDEV DEVMAJ_TTY (tty_cnt s)"
  have rep: "device_rep ?s1 ds" using assms(1) by simp
  have "register_device ?s1 q (MKDEV DEVMAJ_TTY (tty_cnt s)) name tty_fsopts 0 =
      Some (if ?dup then err EEXIST else err ENOMEM, ?s1)"
  proof (cases ?dup)
    case True
    then have "\<exists>x \<in> set ds. device_name (snd x) = name \<or>
        device_dev (snd x) = MKDEV DEVMAJ_TTY (tty_cnt s)" by blast
    from register_device_dup [OF rep _ this] show ?thesis using True assms(4) by simp
  next
    case False
    then show ?thesis
      using register_device_oom [OF rep, of name "MKDEV DEVMAJ_TTY (tty_cnt s)"] assms(3,4,7)
      by (auto simp: tty_name_free_def)
  qed
  moreover have "heap_free ((tty_heap s)(p \<mapsto> c)) p = tty_heap s" for c
    using assms(6) by (auto simp: heap_free_def)
  ultimately show ?thesis
    using assms(4,5) by (simp add: register_tty_def tty_name_free_lookup [OF assms(1-3)])
qed

lemma register_tty_new:
  fixes s :: "'z tty_state_scheme"
  assumes "device_rep s ds" "tty_rep s xs" "tty_name_free ds xs name"
    and "length name < NAME_MAX" "p \<noteq> 0" "tty_heap s p = None" "dev_fresh s q"
    and "\<forall>x \<in> set ds. device_dev (snd x) \<noteq> MKDEV DEVMAJ_TTY (of_nat (length xs))"
  obtains s' :: "'z tty_state_scheme" where
    "register_tty s p q name opts = Some (0, s')"
    "device_rep s' ((q, \<lparr>device_dev = MKDEV DEVMAJ_TTY (of_nat (length xs)),
      device_size = 0, device_name = name, device_opts = tty_fsopts\<rparr>) # ds)"
    "tty_rep s' ((p, \<lparr>tty_name = name,
      tty_opts = opts\<rparr>) # xs)"
proof -
  define b where "b = \<lparr>tty_name = name, tty_opts = opts\<rparr>"
  define d where "d = \<lparr>device_dev = MKDEV DEVMAJ_TTY (of_nat (length xs)),
      device_size = 0, device_name = name, device_opts = tty_fsopts\<rparr>"
  define s1 where "s1 = s\<lparr>tty_heap := (tty_heap s)(p \<mapsto> Cell b 0)\<rparr>"
  have cnt: "tty_cnt s = of_nat (length xs)" using assms(2) by (simp add: tty_rep_def)
  have rep: "slist_rep (tty_heap s) (ttys s) xs" using assms(2) by (simp add: tty_rep_def)
  have p: "p \<notin> addrs xs" using fresh_not_listed [OF rep assms(6)] .
  have rep1: "device_rep s1 ds" "dev_fresh s1 q" using assms(1,7) by (simp_all add: s1_def dev_fresh_def)
  have free: "\<forall>x \<in> set ds. device_name (snd x) \<noteq> name \<and>
      device_dev (snd x) \<noteq> MKDEV DEVMAJ_TTY (of_nat (length xs))"
    using assms(3,8) by (simp add: tty_name_free_def)
  note reg = register_device_new [OF rep1(1) assms(4) rep1(2) free,
      where opts = tty_fsopts and sz = 0, folded d_def]
  let ?s2 = "s1\<lparr>dev_heap := (dev_heap s1)(q \<mapsto> Cell d (devices s1)), devices := q,
    dev_count := dev_count s1 + 1\<rparr>"
  let ?s3 = "printk_s (KLOG_INFO @ ''tty: registered %s'' @ [CHR 0x0A]) name ?s2"
  let ?s4 = "?s3\<lparr>tty_heap := (tty_heap s)(p \<mapsto> Cell b (ttys s)), ttys := p,
    tty_cnt := tty_cnt s + 1\<rparr>"
  have ins: "SLIST_INSERT_HEAD (tty_heap ?s3) (ttys ?s3) p =
      Some ((tty_heap s)(p \<mapsto> Cell b (ttys s)), p)"
    using SLIST_INSERT_HEAD_rep(1) [OF rep assms(5) p, of b 0] by (simp add: s1_def printk_s_def)
  have "register_tty s p q name opts = Some (0, ?s4)"
    using assms(4,5) reg(1) ins cnt
    by (simp add: register_tty_def tty_name_free_lookup [OF assms(1-3)] b_def [symmetric]
        s1_def [symmetric]) (simp add: s1_def printk_s_def)
  moreover have "device_rep ?s4 ((q, d) # ds)"
    using reg(2) by (simp add: printk_s_def)
  moreover have "tty_name b = name" by (simp add: b_def)
  then have "tty_rep ?s4 ((p, b) # xs)"
    using SLIST_INSERT_HEAD_rep(2) [OF rep assms(5) p, of b] assms(2,3)
    by (auto simp: tty_rep_def tty_name_free_def add.commute)
  ultimately show ?thesis using that by (simp add: b_def d_def)
qed

subsection \<open>Numbering\<close>

text \<open>
  New TTYs go to the front of the list while their minor is the count so far, so the
  device at position \<open>i\<close> of \<open>n\<close> has minor \<open>n - 1 - i\<close>: the order of the list is the
  reverse of the order of the minors. \<open>tty_get\<close> and \<open>unregister_tty\<close> use positions.
\<close>

definition tty_numbered :: "(ptr \<times> device) list \<Rightarrow> (ptr \<times> tty) list \<Rightarrow> bool" where
  "tty_numbered ds xs \<longleftrightarrow> (\<forall>i < length xs. \<exists>x \<in> set ds.
     device_name (snd x) = tty_name (snd (xs ! i)) \<and>
     device_dev (snd x) = MKDEV DEVMAJ_TTY (of_nat (length xs - 1 - i)))"

lemma tty_numbered_Nil [simp]: "tty_numbered ds []"
  by (simp add: tty_numbered_def)

lemma tty_numbered_Cons:
  assumes "tty_numbered ds xs" "device_name d = tty_name b"
    and "device_dev d = MKDEV DEVMAJ_TTY (of_nat (length xs))"
  shows "tty_numbered ((q, d) # ds) ((p, b) # xs)"
  unfolding tty_numbered_def
proof (intro allI impI)
  fix i assume i: "i < length ((p, b) # xs)"
  show "\<exists>x \<in> set ((q, d) # ds). device_name (snd x) = tty_name (snd (((p, b) # xs) ! i)) \<and>
    device_dev (snd x) = MKDEV DEVMAJ_TTY (of_nat (length ((p, b) # xs) - 1 - i))"
  proof (cases i)
    case 0
    then show ?thesis using assms(2,3) by simp
  next
    case (Suc j)
    then have "j < length xs" using i by simp
    with assms(1) obtain x where "x \<in> set ds" "device_name (snd x) = tty_name (snd (xs ! j))"
      "device_dev (snd x) = MKDEV DEVMAJ_TTY (of_nat (length xs - 1 - j))"
      unfolding tty_numbered_def by blast
    then show ?thesis using Suc by (intro bexI [of _ x]) auto
  qed
qed

subsection \<open>Withdrawal\<close>

lemma unregister_tty_absent:
  assumes "device_rep s ds" "tty_rep s xs"
    and "(\<forall>x \<in> set xs. tty_name (snd x) \<noteq> name) \<or> (\<forall>x \<in> set ds. device_name (snd x) \<noteq> name)"
  shows "unregister_tty s name = Some (err ENODEV, s)"
proof -
  have nz: "0 \<notin> addrs ds" using assms(1) by (auto simp: device_rep_def dest: slist_rep_nonzero)
  from assms(3) show ?thesis
  proof
    assume "\<forall>x \<in> set xs. tty_name (snd x) \<noteq> name"
    then have "find_ptr (\<lambda>b. tty_name b = name) xs = 0"
      by (rule find_ptr_eq_0 [OF tty_rep_nonzero [OF assms(2)]])
    then show ?thesis by (simp add: unregister_tty_def tty_fromname_rep [OF assms(2)])
  next
    assume "\<forall>x \<in> set ds. device_name (snd x) \<noteq> name"
    then have "find_ptr (\<lambda>d. device_name d = name) ds = 0" by (rule find_ptr_eq_0 [OF nz])
    then show ?thesis
      by (simp add: unregister_tty_def tty_fromname_rep [OF assms(2)] device_fromname_rep [OF assms(1)])
  qed
qed

lemma tty_found:
  assumes "tty_rep s xs" "i < length xs"
  shows "find_ptr (\<lambda>b. tty_name b = tty_name (snd (xs ! i))) xs = fst (xs ! i)"
    and "first_index (\<lambda>b. tty_name b = tty_name (snd (xs ! i))) xs = i"
proof -
  let ?P = "\<lambda>b. tty_name b = tty_name (snd (xs ! i))"
  have dist: "distinct (map (tty_name \<circ> snd) xs)" using assms(1) by (simp add: tty_rep_def)
  have lt: "first_index ?P xs < length xs"
    by (rule first_index_listed [of "fst (xs ! i)" "snd (xs ! i)"]) (use assms(2) in simp_all)
  have "map (tty_name \<circ> snd) xs ! first_index ?P xs = map (tty_name \<circ> snd) xs ! i"
    using first_index_nth [OF lt] lt assms(2) by simp
  then show idx: "first_index ?P xs = i"
    using nth_eq_iff_index_eq [OF dist, of "first_index ?P xs" i] lt assms(2) by simp
  then show "find_ptr ?P xs = fst (xs ! i)" using find_ptr_nth [OF lt] by simp
qed

text \<open>
  \<open>unregister_tty\<close> withdraws the TTY it is asked for, and the device whose minor
  is that TTY's position, which belongs to the entry mirrored in the list.
\<close>

lemma unregister_tty_mirror:
  fixes s :: "'z tty_state_scheme"
  assumes "device_rep s ds" "tty_rep s xs" "tty_numbered ds xs" "i < length xs"
  obtains s' :: "'z tty_state_scheme" and q d where
    "unregister_tty s (tty_name (snd (xs ! i))) = Some (0, s')"
    "tty_rep s' (slist_del (fst (xs ! i)) xs)" "device_rep s' (slist_del q ds)"
    "(q, d) \<in> set ds" "device_name d = tty_name (snd (xs ! (length xs - 1 - i)))"
proof -
  let ?p = "fst (xs ! i)" and ?name = "tty_name (snd (xs ! i))"
  have rep: "slist_rep (tty_heap s) (ttys s) xs" using assms(2) by (simp add: tty_rep_def)
  have mem: "(?p, snd (xs ! i)) \<in> set xs" using assms(4) by simp
  then have pin: "?p \<in> addrs xs" using assms(4) by force
  then have pnz: "?p \<noteq> 0" using slist_rep_nonzero [OF rep] by metis
  have j: "length xs - 1 - i < length xs" "length xs - 1 - (length xs - 1 - i) = i"
    using assms(4) by simp_all
  obtain x where x: "x \<in> set ds" "device_name (snd x) = tty_name (snd (xs ! (length xs - 1 - i)))"
    "device_dev (snd x) = MKDEV DEVMAJ_TTY (of_nat i)"
    using assms(3) j unfolding tty_numbered_def by metis
  obtain y where y: "y \<in> set ds" "device_name (snd y) = ?name"
    using assms(3,4) unfolding tty_numbered_def by metis
  have nz: "0 \<notin> addrs ds" using assms(1) by (auto simp: device_rep_def dest: slist_rep_nonzero)
  have dfound: "find_ptr (\<lambda>d. device_name d = ?name) ds \<noteq> 0"
    by (rule find_ptr_neq_0 [OF nz y(1)]) (rule y(2))
  have idx: "tty_indexof s ?p = Some (of_nat i)"
    using tty_indexof_rep [OF assms(2) mem] tty_found(2) [OF assms(2,4)] by simp
  obtain h head where un: "unregister_device s (MKDEV DEVMAJ_TTY (of_nat i)) =
      Some (0, s\<lparr>dev_heap := h, devices := head, dev_count := dev_count s - 1\<rparr>)"
    "device_rep (s\<lparr>dev_heap := h, devices := head, dev_count := dev_count s - 1\<rparr>) (slist_del (fst x) ds)"
    using unregister_device_present [OF assms(1), of "fst x" "snd x"] x by (metis prod.collapse)
  obtain h' head' where rm: "SLIST_REMOVE (tty_heap s) (ttys s) ?p = Some (h', head')"
    "slist_rep h' head' (slist_del ?p xs)"
    using SLIST_REMOVE_rep [OF rep pin] by metis
  let ?s1 = "s\<lparr>dev_heap := h, devices := head, dev_count := dev_count s - 1\<rparr>"
  let ?s2 = "(printk_s (KLOG_INFO @ ''tty: unregistered %s'' @ [CHR 0x0A]) ?name ?s1)
    \<lparr>tty_heap := heap_free h' ?p, ttys := head', tty_cnt := tty_cnt s - 1\<rparr>"
  have "unregister_tty s ?name = Some (0, ?s2)"
    using pnz dfound idx un(1) rm(1)
    by (simp add: unregister_tty_def tty_fromname_rep [OF assms(2)] tty_found(1) [OF assms(2,4)]
        device_fromname_rep [OF assms(1)] printk_s_def)
  moreover have "slist_rep (heap_free h' ?p) head' (slist_del ?p xs)"
    using rm(2) by (simp add: heap_free_rep)
  then have "tty_rep ?s2 (slist_del ?p xs)"
    using assms(2) length_slist_del [OF slist_rep_distinct [OF rep] pin] assms(4)
    by (auto simp: tty_rep_def distinct_map_slist_del of_nat_pred)
  moreover have "device_rep ?s2 (slist_del (fst x) ds)"
    using un(2) by (simp add: printk_s_def)
  ultimately show ?thesis using that [of ?s2 "fst x" "snd x"] x(1,2) by simp
qed

subsection \<open>The table contract\<close>

text \<open>
  For an allocator \<open>alloc\<close> that answers the inner \<open>kmalloc\<close>, TTYs form a key table
  by name, as long as the name and the next minor are free in the device registry.
\<close>

definition register_tty_entry ::
  "('z tty_state_scheme \<Rightarrow> ptr) \<Rightarrow> 'z tty_state_scheme \<Rightarrow> ptr \<Rightarrow> tty \<Rightarrow>
   (u32 \<times> 'z tty_state_scheme) option" where
  "register_tty_entry alloc s p b =
     register_tty s p (alloc s) (tty_name b) (tty_opts b)"

definition tty_adm :: "'z tty_state_scheme \<Rightarrow> tty \<Rightarrow> bool" where
  "tty_adm s b \<longleftrightarrow> length (tty_name b) < NAME_MAX \<and>
     device_fromdev s (MKDEV DEVMAJ_TTY (tty_cnt s)) = Some 0 \<and>
     (tty_fromname s (tty_name b) = Some 0 \<longrightarrow> device_fromname s (tty_name b) = Some 0)"

definition tty_tables :: "'z tty_state_scheme \<Rightarrow> (ptr \<times> tty) list \<Rightarrow> bool" where
  "tty_tables s xs \<longleftrightarrow> tty_rep s xs \<and> (\<exists>ds. device_rep s ds)"

definition tty_fresh :: "('z tty_state_scheme \<Rightarrow> ptr) \<Rightarrow> 'z tty_state_scheme \<Rightarrow> ptr \<Rightarrow> bool" where
  "tty_fresh alloc s p \<longleftrightarrow> p \<noteq> 0 \<and> tty_heap s p = None \<and> dev_fresh s (alloc s)"

lemma tty_adm_rep:
  assumes "tty_rep s xs" "device_rep s ds" "tty_adm s b"
    "tty_name b \<notin> tty_name ` snd ` set xs"
  shows "tty_name_free ds xs (tty_name b)"
    and "\<forall>x \<in> set ds. device_dev (snd x) \<noteq> MKDEV DEVMAJ_TTY (of_nat (length xs))"
proof -
  have nz: "0 \<notin> addrs ds" using assms(2) by (auto simp: device_rep_def dest: slist_rep_nonzero)
  have free: "\<forall>x \<in> set xs. tty_name (snd x) \<noteq> tty_name b"
    using assms(4) by (simp add: key_image)
  then have "find_ptr (\<lambda>e. tty_name e = tty_name b) xs = 0"
    by (rule find_ptr_eq_0 [OF tty_rep_nonzero [OF assms(1)]])
  then have "device_fromname s (tty_name b) = Some 0"
    using assms(3) by (simp add: tty_adm_def tty_fromname_rep [OF assms(1)])
  then show "tty_name_free ds xs (tty_name b)"
    using free find_ptr_0_iff [OF nz] by (simp add: device_fromname_rep [OF assms(2)] tty_name_free_def)
  show "\<forall>x \<in> set ds. device_dev (snd x) \<noteq> MKDEV DEVMAJ_TTY (of_nat (length xs))"
    using assms(1,3) find_ptr_0_iff [OF nz]
    by (simp add: tty_adm_def device_fromdev_rep [OF assms(2)] tty_rep_def)
qed

interpretation tty_names: key_table tty_tables "tty_fresh alloc" tty_adm tty_name tty_fromname
  "register_tty_entry alloc" tty_count
  for alloc :: "'a tty_state_scheme \<Rightarrow> ptr"
proof unfold_locales
  fix s :: "'a tty_state_scheme" and xs
  assume t: "tty_tables s xs"
  then obtain ds where reps: "tty_rep s xs" "device_rep s ds" by (auto simp: tty_tables_def)
  show "0 \<notin> addrs xs" "distinct (map fst xs)"
    using reps(1) by (auto simp: tty_rep_def dest: slist_rep_nonzero slist_rep_distinct)
  show "distinct (map (tty_name \<circ> snd) xs)" "tty_count s = of_nat (length xs)"
    using reps(1) by (simp_all add: tty_rep_def tty_count_def)
  show "tty_fromname s k = Some (find_ptr (\<lambda>e. tty_name e = k) xs)" for k
    by (rule tty_fromname_rep [OF reps(1)])
  show "register_tty_entry alloc s p e = Some (err EEXIST, s)"
    if "tty_name e \<in> tty_name ` snd ` set xs" for e p
    using that register_tty_dup [OF reps(2,1), of "tty_name e"]
    by (simp add: register_tty_entry_def key_image)
  show "register_tty_entry alloc s 0 e = Some (err ENOMEM, s)"
    if "tty_adm s e" "tty_name e \<notin> tty_name ` snd ` set xs" for e
    using register_tty_oom [OF reps(2,1) tty_adm_rep(1) [OF reps that]]
    by (simp add: register_tty_entry_def)
  show "\<exists>s'. register_tty_entry alloc s p e = Some (0, s') \<and> tty_tables s' ((p, e) # xs)"
    if adm: "tty_adm s e" and free: "tty_name e \<notin> tty_name ` snd ` set xs"
      and fresh: "tty_fresh alloc s p" for e p
  proof -
    have len: "length (tty_name e) < NAME_MAX" using adm by (simp add: tty_adm_def)
    have p: "p \<noteq> 0" "tty_heap s p = None" "dev_fresh s (alloc s)"
      using fresh by (simp_all add: tty_fresh_def)
    have e: "\<lparr>tty_name = tty_name e,
        tty_opts = tty_opts e\<rparr> = e" by (cases e) simp
    obtain s' ds' where "register_tty_entry alloc s p e = Some (0, s')" "device_rep s' ds'"
        "tty_rep s' ((p, e) # xs)"
      using register_tty_new [OF reps(2,1) tty_adm_rep(1) [OF reps adm free] len p
          tty_adm_rep(2) [OF reps adm free]]
      unfolding register_tty_entry_def by (metis e)
    then show ?thesis by (auto simp: tty_tables_def)
  qed
qed

end
