(* ===== verification/LibcString.thy ===== *)
theory LibcString
  imports Prelude
begin

text \<open>
  \<^verbatim>\<open>libraries/libc/src/string/*.c\<close> over a byte-addressed memory. A memory maps the addresses
  the program may touch to a byte; reading or writing any other address is a fault. Pointer
  arithmetic is 32-bit. Each loop is translated as it is written, with its pointers and
  counters as arguments; the value-level functions at the end of each group say what the
  loop computes, and the kernel's tables use those on their name fields.
\<close>

type_synonym mem = "ptr \<Rightarrow> u8 option"

definition store :: "mem \<Rightarrow> ptr \<Rightarrow> u8 \<Rightarrow> mem option" where
  "store m p b = (case m p of None \<Rightarrow> None | Some _ \<Rightarrow> Some (m(p \<mapsto> b)))"

subsection \<open>Regions and strings in memory\<close>

text \<open>Offset of an address in the region that starts at \<open>p\<close>.\<close>

abbreviation off :: "ptr \<Rightarrow> ptr \<Rightarrow> nat" where
  "off a p \<equiv> unat (a - p)"

definition mapped :: "mem \<Rightarrow> ptr \<Rightarrow> nat \<Rightarrow> bool" where
  "mapped m p n \<longleftrightarrow> (\<forall>a. off a p < n \<longrightarrow> m a \<noteq> None)"

definition disjoint :: "ptr \<Rightarrow> nat \<Rightarrow> ptr \<Rightarrow> nat \<Rightarrow> bool" where
  "disjoint p n q k \<longleftrightarrow> (\<forall>a. \<not> (off a p < n \<and> off a q < k))"

primrec bytes_at :: "mem \<Rightarrow> ptr \<Rightarrow> u8 list \<Rightarrow> bool" where
  "bytes_at m p [] \<longleftrightarrow> True"
| "bytes_at m p (b # bs) \<longleftrightarrow> m p = Some b \<and> bytes_at m (p + 1) bs"

primrec write_bytes :: "mem \<Rightarrow> ptr \<Rightarrow> u8 list \<Rightarrow> mem" where
  "write_bytes m p [] = m"
| "write_bytes m p (b # bs) = write_bytes (m(p \<mapsto> b)) (p + 1) bs"

text \<open>A NUL-terminated string at \<open>p\<close>.\<close>

primrec str_at :: "mem \<Rightarrow> ptr \<Rightarrow> string \<Rightarrow> bool" where
  "str_at m p [] \<longleftrightarrow> m p = Some 0"
| "str_at m p (c # s) \<longleftrightarrow> c \<noteq> CHR 0x00 \<and> m p = Some (byte c) \<and> str_at m (p + 1) s"

lemma store_mapped: "m p \<noteq> None \<Longrightarrow> store m p b = Some (m(p \<mapsto> b))"
  by (auto simp: store_def)

lemma off_Suc: "a \<noteq> p \<Longrightarrow> off a p = Suc (off a (p + 1))"
proof -
  assume "a \<noteq> p"
  then have "a - p \<noteq> 0" by simp
  then have "unat (a - p - 1) = unat (a - p) - 1" "0 < unat (a - p)"
    by (simp_all add: unat_minus_one unat_gt_0)
  then show ?thesis by (simp add: diff_diff_eq)
qed

lemma off_succ_less: "off a (p + 1) < n \<Longrightarrow> n < 4294967296 \<Longrightarrow> off a p < Suc n"
  by (cases "a = p") (simp_all add: off_Suc)

lemma off_self_succ: "off p (p + 1) = 4294967295"
  by (simp add: unsigned_minus_1_eq_mask mask_eq_exp_minus_1)

lemma mapped_Suc: "mapped m p (Suc n) \<Longrightarrow> n < 4294967296 \<Longrightarrow> m p \<noteq> None \<and> mapped m (p + 1) n"
  unfolding mapped_def using off_succ_less [of _ p n] by auto

lemma mapped_upd [simp]: "mapped m q n \<Longrightarrow> mapped (m(p \<mapsto> b)) q n"
  by (auto simp: mapped_def)

lemma write_bytes_nth:
  assumes "length bs \<le> 4294967296"
  shows "write_bytes m p bs a = (if off a p < length bs then Some (bs ! off a p) else m a)"
  using assms
proof (induction bs arbitrary: m p)
  case Nil
  then show ?case by simp
next
  case (Cons b bs)
  then have IH: "write_bytes (m(p \<mapsto> b)) (p + 1) bs a =
    (if off a (p + 1) < length bs then Some (bs ! off a (p + 1)) else (m(p \<mapsto> b)) a)" by simp
  show ?case
  proof (cases "a = p")
    case True
    have "\<not> off p (p + 1) < length bs"
      using Cons.prems by (simp only: off_self_succ) simp
    with IH True show ?thesis by simp
  next
    case False
    with IH show ?thesis by (simp add: off_Suc)
  qed
qed

lemma mapped_write_bytes [simp]: "mapped m q n \<Longrightarrow> mapped (write_bytes m p bs) q n"
  by (induction bs arbitrary: m p) simp_all

lemma bytes_at_nth:
  assumes "length bs \<le> 4294967296"
  shows "bytes_at m p bs \<longleftrightarrow> (\<forall>a. off a p < length bs \<longrightarrow> m a = Some (bs ! off a p))"
  using assms
proof (induction bs arbitrary: p)
  case Nil
  then show ?case by simp
next
  case (Cons b bs)
  then have IH: "bytes_at m (p + 1) bs \<longleftrightarrow>
    (\<forall>a. off a (p + 1) < length bs \<longrightarrow> m a = Some (bs ! off a (p + 1)))" by simp
  have len: "length bs \<le> 4294967295" using Cons.prems by simp
  show ?case
  proof
    assume at: "bytes_at m p (b # bs)"
    have "m a = Some ((b # bs) ! off a p)" if "off a p < length (b # bs)" for a
      using at IH that by (cases "a = p") (simp_all add: off_Suc)
    then show "\<forall>a. off a p < length (b # bs) \<longrightarrow> m a = Some ((b # bs) ! off a p)" by blast
  next
    assume H: "\<forall>a. off a p < length (b # bs) \<longrightarrow> m a = Some ((b # bs) ! off a p)"
    have "m p = Some b" using H [rule_format, of p] by simp
    moreover have "m a = Some (bs ! off a (p + 1))" if "off a (p + 1) < length bs" for a
    proof -
      have "a \<noteq> p"
      proof
        assume "a = p"
        with that len show False by (simp only: off_self_succ)
      qed
      then show ?thesis using that H [rule_format, of a] by (simp add: off_Suc)
    qed
    ultimately show "bytes_at m p (b # bs)" using IH by simp
  qed
qed

lemma bytes_at_write_bytes:
  "length bs \<le> 4294967296 \<Longrightarrow> bytes_at (write_bytes m p bs) p bs"
  by (simp add: bytes_at_nth write_bytes_nth)

lemma write_bytes_frame:
  "length bs \<le> 4294967296 \<Longrightarrow> \<not> off a p < length bs \<Longrightarrow> write_bytes m p bs a = m a"
  by (simp add: write_bytes_nth)

text \<open>The bytes of a string, its terminator included.\<close>

definition cstring :: "string \<Rightarrow> u8 list" where
  "cstring s = map byte s @ [0]"

lemma length_cstring [simp]: "length (cstring s) = Suc (length s)"
  by (simp add: cstring_def)

lemma cstring_simps [simp]: "cstring [] = [0]" "cstring (c # s) = byte c # cstring s"
  by (simp_all add: cstring_def)

lemma str_at_bytes: "str_at m p s \<longleftrightarrow> CHR 0x00 \<notin> set s \<and> bytes_at m p (cstring s)"
  by (induction s arbitrary: p) auto

lemma str_at_no_NUL: "str_at m p s \<Longrightarrow> CHR 0x00 \<notin> set s"
  by (simp add: str_at_bytes)

lemma str_at_det: "str_at m p s \<Longrightarrow> str_at m p t \<Longrightarrow> s = t"
proof (induction s arbitrary: p t)
  case Nil
  then show ?case by (cases t) (auto simp flip: byte_NUL)
next
  case (Cons c s)
  then show ?case by (cases t) (auto simp flip: byte_NUL)
qed

subsection \<open>strlen\<close>

partial_function (option) strlen_loop :: "mem \<Rightarrow> ptr \<Rightarrow> u32 \<Rightarrow> u32 option" where
  "strlen_loop m str len = (case m str of
      None \<Rightarrow> None
    | Some c \<Rightarrow> if c \<noteq> 0 then strlen_loop m (str + 1) (len + 1) else Some len)"

definition strlen :: "mem \<Rightarrow> ptr \<Rightarrow> u32 option" where
  "strlen m str = strlen_loop m str 0"

lemma strlen_loop_str: "str_at m p s \<Longrightarrow> strlen_loop m p n = Some (n + of_nat (length s))"
proof (induction s arbitrary: p n)
  case Nil
  then show ?case by (simp add: strlen_loop.simps)
next
  case (Cons c s)
  then show ?case by (subst strlen_loop.simps) (simp add: add.commute add.left_commute)
qed

lemma strlen_str: "str_at m p s \<Longrightarrow> strlen m p = Some (of_nat (length s))"
  by (simp add: strlen_def strlen_loop_str)

lemma strlen_loop_returns:
  assumes "strlen_loop m p n = Some k"
  shows "\<exists>s. str_at m p s \<and> k = n + of_nat (length s)"
proof (rule strlen_loop.raw_induct [of "\<lambda>m p n k. \<exists>s. str_at m p s \<and> k = n + of_nat (length s)",
      OF _ assms])
  fix f :: "mem \<Rightarrow> ptr \<Rightarrow> u32 \<Rightarrow> u32 option" and m p n k
  assume IH: "\<And>m p n k. f m p n = Some k \<Longrightarrow> \<exists>s. str_at m p s \<and> k = n + of_nat (length s)"
    and step: "(case m p of None \<Rightarrow> None
      | Some c \<Rightarrow> if c \<noteq> 0 then f m (p + 1) (n + 1) else Some n) = Some k"
  then obtain c where c: "m p = Some c" by (auto split: option.splits)
  show "\<exists>s. str_at m p s \<and> k = n + of_nat (length s)"
  proof (cases "c = 0")
    case True
    with step c show ?thesis by (intro exI [of _ "[]"]) simp
  next
    case False
    with step c have "f m (p + 1) (n + 1) = Some k" by simp
    then obtain s where "str_at m (p + 1) s" "k = n + 1 + of_nat (length s)" using IH by blast
    with c False show ?thesis
      by (intro exI [of _ "char_of_byte c # s"]) simp
  qed
qed

text \<open>
  \<open>strlen\<close> returns exactly on NUL-terminated memory: anything else runs off the mapped
  bytes (a fault) or never ends.
\<close>

lemma strlen_returns_iff:
  "strlen m p = Some k \<longleftrightarrow> (\<exists>s. str_at m p s \<and> k = of_nat (length s))"
  using strlen_loop_returns [of m p 0 k] strlen_str by (auto simp: strlen_def)

subsection \<open>strcmp and strncmp\<close>

partial_function (option) strcmp_mem :: "mem \<Rightarrow> ptr \<Rightarrow> ptr \<Rightarrow> u32 option" where
  "strcmp_mem m s1 s2 = (case m s1 of
      None \<Rightarrow> None
    | Some a \<Rightarrow> (case m s2 of
        None \<Rightarrow> None
      | Some b \<Rightarrow> if a \<noteq> 0 \<and> a = b then strcmp_mem m (s1 + 1) (s2 + 1) else Some (ucast a - ucast b)))"

partial_function (option) strncmp_loop :: "mem \<Rightarrow> ptr \<Rightarrow> ptr \<Rightarrow> u32 \<Rightarrow> u32 option" where
  "strncmp_loop m s1 s2 n = (case m s1 of
      None \<Rightarrow> None
    | Some a \<Rightarrow> (case m s2 of
        None \<Rightarrow> None
      | Some b \<Rightarrow>
          if n \<noteq> 0 \<and> a = b \<and> \<not> (n - 1 = 0 \<or> a = 0)
          then strncmp_loop m (s1 + 1) (s2 + 1) (n - 1)
          else Some (ucast a - ucast b)))"

definition strncmp_mem :: "mem \<Rightarrow> ptr \<Rightarrow> ptr \<Rightarrow> u32 \<Rightarrow> u32 option" where
  "strncmp_mem m s1 s2 n = (if n = 0 then Some 0 else strncmp_loop m s1 s2 n)"

text \<open>The value of the comparison on two strings.\<close>

fun strcmp :: "string \<Rightarrow> string \<Rightarrow> u32" where
  "strcmp [] [] = 0"
| "strcmp [] (d # t) = - ucast (byte d)"
| "strcmp (c # s) [] = ucast (byte c)"
| "strcmp (c # s) (d # t) = (if c = d then strcmp s t else ucast (byte c) - ucast (byte d))"

definition strncmp :: "string \<Rightarrow> string \<Rightarrow> nat \<Rightarrow> u32" where
  "strncmp s t n = strcmp (take n s) (take n t)"

lemma ucast_u8_inj: "(ucast (a :: u8) :: u32) = ucast b \<longleftrightarrow> a = b"
proof
  assume eq: "(ucast a :: u32) = ucast b"
  have "unat (ucast x :: u32) = unat x" for x :: u8
    by (simp add: unsigned_ucast_eq take_bit_nat_eq_self_iff less_trans [OF unat_u8_less])
  with eq have "unat a = unat b" by metis
  then show "a = b" by (simp only: word_unat_eq_iff)
qed simp

lemma strcmp_mem_str:
  "str_at m p s \<Longrightarrow> str_at m q t \<Longrightarrow> strcmp_mem m p q = Some (strcmp s t)"
proof (induction s t arbitrary: p q rule: strcmp.induct)
  case (4 c s d t)
  then show ?case by (subst strcmp_mem.simps) auto
qed (simp_all add: strcmp_mem.simps)

lemma strcmp_eq_0 [simp]:
  "CHR 0x00 \<notin> set s \<Longrightarrow> CHR 0x00 \<notin> set t \<Longrightarrow> strcmp s t = 0 \<longleftrightarrow> s = t"
  by (induction s t rule: strcmp.induct) (auto simp: ucast_u8_inj ucast_u8_inj [of _ 0, simplified])

lemma strncmp_loop_str:
  "str_at m p s \<Longrightarrow> str_at m q t \<Longrightarrow> n \<noteq> 0 \<Longrightarrow>
   strncmp_loop m p q n = Some (strncmp s t (unat n))"
proof (induction s t arbitrary: p q n rule: strcmp.induct)
  case (4 c s d t)
  then obtain k where k: "unat n = Suc k"
    using unat_gt_0 [of n] by (metis Suc_pred)
  have pred: "unat (n - 1) = k" using 4(4) k by (simp add: unat_minus_one)
  show ?case
  proof (cases "c = d \<and> n - 1 \<noteq> 0")
    case True
    with 4 have "strncmp_loop m (p + 1) (q + 1) (n - 1) = Some (strncmp s t k)"
      using pred by simp
    with True 4 k show ?thesis by (subst strncmp_loop.simps) (simp add: strncmp_def)
  next
    case False
    moreover have "n - 1 = 0 \<longleftrightarrow> k = 0" using pred by (metis unat_eq_0)
    ultimately show ?thesis
      using 4 k by (subst strncmp_loop.simps) (auto simp: strncmp_def)
  qed
qed (auto simp: strncmp_loop.simps strncmp_def unat_0_iff take_Cons split: nat.splits)

lemma strncmp_mem_str:
  "str_at m p s \<Longrightarrow> str_at m q t \<Longrightarrow> strncmp_mem m p q n = Some (strncmp s t (unat n))"
  by (auto simp: strncmp_mem_def strncmp_loop_str) (simp add: strncmp_def)

lemma sint_ucast_diff: "sint (ucast (a :: u8) - ucast (b :: u8) :: u32) = uint a - uint b"
proof -
  have eq: "(ucast a - ucast b :: u32) = word_of_int (uint a - uint b)"
    by (simp only: ucast_eq of_int_diff)
  moreover have "uint a < 256" "uint b < 256"
    using unsigned_less [of a, where ?'a = int] unsigned_less [of b, where ?'a = int] by simp_all
  moreover have "0 \<le> uint a" "0 \<le> uint b" by simp_all
  ultimately have "- 2147483648 \<le> uint a - uint b" "uint a - uint b < 2147483648" by linarith+
  then have "signed_take_bit 31 (uint a - uint b) = uint a - uint b"
    by (intro signed_take_bit_int_eq_self) simp_all
  then show ?thesis unfolding eq sint_sbintrunc' by simp
qed

text \<open>The sign of the comparison is the dictionary order on the bytes.\<close>

lemma strcmp_negative_iff:
  "CHR 0x00 \<notin> set s \<Longrightarrow> CHR 0x00 \<notin> set t \<Longrightarrow>
   sint (strcmp s t) < 0 \<longleftrightarrow> ord_class.lexordp (map byte s) (map byte t)"
proof (induction s t rule: strcmp.induct)
  case (2 d t)
  then have "d \<noteq> CHR 0x00" by auto
  then have "uint (byte d) \<noteq> 0" by (simp add: uint_0_iff)
  then have "0 < uint (byte d)" using unsigned_greater_eq [of "byte d", where ?'a = int] by linarith
  then show ?case using sint_ucast_diff [of 0 "byte d"] by simp
next
  case (3 c s)
  then show ?case using sint_ucast_diff [of "byte c" 0] by simp
next
  case (4 c s d t)
  have "uint (byte c) = uint (byte d) \<longleftrightarrow> c = d" by (simp flip: word_uint_eq_iff)
  with 4 show ?case
    using sint_ucast_diff [of "byte c" "byte d"] by (auto simp: word_less_def)
qed simp

subsection \<open>memcmp\<close>

partial_function (option) memcmp :: "mem \<Rightarrow> ptr \<Rightarrow> ptr \<Rightarrow> u32 \<Rightarrow> u32 option" where
  "memcmp m p1 p2 n =
     (if n = 0 then Some 0
      else case m p1 of
        None \<Rightarrow> None
      | Some a \<Rightarrow> (case m p2 of
          None \<Rightarrow> None
        | Some b \<Rightarrow> if a \<noteq> b then Some (ucast a - ucast b) else memcmp m (p1 + 1) (p2 + 1) (n - 1)))"

lemma unat_of_nat_Suc:
  "Suc k < 4294967296 \<Longrightarrow> (of_nat (Suc k) :: u32) \<noteq> 0 \<and> (of_nat (Suc k) :: u32) - 1 = of_nat k"
  by (metis add_diff_cancel_left' of_nat_Suc unat_of_nat_small unsigned_0 Zero_not_Suc)

lemma memcmp_bytes:
  "bytes_at m p as \<Longrightarrow> bytes_at m q bs \<Longrightarrow> length as = length bs \<Longrightarrow> length as < 4294967296 \<Longrightarrow>
   memcmp m p q (of_nat (length as)) =
     Some (case find (\<lambda>(a, b). a \<noteq> b) (zip as bs) of None \<Rightarrow> 0 | Some (a, b) \<Rightarrow> ucast a - ucast b)"
proof (induction as arbitrary: p q bs)
  case Nil
  then show ?case by (simp add: memcmp.simps)
next
  case (Cons a as)
  then obtain b bs' where bs: "bs = b # bs'" by (cases bs) auto
  have k: "(of_nat (length (a # as)) :: u32) \<noteq> 0"
    "(of_nat (length (a # as)) :: u32) - 1 = of_nat (length as)"
    using unat_of_nat_Suc [of "length as"] Cons.prems(4) by simp_all
  have "memcmp m (p + 1) (q + 1) (of_nat (length as)) =
    Some (case find (\<lambda>(a, b). a \<noteq> b) (zip as bs') of None \<Rightarrow> 0 | Some (a, b) \<Rightarrow> ucast a - ucast b)"
    using Cons bs by simp
  then have "memcmp m p q N =
      Some (case find (\<lambda>(a, b). a \<noteq> b) (zip (a # as) bs) of
        None \<Rightarrow> 0 | Some (a, b) \<Rightarrow> ucast a - ucast b)"
    if "N \<noteq> 0" "N - 1 = of_nat (length as)" for N
    using that Cons.prems bs by (subst memcmp.simps) simp
  from this [OF k] show ?case .
qed

subsection \<open>memset and memcpy\<close>

partial_function (option) memset_loop :: "mem \<Rightarrow> ptr \<Rightarrow> u8 \<Rightarrow> u32 \<Rightarrow> u32 \<Rightarrow> mem option" where
  "memset_loop m buff v i sz =
     (if i < sz
      then case store m (buff + i) v of
          None \<Rightarrow> None
        | Some m' \<Rightarrow> memset_loop m' buff v (i + 1) sz
      else Some m)"

definition memset :: "mem \<Rightarrow> ptr \<Rightarrow> u32 \<Rightarrow> u32 \<Rightarrow> (mem \<times> ptr) option" where
  "memset m p val sz = do {
     m' \<leftarrow> memset_loop m p (ucast val) 0 sz;
     Some (m', p)
   }"

partial_function (option) memcpy_loop :: "mem \<Rightarrow> ptr \<Rightarrow> ptr \<Rightarrow> u32 \<Rightarrow> u32 \<Rightarrow> mem option" where
  "memcpy_loop m dst src i sz =
     (if i < sz
      then case m (src + i) of
          None \<Rightarrow> None
        | Some b \<Rightarrow> (case store m (dst + i) b of
            None \<Rightarrow> None
          | Some m' \<Rightarrow> memcpy_loop m' dst src (i + 1) sz)
      else Some m)"

definition memcpy :: "mem \<Rightarrow> ptr \<Rightarrow> ptr \<Rightarrow> u32 \<Rightarrow> (mem \<times> ptr) option" where
  "memcpy m dst src sz = do {
     m' \<leftarrow> memcpy_loop m dst src 0 sz;
     Some (m', dst)
   }"

text \<open>\<open>for (i = sz; i != 0; i--) dst[i-1] = src[i-1];\<close>\<close>

partial_function (option) memmove_down :: "mem \<Rightarrow> ptr \<Rightarrow> ptr \<Rightarrow> u32 \<Rightarrow> mem option" where
  "memmove_down m dst src i =
     (if i = 0 then Some m
      else case m (src + (i - 1)) of
        None \<Rightarrow> None
      | Some b \<Rightarrow> (case store m (dst + (i - 1)) b of
          None \<Rightarrow> None
        | Some m' \<Rightarrow> memmove_down m' dst src (i - 1)))"

definition memmove :: "mem \<Rightarrow> ptr \<Rightarrow> ptr \<Rightarrow> u32 \<Rightarrow> (mem \<times> ptr) option" where
  "memmove m dst src sz = do {
     m' \<leftarrow> (if dst < src then memcpy_loop m dst src 0 sz else memmove_down m dst src sz);
     Some (m', dst)
   }"

text \<open>
  The memory while a copy is under way: the bytes of \<open>bs\<close> at the positions in \<open>K\<close> are
  written at \<open>dst\<close>, everything else is as it was.
\<close>

definition patch :: "mem \<Rightarrow> ptr \<Rightarrow> u8 list \<Rightarrow> (nat \<Rightarrow> bool) \<Rightarrow> mem" where
  "patch m p bs K a = (if off a p < length bs \<and> K (off a p) then Some (bs ! off a p) else m a)"

lemma patch_none [simp]: "patch m p bs (\<lambda>_. False) = m"
  by (simp add: patch_def fun_eq_iff)

lemma patch_all: "length bs \<le> 4294967296 \<Longrightarrow> (\<And>k. k < length bs \<Longrightarrow> K k) \<Longrightarrow>
    patch m p bs K = write_bytes m p bs"
  by (auto simp: patch_def fun_eq_iff write_bytes_nth)

lemma off_add: "k < 4294967296 \<Longrightarrow> off (p + of_nat k) p = k"
  by (simp add: unat_of_nat_small)

lemma off_add_iff: "k < 4294967296 \<Longrightarrow> a = p + of_nat k \<longleftrightarrow> off a p = k"
proof
  assume k: "k < 4294967296"
  show "off a p = k" if "a = p + of_nat k" using that off_add [OF k] by simp
  show "a = p + of_nat k" if "off a p = k"
  proof -
    have "a - p = of_nat k" using that by auto
    then show ?thesis by (metis add.commute diff_add_cancel)
  qed
qed

lemma patch_store:
  assumes "mapped m p (length bs)" "k < length bs" "length bs < 4294967296"
  shows "store (patch m p bs K) (p + of_nat k) (bs ! k) =
    Some (patch m p bs (\<lambda>j. K j \<or> j = k))"
proof -
  have "off (p + of_nat k) p = k" using assms(2,3) by (intro off_add) simp
  then have "patch m p bs K (p + of_nat k) \<noteq> None"
    using assms(1,2) by (simp add: patch_def mapped_def)
  moreover have "(patch m p bs K)(p + of_nat k \<mapsto> bs ! k) = patch m p bs (\<lambda>j. K j \<or> j = k)"
    using assms(2,3) by (auto simp: fun_eq_iff patch_def off_add_iff [of k _ p])
  ultimately show ?thesis by (simp add: store_mapped)
qed

text \<open>
  The upward copy reads each source byte before it is overwritten when the destination is
  not ahead of the source inside it; the side condition is on the positions still to read.
\<close>

lemma memcpy_loop_patch:
  assumes bs: "\<And>j. j < length bs \<Longrightarrow> m (src + of_nat j) = Some (bs ! j)"
    and dst: "mapped m dst (length bs)" and len: "length bs < 4294967296"
    and ahead: "\<And>j. j < length bs \<Longrightarrow> \<not> off (src + of_nat j) dst < j"
    and k: "k \<le> length bs"
  shows "memcpy_loop (patch m dst bs (\<lambda>j. j < k)) dst src (of_nat k) (of_nat (length bs)) =
    Some (patch m dst bs (\<lambda>j. j < length bs))"
  using k
proof (induction "length bs - k" arbitrary: k)
  case 0
  then show ?case by (subst memcpy_loop.simps) simp
next
  case (Suc d)
  then have k: "k < length bs" by simp
  have lt: "(of_nat k :: u32) < of_nat (length bs)"
    using k len by (simp add: word_less_nat_alt unat_of_nat_small)
  have "patch m dst bs (\<lambda>j. j < k) (src + of_nat k) = Some (bs ! k)"
    using bs [OF k] ahead [OF k] by (simp add: patch_def)
  moreover have "store (patch m dst bs (\<lambda>j. j < k)) (dst + of_nat k) (bs ! k) =
      Some (patch m dst bs (\<lambda>j. j < Suc k))"
    using patch_store [OF dst k len, of "\<lambda>j. j < k"] by (simp add: less_Suc_eq)
  moreover have "memcpy_loop (patch m dst bs (\<lambda>j. j < Suc k)) dst src (of_nat (Suc k)) (of_nat (length bs))
      = Some (patch m dst bs (\<lambda>j. j < length bs))"
    using Suc by (intro Suc.hyps(1)) simp_all
  ultimately show ?case using lt by (subst memcpy_loop.simps) (simp add: add.commute)
qed

lemma memmove_down_patch:
  assumes bs: "\<And>j. j < length bs \<Longrightarrow> m (src + of_nat j) = Some (bs ! j)"
    and dst: "mapped m dst (length bs)" and len: "length bs < 4294967296"
    and behind: "\<And>j. j < length bs \<Longrightarrow>
      \<not> (j < off (src + of_nat j) dst \<and> off (src + of_nat j) dst < length bs)"
    and k: "k \<le> length bs"
  shows "memmove_down (patch m dst bs (\<lambda>j. k \<le> j)) dst src (of_nat k) =
    Some (patch m dst bs (\<lambda>_. True))"
  using k
proof (induction k)
  case 0
  then show ?case by (subst memmove_down.simps) (simp add: patch_def fun_eq_iff)
next
  case (Suc k)
  then have k: "k < length bs" by simp
  have nz: "(of_nat (Suc k) :: u32) \<noteq> 0" "(of_nat (Suc k) :: u32) - 1 = of_nat k"
    using unat_of_nat_Suc [of k] k len by simp_all
  have rd: "patch m dst bs (\<lambda>j. Suc k \<le> j) (src + of_nat k) = Some (bs ! k)"
    using bs [OF k] behind [OF k] by (auto simp: patch_def Suc_le_eq)
  have "store (patch m dst bs (\<lambda>j. Suc k \<le> j)) (dst + of_nat k) (bs ! k) =
      Some (patch m dst bs (\<lambda>j. Suc k \<le> j \<or> j = k))"
    by (rule patch_store [OF dst k len])
  also have "(\<lambda>j. Suc k \<le> j \<or> j = k) = (\<lambda>j. k \<le> j)" by (auto simp: fun_eq_iff)
  finally have st: "store (patch m dst bs (\<lambda>j. Suc k \<le> j)) (dst + of_nat k) (bs ! k) =
      Some (patch m dst bs (\<lambda>j. k \<le> j))" .
  have "memmove_down (patch m dst bs (\<lambda>j. Suc k \<le> j)) dst src n = Some (patch m dst bs (\<lambda>_. True))"
    if "n \<noteq> 0" "n - 1 = of_nat k" for n
    using that rd st Suc.IH k by (subst memmove_down.simps) simp
  from this [OF nz] show ?case .
qed

lemma bytes_at_offset:
  "bytes_at m p bs \<Longrightarrow> length bs \<le> 4294967296 \<Longrightarrow> j < length bs \<Longrightarrow> m (p + of_nat j) = Some (bs ! j)"
  using off_add [of j p] by (simp add: bytes_at_nth [of bs m p] del: add_diff_cancel_left')

text \<open>On disjoint regions \<open>memcpy\<close> copies the bytes and touches nothing else.\<close>

lemma memcpy_correct:
  assumes "bytes_at m src bs" "mapped m dst (length bs)" "length bs < 4294967296"
    and "disjoint src (length bs) dst (length bs)"
  shows "memcpy m dst src (of_nat (length bs)) = Some (write_bytes m dst bs, dst)"
proof -
  have "\<not> off (src + of_nat j) dst < length bs" if "j < length bs" for j
    using assms(3,4) that off_add [of j src] by (auto simp: disjoint_def)
  then have "\<not> off (src + of_nat j) dst < j" if "j < length bs" for j using that by fastforce
  then have "memcpy_loop m dst src 0 (of_nat (length bs)) = Some (patch m dst bs (\<lambda>j. j < length bs))"
    using memcpy_loop_patch [of bs m src dst 0] bytes_at_offset [OF assms(1)] assms(2,3) by simp
  then show ?thesis using assms(3) by (simp add: memcpy_def patch_all)
qed

text \<open>
  \<open>memmove\<close> is right for overlapping regions too, whichever lies first, as long as neither
  wraps around the end of the address space.
\<close>

lemma memmove_correct:
  assumes bs: "bytes_at m src bs" and dst: "mapped m dst (length bs)"
    and nowrap: "unat src + length bs < 4294967296" "unat dst + length bs < 4294967296"
  shows "memmove m dst src (of_nat (length bs)) = Some (write_bytes m dst bs, dst)"
proof -
  have len: "length bs < 4294967296" using nowrap(1) by simp
  have src_j: "unat (src + of_nat j) = unat src + j" if "j < length bs" for j
    using that nowrap(1) by (subst unat_plus_simple [THEN iffD1])
      (simp_all add: unat_of_nat_small word_le_nat_alt unat_word_ariths)
  have off_j: "off (src + of_nat j) dst =
      (if unat dst \<le> unat src + j then unat src + j - unat dst else unat src + j + 4294967296 - unat dst)"
    if "j < length bs" for j
    using that src_j [OF that] unat_u32_less [of dst] by (simp add: unat_sub_if')
  show ?thesis
  proof (cases "dst < src")
    case True
    then have "\<not> off (src + of_nat j) dst < j" if "j < length bs" for j
      using off_j [OF that] nowrap by (simp add: word_less_nat_alt)
    then have "memcpy_loop m dst src 0 (of_nat (length bs)) = Some (patch m dst bs (\<lambda>j. j < length bs))"
      using memcpy_loop_patch [of bs m src dst 0] bytes_at_offset [OF bs] dst len by simp
    then show ?thesis using True len by (simp add: memmove_def patch_all)
  next
    case False
    then have le: "unat src \<le> unat dst" by (simp add: word_less_nat_alt)
    have "\<not> (j < off (src + of_nat j) dst \<and> off (src + of_nat j) dst < length bs)"
      if "j < length bs" for j
      using off_j [OF that] le nowrap that by auto
    then have "memmove_down (patch m dst bs (\<lambda>j. length bs \<le> j)) dst src (of_nat (length bs)) =
        Some (patch m dst bs (\<lambda>_. True))"
      using memmove_down_patch [of bs m src dst "length bs"] bytes_at_offset [OF bs] dst len by simp
    moreover have "patch m dst bs (\<lambda>j. length bs \<le> j) = m"
      by (auto simp: patch_def fun_eq_iff)
    ultimately show ?thesis using False len by (simp add: memmove_def patch_all)
  qed
qed

lemma memset_loop_patch:
  assumes dst: "mapped m p n" and n: "n < 4294967296" and k: "k \<le> n"
  shows "memset_loop (patch m p (replicate n v) (\<lambda>j. j < k)) p v (of_nat k) (of_nat n) =
    Some (write_bytes m p (replicate n v))"
  using k
proof (induction "n - k" arbitrary: k)
  case 0
  then show ?case using n patch_all [of "replicate n v" "\<lambda>j. j < n" m p]
    by (subst memset_loop.simps) simp
next
  case (Suc d)
  then have k: "k < n" by simp
  have lt: "(of_nat k :: u32) < of_nat n"
    using k n by (simp add: word_less_nat_alt unat_of_nat_small)
  have "store (patch m p (replicate n v) (\<lambda>j. j < k)) (p + of_nat k) v =
      Some (patch m p (replicate n v) (\<lambda>j. j < Suc k))"
    using patch_store [of m p "replicate n v" k "\<lambda>j. j < k"] dst k n by (simp add: less_Suc_eq)
  moreover have "memset_loop (patch m p (replicate n v) (\<lambda>j. j < Suc k)) p v (of_nat (Suc k)) (of_nat n)
      = Some (write_bytes m p (replicate n v))"
    using Suc by (intro Suc.hyps(1)) simp_all
  ultimately show ?case using lt by (subst memset_loop.simps) (simp add: add.commute)
qed

lemma memset_correct:
  assumes "mapped m p n" "n < 4294967296"
  shows "memset m p v (of_nat n) = Some (write_bytes m p (replicate n (ucast v)), p)"
  using memset_loop_patch [OF assms, of 0] by (simp add: memset_def)

subsection \<open>strcpy and strncpy\<close>

partial_function (option) strcpy_loop :: "mem \<Rightarrow> ptr \<Rightarrow> ptr \<Rightarrow> mem option" where
  "strcpy_loop m dst src = (case m src of
      None \<Rightarrow> None
    | Some c \<Rightarrow> (case store m dst c of
        None \<Rightarrow> None
      | Some m' \<Rightarrow> if c \<noteq> 0 then strcpy_loop m' (dst + 1) (src + 1) else Some m'))"

definition strcpy :: "mem \<Rightarrow> ptr \<Rightarrow> ptr \<Rightarrow> (mem \<times> ptr) option" where
  "strcpy m dst src = do {
     m' \<leftarrow> strcpy_loop m dst src;
     Some (m', dst)
   }"

text \<open>The first loop stops after a copied NUL or when the count is used up; the second pads.\<close>

partial_function (option) strncpy_copy ::
  "mem \<Rightarrow> ptr \<Rightarrow> ptr \<Rightarrow> u32 \<Rightarrow> (mem \<times> ptr \<times> u32) option" where
  "strncpy_copy m ds ss count =
     (if count = 0 then Some (m, ds, count)
      else case m ss of
        None \<Rightarrow> None
      | Some c \<Rightarrow> (case store m ds c of
          None \<Rightarrow> None
        | Some m' \<Rightarrow>
            if c = 0 then Some (m', ds + 1, count - 1)
            else strncpy_copy m' (ds + 1) (ss + 1) (count - 1)))"

partial_function (option) strncpy_pad :: "mem \<Rightarrow> ptr \<Rightarrow> u32 \<Rightarrow> mem option" where
  "strncpy_pad m ds count =
     (if count = 0 then Some m
      else case store m ds 0 of
        None \<Rightarrow> None
      | Some m' \<Rightarrow> strncpy_pad m' (ds + 1) (count - 1))"

definition strncpy :: "mem \<Rightarrow> ptr \<Rightarrow> ptr \<Rightarrow> u32 \<Rightarrow> (mem \<times> ptr) option" where
  "strncpy m dst src count = do {
     (m1, ds, rest) \<leftarrow> strncpy_copy m dst src count;
     m2 \<leftarrow> strncpy_pad m1 ds rest;
     Some (m2, dst)
   }"

lemma disjointI:
  assumes "unat p + n \<le> unat q" "unat q + k \<le> 4294967296"
  shows "disjoint p n q k"
proof -
  have "False" if a: "off a p < n" "off a q < k" for a
  proof -
    have "unat a = unat (p + (a - p))" "unat a = unat (q + (a - q))" by simp_all
    moreover have "unat (p + (a - p)) = unat p + off a p" "unat (q + (a - q)) = unat q + off a q"
      using a assms by (simp_all only: unat_word_ariths) simp_all
    ultimately show False using a assms by linarith
  qed
  then show ?thesis by (auto simp: disjoint_def)
qed

text \<open>Disjointness, peeled one byte at a time.\<close>

lemma disjoint_Suc:
  "disjoint p (Suc n) q (Suc k) \<Longrightarrow> n < 4294967296 \<Longrightarrow> k < 4294967296 \<Longrightarrow> disjoint (p + 1) n (q + 1) k"
  unfolding disjoint_def using off_succ_less by blast

lemma str_at_upd:
  assumes "str_at m p s" "disjoint p (Suc (length s)) q (Suc n)" "length s < 4294967295"
  shows "str_at (m(q \<mapsto> b)) p s"
proof -
  have "off q q < Suc n" by simp
  then have "\<not> off q p < Suc (length s)" using assms(2) unfolding disjoint_def by blast
  then have "\<forall>a. off a p < length (cstring s) \<longrightarrow> a \<noteq> q" by auto
  then show ?thesis using assms(1,3) by (simp add: str_at_bytes bytes_at_nth)
qed

lemma strcpy_loop_correct:
  assumes "str_at m src s" "mapped m dst (Suc (length s))" "length s < 4294967295"
    and "disjoint src (Suc (length s)) dst (Suc (length s))"
  shows "strcpy_loop m dst src = Some (write_bytes m dst (cstring s))"
  using assms
proof (induction s arbitrary: m src dst)
  case Nil
  then show ?case by (subst strcpy_loop.simps) (simp add: store_def mapped_def split: option.splits)
next
  case (Cons c s)
  have map: "m dst \<noteq> None" "mapped m (dst + 1) (Suc (length s))"
    using mapped_Suc [of m dst "Suc (length s)"] Cons.prems(2,3) by simp_all
  have dis: "disjoint (src + 1) (Suc (length s)) (dst + 1) (Suc (length s))"
    using disjoint_Suc [of src "Suc (length s)" dst] Cons.prems(3,4) by simp
  have "str_at (m(dst \<mapsto> byte c)) src (c # s)"
    using str_at_upd [OF Cons.prems(1), of dst "Suc (length s)"] Cons.prems(3,4) by simp
  then have "str_at (m(dst \<mapsto> byte c)) (src + 1) s"
    by (simp del: fun_upd_apply)
  moreover have "mapped (m(dst \<mapsto> byte c)) (dst + 1) (Suc (length s))"
    using map(2) by (simp add: mapped_def)
  ultimately have "strcpy_loop (m(dst \<mapsto> byte c)) (dst + 1) (src + 1) =
      Some (write_bytes (m(dst \<mapsto> byte c)) (dst + 1) (cstring s))"
    using Cons.prems(3) dis by (intro Cons.IH) (simp_all del: fun_upd_apply)
  then show ?case
    using Cons.prems(1) map(1) by (subst strcpy_loop.simps) (simp add: store_mapped)
qed

lemma strcpy_correct:
  assumes "str_at m src s" "mapped m dst (Suc (length s))" "length s < 4294967295"
    and "disjoint src (Suc (length s)) dst (Suc (length s))"
  shows "strcpy m dst src = Some (write_bytes m dst (cstring s), dst)"
  by (simp add: strcpy_def strcpy_loop_correct [OF assms])

subsection \<open>Properties\<close>

text \<open>C37: \<open>memmove\<close> copies correctly whether or not the two regions overlap, in either direction: when neither
  region wraps around the address space, the destination afterwards holds the bytes the source held before the
  call, nothing else is written, and the destination pointer is returned.\<close>

theorem memmove_copies:
  assumes "bytes_at m src bs" "mapped m dst (length bs)"
    and "unat src + length bs < 4294967296" "unat dst + length bs < 4294967296"
  shows "\<exists>m'. memmove m dst src (of_nat (length bs)) = Some (m', dst) \<and> bytes_at m' dst bs \<and>
    (\<forall>a. \<not> off a dst < length bs \<longrightarrow> m' a = m a)"
proof -
  have "length bs \<le> 4294967296" using assms(3) by simp
  then show ?thesis
    using memmove_correct [OF assms] bytes_at_write_bytes [of bs m dst] write_bytes_frame [of bs _ dst m] by auto
qed

theorem memmove_copies_witness:
  "\<exists>m'. memmove (write_bytes Map.empty 0x100 [1, 2, 3, 4]) 0x101 0x100 3 = Some (m', 0x101) \<and> bytes_at m' 0x101 [1, 2, 3]"
proof -
  let ?m = "write_bytes Map.empty 0x100 [1, 2, 3, 4]"
  have "mapped ?m 0x101 3"
    unfolding mapped_def
  proof (intro allI impI)
    fix a :: u32 assume a: "off a 0x101 < 3"
    have "unat (a - 0x100) = Suc (unat (a - 0x101))"
      using off_succ_less [of a "0x100" 3] a off_Suc [of a "0x100"] off_self_succ [of "0x100"] by force
    then show "?m a \<noteq> None" using a by (subst write_bytes_nth) simp_all
  qed
  then show ?thesis using memmove_copies [of ?m "0x100" "[1, 2, 3]" "0x101"] by (auto simp: numeral_3_eq_3)
qed

text \<open>\<open>strcpy\<close> copies a string with its terminator into a disjoint mapped region, and \<open>strlen\<close> and \<open>strcmp\<close> of
  the copy agree with the original.\<close>

theorem strcpy_copies:
  assumes "str_at m src s" "mapped m dst (Suc (length s))" "length s < 4294967295"
    and "disjoint src (Suc (length s)) dst (Suc (length s))"
  shows "\<exists>m'. strcpy m dst src = Some (m', dst) \<and> str_at m' dst s \<and> str_at m' src s \<and>
    strlen m' dst = Some (of_nat (length s)) \<and> strcmp_mem m' src dst = Some 0 \<and>
    (\<forall>a. \<not> off a dst \<le> length s \<longrightarrow> m' a = m a)"
proof -
  let ?m' = "write_bytes m dst (cstring s)"
  have len: "length (cstring s) \<le> 4294967296" using assms(3) by simp
  have nul: "CHR 0x00 \<notin> set s" by (rule str_at_no_NUL [OF assms(1)])
  have d: "str_at ?m' dst s" using nul bytes_at_write_bytes [OF len] by (simp add: str_at_bytes)
  have other: "?m' a = m a" if "\<not> off a dst < Suc (length s)" for a
    using write_bytes_frame [OF len] that by simp
  have "bytes_at ?m' src (cstring s)"
    unfolding bytes_at_nth [OF len]
  proof (intro allI impI)
    fix a assume a: "off a src < length (cstring s)"
    then have "?m' a = m a" using assms(4) by (intro other) (auto simp: disjoint_def)
    then show "?m' a = Some (cstring s ! off a src)"
      using assms(1) a by (simp add: str_at_bytes bytes_at_nth [OF len])
  qed
  then have src: "str_at ?m' src s" using nul by (simp add: str_at_bytes)
  show ?thesis
    using strcpy_correct [OF assms] d src strlen_str [OF d] strcmp_mem_str [OF src d] nul other
    by (auto simp: less_Suc_eq_le)
qed

theorem strcpy_copies_witness:
  "\<exists>m'. strcpy (write_bytes Map.empty 0x100 [104, 105, 0, 9, 9, 9]) 0x103 0x100 = Some (m', 0x103) \<and> str_at m' 0x103 ''hi''"
proof -
  let ?m = "write_bytes Map.empty 0x100 [104, 105, 0, 9, 9, 9]"
  have off3: "off a 0x100 = off a 0x103 + 3" if "off a 0x103 < 3" for a :: u32
  proof -
    have "a - 0x100 = (a - 0x103) + 3" by simp
    then show ?thesis using that by (simp only: unat_word_ariths) simp
  qed
  have "mapped ?m 0x103 3"
    unfolding mapped_def by (intro allI impI, subst write_bytes_nth) (simp_all add: off3)
  moreover have "disjoint 0x100 3 0x103 3" unfolding disjoint_def using off3 by fastforce
  moreover have "str_at ?m 0x100 ''hi''" by (simp add: byte_def)
  ultimately show ?thesis using strcpy_copies [of ?m "0x100" "''hi''" "0x103"] by (auto simp: numeral_3_eq_3)
qed

text \<open>\<open>strlen\<close> returns exactly on the addresses of NUL-terminated strings in mapped memory, and then with
  the length modulo the word size; on any other address it runs into unmapped memory or never ends.\<close>

theorem strlen_exact:
  "strlen m p = Some k \<longleftrightarrow> (\<exists>s. str_at m p s \<and> k = of_nat (length s))"
  by (rule strlen_returns_iff)

text \<open>\<open>strcmp\<close> of two strings in memory is 0 exactly when they are equal, and negative exactly when the first
  comes before the second in the lexicographic order of unsigned bytes.\<close>

theorem strcmp_orders:
  assumes "str_at m p s" "str_at m q t"
  shows "\<exists>r. strcmp_mem m p q = Some r \<and> (r = 0 \<longleftrightarrow> s = t) \<and>
    (sint r < 0 \<longleftrightarrow> ord_class.lexordp (map byte s) (map byte t))"
  using strcmp_mem_str [OF assms] strcmp_eq_0 [OF str_at_no_NUL [OF assms(1)] str_at_no_NUL [OF assms(2)]]
    strcmp_negative_iff [OF str_at_no_NUL [OF assms(1)] str_at_no_NUL [OF assms(2)]] by simp

theorem strcmp_orders_witness:
  "\<exists>r. strcmp_mem (write_bytes Map.empty 0x100 [104, 105, 0, 104, 106, 0]) 0x100 0x103 = Some r \<and> sint r < 0"
proof -
  have "str_at (write_bytes Map.empty 0x100 [104, 105, 0, 104, 106, 0]) 0x100 ''hi''"
    "str_at (write_bytes Map.empty 0x100 [104, 105, 0, 104, 106, 0]) 0x103 ''hj''"
    by (simp_all add: byte_def)
  from strcmp_orders [OF this] show ?thesis by (auto simp: byte_def)
qed

end
