(* ===== verification/Libgen.thy ===== *)
theory Libgen
  imports LibcString
begin

text \<open>
  \<^verbatim>\<open>libraries/libc/src/libgen/basename.c\<close> and \<^verbatim>\<open>dirname.c\<close>: the two halves of a path,
  cut in place. Both overwrite trailing slashes with NUL, and \<open>dirname\<close> also overwrites the
  last slash, so the caller's path is changed. The result is one of the literals \<^verbatim>\<open>"."\<close> and
  \<^verbatim>\<open>"/"\<close>, or a pointer.
\<close>

datatype cstr = Lit string | Mem ptr

definition SLASH :: u8 where
  "SLASH = byte (CHR ''/'')"

definition strlen_c :: "mem \<Rightarrow> cstr \<Rightarrow> u32 option" where
  "strlen_c m c = (case c of Lit s \<Rightarrow> Some (of_nat (length s)) | Mem p \<Rightarrow> strlen m p)"

text \<open>\<open>while (*p == '/') { if (p == path) return path; *p-- = 0; }\<close>: \<open>None\<close> inside is the early return.\<close>

partial_function (option) strip_slashes ::
  "mem \<Rightarrow> ptr \<Rightarrow> ptr \<Rightarrow> (mem \<times> ptr option) option" where
  "strip_slashes m path p = (case m p of
      None \<Rightarrow> None
    | Some c \<Rightarrow>
        if c \<noteq> SLASH then Some (m, Some p)
        else if p = path then Some (m, None)
        else (case store m p 0 of
          None \<Rightarrow> None
        | Some m' \<Rightarrow> strip_slashes m' path (p - 1)))"

text \<open>\<open>while (p >= path && *p != '/') p--\<close>\<close>

partial_function (option) back_to_slash :: "mem \<Rightarrow> ptr \<Rightarrow> ptr \<Rightarrow> ptr option" where
  "back_to_slash m path p =
     (if path \<le> p then (case m p of
        None \<Rightarrow> None
      | Some c \<Rightarrow> if c \<noteq> SLASH then back_to_slash m path (p - 1) else Some p)
      else Some p)"

definition basename :: "mem \<Rightarrow> ptr \<Rightarrow> (mem \<times> cstr) option" where
  "basename m path =
     (if path = 0 then Some (m, Lit ''.'')
      else case m path of
        None \<Rightarrow> None
      | Some c \<Rightarrow> if c = 0 then Some (m, Lit ''.'') else do {
          n \<leftarrow> strlen m path;
          (m', q) \<leftarrow> strip_slashes m path (path + n - 1);
          (case q of
             None \<Rightarrow> Some (m', Mem path)
           | Some p \<Rightarrow> do {
               p' \<leftarrow> back_to_slash m' path p;
               Some (m', Mem (p' + 1))
             })
        })"

definition dirname :: "mem \<Rightarrow> ptr \<Rightarrow> (mem \<times> cstr) option" where
  "dirname m path =
     (if path = 0 then Some (m, Lit ''.'')
      else case m path of
        None \<Rightarrow> None
      | Some c \<Rightarrow> if c = 0 then Some (m, Lit ''.'') else do {
          n \<leftarrow> strlen m path;
          (m', q) \<leftarrow> strip_slashes m path (path + n - 1);
          (case q of
             None \<Rightarrow> Some (m', Mem path)
           | Some p \<Rightarrow> do {
               p' \<leftarrow> back_to_slash m' path p;
               if p' < path then Some (m', Lit ''.'')
               else if p' = path then Some (m', Lit ''/'')
               else do {
                 m'' \<leftarrow> store m' p' 0;
                 Some (m'', Mem path)
               }
             })
        })"

subsection \<open>Strings in memory, split and cut\<close>

lemma str_at_append:
  "str_at m p (s @ t) \<longleftrightarrow> CHR 0x00 \<notin> set s \<and> bytes_at m p (map byte s) \<and> str_at m (p + of_nat (length s)) t"
  by (induction s arbitrary: p) (auto simp: add.assoc)

lemma str_at_nth:
  "str_at m p s \<Longrightarrow> k < length s \<Longrightarrow> m (p + of_nat k) = Some (byte (s ! k)) \<and> s ! k \<noteq> CHR 0x00"
proof (induction s arbitrary: p k)
  case (Cons c s)
  then show ?case by (cases k) (auto simp: add.assoc [symmetric] simp del: of_nat_Suc simp add: of_nat_Suc)
qed simp

lemma bytes_at_upd:
  assumes "bytes_at m p bs" "length bs \<le> off q p" "length bs \<le> 4294967296"
  shows "bytes_at (m(q \<mapsto> b)) p bs"
  using assms by (auto simp: bytes_at_nth)

text \<open>A NUL stored over a character cuts the string there.\<close>

lemma str_at_cut:
  assumes "str_at m p (s @ c # t)" "length s < 4294967296"
  shows "str_at (m(p + of_nat (length s) \<mapsto> 0)) p s"
proof -
  have "off (p + of_nat (length s)) p = length s" using assms(2) by (rule off_add)
  then have "bytes_at (m(p + of_nat (length s) \<mapsto> 0)) p (map byte s)"
    using assms by (intro bytes_at_upd) (simp_all add: str_at_append)
  moreover have "str_at m' (p + of_nat (length s)) [] \<longleftrightarrow> m' (p + of_nat (length s)) = Some 0" for m'
    by simp
  ultimately show ?thesis
    using assms(1) str_at_append [of "m(p + of_nat (length s) \<mapsto> 0)" p s "[]"]
    by (simp add: str_at_append)
qed

text \<open>A path of the model: in memory at a non-null address, and not wrapping around it.\<close>

definition path_at :: "mem \<Rightarrow> ptr \<Rightarrow> string \<Rightarrow> bool" where
  "path_at m p s \<longleftrightarrow> p \<noteq> 0 \<and> str_at m p s \<and> unat p + length s < 4294967296"

lemma path_at_addr:
  assumes "path_at m p s" "k \<le> length s"
  shows "unat (p + of_nat k) = unat p + k"
  using assms by (simp add: path_at_def unat_word_ariths unat_of_nat_small)

lemma strip_slashes_none:
  "m p = Some c \<Longrightarrow> c \<noteq> SLASH \<Longrightarrow> strip_slashes m path p = Some (m, Some p)"
  by (subst strip_slashes.simps) simp

lemma byte_SLASH [simp]: "byte c = SLASH \<longleftrightarrow> c = CHR ''/''"
  by (simp add: SLASH_def)

text \<open>From inside a slash-free tail, the scan stops at the slash before it.\<close>

lemma back_to_slash_found:
  assumes "path_at m path (d @ CHR ''/'' # b)" "CHR ''/'' \<notin> set b" "k \<le> length b"
  shows "back_to_slash m path (path + of_nat (length d + k)) = Some (path + of_nat (length d))"
  using assms(3)
proof (induction k)
  case 0
  have "m (path + of_nat (length d)) = Some SLASH"
    using assms(1) str_at_nth [of m path "d @ CHR ''/'' # b" "length d"]
    by (simp add: path_at_def nth_append SLASH_def)
  moreover have "path \<le> path + of_nat (length d)"
    using path_at_addr [OF assms(1), of "length d"] by (simp add: word_le_nat_alt)
  ultimately show ?case by (subst back_to_slash.simps) simp
next
  case (Suc k)
  let ?s = "d @ CHR ''/'' # b"
  have "?s ! (length d + Suc k) = b ! k" by (simp add: nth_append)
  then have rd: "m (path + of_nat (length d + Suc k)) = Some (byte (b ! k))"
    using assms(1) str_at_nth [of m path ?s "length d + Suc k"] Suc.prems by (simp add: path_at_def)
  have "b ! k \<noteq> CHR ''/''" using assms(2) Suc.prems by (metis nth_mem Suc_le_eq)
  moreover have "path \<le> path + of_nat (length d + Suc k)"
    using path_at_addr [OF assms(1), of "length d + Suc k"] Suc.prems by (simp add: word_le_nat_alt)
  moreover have "path + of_nat (length d + Suc k) - 1 = path + of_nat (length d + k)" by simp
  moreover have "back_to_slash m path (path + of_nat (length d + k)) = Some (path + of_nat (length d))"
    using Suc by simp
  ultimately show ?case
    using rd by (subst back_to_slash.simps) (simp only: if_True option.case byte_SLASH not_False_eq_True)
qed

text \<open>With no slash at all it runs off the front.\<close>

lemma back_to_slash_front:
  assumes "path_at m path b" "CHR ''/'' \<notin> set b" "k \<le> length b"
  shows "back_to_slash m path (path + of_nat k - 1) = Some (path - 1)"
  using assms(3)
proof (induction k)
  case 0
  have "path - 1 < path" using assms(1) by (simp add: path_at_def word_less_nat_alt unat_minus_one unat_gt_0)
  then have "\<not> path \<le> path - 1" by (simp add: not_le)
  then show ?case by (subst back_to_slash.simps) simp
next
  case (Suc k)
  have "b ! k \<in> set b" using Suc.prems by simp
  then have rd2: "b ! k \<noteq> CHR ''/''" using assms(2) by metis
  have rd: "m (path + of_nat k) = Some (byte (b ! k))"
    using assms(1) str_at_nth [of m path b k] Suc.prems by (auto simp: path_at_def)
  have "path \<le> path + of_nat k"
    using path_at_addr [OF assms(1), of k] Suc.prems by (simp add: word_le_nat_alt)
  then show ?case
    using rd rd2 Suc by (subst back_to_slash.simps) (simp add: add.commute)
qed

lemma path_last:
  assumes "path_at m path (s @ [c])"
  shows "strlen m path = Some (of_nat (Suc (length s)))" "m (path + of_nat (Suc (length s)) - 1) = Some (byte c)"
    "\<exists>b. m path = Some b \<and> b \<noteq> 0"
proof -
  have at: "str_at m path (s @ [c])" using assms by (simp add: path_at_def)
  show "strlen m path = Some (of_nat (Suc (length s)))" using strlen_str [OF at] by simp
  show "m (path + of_nat (Suc (length s)) - 1) = Some (byte c)"
    using str_at_nth [OF at, of "length s"] by simp
  show "\<exists>b. m path = Some b \<and> b \<noteq> 0" using at by (cases s) auto
qed

text \<open>
  \<open>dirname\<close> of \<open>d/b\<close>, with \<open>b\<close> the last component: the string at \<open>path\<close> becomes \<open>d\<close>.
\<close>

lemma dirname_nested:
  assumes p: "path_at m path (d @ CHR ''/'' # b)" and b: "b \<noteq> []" "CHR ''/'' \<notin> set b" and d: "d \<noteq> []"
  shows "dirname m path = Some (m(path + of_nat (length d) \<mapsto> 0), Mem path)"
    and "path_at (m(path + of_nat (length d) \<mapsto> 0)) path d"
proof -
  have last: "d @ CHR ''/'' # b = (d @ CHR ''/'' # butlast b) @ [last b]" using b(1) by simp
  have len: "length (d @ CHR ''/'' # butlast b) = length d + length b" using b(1) by simp
  note l = path_last [OF p [unfolded last], unfolded len]
  have end_: "path + of_nat (Suc (length d + length b)) - 1 = path + of_nat (length d + length b)" by simp
  have "last b \<noteq> CHR ''/''" using b by (metis last_in_set)
  then have strip: "strip_slashes m path (path + of_nat (Suc (length d + length b)) - 1) =
      Some (m, Some (path + of_nat (length d + length b)))"
    using l(2) unfolding end_ by (intro strip_slashes_none [where c = "byte (last b)"]) simp_all
  have scan: "back_to_slash m path (path + of_nat (length d + length b)) = Some (path + of_nat (length d))"
    by (rule back_to_slash_found [OF p b(2)]) simp
  have "unat (path + of_nat (length d)) = unat path + length d"
    using path_at_addr [OF p, of "length d"] by simp
  then have "path < path + of_nat (length d)" using d by (simp add: word_less_nat_alt)
  then have order: "\<not> path + of_nat (length d) < path" "path + of_nat (length d) \<noteq> path" by auto
  have at: "str_at m path (d @ CHR ''/'' # b)" and nz: "path \<noteq> 0" using p by (simp_all add: path_at_def)
  have st: "store m (path + of_nat (length d)) 0 = Some (m(path + of_nat (length d) \<mapsto> 0))"
    using str_at_nth [OF at, of "length d"] by (simp add: store_def)
  obtain c where c: "m path = Some c" "c \<noteq> 0" using l(3) by blast
  show "dirname m path = Some (m(path + of_nat (length d) \<mapsto> 0), Mem path)"
    using nz c l(1) strip scan order st
    by (simp add: dirname_def del: of_nat_Suc of_nat_add) 
  have "length d < 4294967296" using p by (simp add: path_at_def)
  from str_at_cut [OF at this] show "path_at (m(path + of_nat (length d) \<mapsto> 0)) path d"
    using p by (simp add: path_at_def)
qed

lemma dirname_single:
  assumes p: "path_at m path b" and b: "b \<noteq> []" "CHR ''/'' \<notin> set b"
  shows "dirname m path = Some (m, Lit ''.'')"
proof -
  have last: "b = butlast b @ [last b]" using b(1) by simp
  have len: "Suc (length (butlast b)) = length b" using b(1) by simp
  note l = path_last [of m path "butlast b" "last b", folded last, OF p, unfolded len]
  have "last b \<noteq> CHR ''/''" using b by (metis last_in_set)
  then have strip: "strip_slashes m path (path + of_nat (length b) - 1) =
      Some (m, Some (path + of_nat (length b) - 1))"
    using l(2) by (intro strip_slashes_none [where c = "byte (last b)"]) simp_all
  have scan: "back_to_slash m path (path + of_nat (length b) - 1) = Some (path - 1)"
    by (rule back_to_slash_front [OF p b(2)]) simp
  have "path - 1 < path" using p by (simp add: path_at_def word_less_nat_alt unat_minus_one unat_gt_0)
  moreover obtain c where "m path = Some c" "c \<noteq> 0" using l(3) by blast
  ultimately show ?thesis
    using p l(1) strip scan by (simp add: dirname_def path_at_def)
qed

lemma dirname_empty: "path_at m path [] \<Longrightarrow> dirname m path = Some (m, Lit ''.'')"
  by (simp add: dirname_def path_at_def)

text \<open>\<open>basename\<close> of the same paths is a pointer to the last component.\<close>

lemma basename_nested:
  assumes p: "path_at m path (d @ CHR ''/'' # b)" and b: "b \<noteq> []" "CHR ''/'' \<notin> set b"
  shows "basename m path = Some (m, Mem (path + of_nat (Suc (length d))))"
    and "str_at m (path + of_nat (Suc (length d))) b"
proof -
  have last: "d @ CHR ''/'' # b = (d @ CHR ''/'' # butlast b) @ [last b]" using b(1) by simp
  have len: "length (d @ CHR ''/'' # butlast b) = length d + length b" using b(1) by simp
  note l = path_last [OF p [unfolded last], unfolded len]
  have end_: "path + of_nat (Suc (length d + length b)) - 1 = path + of_nat (length d + length b)" by simp
  have "last b \<noteq> CHR ''/''" using b by (metis last_in_set)
  then have strip: "strip_slashes m path (path + of_nat (Suc (length d + length b)) - 1) =
      Some (m, Some (path + of_nat (length d + length b)))"
    using l(2) unfolding end_ by (intro strip_slashes_none [where c = "byte (last b)"]) simp_all
  have scan: "back_to_slash m path (path + of_nat (length d + length b)) = Some (path + of_nat (length d))"
    by (rule back_to_slash_found [OF p b(2)]) simp
  obtain c where c: "m path = Some c" "c \<noteq> 0" using l(3) by blast
  have at: "str_at m path (d @ CHR ''/'' # b)" and nz: "path \<noteq> 0" using p by (simp_all add: path_at_def)
  have suc: "path + of_nat (length d) + 1 = path + of_nat (Suc (length d))" by simp
  show "basename m path = Some (m, Mem (path + of_nat (Suc (length d))))"
    using nz c l(1) strip scan suc
    by (simp add: basename_def del: of_nat_Suc of_nat_add)
  show "str_at m (path + of_nat (Suc (length d))) b"
    using at by (simp add: str_at_append ac_simps)
qed

lemma basename_single:
  assumes p: "path_at m path b" and b: "b \<noteq> []" "CHR ''/'' \<notin> set b"
  shows "basename m path = Some (m, Mem path)"
proof -
  have last: "b = butlast b @ [last b]" using b(1) by simp
  have len: "Suc (length (butlast b)) = length b" using b(1) by simp
  note l = path_last [of m path "butlast b" "last b", folded last, OF p, unfolded len]
  have "last b \<noteq> CHR ''/''" using b by (metis last_in_set)
  then have strip: "strip_slashes m path (path + of_nat (length b) - 1) =
      Some (m, Some (path + of_nat (length b) - 1))"
    using l(2) by (intro strip_slashes_none [where c = "byte (last b)"]) simp_all
  have scan: "back_to_slash m path (path + of_nat (length b) - 1) = Some (path - 1)"
    by (rule back_to_slash_front [OF p b(2)]) simp
  moreover obtain c where "m path = Some c" "c \<noteq> 0" using l(3) by blast
  ultimately show ?thesis
    using p l(1) strip by (simp add: basename_def path_at_def)
qed

subsection \<open>Properties\<close>

text \<open>\<open>dirname\<close> and \<open>basename\<close> split a path at its last slash. For a path \<open>d/b\<close> with \<open>b\<close> free of slashes and neither
  part empty, \<open>basename\<close> points at \<open>b\<close> and changes nothing, and \<open>dirname\<close> cuts the string in place to \<open>d\<close>,
  after which the memory holds \<open>d\<close> at the path and still \<open>b\<close> behind the cut.\<close>

theorem dirname_basename_split:
  assumes "path_at m path (d @ CHR ''/'' # b)" "b \<noteq> []" "CHR ''/'' \<notin> set b" "d \<noteq> []"
  shows "\<exists>m'. basename m path = Some (m, Mem (path + of_nat (Suc (length d)))) \<and>
    str_at m (path + of_nat (Suc (length d))) b \<and>
    dirname m path = Some (m', Mem path) \<and> path_at m' path d \<and>
    (\<forall>a. a \<noteq> path + of_nat (length d) \<longrightarrow> m' a = m a)"
  using dirname_nested [OF assms] basename_nested [OF assms(1-3)] by auto

theorem dirname_basename_split_witness:
  "\<exists>m'. dirname (write_bytes Map.empty 0x100 (cstring ''etc/hosts'')) 0x100 = Some (m', Mem 0x100) \<and> path_at m' 0x100 ''etc''"
proof -
  have "path_at (write_bytes Map.empty 0x100 (cstring ''etc/hosts'')) 0x100 (''etc'' @ CHR ''/'' # ''hosts'')"
    using bytes_at_write_bytes [of "cstring ''etc/hosts''" Map.empty "0x100"]
    by (simp add: path_at_def str_at_bytes del: cstring_simps)
  from dirname_basename_split [OF this] show ?thesis by auto
qed

end
