(* ===== verification/Fs.thy ===== *)
theory Fs
  imports Tty Libgen
begin

text \<open>
  The virtual filesystem, \<^verbatim>\<open>newland/src/fs.c\<close>: file nodes and path resolution, the registry
  of filesystems and the table of mountpoints.

  Nodes are heap objects found by address; paths are C strings in a byte memory, because
  \<open>fs_node_resolve\<close> hands them to \<open>dirname\<close>, which writes to them. The operations of a node
  or a filesystem are reached through code addresses: \<open>drivers\<close> is what calling such an
  address does, and is a parameter. A call through a null pointer is a fault. Where the code
  reads a structure it did not initialise, the content \<open>kmalloc\<close> found there is an argument.
\<close>

definition FS_PSEUDO :: u32 where "FS_PSEUDO = 0"
definition FS_VIRT :: u32 where "FS_VIRT = 1"
definition FS_PHYS :: u32 where "FS_PHYS = 2"
definition MS_BIND :: u32 where "MS_BIND = 1"

record fs_opts =
  op_mount :: u32
  op_umount :: u32

record fs =
  fs_name :: string
  fs_opts :: fs_opts
  fs_type :: u32

record mountpoint =
  mp_rootnode :: ptr
  mp_fsname :: string
  mp_source :: string
  mp_target :: string
  mp_flags :: u32

record fs_state = tty_state +
  fs_mem :: mem
  node_heap :: "ptr \<Rightarrow> fs_node option"
  next_inode :: u32
  fs_heap :: "fs heap"
  filesystems :: ptr
  filesystem_count :: u32
  mp_heap :: "mountpoint heap"
  mountpoints :: ptr
  mp_count :: u32

text \<open>
  Calls through the operation tables: the code address, the arguments, and for a result stored
  through a pointer the value it had before.
\<close>

record 's drivers =
  call_open :: "u32 \<Rightarrow> ptr \<Rightarrow> ptr \<Rightarrow> 's \<Rightarrow> (u32 \<times> 's) option"
  call_close :: "u32 \<Rightarrow> ptr \<Rightarrow> ptr \<Rightarrow> 's \<Rightarrow> (u32 \<times> 's) option"
  call_get_child :: "u32 \<Rightarrow> ptr \<Rightarrow> ptr \<Rightarrow> u32 \<Rightarrow> 's \<Rightarrow> (u32 \<times> ptr \<times> 's) option"
  call_read :: "u32 \<Rightarrow> ptr \<Rightarrow> u32 \<Rightarrow> ptr \<Rightarrow> u32 \<Rightarrow> 's \<Rightarrow> (u32 \<times> 's) option"
  call_write :: "u32 \<Rightarrow> ptr \<Rightarrow> u32 \<Rightarrow> ptr \<Rightarrow> u32 \<Rightarrow> 's \<Rightarrow> (u32 \<times> 's) option"
  call_ioctl :: "u32 \<Rightarrow> ptr \<Rightarrow> u32 \<Rightarrow> ptr \<Rightarrow> 's \<Rightarrow> (u32 \<times> 's) option"
  call_mount :: "u32 \<Rightarrow> ptr \<Rightarrow> ptr \<Rightarrow> u32 \<Rightarrow> ptr \<Rightarrow> 's \<Rightarrow> (u32 \<times> ptr \<times> 's) option"

subsection \<open>Nodes\<close>

text \<open>The result is the code's, then what was stored through \<open>nodeptr\<close>, if anything.\<close>

definition fs_node_create ::
  "'z fs_state_scheme \<Rightarrow> ptr \<Rightarrow> fs_node \<Rightarrow> string \<Rightarrow> u32 \<Rightarrow> (u32 \<times> ptr option \<times> 'z fs_state_scheme) option" where
  "fs_node_create s p garbage name mode =
     (if length name > NAME_MAX then Some (err ENAMETOOLONG, None, s)
      else if p = 0 then Some (err ENOMEM, Some 0, s)
      else do {
        nm \<leftarrow> strcpy_field NAME_MAX name;
        let node = garbage\<lparr>node_name := nm, node_mode := mode, node_ino := next_inode s\<rparr>;
        Some (node_ino node, Some p,
          s\<lparr>node_heap := (node_heap s)(p \<mapsto> node), next_inode := next_inode s + 1\<rparr>)
      })"

definition fs_node_open ::
  "'z fs_state_scheme drivers \<Rightarrow> 'z fs_state_scheme \<Rightarrow> ptr \<Rightarrow> ptr \<Rightarrow> (u32 \<times> 'z fs_state_scheme) option" where
  "fs_node_open env s node fd = do {
     n \<leftarrow> node_heap s node;
     if op_open (node_opts n) = 0 then Some (0, s)
     else call_open env (op_open (node_opts n)) node fd s
   }"

definition fs_node_close ::
  "'z fs_state_scheme drivers \<Rightarrow> 'z fs_state_scheme \<Rightarrow> ptr \<Rightarrow> ptr \<Rightarrow> (u32 \<times> 'z fs_state_scheme) option" where
  "fs_node_close env s node fd = do {
     n \<leftarrow> node_heap s node;
     if op_close (node_opts n) = 0 then Some (0, s)
     else call_close env (op_close (node_opts n)) node fd s
   }"

subsection \<open>Path resolution\<close>

text \<open>The string at an address; reading past mapped memory is a fault.\<close>

partial_function (option) cstr_of :: "mem \<Rightarrow> ptr \<Rightarrow> string option" where
  "cstr_of m p = (case m p of
      None \<Rightarrow> None
    | Some c \<Rightarrow>
        if c = 0 then Some []
        else Option.bind (cstr_of m (p + 1)) (\<lambda>s. Some (char_of_byte c # s)))"

definition skip_slash :: "mem \<Rightarrow> ptr \<Rightarrow> ptr option" where
  "skip_slash m path = (case m path of None \<Rightarrow> None | Some c \<Rightarrow> Some (if c = SLASH then path + 1 else path))"

text \<open>The start of \<open>fs_node_resolve\<close>: \<open>plen = strlen(dirname(path))\<close>, which may cut the path.\<close>

definition resolve_enter :: "mem \<Rightarrow> ptr \<Rightarrow> (mem \<times> ptr \<times> u32) option" where
  "resolve_enter m path = do {
     path' \<leftarrow> skip_slash m path;
     (m', d) \<leftarrow> dirname m path';
     plen \<leftarrow> strlen_c m' d;
     Some (m', path', plen)
   }"

text \<open>The loop over the children, with the recursive call's own start inlined.\<close>

partial_function (option) resolve_loop ::
  "'z fs_state_scheme drivers \<Rightarrow> 'z fs_state_scheme \<Rightarrow> ptr \<Rightarrow> ptr \<Rightarrow> u32 \<Rightarrow> u32 \<Rightarrow> ptr \<Rightarrow>
   (u32 \<times> ptr option \<times> 'z fs_state_scheme) option" where
  "resolve_loop env s node tmpnode i plen path = (case node_heap s node of
      None \<Rightarrow> None
    | Some n \<Rightarrow>
        if op_get_child (node_opts n) = 0 then None
        else (case call_get_child env (op_get_child (node_opts n)) node tmpnode i s of
          None \<Rightarrow> None
        | Some (r, child, s1) \<Rightarrow>
            if r \<noteq> 0 then Some (err ENOENT, None, s1)
            else (case node_heap s1 child of
              None \<Rightarrow> None
            | Some c \<Rightarrow> (case cstr_of (fs_mem s1) path of
                None \<Rightarrow> None
              | Some pstr \<Rightarrow>
                  if 1 < plen then
                    if strncmp (node_name c) pstr (unat plen) = 0 then
                      (case resolve_enter (fs_mem s1) (path + plen) of
                        None \<Rightarrow> None
                      | Some (m', path', plen') \<Rightarrow>
                          resolve_loop env (s1\<lparr>fs_mem := m'\<rparr>) child 0 0 plen' path')
                    else resolve_loop env s1 node child (i + 1) plen path
                  else if strcmp (node_name c) pstr = 0 then Some (0, Some child, s1)
                  else resolve_loop env s1 node child (i + 1) plen path))))"

definition fs_node_resolve ::
  "'z fs_state_scheme drivers \<Rightarrow> 'z fs_state_scheme \<Rightarrow> ptr \<Rightarrow> ptr \<Rightarrow>
   (u32 \<times> ptr option \<times> 'z fs_state_scheme) option" where
  "fs_node_resolve env s node path = do {
     (m', path', plen) \<leftarrow> resolve_enter (fs_mem s) path;
     resolve_loop env (s\<lparr>fs_mem := m'\<rparr>) node 0 0 plen path'
   }"

definition mountpoint_count :: "'z fs_state_scheme \<Rightarrow> u32" where
  "mountpoint_count s = mp_count s"

definition mountpoint_fromsrc :: "'z fs_state_scheme \<Rightarrow> string \<Rightarrow> ptr option" where
  "mountpoint_fromsrc s src = slist_find (mp_heap s) (\<lambda>mp. mp_source mp = src) (mountpoints s)"

definition mountpoint_fromtarget :: "'z fs_state_scheme \<Rightarrow> string \<Rightarrow> ptr option" where
  "mountpoint_fromtarget s target = slist_find (mp_heap s) (\<lambda>mp. mp_target mp = target) (mountpoints s)"

definition fs_resolve ::
  "'z fs_state_scheme drivers \<Rightarrow> 'z fs_state_scheme \<Rightarrow> ptr \<Rightarrow>
   (u32 \<times> ptr option \<times> 'z fs_state_scheme) option" where
  "fs_resolve env s path =
     (if path = 0 then Some (err EINVAL, None, s)
      else do {
        path' \<leftarrow> skip_slash (fs_mem s) path;
        pstr \<leftarrow> cstr_of (fs_mem s) path';
        mp0 \<leftarrow> slist_find (mp_heap s)
          (\<lambda>mp. strncmp pstr (mp_target mp) (length (mp_target mp)) = 0) (mountpoints s);
        root0 \<leftarrow> (if mp0 = 0 then Some 0 else map_option mp_rootnode (deref (mp_heap s) mp0));
        mp \<leftarrow> (if root0 = 0 then mountpoint_fromtarget s ''/'' else Some mp0);
        if mp = 0 then Some (err EINVAL, None, s)
        else do {
          v \<leftarrow> deref (mp_heap s) mp;
          if mp_rootnode v = 0 then Some (err EINVAL, None, s)
          else fs_node_resolve env s (mp_rootnode v) (path' + of_nat (length (mp_target v)))
        }
      })"

subsection \<open>Reading, writing and controlling nodes\<close>

text \<open>
  A link is read into a buffer on the stack, resolved and followed. \<open>bufs k\<close> is the address
  of the buffer of the \<open>k\<close>-th nested call. Following links need not end: not returning is
  the value \<open>None\<close>.
\<close>

partial_function (option) fs_node_read ::
  "'z fs_state_scheme drivers \<Rightarrow> (nat \<Rightarrow> ptr) \<Rightarrow> 'z fs_state_scheme \<Rightarrow> ptr \<Rightarrow> u32 \<Rightarrow> ptr \<Rightarrow> u32 \<Rightarrow>
   (u32 \<times> 'z fs_state_scheme) option" where
  "fs_node_read env bufs s node offset buff sz = (case node_heap s node of
      None \<Rightarrow> None
    | Some n \<Rightarrow>
        if op_read (node_opts n) = 0 then Some (err ENOSYS, s)
        else if FS_NODE_TYPE_GET (node_mode n) = FS_NODE_LINK then
          (case call_read env (op_read (node_opts n)) node 0 (bufs 0) (node_size n) s of
            None \<Rightarrow> None
          | Some (r, s1) \<Rightarrow>
              if sint r < 0 then Some (r, s1)
              else (case fs_resolve env s1 (bufs 0) of
                None \<Rightarrow> None
              | Some (r2, found, s2) \<Rightarrow>
                  if sint r2 < 0 then Some (r2, s2)
                  else (case found of
                    None \<Rightarrow> None
                  | Some parentnode \<Rightarrow>
                      fs_node_read env (\<lambda>k. bufs (Suc k)) s2 parentnode offset buff sz)))
        else if FS_NODE_TYPE_GET (node_mode n) = FS_NODE_DIR then Some (err EISDIR, s)
        else call_read env (op_read (node_opts n)) node offset buff sz s)"

partial_function (option) fs_node_write ::
  "'z fs_state_scheme drivers \<Rightarrow> (nat \<Rightarrow> ptr) \<Rightarrow> 'z fs_state_scheme \<Rightarrow> ptr \<Rightarrow> u32 \<Rightarrow> ptr \<Rightarrow> u32 \<Rightarrow>
   (u32 \<times> 'z fs_state_scheme) option" where
  "fs_node_write env bufs s node offset buff sz = (case node_heap s node of
      None \<Rightarrow> None
    | Some n \<Rightarrow>
        if op_read (node_opts n) = 0 then Some (err ENOSYS, s)
        else if op_write (node_opts n) = 0 then Some (err ENOSYS, s)
        else if FS_NODE_TYPE_GET (node_mode n) = FS_NODE_LINK then
          (case call_read env (op_read (node_opts n)) node 0 (bufs 0) (node_size n) s of
            None \<Rightarrow> None
          | Some (r, s1) \<Rightarrow>
              if sint r < 0 then Some (r, s1)
              else (case fs_resolve env s1 (bufs 0) of
                None \<Rightarrow> None
              | Some (r2, found, s2) \<Rightarrow>
                  if sint r2 < 0 then Some (r2, s2)
                  else (case found of
                    None \<Rightarrow> None
                  | Some parentnode \<Rightarrow>
                      fs_node_write env (\<lambda>k. bufs (Suc k)) s2 parentnode offset buff sz)))
        else if FS_NODE_TYPE_GET (node_mode n) = FS_NODE_DIR then Some (err EISDIR, s)
        else call_write env (op_write (node_opts n)) node offset buff sz s)"

partial_function (option) fs_node_vioctl ::
  "'z fs_state_scheme drivers \<Rightarrow> (nat \<Rightarrow> ptr) \<Rightarrow> 'z fs_state_scheme \<Rightarrow> ptr \<Rightarrow> u32 \<Rightarrow> ptr \<Rightarrow>
   (u32 \<times> 'z fs_state_scheme) option" where
  "fs_node_vioctl env bufs s node req ap = (case node_heap s node of
      None \<Rightarrow> None
    | Some n \<Rightarrow>
        if op_read (node_opts n) = 0 then Some (err ENOSYS, s)
        else if op_ioctl (node_opts n) = 0 then Some (err ENOSYS, s)
        else if FS_NODE_TYPE_GET (node_mode n) = FS_NODE_LINK then
          (case call_read env (op_read (node_opts n)) node 0 (bufs 0) (node_size n) s of
            None \<Rightarrow> None
          | Some (r, s1) \<Rightarrow>
              if sint r < 0 then Some (r, s1)
              else (case fs_resolve env s1 (bufs 0) of
                None \<Rightarrow> None
              | Some (r2, found, s2) \<Rightarrow>
                  if sint r2 < 0 then Some (r2, s2)
                  else (case found of
                    None \<Rightarrow> None
                  | Some parentnode \<Rightarrow>
                      fs_node_vioctl env (\<lambda>k. bufs (Suc k)) s2 parentnode req ap)))
        else if FS_NODE_TYPE_GET (node_mode n) = FS_NODE_DIR then Some (err EISDIR, s)
        else call_ioctl env (op_ioctl (node_opts n)) node req ap s)"

definition fs_node_ioctl ::
  "'z fs_state_scheme drivers \<Rightarrow> (nat \<Rightarrow> ptr) \<Rightarrow> 'z fs_state_scheme \<Rightarrow> ptr \<Rightarrow> u32 \<Rightarrow> ptr \<Rightarrow>
   (u32 \<times> 'z fs_state_scheme) option" where
  "fs_node_ioctl env bufs s node req ap = fs_node_vioctl env bufs s node req ap"

subsection \<open>Filesystems\<close>

definition fs_count :: "'z fs_state_scheme \<Rightarrow> u32" where
  "fs_count s = filesystem_count s"

definition fs_get :: "'z fs_state_scheme \<Rightarrow> u32 \<Rightarrow> ptr option" where
  "fs_get s i = slist_get (fs_heap s) (filesystems s) 0 i"

definition fs_fromname :: "'z fs_state_scheme \<Rightarrow> string \<Rightarrow> ptr option" where
  "fs_fromname s name = slist_find (fs_heap s) (\<lambda>f. fs_name f = name) (filesystems s)"

definition register_fs ::
  "'z fs_state_scheme \<Rightarrow> ptr \<Rightarrow> string \<Rightarrow> u32 \<Rightarrow> fs_opts \<Rightarrow> (u32 \<times> 'z fs_state_scheme) option" where
  "register_fs s p name type opts = do {
     byname \<leftarrow> fs_fromname s name;
     if byname \<noteq> 0 then Some (err EEXIST, s)
     else if length name > NAME_MAX then Some (err ENAMETOOLONG, s)
     else if p = 0 then Some (err ENOMEM, s)
     else do {
       nm \<leftarrow> strcpy_field NAME_MAX name;
       (h, head) \<leftarrow> SLIST_INSERT_HEAD
         ((fs_heap s)(p \<mapsto> Cell \<lparr>fs_name = nm, fs_opts = opts, fs_type = type\<rparr> 0)) (filesystems s) p;
       Some (0, s\<lparr>fs_heap := h, filesystems := head, filesystem_count := filesystem_count s + 1\<rparr>)
     }
   }"

definition unregister_fs :: "'z fs_state_scheme \<Rightarrow> string \<Rightarrow> (u32 \<times> 'z fs_state_scheme) option" where
  "unregister_fs s name = do {
     f \<leftarrow> fs_fromname s name;
     if f = 0 then Some (err ENOENT, s)
     else do {
       (h, head) \<leftarrow> SLIST_REMOVE (fs_heap s) (filesystems s) f;
       Some (0, s\<lparr>fs_heap := heap_free h f, filesystems := head,
         filesystem_count := filesystem_count s - 1\<rparr>)
     }
   }"

subsection \<open>Mountpoints\<close>

definition skip_slash_s :: "string \<Rightarrow> string" where
  "skip_slash_s t = (case t of CHR ''/'' # u \<Rightarrow> u | _ \<Rightarrow> t)"

text \<open>\<open>fsptr\<close> is the filesystem's address, 0 when the pointer or what it points to is null.\<close>

definition mountpoint_create_fromnode ::
  "'z fs_state_scheme drivers \<Rightarrow> 'z fs_state_scheme \<Rightarrow> ptr \<Rightarrow> mountpoint \<Rightarrow> ptr \<Rightarrow> ptr \<Rightarrow> string \<Rightarrow>
   u32 \<Rightarrow> ptr \<Rightarrow> (u32 \<times> 'z fs_state_scheme) option" where
  "mountpoint_create_fromnode env s p garbage fsptr source target flags data =
     (if flags AND MS_BIND = 0 \<and> fsptr = 0 then Some (err EINVAL, s)
      else if p = 0 then Some (err ENOMEM, s)
      else do {
        t \<leftarrow> strcpy_field PATH_MAX (skip_slash_s target);
        let mp = garbage\<lparr>mp_target := t, mp_flags := flags\<rparr>;
        (r, s1) \<leftarrow> (if flags AND MS_BIND = 0 then do {
            f \<leftarrow> deref (fs_heap s) fsptr;
            let mp1 = mp\<lparr>mp_fsname := fs_name f\<rparr>;
            if op_mount (fs_opts f) = 0 then None
            else do {
              (r, root, s1) \<leftarrow> call_mount env (op_mount (fs_opts f)) (mp_rootnode mp1) source flags data
                (s\<lparr>mp_heap := (mp_heap s)(p \<mapsto> Cell mp1 0)\<rparr>);
              h \<leftarrow> set_val (mp_heap s1) p (\<lambda>v. v\<lparr>mp_rootnode := root\<rparr>);
              Some (r, s1\<lparr>mp_heap := h\<rparr>)
            }
          }
          else Some (0, s\<lparr>mp_heap := (mp_heap s)(p \<mapsto> Cell (mp\<lparr>mp_rootnode := source\<rparr>) 0)\<rparr>));
        if flags AND MS_BIND = 0 \<and> sint r < 0 then Some (r, s1\<lparr>mp_heap := heap_free (mp_heap s1) p\<rparr>)
        else do {
          (h, head) \<leftarrow> SLIST_INSERT_HEAD (mp_heap s1) (mountpoints s1) p;
          Some (0, s1\<lparr>mp_heap := h, mountpoints := head, mp_count := mp_count s1 + 1\<rparr>)
        }
      })"

definition mountpoint_create ::
  "'z fs_state_scheme drivers \<Rightarrow> 'z fs_state_scheme \<Rightarrow> ptr \<Rightarrow> mountpoint \<Rightarrow> ptr \<Rightarrow> ptr \<Rightarrow> string \<Rightarrow>
   u32 \<Rightarrow> ptr \<Rightarrow> (u32 \<times> 'z fs_state_scheme) option" where
  "mountpoint_create env s p garbage fsptr src target flags data =
     (if flags AND MS_BIND = 0 \<and> fsptr = 0 then Some (err EINVAL, s)
      else do {
        bysrc \<leftarrow> (if src = 0 then Some 0
                 else do { n \<leftarrow> cstr_of (fs_mem s) src; mountpoint_fromsrc s n });
        busy \<leftarrow> (if bysrc \<noteq> 0 then Some True
                else map_option (\<lambda>q. q \<noteq> 0) (mountpoint_fromtarget s target));
        if busy then Some (err EBUSY, s)
        else do {
          let t = skip_slash_s target;
          (r, found, s1) \<leftarrow> fs_resolve env s src;
          if sint r < 0 then Some (r, s1)
          else do {
            sourcenode \<leftarrow> Some (case found of None \<Rightarrow> 0 | Some n \<Rightarrow> n);
            (r2, s2) \<leftarrow> mountpoint_create_fromnode env s1 p garbage fsptr sourcenode t flags data;
            if sint r2 < 0 then Some (r2, s2)
            else do {
              mp \<leftarrow> mountpoint_fromtarget s2 t;
              srcname \<leftarrow> cstr_of (fs_mem s2) src;
              nm \<leftarrow> strcpy_field PATH_MAX srcname;
              h \<leftarrow> set_val (mp_heap s2) mp (\<lambda>v. v\<lparr>mp_source := nm\<rparr>);
              Some (0, s2\<lparr>mp_heap := h\<rparr>)
            }
          }
        }
      })"

definition mountpoint_destroy :: "'z fs_state_scheme \<Rightarrow> string \<Rightarrow> (u32 \<times> 'z fs_state_scheme) option" where
  "mountpoint_destroy s target = do {
     mp \<leftarrow> mountpoint_fromtarget s target;
     if mp = 0 then Some (err EINVAL, s)
     else do {
       (h, head) \<leftarrow> SLIST_REMOVE (mp_heap s) (mountpoints s) mp;
       Some (0, s\<lparr>mp_heap := heap_free h mp, mountpoints := head, mp_count := mp_count s - 1\<rparr>)
     }
   }"

subsection \<open>Resolution within a directory\<close>

lemma cstr_of_str: "str_at m p s \<Longrightarrow> cstr_of m p = Some s"
proof (induction s arbitrary: p)
  case Nil
  then show ?case by (subst cstr_of.simps) simp
next
  case (Cons c s)
  then show ?case by (subst cstr_of.simps) simp
qed

lemma strcmp_take_eq: "CHR 0x00 \<notin> set s \<Longrightarrow> CHR 0x00 \<notin> set t \<Longrightarrow> strncmp s t n = 0 \<longleftrightarrow> take n s = take n t"
  unfolding strncmp_def by (rule strcmp_eq_0) (auto dest: in_set_takeD)

text \<open>
  What resolution relies on from the driver of a directory node: \<open>get_child\<close> answers the
  children in order, then an error, and changes nothing. \<open>cs\<close> are the children's addresses.
\<close>

definition name_of :: "'z fs_state_scheme \<Rightarrow> ptr \<Rightarrow> string" where
  "name_of s p = (case node_heap s p of None \<Rightarrow> [] | Some n \<Rightarrow> node_name n)"

definition lists_dir :: "'z fs_state_scheme drivers \<Rightarrow> 'z fs_state_scheme \<Rightarrow> ptr \<Rightarrow> ptr list \<Rightarrow> bool" where
  "lists_dir env s dir cs \<longleftrightarrow> length cs < 4294967296 \<and>
     (\<forall>c \<in> set cs. node_heap s c \<noteq> None \<and> CHR 0x00 \<notin> set (name_of s c)) \<and>
     (\<exists>n. node_heap s dir = Some n \<and> op_get_child (node_opts n) \<noteq> 0 \<and>
       (\<forall>tmp i. call_get_child env (op_get_child (node_opts n)) dir tmp i s =
         Some (if unat i < length cs then (0, cs ! unat i, s) else (err ENOENT, tmp, s))))"

text \<open>The same whatever the byte memory holds, for a driver that reads none of it.\<close>

definition lists_always :: "'z fs_state_scheme drivers \<Rightarrow> 'z fs_state_scheme \<Rightarrow> ptr \<Rightarrow> ptr list \<Rightarrow> bool" where
  "lists_always env s dir cs \<longleftrightarrow> (\<forall>m. lists_dir env (s\<lparr>fs_mem := m\<rparr>) dir cs)"

lemma lists_always_mem: "lists_always env s dir cs \<Longrightarrow> lists_dir env (s\<lparr>fs_mem := m\<rparr>) dir cs"
  by (simp add: lists_always_def)

lemma lists_always_dir: "lists_always env s dir cs \<Longrightarrow> lists_dir env s dir cs"
  using lists_always_mem [of env s dir cs "fs_mem s"] by simp

lemma resolve_loop_step:
  assumes dir: "lists_dir env s dir cs" and path: "cstr_of (fs_mem s) path = Some b" and k: "k < length cs"
  shows "resolve_loop env s dir tmp (of_nat k) plen path =
    (if 1 < plen then
       if strncmp (name_of s (cs ! k)) b (unat plen) = 0 then
         (case resolve_enter (fs_mem s) (path + plen) of
            None \<Rightarrow> None
          | Some (m', path', plen') \<Rightarrow> resolve_loop env (s\<lparr>fs_mem := m'\<rparr>) (cs ! k) 0 0 plen' path')
       else resolve_loop env s dir (cs ! k) (of_nat (Suc k)) plen path
     else if strcmp (name_of s (cs ! k)) b = 0 then Some (0, Some (cs ! k), s)
     else resolve_loop env s dir (cs ! k) (of_nat (Suc k)) plen path)"
proof -
  obtain n where n: "node_heap s dir = Some n" "op_get_child (node_opts n) \<noteq> 0"
    "\<And>tmp i. call_get_child env (op_get_child (node_opts n)) dir tmp i s =
         Some (if unat i < length cs then (0, cs ! unat i, s) else (err ENOENT, tmp, s))"
    using dir unfolding lists_dir_def by blast
  have small: "unat (of_nat k :: u32) = k"
    using k dir by (intro unat_of_nat_small) (simp add: lists_dir_def)
  have call: "call_get_child env (op_get_child (node_opts n)) dir tmp (of_nat k) s = Some (0, cs ! k, s)"
    using n(3) [of tmp "of_nat k"] k small by simp
  obtain c where c: "node_heap s (cs ! k) = Some c"
    using dir k unfolding lists_dir_def by (meson nth_mem not_None_eq)
  have nm: "name_of s (cs ! k) = node_name c" by (simp add: name_of_def c)
  show ?thesis
    by (subst resolve_loop.simps) (simp add: n(1,2) call c path nm add.commute)
qed

lemma resolve_loop_end:
  assumes dir: "lists_dir env s dir cs"
  shows "resolve_loop env s dir tmp (of_nat (length cs)) plen path = Some (err ENOENT, None, s)"
proof -
  obtain n where n: "node_heap s dir = Some n" "op_get_child (node_opts n) \<noteq> 0"
    "\<And>tmp i. call_get_child env (op_get_child (node_opts n)) dir tmp i s =
         Some (if unat i < length cs then (0, cs ! unat i, s) else (err ENOENT, tmp, s))"
    using dir unfolding lists_dir_def by blast
  have small: "unat (of_nat (length cs) :: u32) = length cs"
    using dir by (intro unat_of_nat_small) (simp add: lists_dir_def)
  have "call_get_child env (op_get_child (node_opts n)) dir tmp (of_nat (length cs)) s = Some (err ENOENT, tmp, s)"
    using n(3) [of tmp "of_nat (length cs)"] small by simp
  then show ?thesis by (subst resolve_loop.simps) (simp add: n(1,2))
qed

lemma nth_drop_Suc: "k < length cs \<Longrightarrow> drop k cs = cs ! k # drop (Suc k) cs"
  by (rule Cons_nth_drop_Suc [symmetric])

text \<open>The last component: the first child of that name, or \<open>ENOENT\<close>.\<close>

lemma resolve_loop_leaf:
  assumes dir: "lists_dir env s dir cs" and path: "cstr_of (fs_mem s) path = Some b"
    and b: "CHR 0x00 \<notin> set b" and plen: "\<not> 1 < plen" and k: "k \<le> length cs"
  shows "resolve_loop env s dir tmp (of_nat k) plen path =
    Some (case find (\<lambda>c. name_of s c = b) (drop k cs) of
        None \<Rightarrow> (err ENOENT, None, s) | Some c \<Rightarrow> (0, Some c, s))"
  using k
proof (induction "length cs - k" arbitrary: k tmp)
  case 0
  then have "k = length cs" by simp
  then show ?case using resolve_loop_end [OF dir] by simp
next
  case (Suc d)
  then have lt: "k < length cs" by simp
  have nz: "CHR 0x00 \<notin> set (name_of s (cs ! k))" using dir lt by (simp add: lists_dir_def)
  have IH: "resolve_loop env s dir (cs ! k) (of_nat (Suc k)) plen path =
    Some (case find (\<lambda>c. name_of s c = b) (drop (Suc k) cs) of
        None \<Rightarrow> (err ENOENT, None, s) | Some c \<Rightarrow> (0, Some c, s))"
    using Suc by (intro Suc.hyps(1)) simp_all
  show ?case
    using strcmp_eq_0 [OF nz b] IH
    by (subst resolve_loop_step [OF dir path lt]) (simp add: plen nth_drop_Suc [OF lt])
qed

lemma resolve_enter_single:
  assumes "path_at m path b" "b \<noteq> []" "CHR ''/'' \<notin> set b"
  shows "resolve_enter m path = Some (m, path, 1)"
proof -
  obtain c u where b: "b = c # u" using assms(2) by (cases b) auto
  then have "m path = Some (byte c)" "c \<noteq> CHR ''/''" using assms(1,3) by (auto simp: path_at_def)
  then show ?thesis
    using dirname_single [OF assms] by (simp add: resolve_enter_def skip_slash_def strlen_c_def)
qed

lemma resolve_enter_slash:
  assumes "path_at m (path + 1) b" "m path = Some SLASH" "path + 1 \<noteq> 0"
    and "b \<noteq> []" "CHR ''/'' \<notin> set b"
  shows "resolve_enter m path = Some (m, path + 1, 1)"
  using dirname_single [OF assms(1,4,5)] assms(2) by (simp add: resolve_enter_def skip_slash_def strlen_c_def)

lemma resolve_enter_empty:
  assumes "m path = Some 0" "path \<noteq> 0"
  shows "resolve_enter m path = Some (m, path, 1)"
proof -
  have "(0 :: u8) \<noteq> SLASH" by (simp add: SLASH_def byte_def)
  then show ?thesis using assms by (simp add: resolve_enter_def skip_slash_def dirname_def strlen_c_def)
qed

lemma resolve_enter_nested:
  assumes p: "path_at m path (d @ CHR ''/'' # b)" and b: "b \<noteq> []" "CHR ''/'' \<notin> set b"
    and d: "d \<noteq> []" "hd d \<noteq> CHR ''/''"
  shows "resolve_enter m path = Some (m(path + of_nat (length d) \<mapsto> 0), path, of_nat (length d))"
proof -
  obtain c u where du: "d = c # u" using d(1) by (cases d) auto
  have "m path = Some (byte c)" using p by (simp add: path_at_def du)
  then have "skip_slash m path = Some path" using d(2) du by (simp add: skip_slash_def)
  moreover have "strlen (m(path + of_nat (length d) \<mapsto> 0)) path = Some (of_nat (length d))"
    using dirname_nested(2) [OF p b d(1)] by (intro strlen_str) (simp add: path_at_def)
  ultimately show ?thesis
    using dirname_nested(1) [OF p b d(1)] by (simp add: resolve_enter_def strlen_c_def del: fun_upd_apply)
qed

text \<open>A path of one component resolves to the first child with that name.\<close>

lemma fs_node_resolve_single:
  assumes dir: "lists_dir env s dir cs" and path: "path_at (fs_mem s) path b"
    and b: "b \<noteq> []" "CHR ''/'' \<notin> set b"
  shows "fs_node_resolve env s dir path = Some (case find (\<lambda>c. name_of s c = b) cs of
      None \<Rightarrow> (err ENOENT, None, s) | Some c \<Rightarrow> (0, Some c, s))"
proof -
  have at: "str_at (fs_mem s) path b" using path by (simp add: path_at_def)
  have "resolve_loop env s dir 0 (of_nat 0) 1 path = Some (case find (\<lambda>c. name_of s c = b) (drop 0 cs) of
      None \<Rightarrow> (err ENOENT, None, s) | Some c \<Rightarrow> (0, Some c, s))"
    by (rule resolve_loop_leaf [OF dir cstr_of_str [OF at] str_at_no_NUL [OF at]]) simp_all
  then show ?thesis by (simp add: fs_node_resolve_def resolve_enter_single [OF path b])
qed

lemma find_none: "\<forall>x \<in> set xs. \<not> P x \<Longrightarrow> find P xs = None"
  by (simp add: find_None_iff)

text \<open>
  A longer path does not resolve. \<open>dirname\<close> cuts the path after its directory part \<open>d\<close>; the
  child chosen by that part is then asked for the empty path that is left, not for the last
  component.
\<close>

lemma resolve_loop_nested:
  assumes dir: "lists_dir env s dir cs" and path: "path_at (fs_mem s) path d"
    and d: "1 < length d" "k \<le> length cs"
    and sub: "\<And>c. c \<in> set cs \<Longrightarrow> take (length d) (name_of s c) = d \<Longrightarrow>
      \<exists>cs2. lists_dir env s c cs2 \<and> [] \<notin> name_of s ` set cs2"
  shows "resolve_loop env s dir tmp (of_nat k) (of_nat (length d)) path = Some (err ENOENT, None, s)"
  using d(2)
proof (induction "length cs - k" arbitrary: k tmp)
  case 0
  then have "k = length cs" by simp
  then show ?case using resolve_loop_end [OF dir] by simp
next
  case (Suc j)
  then have lt: "k < length cs" by simp
  have at: "str_at (fs_mem s) path d" and nw: "unat path + length d < 4294967296" "path \<noteq> 0"
    using path by (simp_all add: path_at_def)
  have ul: "unat (of_nat (length d) :: u32) = length d" using nw by (intro unat_of_nat_small) simp
  then have plen: "1 < (of_nat (length d) :: u32)" using d(1) by (simp add: word_less_nat_alt)
  have cmp: "strncmp (name_of s (cs ! k)) d (length d) = 0 \<longleftrightarrow> take (length d) (name_of s (cs ! k)) = d"
    using strcmp_take_eq [of "name_of s (cs ! k)" d "length d"] dir lt str_at_no_NUL [OF at]
    by (simp add: lists_dir_def)
  show ?case
  proof (cases "take (length d) (name_of s (cs ! k)) = d")
    case False
    have "resolve_loop env s dir (cs ! k) (of_nat (Suc k)) (of_nat (length d)) path = Some (err ENOENT, None, s)"
      using Suc by (intro Suc.hyps(1)) simp_all
    then show ?thesis
      by (subst resolve_loop_step [OF dir cstr_of_str [OF at] lt]) (simp add: plen ul cmp False)
  next
    case True
    obtain cs2 where cs2: "lists_dir env s (cs ! k) cs2" "[] \<notin> name_of s ` set cs2"
      using sub [OF nth_mem [OF lt] True] by blast
    have nul: "fs_mem s (path + of_nat (length d)) = Some 0"
      using at str_at_append [of "fs_mem s" path d "[]"] by simp
    have "path + of_nat (length d) \<noteq> 0"
    proof
      assume "path + of_nat (length d) = 0"
      then have "unat (path + of_nat (length d)) = 0" by simp
      then show False using path_at_addr [OF path, of "length d"] nw(2) by (simp add: unat_eq_0)
    qed
    then have enter: "resolve_enter (fs_mem s) (path + of_nat (length d)) =
        Some (fs_mem s, path + of_nat (length d), 1)"
      using resolve_enter_empty [of "fs_mem s" "path + of_nat (length d)"] nul by blast
    have "resolve_loop env s (cs ! k) 0 (of_nat 0) 1 (path + of_nat (length d)) =
        Some (case find (\<lambda>c. name_of s c = []) (drop 0 cs2) of
          None \<Rightarrow> (err ENOENT, None, s) | Some c \<Rightarrow> (0, Some c, s))"
      by (rule resolve_loop_leaf [OF cs2(1)]) (simp_all add: cstr_of_str nul)
    also have "find (\<lambda>c. name_of s c = []) (drop 0 cs2) = None"
      using cs2(2) by (intro find_none) (metis drop0 imageI)
    finally show ?thesis
      by (subst resolve_loop_step [OF dir cstr_of_str [OF at] lt])
        (simp add: plen ul cmp True enter)
  qed
qed

lemma fs_node_resolve_nested:
  assumes dir: "lists_always env s dir cs" and p: "path_at (fs_mem s) path (d @ CHR ''/'' # b)"
    and b: "b \<noteq> []" "CHR ''/'' \<notin> set b" and d: "1 < length d" "hd d \<noteq> CHR ''/''"
    and sub: "\<And>c. c \<in> set cs \<Longrightarrow> take (length d) (name_of s c) = d \<Longrightarrow>
      \<exists>cs2. lists_always env s c cs2 \<and> [] \<notin> name_of s ` set cs2"
  shows "fs_node_resolve env s dir path =
    Some (err ENOENT, None, s\<lparr>fs_mem := (fs_mem s)(path + of_nat (length d) \<mapsto> 0)\<rparr>)"
proof -
  let ?m = "(fs_mem s)(path + of_nat (length d) \<mapsto> 0)"
  let ?s = "s\<lparr>fs_mem := ?m\<rparr>"
  have dn: "d \<noteq> []" using d(1) by auto
  have names: "name_of ?s c = name_of s c" for c by (simp add: name_of_def)
  have "resolve_loop env ?s dir 0 (of_nat 0) (of_nat (length d)) path = Some (err ENOENT, None, ?s)"
  proof (rule resolve_loop_nested [OF lists_always_mem [OF dir]])
    show "path_at (fs_mem ?s) path d" using dirname_nested(2) [OF p b dn] by simp
    fix c assume "c \<in> set cs" "take (length d) (name_of ?s c) = d"
    then show "\<exists>cs2. lists_dir env ?s c cs2 \<and> [] \<notin> name_of ?s ` set cs2"
      using sub lists_always_mem unfolding names by blast
  qed (use d(1) in simp_all)
  then show ?thesis
    using resolve_enter_nested [OF p b dn d(2)] by (simp add: fs_node_resolve_def del: fun_upd_apply)
qed

text \<open>With a directory part of one character, the directory itself is answered.\<close>

lemma fs_node_resolve_short:
  assumes dir: "lists_always env s dir cs" and p: "path_at (fs_mem s) path (d # CHR ''/'' # b)"
    and b: "b \<noteq> []" "CHR ''/'' \<notin> set b" and d: "d \<noteq> CHR ''/''"
  shows "fs_node_resolve env s dir path =
    Some (case find (\<lambda>c. name_of s c = [d]) cs of
        None \<Rightarrow> (err ENOENT, None, s\<lparr>fs_mem := (fs_mem s)(path + 1 \<mapsto> 0)\<rparr>)
      | Some c \<Rightarrow> (0, Some c, s\<lparr>fs_mem := (fs_mem s)(path + 1 \<mapsto> 0)\<rparr>))"
proof -
  let ?s = "s\<lparr>fs_mem := (fs_mem s)(path + 1 \<mapsto> 0)\<rparr>"
  have p': "path_at (fs_mem s) path ([d] @ CHR ''/'' # b)" using p by simp
  have names: "name_of ?s c = name_of s c" for c by (simp add: name_of_def)
  have "path_at (fs_mem ?s) path [d]" using dirname_nested(2) [OF p' b] by simp
  then have at: "str_at (fs_mem ?s) path [d]" by (simp add: path_at_def)
  have "resolve_loop env ?s dir 0 (of_nat 0) 1 path = Some (case find (\<lambda>c. name_of ?s c = [d]) (drop 0 cs) of
      None \<Rightarrow> (err ENOENT, None, ?s) | Some c \<Rightarrow> (0, Some c, ?s))"
    by (rule resolve_loop_leaf [OF lists_always_mem [OF dir] cstr_of_str [OF at] str_at_no_NUL [OF at]]) simp_all
  then show ?thesis
    using resolve_enter_nested [OF p' b] d
    by (simp add: fs_node_resolve_def names del: fun_upd_apply str_at.simps)
qed

subsection \<open>The table of filesystems\<close>

definition fs_rep :: "'z fs_state_scheme \<Rightarrow> (ptr \<times> fs) list \<Rightarrow> bool" where
  "fs_rep s xs \<longleftrightarrow> slist_rep (fs_heap s) (filesystems s) xs \<and>
     filesystem_count s = of_nat (length xs) \<and> distinct (map (fs_name \<circ> snd) xs)"

definition fs_fresh :: "'z fs_state_scheme \<Rightarrow> ptr \<Rightarrow> bool" where
  "fs_fresh s p \<longleftrightarrow> p \<noteq> 0 \<and> fs_heap s p = None"

definition fs_adm :: "'z fs_state_scheme \<Rightarrow> fs \<Rightarrow> bool" where
  "fs_adm s f \<longleftrightarrow> length (fs_name f) < NAME_MAX"

definition register_fs_entry :: "'z fs_state_scheme \<Rightarrow> ptr \<Rightarrow> fs \<Rightarrow> (u32 \<times> 'z fs_state_scheme) option" where
  "register_fs_entry s p f = register_fs s p (fs_name f) (fs_type f) (fs_opts f)"

lemma fs_rep_nonzero: "fs_rep s xs \<Longrightarrow> 0 \<notin> addrs xs"
  by (auto simp: fs_rep_def dest: slist_rep_nonzero)

lemma fs_fromname_rep: "fs_rep s xs \<Longrightarrow> fs_fromname s k = Some (find_ptr (\<lambda>f. fs_name f = k) xs)"
  by (simp add: fs_rep_def fs_fromname_def slist_find_rep)

lemma fs_fromname_absent:
  "fs_rep s xs \<Longrightarrow> k \<notin> fs_name ` snd ` set xs \<Longrightarrow> fs_fromname s k = Some 0"
  using find_ptr_eq_0 [OF fs_rep_nonzero, of s xs "\<lambda>f. fs_name f = k"]
  by (simp add: fs_fromname_rep key_image)

lemma register_fs_new:
  assumes rep: "fs_rep s xs" and f: "fs_adm s f" "fs_name f \<notin> fs_name ` snd ` set xs" and p: "fs_fresh s p"
  shows "\<exists>s'. register_fs_entry s p f = Some (0, s') \<and> fs_rep s' ((p, f) # xs)"
proof -
  have list: "slist_rep (fs_heap s) (filesystems s) xs" using rep by (simp add: fs_rep_def)
  have pn: "p \<noteq> 0" "p \<notin> addrs xs" using p fresh_not_listed [OF list] by (auto simp: fs_fresh_def)
  have e: "\<lparr>fs_name = fs_name f, fs_opts = fs_opts f, fs_type = fs_type f\<rparr> = f" by (cases f) simp
  have "register_fs_entry s p f = Some (0, s\<lparr>fs_heap := (fs_heap s)(p \<mapsto> Cell f (filesystems s)),
      filesystems := p, filesystem_count := filesystem_count s + 1\<rparr>)"
    using f(1) pn SLIST_INSERT_HEAD_rep(1) [OF list pn, of f 0]
    by (simp add: register_fs_entry_def register_fs_def fs_fromname_absent [OF rep f(2)] fs_adm_def e)
  moreover have "fs_rep (s\<lparr>fs_heap := (fs_heap s)(p \<mapsto> Cell f (filesystems s)),
      filesystems := p, filesystem_count := filesystem_count s + 1\<rparr>) ((p, f) # xs)"
    using rep f(2) SLIST_INSERT_HEAD_rep(2) [OF list pn, of f]
    by (auto simp: fs_rep_def add.commute key_image)
  ultimately show ?thesis by blast
qed

lemma unregister_fs_present:
  assumes rep: "fs_rep s xs" and mem: "(p, f) \<in> set xs"
  shows "\<exists>s'. unregister_fs s (fs_name f) = Some (0, s') \<and> fs_rep s' (slist_del p xs)"
proof -
  have list: "slist_rep (fs_heap s) (filesystems s) xs" using rep by (simp add: fs_rep_def)
  have inp: "p \<in> addrs xs" using mem by force
  then have pn: "p \<noteq> 0" using slist_rep_nonzero [OF list] by metis
  have inj: "inj_on (fs_name \<circ> snd) (set xs)" using rep by (simp add: fs_rep_def distinct_map)
  have found: "find_ptr (\<lambda>g. fs_name g = fs_name f) xs = p"
  proof (rule find_ptr_unique [OF mem refl])
    fix b w assume "(b, w) \<in> set xs" "fs_name w = fs_name f"
    then have "(b, w) = (p, f)" using mem by (intro inj_onD [OF inj]) simp_all
    then show "b = p" by simp
  qed
  obtain h head where rm: "SLIST_REMOVE (fs_heap s) (filesystems s) p = Some (h, head)"
    "slist_rep h head (slist_del p xs)"
    using SLIST_REMOVE_rep [OF list inp] by metis
  have "slist_rep (heap_free h p) head (slist_del p xs)" using rm(2) by (simp add: heap_free_rep)
  moreover have "0 < length xs" using inp by (cases xs) simp_all
  ultimately have "fs_rep (s\<lparr>fs_heap := heap_free h p, filesystems := head,
      filesystem_count := filesystem_count s - 1\<rparr>) (slist_del p xs)"
    using rep length_slist_del [OF slist_rep_distinct [OF list] inp]
    by (simp add: fs_rep_def distinct_map_slist_del of_nat_pred)
  then show ?thesis
    using rm(1) pn by (simp add: unregister_fs_def fs_fromname_rep [OF rep] found)
qed

interpretation fs_names: registry fs_rep fs_fresh fs_adm fs_name fs_fromname register_fs_entry fs_count
  unregister_fs ENOENT
proof unfold_locales
  fix s :: "'a fs_state_scheme" and xs
  assume rep: "fs_rep s xs"
  show "0 \<notin> addrs xs" by (rule fs_rep_nonzero [OF rep])
  show "distinct (map fst xs)" "distinct (map (fs_name \<circ> snd) xs)" "fs_count s = of_nat (length xs)"
    using rep by (auto simp: fs_rep_def fs_count_def dest: slist_rep_distinct)
  show "fs_fromname s k = Some (find_ptr (\<lambda>e. fs_name e = k) xs)" for k by (rule fs_fromname_rep [OF rep])
  show "register_fs_entry s p f = Some (err EEXIST, s)" if k: "fs_name f \<in> fs_name ` snd ` set xs" for p f
  proof -
    obtain x where x: "x \<in> set xs" "fs_name (snd x) = fs_name f" using k by (auto simp: key_image)
    have "find_ptr (\<lambda>e. fs_name e = fs_name f) xs \<noteq> 0"
      by (rule find_ptr_neq_0 [OF fs_rep_nonzero [OF rep] x(1)]) (rule x(2))
    then show ?thesis by (simp add: register_fs_entry_def register_fs_def fs_fromname_rep [OF rep])
  qed
  show "register_fs_entry s 0 f = Some (err ENOMEM, s)"
    if "fs_adm s f" "fs_name f \<notin> fs_name ` snd ` set xs" for f
    using that by (simp add: register_fs_entry_def register_fs_def fs_fromname_absent [OF rep] fs_adm_def)
  show "\<exists>s'. register_fs_entry s p f = Some (0, s') \<and> fs_rep s' ((p, f) # xs)"
    if "fs_adm s f" "fs_name f \<notin> fs_name ` snd ` set xs" "fs_fresh s p" for p f
    by (rule register_fs_new [OF rep that])
  show "unregister_fs s k = Some (err ENOENT, s)" if "k \<notin> fs_name ` snd ` set xs" for k
    by (simp add: unregister_fs_def fs_fromname_absent [OF rep that])
  show "\<exists>s'. unregister_fs s (fs_name f) = Some (0, s') \<and> fs_rep s' (slist_del p xs)"
    if "(p, f) \<in> set xs" for p f
    by (rule unregister_fs_present [OF rep that])
qed

subsection \<open>Mountpoints\<close>

definition mp_rep :: "'z fs_state_scheme \<Rightarrow> (ptr \<times> mountpoint) list \<Rightarrow> bool" where
  "mp_rep s xs \<longleftrightarrow> slist_rep (mp_heap s) (mountpoints s) xs \<and> mp_count s = of_nat (length xs)"

lemma mp_rep_nonzero: "mp_rep s xs \<Longrightarrow> 0 \<notin> addrs xs"
  by (auto simp: mp_rep_def dest: slist_rep_nonzero)

lemma mountpoint_fromtarget_rep:
  "mp_rep s xs \<Longrightarrow> mountpoint_fromtarget s t = Some (find_ptr (\<lambda>mp. mp_target mp = t) xs)"
  by (simp add: mp_rep_def mountpoint_fromtarget_def slist_find_rep)

text \<open>A bind mount goes to the front of the table under its target without the leading slash.\<close>

lemma mountpoint_bind:
  assumes rep: "mp_rep s xs" and p: "p \<noteq> 0" "mp_heap s p = None"
    and flags: "flags AND MS_BIND \<noteq> 0" and t: "length (skip_slash_s target) < PATH_MAX"
  obtains s' where "mountpoint_create_fromnode env s p g fsptr source target flags data = Some (0, s')"
    "mp_rep s' ((p, g\<lparr>mp_target := skip_slash_s target, mp_flags := flags, mp_rootnode := source\<rparr>) # xs)"
    "node_heap s' = node_heap s" "fs_mem s' = fs_mem s"
proof -
  let ?v = "g\<lparr>mp_target := skip_slash_s target, mp_flags := flags, mp_rootnode := source\<rparr>"
  have list: "slist_rep (mp_heap s) (mountpoints s) xs" using rep by (simp add: mp_rep_def)
  have pn: "p \<notin> addrs xs" using fresh_not_listed [OF list p(2)] .
  let ?s' = "s\<lparr>mp_heap := (mp_heap s)(p \<mapsto> Cell ?v (mountpoints s)), mountpoints := p, mp_count := mp_count s + 1\<rparr>"
  have "mountpoint_create_fromnode env s p g fsptr source target flags data = Some (0, ?s')"
    using p(1) flags t SLIST_INSERT_HEAD_rep(1) [OF list p(1) pn, of ?v 0]
    by (simp add: mountpoint_create_fromnode_def)
  moreover have "mp_rep ?s' ((p, ?v) # xs)"
    using rep SLIST_INSERT_HEAD_rep(2) [OF list p(1) pn, of ?v] by (simp add: mp_rep_def add.commute)
  ultimately show ?thesis using that by simp
qed

text \<open>
  The table stores targets without their leading slash, but the lookups of
  \<open>mountpoint_create\<close> and \<open>mountpoint_destroy\<close> compare the target as given: one that starts
  with a slash is never found.
\<close>

lemma mountpoint_slash_absent:
  assumes rep: "mp_rep s xs" and stored: "\<forall>x \<in> set xs. \<not> (\<exists>u. mp_target (snd x) = CHR ''/'' # u)"
  shows "mountpoint_fromtarget s (CHR ''/'' # t) = Some 0"
    and "mountpoint_destroy s (CHR ''/'' # t) = Some (err EINVAL, s)"
proof -
  have "find_ptr (\<lambda>mp. mp_target mp = CHR ''/'' # t) xs = 0"
    using stored by (intro find_ptr_eq_0 [OF mp_rep_nonzero [OF rep]]) blast
  then show "mountpoint_fromtarget s (CHR ''/'' # t) = Some 0"
    "mountpoint_destroy s (CHR ''/'' # t) = Some (err EINVAL, s)"
    by (simp_all add: mountpoint_destroy_def mountpoint_fromtarget_rep [OF rep])
qed

lemma mountpoint_destroy_present:
  assumes rep: "mp_rep s xs" and mem: "(p, v) \<in> set xs"
    and first: "find_ptr (\<lambda>mp. mp_target mp = mp_target v) xs = p"
  obtains s' where "mountpoint_destroy s (mp_target v) = Some (0, s')" "mp_rep s' (slist_del p xs)"
proof -
  have list: "slist_rep (mp_heap s) (mountpoints s) xs" using rep by (simp add: mp_rep_def)
  have inp: "p \<in> addrs xs" using mem by force
  then have pn: "p \<noteq> 0" using slist_rep_nonzero [OF list] by metis
  obtain h head where rm: "SLIST_REMOVE (mp_heap s) (mountpoints s) p = Some (h, head)"
    "slist_rep h head (slist_del p xs)"
    using SLIST_REMOVE_rep [OF list inp] by metis
  have "slist_rep (heap_free h p) head (slist_del p xs)" using rm(2) by (simp add: heap_free_rep)
  moreover have "0 < length xs" using inp by (cases xs) simp_all
  ultimately have "mp_rep (s\<lparr>mp_heap := heap_free h p, mountpoints := head, mp_count := mp_count s - 1\<rparr>)
      (slist_del p xs)"
    using rep length_slist_del [OF slist_rep_distinct [OF list] inp]
    by (simp add: mp_rep_def of_nat_pred)
  then show ?thesis
    using rm(1) pn by (intro that) (simp_all add: mountpoint_destroy_def mountpoint_fromtarget_rep [OF rep] first)
qed

text \<open>
  Resolution starts at the first mountpoint, newest first, whose target is a prefix of the
  path without its leading slash.
\<close>

lemma fs_resolve_mounted:
  assumes rep: "mp_rep s xs" and path: "path \<noteq> 0" "skip_slash (fs_mem s) path = Some path'"
    and str: "str_at (fs_mem s) path' pstr"
    and mp: "find (\<lambda>x. strncmp pstr (mp_target (snd x)) (length (mp_target (snd x))) = 0) xs = Some (p, v)"
    and root: "mp_rootnode v \<noteq> 0"
  shows "fs_resolve env s path = fs_node_resolve env s (mp_rootnode v) (path' + of_nat (length (mp_target v)))"
proof -
  let ?P = "\<lambda>mp. strncmp pstr (mp_target mp) (length (mp_target mp)) = 0"
  have list: "slist_rep (mp_heap s) (mountpoints s) xs" using rep by (simp add: mp_rep_def)
  have "find_ptr ?P xs = p" using mp by (simp add: find_ptr_def comp_def)
  then have found: "slist_find (mp_heap s) ?P (mountpoints s) = Some p"
    using slist_find_rep [OF list] by simp
  have mem: "(p, v) \<in> set xs" using mp unfolding find_Some_iff by (metis nth_mem)
  have "deref (mp_heap s) p = Some v" by (rule slist_rep_deref [OF list mem])
  moreover have "p \<noteq> 0" using mem mp_rep_nonzero [OF rep] by force
  ultimately show ?thesis
    using path root by (simp add: fs_resolve_def cstr_of_str [OF str] found)
qed

subsection \<open>Driver tables for examples\<close>

text \<open>A table whose every entry faults, and one whose directories list given children.\<close>

definition no_drivers :: "'s drivers" where
  "no_drivers = \<lparr>call_open = (\<lambda>_ _ _ _. None), call_close = (\<lambda>_ _ _ _. None),
     call_get_child = (\<lambda>_ _ _ _ _. None), call_read = (\<lambda>_ _ _ _ _ _. None),
     call_write = (\<lambda>_ _ _ _ _ _. None), call_ioctl = (\<lambda>_ _ _ _ _. None), call_mount = (\<lambda>_ _ _ _ _ _. None)\<rparr>"

definition dir_drivers :: "(ptr \<Rightarrow> ptr list) \<Rightarrow> 's drivers" where
  "dir_drivers children = no_drivers\<lparr>call_get_child := (\<lambda>_ dir tmp i s.
     Some (if unat i < length (children dir) then (0, children dir ! unat i, s) else (err ENOENT, tmp, s)))\<rparr>"

text \<open>
  A small tree over any state: a root directory at \<open>0x10\<close> with the children \<open>etc\<close> (a directory at
  \<open>0x20\<close>) and \<open>hosts\<close> (a file at \<open>0x30\<close>); the directory \<open>etc\<close> holds one file \<open>passwd\<close>, at \<open>0x40\<close>. The root is mounted
  with the empty target, and a path lies at \<open>0x100\<close>.
\<close>

definition sample_node :: "string \<Rightarrow> u32 \<Rightarrow> fs_node_opts \<Rightarrow> fs_node" where
  "sample_node name mode opts = \<lparr>node_name = name, node_dev = 0, node_ino = 0, node_mode = mode,
     node_nlink = 0, node_uid = 0, node_gid = 0, node_rdev = 0, node_size = 0, node_blksize = 0,
     node_blkcnt = 0, node_atime = 0, node_mtime = 0, node_ctime = 0, node_opts = opts, node_impl = 0\<rparr>"

definition sample_nodes :: "ptr \<Rightarrow> fs_node option" where
  "sample_nodes = [0x10 \<mapsto> sample_node ''root'' 0 (no_opts\<lparr>op_get_child := 1\<rparr>),
     0x20 \<mapsto> sample_node ''etc'' 0 (no_opts\<lparr>op_get_child := 1\<rparr>), 0x30 \<mapsto> sample_node ''hosts'' 0 (no_opts\<lparr>op_read := 3\<rparr>), 0x38 \<mapsto> sample_node ''lock'' 0 (no_opts\<lparr>op_open := 2\<rparr>),
     0x40 \<mapsto> sample_node ''passwd'' 0 no_opts]"

definition sample_children :: "ptr \<Rightarrow> ptr list" where
  "sample_children = (\<lambda>_. [])(0x10 := [0x20, 0x30, 0x38], 0x20 := [0x40])"

definition sample_mount :: "(ptr \<times> mountpoint) list" where
  "sample_mount = [(0x50, \<lparr>mp_rootnode = 0x10, mp_fsname = [], mp_source = [], mp_target = [], mp_flags = 0\<rparr>)]"

definition with_tree :: "string \<Rightarrow> 'z fs_state_scheme \<Rightarrow> 'z fs_state_scheme" where
  "with_tree path s = s\<lparr>fs_mem := write_bytes Map.empty 0x100 (cstring path), node_heap := sample_nodes,
     mp_heap := heap_of sample_mount, mountpoints := first_ptr sample_mount, mp_count := 1\<rparr>"

lemma with_tree_simps [simp]:
  "fs_mem (with_tree path s) = write_bytes Map.empty 0x100 (cstring path)"
  "node_heap (with_tree path s) = sample_nodes"
  by (simp_all add: with_tree_def)

lemma with_tree_mp_rep: "mp_rep (with_tree path s) sample_mount"
  unfolding mp_rep_def using slist_rep_heap_of [of sample_mount] by (simp add: with_tree_def sample_mount_def)

lemma sample_names:
  "name_of (with_tree path s) 0x20 = ''etc''" "name_of (with_tree path s) 0x30 = ''hosts''"
  "name_of (with_tree path s) 0x38 = ''lock''" "name_of (with_tree path s) 0x40 = ''passwd''"
  by (simp_all add: name_of_def sample_nodes_def sample_node_def)

lemma sample_always:
  assumes "call_get_child env = call_get_child (dir_drivers sample_children)"
  shows "lists_always env (with_tree path s) 0x10 [0x20, 0x30, 0x38]" "lists_always env (with_tree path s) 0x20 [0x40]"
  using assms by (auto simp: lists_always_def lists_dir_def name_of_def dir_drivers_def sample_children_def
      sample_nodes_def sample_node_def no_opts_def)

lemmas sample_lists = sample_always [THEN lists_always_dir]

lemma sample_path:
  assumes "CHR 0x00 \<notin> set path" "length path < 4096"
  shows "path_at (fs_mem (with_tree path s)) 0x100 path"
  using assms bytes_at_write_bytes [of "cstring path" Map.empty "0x100"]
  by (simp add: path_at_def str_at_bytes)

definition empty_fs :: fs_state where
  "empty_fs = \<lparr>klog_calls = [], dev_heap = Map.empty, devices = 0, dev_count = 0,
     blk_heap = Map.empty, block_devices = 0, block_device_count = 0, tty_heap = Map.empty, ttys = 0,
     tty_cnt = 0, fs_mem = Map.empty, node_heap = Map.empty, next_inode = 0, fs_heap = Map.empty,
     filesystems = 0, filesystem_count = 0, mp_heap = Map.empty, mountpoints = 0, mp_count = 0\<rparr>"

subsection \<open>Properties\<close>

text \<open>C31: a path of one component resolves to the first child of that name: \<open>fs_node_resolve\<close> on a
  directory whose driver lists its children returns 0 and the child, or \<open>-NEWLAND_ENOENT\<close> when no child
  has the name, and leaves the state as it was.\<close>

theorem resolve_component:
  assumes "lists_dir env s dir cs" "path_at (fs_mem s) path b" "b \<noteq> []" "CHR ''/'' \<notin> set b"
  shows "fs_node_resolve env s dir path = Some (case find (\<lambda>c. name_of s c = b) cs of
      None \<Rightarrow> (err ENOENT, None, s) | Some c \<Rightarrow> (0, Some c, s))"
  by (rule fs_node_resolve_single [OF assms])

theorem resolve_component_witness:
  "fs_node_resolve (dir_drivers sample_children) (with_tree ''hosts'' empty_fs) 0x10 0x100 =
    Some (0, Some 0x30, with_tree ''hosts'' empty_fs)"
  using resolve_component [OF sample_lists(1) [OF refl, of "''hosts''" empty_fs] sample_path [of "''hosts''" empty_fs]]
  by (simp add: sample_names del: with_tree_simps)



text \<open>\<open>fs_resolve\<close> hands the path on to the newest mountpoint whose target is a prefix of it (one
  leading slash aside), from behind that prefix.\<close>

theorem resolve_by_mountpoint:
  assumes "mp_rep s xs" "path \<noteq> 0" "skip_slash (fs_mem s) path = Some path'" "str_at (fs_mem s) path' pstr"
    and "find (\<lambda>x. strncmp pstr (mp_target (snd x)) (length (mp_target (snd x))) = 0) xs = Some (p, v)"
    and "mp_rootnode v \<noteq> 0"
  shows "fs_resolve env s path = fs_node_resolve env s (mp_rootnode v) (path' + of_nat (length (mp_target v)))"
  by (rule fs_resolve_mounted [OF assms])

theorem resolve_by_mountpoint_witness:
  "fs_resolve (dir_drivers sample_children) (with_tree ''hosts'' empty_fs) 0x100 =
    fs_node_resolve (dir_drivers sample_children) (with_tree ''hosts'' empty_fs) 0x10 0x100"
  using resolve_by_mountpoint [OF with_tree_mp_rep [of "''hosts''" empty_fs], of "0x100" "0x100" "''hosts''"
      "0x50" "snd (hd sample_mount)"] sample_path [of "''hosts''" empty_fs]
  by (simp add: path_at_def skip_slash_def SLASH_def sample_mount_def strncmp_def)

text \<open>A filesystem driver that is registered under a free name is found by that name, counted and
  refused a second time; \<open>unregister_fs\<close> brings the table back to what it was.\<close>

theorem register_unregister_fs:
  fixes f :: fs
  assumes "fs_rep s xs" "length (fs_name f) < NAME_MAX" "fs_name f \<notin> fs_name ` snd ` set xs"
    and "p \<noteq> 0" "fs_heap s p = None"
  shows "\<exists>t u. register_fs s p (fs_name f) (fs_type f) (fs_opts f) = Some (0, t) \<and>
    fs_fromname t (fs_name f) = Some p \<and> fs_count t = fs_count s + 1 \<and>
    register_fs t p (fs_name f) (fs_type f) (fs_opts f) = Some (err EEXIST, t) \<and>
    unregister_fs t (fs_name f) = Some (0, u) \<and> fs_rep u xs \<and> fs_count u = fs_count s"
proof -
  have adm: "fs_adm t f" for t :: "'a fs_state_scheme" using assms(2) by (simp add: fs_adm_def)
  have fresh: "fs_fresh s p" using assms(4,5) by (simp add: fs_fresh_def)
  obtain t where t: "register_fs_entry s p f = Some (0, t)" "fs_fromname t (fs_name f) = Some p"
    "fs_count t = fs_count s + 1" "register_fs_entry t p f = Some (err EEXIST, t)"
    using fs_names.register_found [OF assms(1) adm assms(3) fresh] adm by metis
  obtain u where "unregister_fs t (fs_name f) = Some (0, u)" "fs_rep u xs" "fs_count u = fs_count s"
    using fs_names.register_unregister [OF assms(1) adm assms(3) fresh] t(1) by auto
  with t show ?thesis by (auto simp: register_fs_entry_def)
qed

theorem register_unregister_fs_witness:
  "\<exists>t. register_fs empty_fs 0x60 ''devfs'' FS_PSEUDO \<lparr>op_mount = 1, op_umount = 2\<rparr> = Some (0, t) \<and>
    fs_fromname t ''devfs'' = Some 0x60"
  using register_unregister_fs [of empty_fs "[]" "\<lparr>fs_name = ''devfs'', fs_opts = \<lparr>op_mount = 1, op_umount = 2\<rparr>, fs_type = FS_PSEUDO\<rparr>" "0x60"]
  by (auto simp: fs_rep_def empty_fs_def NAME_MAX_def)

text \<open>C39: a bind mount and its removal. The target is stored without its leading slash, but lookups compare
  the caller's string as it is: after mounting at \<open>/t\<close>, \<open>mountpoint_destroy\<close> of \<open>/t\<close> answers
  \<open>-NEWLAND_EINVAL\<close>, and only \<open>t\<close> removes the mountpoint again.\<close>

theorem mount_umount_slash:
  assumes "mp_rep s xs" "p \<noteq> 0" "mp_heap s p = None" "flags AND MS_BIND \<noteq> 0" "length t < PATH_MAX"
    and "\<forall>x \<in> set xs. \<not> (\<exists>u. mp_target (snd x) = CHR ''/'' # u)" "\<not> (\<exists>u. t = CHR ''/'' # u)"
  shows "\<exists>s' s''. mountpoint_create_fromnode env s p g fsptr source (CHR ''/'' # t) flags data = Some (0, s') \<and>
    mountpoint_destroy s' (CHR ''/'' # t) = Some (err EINVAL, s') \<and>
    mountpoint_destroy s' t = Some (0, s'') \<and> mp_rep s'' xs"
proof -
  let ?v = "g\<lparr>mp_target := t, mp_flags := flags, mp_rootnode := source\<rparr>"
  have skip: "skip_slash_s (CHR ''/'' # t) = t" by (simp add: skip_slash_s_def)
  obtain s' where s': "mountpoint_create_fromnode env s p g fsptr source (CHR ''/'' # t) flags data = Some (0, s')"
    "mp_rep s' ((p, ?v) # xs)"
    using mountpoint_bind [OF assms(1-4), of "CHR ''/'' # t" env g fsptr source data] assms(5) unfolding skip by metis
  have no: "\<forall>x \<in> set ((p, ?v) # xs). \<not> (\<exists>u. mp_target (snd x) = CHR ''/'' # u)" using assms(6,7) by simp
  obtain s'' where "mountpoint_destroy s' t = Some (0, s'')" "mp_rep s'' (slist_del p ((p, ?v) # xs))"
    using mountpoint_destroy_present [OF s'(2), of p ?v] by auto
  moreover have "p \<notin> addrs xs" using assms(1,3) unfolding mp_rep_def by (metis fresh_not_listed)
  then have "slist_del p ((p, ?v) # xs) = xs" using slist_del_absent [of p xs] by (simp add: slist_del_def)
  ultimately show ?thesis using s'(1) mountpoint_slash_absent(2) [OF s'(2) no] by auto
qed

theorem mount_umount_slash_witness:
  "\<exists>s' s''. mountpoint_create_fromnode no_drivers empty_fs 0x60 (snd (hd sample_mount)) 0 0x10 ''/mnt'' MS_BIND 0 = Some (0, s') \<and>
    mountpoint_destroy s' ''/mnt'' = Some (err EINVAL, s') \<and> mountpoint_destroy s' ''mnt'' = Some (0, s'')"
  using mount_umount_slash [of empty_fs "[]" "0x60" MS_BIND "''mnt''" no_drivers "snd (hd sample_mount)" 0 "0x10" 0]
  by (auto simp: mp_rep_def empty_fs_def MS_BIND_def PATH_MAX_def)

end
