(* ===== verification/Liblist.thy ===== *)
theory Liblist
  imports Slist
begin

text \<open>
  \<^verbatim>\<open>libraries/liblist/src/list.c\<close>: the generic list of pointers (\<open>list_t\<close>) that devfs,
  procfs, the initrd and the virtual kernel's rootfs cache their nodes in. A node holds a
  value pointer; \<open>malloc\<close>'s answer is an argument of \<open>liblist_add\<close> (0 when it fails).
\<close>

record list_t =
  slh_first :: ptr
  list_nodes :: "ptr heap"

definition liblist_indexof :: "list_t \<Rightarrow> ptr \<Rightarrow> u32 option" where
  "liblist_indexof l value = slist_indexof (list_nodes l) (\<lambda>v. v = value) (slh_first l) 0"

definition liblist_length :: "list_t \<Rightarrow> u32 option" where
  "liblist_length l = slist_count (list_nodes l) (slh_first l) 0"

text \<open>The node found is read (\<open>node->value\<close>); past the end the answer is \<open>NULL\<close>.\<close>

definition liblist_get :: "list_t \<Rightarrow> u32 \<Rightarrow> ptr option" where
  "liblist_get l i = do {
     node \<leftarrow> slist_get (list_nodes l) (slh_first l) 0 i;
     if node = 0 then Some 0 else deref (list_nodes l) node
   }"

definition liblist_add :: "list_t \<Rightarrow> ptr \<Rightarrow> ptr \<Rightarrow> (u32 \<times> list_t) option" where
  "liblist_add l value node = do {
     i \<leftarrow> liblist_indexof l value;
     if i \<noteq> - 1 then Some (err EEXIST, l)
     else if node = 0 then Some (err ENOMEM, l)
     else do {
       (h, first) \<leftarrow> SLIST_INSERT_HEAD ((list_nodes l)(node \<mapsto> Cell value 0)) (slh_first l) node;
       Some (0, l\<lparr>slh_first := first, list_nodes := h\<rparr>)
     }
   }"

definition liblist_remove :: "list_t \<Rightarrow> ptr \<Rightarrow> list_t option" where
  "liblist_remove l value = do {
     node \<leftarrow> slist_find (list_nodes l) (\<lambda>v. v = value) (slh_first l);
     if node = 0 then Some l
     else do {
       (h, first) \<leftarrow> SLIST_REMOVE (list_nodes l) (slh_first l) node;
       Some (l\<lparr>slh_first := first, list_nodes := heap_free h node\<rparr>)
     }
   }"

partial_function (option) liblist_destroy_loop :: "ptr heap \<Rightarrow> ptr \<Rightarrow> ptr heap option" where
  "liblist_destroy_loop h next =
     (if next = 0 then Some h
      else case SLIST_NEXT h next of
        None \<Rightarrow> None
      | Some n \<Rightarrow> liblist_destroy_loop (heap_free h next) n)"

definition liblist_destroy :: "list_t \<Rightarrow> list_t option" where
  "liblist_destroy l = do {
     h \<leftarrow> liblist_destroy_loop (list_nodes l) (slh_first l);
     Some (l\<lparr>list_nodes := h\<rparr>)
   }"

subsection \<open>The interface: a duplicate-free list of pointers\<close>

text \<open>
  What the caches above it rely on. \<open>rep s vs\<close>: the object holds the values \<open>vs\<close>,
  newest first; \<open>fresh s p\<close>: the allocator may answer \<open>p\<close>.
\<close>

definition position :: "'a \<Rightarrow> 'a list \<Rightarrow> nat" where
  "position v vs = length (takeWhile (\<lambda>w. w \<noteq> v) vs)"

lemma position_less: "position v vs < length vs \<longleftrightarrow> v \<in> set vs"
  unfolding position_def by (induction vs) auto

lemma nth_position: "v \<in> set vs \<Longrightarrow> vs ! position v vs = v"
  unfolding position_def by (induction vs) auto

locale pointer_cache =
  fixes rep :: "'s \<Rightarrow> ptr list \<Rightarrow> bool"
    and fresh :: "'s \<Rightarrow> ptr \<Rightarrow> bool"
    and indexof :: "'s \<Rightarrow> ptr \<Rightarrow> u32 option"
    and len :: "'s \<Rightarrow> u32 option"
    and get :: "'s \<Rightarrow> u32 \<Rightarrow> ptr option"
    and add :: "'s \<Rightarrow> ptr \<Rightarrow> ptr \<Rightarrow> (u32 \<times> 's) option"
    and remove :: "'s \<Rightarrow> ptr \<Rightarrow> 's option"
  assumes rep_short: "rep s vs \<Longrightarrow> length vs < 4294967296"
    and rep_distinct: "rep s vs \<Longrightarrow> distinct vs"
    and indexof_rep: "rep s vs \<Longrightarrow>
      indexof s v = Some (if v \<in> set vs then of_nat (position v vs) else - 1)"
    and len_rep: "rep s vs \<Longrightarrow> len s = Some (of_nat (length vs))"
    and get_rep: "rep s vs \<Longrightarrow>
      get s i = Some (if unat i < length vs then vs ! unat i else 0)"
    and add_dup: "rep s vs \<Longrightarrow> v \<in> set vs \<Longrightarrow> add s v p = Some (err EEXIST, s)"
    and add_oom: "rep s vs \<Longrightarrow> v \<notin> set vs \<Longrightarrow> add s v 0 = Some (err ENOMEM, s)"
    and add_new: "rep s vs \<Longrightarrow> v \<notin> set vs \<Longrightarrow> fresh s p \<Longrightarrow>
      \<exists>s'. add s v p = Some (0, s') \<and> rep s' (v # vs)"
    and remove_rep: "rep s vs \<Longrightarrow> \<exists>s'. remove s v = Some s' \<and> rep s' (removeAll v vs)"
begin

lemma get_indexof:
  assumes "rep s vs" "v \<in> set vs"
  shows "\<exists>i. indexof s v = Some i \<and> get s i = Some v"
proof -
  have "position v vs < length vs" using assms(2) by (simp add: position_less)
  moreover from this rep_short [OF assms(1)]
  have "unat (of_nat (position v vs) :: u32) = position v vs"
    by (intro unat_of_nat_small) simp
  ultimately show ?thesis
    using assms by (simp add: indexof_rep get_rep nth_position)
qed

lemma add_get_remove:
  assumes "rep s vs" "v \<notin> set vs" "fresh s p"
  shows "\<exists>s' s''. add s v p = Some (0, s') \<and> get s' 0 = Some v \<and> indexof s' v = Some 0 \<and>
    len s' = Some (of_nat (length vs) + 1) \<and> add s' v q = Some (err EEXIST, s') \<and>
    remove s' v = Some s'' \<and> rep s'' vs"
proof -
  obtain s' where s': "add s v p = Some (0, s')" "rep s' (v # vs)"
    using add_new [OF assms] by blast
  obtain s'' where s'': "remove s' v = Some s''" "rep s'' (removeAll v (v # vs))"
    using remove_rep [OF s'(2)] by blast
  have "removeAll v (v # vs) = vs" using assms(2) by simp
  with s' s'' show ?thesis
    by (auto simp: get_rep indexof_rep len_rep position_def add.commute
        intro!: exI [of _ s'] exI [of _ s''] add_dup [OF s'(2)])
qed

end

subsection \<open>The list implements the interface\<close>

definition liblist_rep :: "list_t \<Rightarrow> ptr list \<Rightarrow> bool" where
  "liblist_rep l vs \<longleftrightarrow>
     (\<exists>xs. slist_rep (list_nodes l) (slh_first l) xs \<and> vs = map snd xs \<and> distinct vs)"

definition liblist_fresh :: "list_t \<Rightarrow> ptr \<Rightarrow> bool" where
  "liblist_fresh l p \<longleftrightarrow> p \<noteq> 0 \<and> list_nodes l p = None"

lemma first_index_position:
  "first_index (\<lambda>v. v = value) xs = position value (map snd xs)"
  unfolding first_index_def position_def
  by (induction xs) auto

lemma liblist_indexof_rep:
  assumes "liblist_rep l vs"
  shows "liblist_indexof l v = Some (if v \<in> set vs then of_nat (position v vs) else - 1)"
  using assms position_less [of v vs]
  by (auto simp: liblist_rep_def liblist_indexof_def slist_indexof_rep first_index_position)

lemma liblist_indexof_found:
  assumes "liblist_rep l vs"
  shows "liblist_indexof l v = Some (- 1) \<longleftrightarrow> v \<notin> set vs"
proof -
  obtain xs where xs: "slist_rep (list_nodes l) (slh_first l) xs" "vs = map snd xs"
    using assms by (auto simp: liblist_rep_def)
  have "(of_nat (position v vs) :: u32) \<noteq> - 1" if "v \<in> set vs"
    using first_index_neq_minus_1 [OF xs(1), of "\<lambda>w. w = v"] that position_less [of v vs]
    by (simp add: first_index_position xs(2))
  with assms show ?thesis by (auto simp: liblist_indexof_rep)
qed

lemma liblist_add_rep:
  assumes rep: "liblist_rep l vs"
  shows "liblist_add l v p =
    (if v \<in> set vs then Some (err EEXIST, l)
     else if p = 0 then Some (err ENOMEM, l)
     else Some (0, l\<lparr>slh_first := p, list_nodes := (list_nodes l)(p \<mapsto> Cell v (slh_first l))\<rparr>))"
proof -
  obtain i where i: "liblist_indexof l v = Some i" "i = - 1 \<longleftrightarrow> v \<notin> set vs"
    using liblist_indexof_rep [OF rep, of v] liblist_indexof_found [OF rep, of v] by fastforce
  then show ?thesis
    by (simp add: liblist_add_def SLIST_INSERT_HEAD_def SLIST_SET_NEXT_def)
qed

lemma liblist_add_new:
  assumes "liblist_rep l vs" "v \<notin> set vs" "liblist_fresh l p"
  shows "\<exists>l'. liblist_add l v p = Some (0, l') \<and> liblist_rep l' (v # vs)"
proof -
  obtain xs where xs: "slist_rep (list_nodes l) (slh_first l) xs" "vs = map snd xs" "distinct vs"
    using assms by (auto simp: liblist_rep_def)
  have "slist_rep ((list_nodes l)(p \<mapsto> Cell v (slh_first l))) p ((p, v) # xs)"
    using assms(3) xs(1) fresh_not_listed [OF xs(1)]
    by (intro SLIST_INSERT_HEAD_rep(2)) (auto simp: liblist_fresh_def)
  then have "liblist_rep
      (l\<lparr>slh_first := p, list_nodes := (list_nodes l)(p \<mapsto> Cell v (slh_first l))\<rparr>) (v # vs)"
    unfolding liblist_rep_def using xs(2,3) assms(2) by (intro exI [of _ "(p, v) # xs"]) simp
  then show ?thesis
    using assms by (simp add: liblist_add_rep liblist_fresh_def)
qed

lemma liblist_remove_rep:
  assumes "liblist_rep l vs"
  shows "\<exists>l'. liblist_remove l v = Some l' \<and> liblist_rep l' (removeAll v vs)"
proof -
  obtain xs where xs: "slist_rep (list_nodes l) (slh_first l) xs" "vs = map snd xs" "distinct vs"
    using assms by (auto simp: liblist_rep_def)
  let ?p = "find_ptr (\<lambda>w. w = v) xs"
  have find: "slist_find (list_nodes l) (\<lambda>w. w = v) (slh_first l) = Some ?p"
    by (rule slist_find_rep [OF xs(1)])
  show ?thesis
  proof (cases "?p = 0")
    case True
    then have "v \<notin> set vs"
      using find_ptr_0_iff [OF slist_rep_nonzero [OF xs(1)], of "\<lambda>w. w = v"] by (auto simp: xs(2))
    with True find assms show ?thesis by (simp add: liblist_remove_def)
  next
    case False
    then have in_xs: "(?p, v) \<in> set xs" using find_ptr_in [of "\<lambda>w. w = v" xs] by auto
    then have "?p \<in> addrs xs" by force
    then obtain h' p' where rm: "SLIST_REMOVE (list_nodes l) (slh_first l) ?p = Some (h', p')"
      "slist_rep h' p' (slist_del ?p xs)"
      using SLIST_REMOVE_rep [OF xs(1)] by metis
    have only: "fst x = ?p \<longleftrightarrow> snd x = v" if "x \<in> set xs" for x
    proof
      assume "fst x = ?p"
      with that in_xs slist_rep_distinct [OF xs(1)] show "snd x = v"
        by (metis eq_key_imp_eq_value prod.collapse)
    next
      assume "snd x = v"
      with that in_xs xs(2,3) have "x = (?p, v)"
        by (metis distinct_map inj_onD snd_conv)
      then show "fst x = ?p" by simp
    qed
    have "map snd (slist_del ?p xs) = removeAll v vs"
      unfolding slist_del_def xs(2) using only
      by (auto simp: removeAll_filter_not_eq filter_map comp_def intro!: arg_cong [of _ _ "map snd"] filter_cong)
    moreover have "slist_rep (heap_free h' ?p) p' (slist_del ?p xs)"
      using rm(2) by (subst heap_free_rep) auto
    ultimately have "liblist_rep (l\<lparr>slh_first := p', list_nodes := heap_free h' ?p\<rparr>) (removeAll v vs)"
      unfolding liblist_rep_def using xs(3)
      by (intro exI [of _ "slist_del ?p xs"]) (simp add: distinct_removeAll)
    with False find rm(1) show ?thesis by (simp add: liblist_remove_def)
  qed
qed

lemma liblist_get_rep:
  assumes "liblist_rep l vs"
  shows "liblist_get l i = Some (if unat i < length vs then vs ! unat i else 0)"
proof -
  obtain xs where xs: "slist_rep (list_nodes l) (slh_first l) xs" "vs = map snd xs"
    using assms by (auto simp: liblist_rep_def)
  show ?thesis
  proof (cases "unat i < length xs")
    case True
    then have mem: "(fst (xs ! unat i), snd (xs ! unat i)) \<in> set xs" by simp
    then have "fst (xs ! unat i) \<in> addrs xs" by (simp only: True nth_mem image_eqI)
    then have "fst (xs ! unat i) \<noteq> 0"
      using slist_rep_nonzero [OF xs(1)] by metis
    then show ?thesis
      using True xs(2) slist_rep_deref [OF xs(1) mem]
      by (simp add: liblist_get_def slist_get_rep [OF xs(1)])
  next
    case False
    then show ?thesis by (simp add: liblist_get_def slist_get_rep [OF xs(1)] xs(2))
  qed
qed

interpretation liblist: pointer_cache liblist_rep liblist_fresh liblist_indexof liblist_length
  liblist_get liblist_add liblist_remove
proof unfold_locales
  fix s vs assume "liblist_rep s vs"
  then show "length vs < 4294967296"
    using slist_rep_length by (fastforce simp: liblist_rep_def)
  show "liblist_length s = Some (of_nat (length vs))"
    using \<open>liblist_rep s vs\<close> by (auto simp: liblist_rep_def liblist_length_def slist_count_rep)
  show "distinct vs" using \<open>liblist_rep s vs\<close> by (auto simp: liblist_rep_def)
qed (simp_all add: liblist_indexof_rep liblist_get_rep liblist_add_new liblist_remove_rep,
    simp_all add: liblist_add_rep)

subsection \<open>Destroying a list\<close>

lemma liblist_destroy_loop_rep:
  "slist_rep h p xs \<Longrightarrow>
   liblist_destroy_loop h p = Some (\<lambda>a. if a \<in> addrs xs then None else h a)"
proof (induction xs arbitrary: h p)
  case Nil
  then show ?case by (simp add: liblist_destroy_loop.simps)
next
  case (Cons x xs)
  then obtain n where n: "p = fst x" "p \<noteq> 0" "h p = Some (Cell (snd x) n)" "slist_rep h n xs" by auto
  have "p \<notin> addrs xs" using slist_rep_distinct [OF Cons.prems] n(1) by auto
  then have "slist_rep (heap_free h p) n xs" using n(4) by (simp add: heap_free_rep)
  then have "liblist_destroy_loop (heap_free h p) n =
    Some (\<lambda>a. if a \<in> addrs xs then None else heap_free h p a)" by (rule Cons.IH)
  moreover have "liblist_destroy_loop h p = liblist_destroy_loop (heap_free h p) n"
    using n by (subst liblist_destroy_loop.simps) (simp add: SLIST_NEXT_def)
  ultimately have "liblist_destroy_loop h p =
    Some (\<lambda>a. if a \<in> addrs xs then None else heap_free h p a)" by simp
  then show ?case using n(1) by (auto simp: heap_free_def fun_eq_iff)
qed

subsection \<open>Properties\<close>

text \<open>Adding to a pointer list and taking away again. A value that is not in the list is added at the front, is then
  found at index 0 and counted, is refused a second time with \<open>-NEWLAND_EEXIST\<close>, and
  \<open>liblist_remove\<close> brings back the list as it was.\<close>

theorem liblist_add_remove:
  assumes "liblist_rep l vs" "v \<notin> set vs" "node \<noteq> 0" "list_nodes l node = None"
  shows "\<exists>l' l''. liblist_add l v node = Some (0, l') \<and> liblist_get l' 0 = Some v \<and> liblist_indexof l' v = Some 0 \<and>
    liblist_length l' = Some (of_nat (length vs) + 1) \<and> liblist_add l' v q = Some (err EEXIST, l') \<and>
    liblist_remove l' v = Some l'' \<and> liblist_rep l'' vs"
  using liblist.add_get_remove [OF assms(1,2), of node q] assms(3,4) unfolding liblist_fresh_def by blast

theorem liblist_add_remove_witness:
  "\<exists>l'. liblist_add \<lparr>slh_first = 0x10, list_nodes = heap_of [(0x10, 7)]\<rparr> 5 0x20 = Some (0, l') \<and> liblist_get l' 0 = Some 5"
proof -
  have "liblist_rep \<lparr>slh_first = 0x10, list_nodes = heap_of [(0x10, 7)]\<rparr> [7]"
    unfolding liblist_rep_def by (rule exI [of _ "[(0x10, 7)]"]) simp
  from liblist_add_remove [OF this, of 5 "0x20"] show ?thesis by auto
qed

text \<open>\<open>liblist_destroy\<close> frees every node of the list and no other memory, but leaves the head pointing at the
  first of the freed nodes, so that a non-empty list cannot be measured, searched or destroyed again: each of these
  reads freed memory.\<close>

theorem liblist_destroy_dangles:
  assumes "slist_rep (list_nodes l) (slh_first l) xs" "xs \<noteq> []"
  shows "\<exists>l'. liblist_destroy l = Some l' \<and> (\<forall>a. list_nodes l' a = (if a \<in> addrs xs then None else list_nodes l a)) \<and>
    liblist_length l' = None \<and> liblist_indexof l' v = None \<and> liblist_destroy l' = None"
proof -
  let ?h = "\<lambda>a. if a \<in> addrs xs then None else list_nodes l a"
  let ?l = "l\<lparr>list_nodes := ?h\<rparr>"
  have d: "liblist_destroy l = Some ?l"
    using liblist_destroy_loop_rep [OF assms(1)] by (simp add: liblist_destroy_def)
  obtain x ys where x: "xs = x # ys" using assms(2) by (cases xs) auto
  then have "slh_first l = fst x" "slh_first l \<noteq> 0" using assms(1) by auto
  then have gone: "slh_first l \<noteq> 0" "?h (slh_first l) = None" using x by auto
  have "liblist_length ?l = None" "liblist_indexof ?l v = None" "liblist_destroy ?l = None"
    using gone
    by (simp_all add: liblist_length_def liblist_indexof_def liblist_destroy_def slist_count.simps [of _ "slh_first l"]
        slist_indexof.simps [of _ _ "slh_first l"] liblist_destroy_loop.simps [of _ "slh_first l"] SLIST_NEXT_def)
  with d show ?thesis by auto
qed

theorem liblist_destroy_dangles_witness:
  "\<exists>l'. liblist_destroy \<lparr>slh_first = 0x10, list_nodes = heap_of [(0x10, 7)]\<rparr> = Some l' \<and> liblist_length l' = None"
  using liblist_destroy_dangles [of "\<lparr>slh_first = 0x10, list_nodes = heap_of [(0x10, 7)]\<rparr>" "[(0x10, 7)]" 7] by auto

end
