(* ===== verification/Devfs.thy ===== *)
theory Devfs
  imports Fs Liblist
begin

text \<open>
  The nodes of devices, \<^verbatim>\<open>newland/src/fs/devfs.c\<close>: a cache of file nodes, one per device, in a \<open>list_t\<close>.

  \<open>p\<close> and \<open>q\<close> are the answers of the \<open>kmalloc\<close> calls for the node and for its entry in the list, \<open>g\<close> what the
  memory of the node held.
\<close>

record devfs_state = fs_state +
  devfs_nodes :: list_t

definition devfs_get ::
  "'z devfs_state_scheme \<Rightarrow> ptr \<Rightarrow> fs_node \<Rightarrow> ptr \<Rightarrow> u32 \<Rightarrow> (ptr \<times> 'z devfs_state_scheme) option" where
  "devfs_get s p g q i = do {
     node \<leftarrow> liblist_get (devfs_nodes s) i;
     if node \<noteq> 0 then Some (node, s)
     else do {
       device \<leftarrow> device_get s i;
       if device = 0 then Some (0, s)
       else do {
         d \<leftarrow> deref (dev_heap s) device;
         blkdev \<leftarrow> blkdev_fromname s (device_name d);
         (r, created, s1) \<leftarrow> fs_node_create s p g (device_name d)
           (push_bit (unat (if blkdev \<noteq> 0 then FS_NODE_BLK else FS_NODE_CHR)) 6);
         if sint r < 0 then Some (0, s1)
         else do {
           node \<leftarrow> created;
           n \<leftarrow> node_heap s1 node;
           n1 \<leftarrow> (if blkdev \<noteq> 0
                 then map_option (\<lambda>b. n\<lparr>node_blksize := blkdev_size b, node_blkcnt := blkdev_cnt b\<rparr>) (deref (blk_heap s1) blkdev)
                 else Some n);
           let n2 = n1\<lparr>node_rdev := device_dev d, node_size := device_size d, node_opts := device_opts d\<rparr>;
           (r, l) \<leftarrow> liblist_add (devfs_nodes s1) node q;
           Some (node, s1\<lparr>node_heap := (node_heap s1)(node \<mapsto> n2), devfs_nodes := l\<rparr>)
         }
       }
     }
   }"

definition devfs_init :: u32 where
  "devfs_init = 0"

subsection \<open>The node of a device\<close>

text \<open>What a node is filled with; \<open>b\<close> is the block device of the same name, if there is one.\<close>

definition device_node :: "fs_node \<Rightarrow> device \<Rightarrow> blkdev option \<Rightarrow> u32 \<Rightarrow> fs_node" where
  "device_node g d b ino = (let n = g\<lparr>node_name := device_name d,
       node_mode := push_bit (unat (if b \<noteq> None then FS_NODE_BLK else FS_NODE_CHR)) 6, node_ino := ino\<rparr>;
       n1 = (case b of None \<Rightarrow> n | Some v \<Rightarrow> n\<lparr>node_blksize := blkdev_size v, node_blkcnt := blkdev_cnt v\<rparr>)
     in n1\<lparr>node_rdev := device_dev d, node_size := device_size d, node_opts := device_opts d\<rparr>)"

definition named_blkdev :: "(ptr \<times> blkdev) list \<Rightarrow> string \<Rightarrow> blkdev option" where
  "named_blkdev bs name = map_option snd (find (\<lambda>x. blkdev_name (snd x) = name) bs)"

lemma named_blkdev_found:
  assumes "blkdev_rep s bs"
  shows "case named_blkdev bs name of None \<Rightarrow> blkdev_fromname s name = Some 0
    | Some b \<Rightarrow> \<exists>p. p \<noteq> 0 \<and> blkdev_fromname s name = Some p \<and> deref (blk_heap s) p = Some b"
proof (cases "find (\<lambda>x. blkdev_name (snd x) = name) bs")
  case None
  then have "\<forall>x \<in> set bs. blkdev_name (snd x) \<noteq> name" unfolding find_None_iff by blast
  then have "find_ptr (\<lambda>b. blkdev_name b = name) bs = 0"
    by (rule find_ptr_eq_0 [OF blkdev_rep_nonzero [OF assms]])
  then show ?thesis by (simp add: named_blkdev_def None blkdev_fromname_rep [OF assms])
next
  case (Some x)
  have fp: "find_ptr (\<lambda>b. blkdev_name b = name) bs = fst x" using Some
    by (induction bs) (auto split: if_splits)
  have x: "x \<in> set bs" using Some by (auto simp: find_Some_iff)
  have "fst x \<noteq> 0" using x blkdev_rep_nonzero [OF assms] by force
  moreover have "deref (blk_heap s) (fst x) = Some (snd x)" using x by (intro blkdev_rep_deref [OF assms]) simp
  ultimately show ?thesis by (simp add: named_blkdev_def Some blkdev_fromname_rep [OF assms] fp)
qed

text \<open>A device without a cached node gets one, which becomes the first of the cache.\<close>

lemma devfs_get_new:
  assumes dev: "device_rep s ds" and blk: "blkdev_rep s bs" and cache: "liblist_rep (devfs_nodes s) vs"
    and i: "length vs \<le> unat i" "unat i < length ds"
    and p: "p \<noteq> 0" "p \<notin> set vs" and q: "liblist_fresh (devfs_nodes s) q"
    and ino: "0 \<le> sint (next_inode s)"
  shows "\<exists>t. devfs_get s p g q i = Some (p, t) \<and> device_rep t ds \<and> blkdev_rep t bs \<and>
    liblist_rep (devfs_nodes t) (p # vs) \<and> (\<forall>a. a \<noteq> q \<longrightarrow> list_nodes (devfs_nodes t) a = list_nodes (devfs_nodes s) a) \<and>
    t = s\<lparr>node_heap := node_heap t, next_inode := next_inode t, devfs_nodes := devfs_nodes t\<rparr> \<and> next_inode t = next_inode s + 1 \<and>
    node_heap t = (node_heap s)(p \<mapsto> device_node g (snd (ds ! unat i)) (named_blkdev bs (device_name (snd (ds ! unat i)))) (next_inode s))"
proof -
  let ?d = "snd (ds ! unat i)" and ?x = "fst (ds ! unat i)"
  have mem: "(?x, ?d) \<in> set ds" using i(2) by simp
  have rep: "slist_rep (dev_heap s) (devices s) ds" using dev by (simp add: device_rep_def)
  have d: "deref (dev_heap s) ?x = Some ?d" by (rule slist_rep_deref [OF rep mem])
  have x: "?x \<noteq> 0" using slist_rep_nonzero [OF rep] nth_mem [OF i(2)] by (metis imageI)
  have len: "length (device_name ?d) < NAME_MAX" using dev i(2) by (simp add: device_rep_def)
  obtain l where l: "liblist_add (devfs_nodes s) p q = Some (0, l)" "liblist_rep l (p # vs)"
    using liblist_add_new [OF cache p(2) q] by blast
  have other: "\<forall>a. a \<noteq> q \<longrightarrow> list_nodes l a = list_nodes (devfs_nodes s) a"
    using l(1) p(2) q by (auto simp: liblist_add_rep [OF cache] liblist_fresh_def)
  have ino': "\<not> sint (next_inode s) < 0" using ino by simp
  have len': "\<not> NAME_MAX < length (device_name ?d)" using len by simp
  note get = liblist_get_rep [OF cache, of i] device_get_rep [OF dev, of i] d x i ino' len len' p(1)
  show ?thesis
  proof (cases "named_blkdev bs (device_name ?d)")
    case None
    then have "blkdev_fromname s (device_name ?d) = Some 0"
      using named_blkdev_found [OF blk, of "device_name ?d"] by simp
    then show ?thesis
      using dev blk l other None get
      by (simp add: devfs_get_def fs_node_create_def device_node_def device_rep_def blkdev_rep_def)
  next
    case (Some b)
    then obtain a where "a \<noteq> 0" "blkdev_fromname s (device_name ?d) = Some a" "deref (blk_heap s) a = Some b"
      using named_blkdev_found [OF blk, of "device_name ?d"] by auto
    then show ?thesis
      using dev blk l other Some get
      by (simp add: devfs_get_def fs_node_create_def device_node_def device_rep_def blkdev_rep_def)
  qed
qed

lemma devfs_get_cached:
  assumes "liblist_rep (devfs_nodes s) vs" "unat i < length vs" "0 \<notin> set vs"
  shows "devfs_get s p g q i = Some (vs ! unat i, s)"
proof -
  have "vs ! unat i \<noteq> 0" using assms(2,3) nth_mem by force
  then show ?thesis using assms(2) by (simp add: devfs_get_def liblist_get_rep [OF assms(1)])
qed

subsection \<open>Properties\<close>

text \<open>The first request for the node of a device creates it with the name, number, size and operations of the device,
  as a block or character node, and the same request again returns the same node and changes nothing.\<close>

theorem devfs_get_creates:
  assumes "device_rep s ds" "blkdev_rep s bs" "liblist_rep (devfs_nodes s) []" "ds \<noteq> []"
    and "p \<noteq> 0" "liblist_fresh (devfs_nodes s) q" "0 \<le> sint (next_inode s)"
  shows "\<exists>t. devfs_get s p g q 0 = Some (p, t) \<and>
    node_heap t p = Some (device_node g (snd (hd ds)) (named_blkdev bs (device_name (snd (hd ds)))) (next_inode s)) \<and>
    devfs_get t p' g' q' 0 = Some (p, t)"
proof -
  obtain t where t: "devfs_get s p g q 0 = Some (p, t)" "liblist_rep (devfs_nodes t) [p]"
    "node_heap t = (node_heap s)(p \<mapsto> device_node g (snd (ds ! 0)) (named_blkdev bs (device_name (snd (ds ! 0)))) (next_inode s))"
    using devfs_get_new [OF assms(1,2,3), of 0 p q g] assms(4-7) by auto
  moreover have "devfs_get t p' g' q' 0 = Some (p, t)"
    using devfs_get_cached [OF t(2), of 0 p' g' q'] assms(5) by simp
  ultimately show ?thesis using assms(4) by (simp add: hd_conv_nth)
qed

text \<open>The cache is indexed like the table of devices but filled at its head: when the nodes of the first and then of
  the second device have been requested, the request for the first returns the node of the second, and the other way round.\<close>

theorem devfs_get_exchanges:
  assumes "device_rep s ds" "blkdev_rep s bs" "liblist_rep (devfs_nodes s) []" "2 \<le> length ds"
    and "p0 \<noteq> 0" "liblist_fresh (devfs_nodes s) q0" "p1 \<noteq> 0" "p1 \<noteq> p0"
    and "liblist_fresh (devfs_nodes s) q1" "q1 \<noteq> q0"
    and "0 \<le> sint (next_inode s)" "0 \<le> sint (next_inode s + 1)"
  shows "\<exists>t u. devfs_get s p0 g0 q0 0 = Some (p0, t) \<and> devfs_get t p1 g1 q1 1 = Some (p1, u) \<and>
    map_option node_name (node_heap u p0) = Some (device_name (snd (ds ! 0))) \<and>
    map_option node_name (node_heap u p1) = Some (device_name (snd (ds ! 1))) \<and>
    devfs_get u p g q 0 = Some (p1, u) \<and> devfs_get u p g q 1 = Some (p0, u)"
proof -
  have name: "node_name (device_node g d b ino) = device_name d" for g d b ino
    by (simp add: device_node_def Let_def split: option.splits)
  obtain t where t: "devfs_get s p0 g0 q0 0 = Some (p0, t)" "device_rep t ds" "blkdev_rep t bs" "liblist_rep (devfs_nodes t) [p0]"
    "next_inode t = next_inode s + 1" "liblist_fresh (devfs_nodes t) q1" "map_option node_name (node_heap t p0) = Some (device_name (snd (ds ! 0)))"
    using devfs_get_new [OF assms(1,2,3), of 0 p0 q0 g0] assms(4-6,9-11) by (fastforce simp: name liblist_fresh_def)
  obtain u where u: "devfs_get t p1 g1 q1 1 = Some (p1, u)" "liblist_rep (devfs_nodes u) [p1, p0]"
    "map_option node_name (node_heap u p1) = Some (device_name (snd (ds ! 1)))" "node_heap u p0 = node_heap t p0"
    using devfs_get_new [OF t(2-4), of 1 p1 q1 g1] assms(4,7,8,12) t(5,6) by (fastforce simp: name)
  have "devfs_get u p g q 0 = Some (p1, u)" "devfs_get u p g q 1 = Some (p0, u)"
    using devfs_get_cached [OF u(2), of 0 p g q] devfs_get_cached [OF u(2), of 1 p g q] assms(5,7) by simp_all
  then show ?thesis using t(1,7) u by auto
qed

definition two_chars :: devfs_state where
  "two_chars = fs_state.extend (empty_fs\<lparr>dev_heap := heap_of [(0x10, \<lparr>device_dev = 0x201, device_size = 0, device_name = ''tty1'', device_opts = no_opts\<rparr>),
       (0x20, \<lparr>device_dev = 0x200, device_size = 0, device_name = ''tty0'', device_opts = no_opts\<rparr>)], devices := 0x10, dev_count := 2\<rparr>)
     \<lparr>devfs_nodes = \<lparr>slh_first = 0, list_nodes = Map.empty\<rparr>\<rparr>"

lemma two_chars_rep:
  "device_rep two_chars [(0x10, \<lparr>device_dev = 0x201, device_size = 0, device_name = ''tty1'', device_opts = no_opts\<rparr>),
     (0x20, \<lparr>device_dev = 0x200, device_size = 0, device_name = ''tty0'', device_opts = no_opts\<rparr>)]"
  "blkdev_rep two_chars []" "liblist_rep (devfs_nodes two_chars) []" "next_inode two_chars = 0"
  "devfs_nodes two_chars = \<lparr>slh_first = 0, list_nodes = Map.empty\<rparr>"
  by (simp_all add: two_chars_def device_rep_def blkdev_rep_def liblist_rep_def fs_state.defs empty_fs_def NAME_MAX_def)

theorem devfs_get_creates_witness:
  "\<exists>t. devfs_get two_chars 0x40 (sample_node [] 0 no_opts) 0x50 0 = Some (0x40, t) \<and>
    map_option node_rdev (node_heap t 0x40) = Some 0x201 \<and> devfs_get t 0 (sample_node [] 0 no_opts) 0 0 = Some (0x40, t)"
  using devfs_get_creates [OF two_chars_rep(1-3), of "0x40" "0x50" "sample_node [] 0 no_opts" 0 "sample_node [] 0 no_opts" 0]
  by (auto simp: two_chars_rep liblist_fresh_def device_node_def named_blkdev_def)

theorem devfs_get_exchanges_witness:
  "\<exists>t u. devfs_get two_chars 0x40 (sample_node [] 0 no_opts) 0x50 0 = Some (0x40, t) \<and>
    devfs_get t 0x60 (sample_node [] 0 no_opts) 0x70 1 = Some (0x60, u) \<and>
    map_option node_name (node_heap u 0x60) = Some ''tty0'' \<and> devfs_get u 0 (sample_node [] 0 no_opts) 0 0 = Some (0x60, u)"
  using devfs_get_exchanges [OF two_chars_rep(1-3), of "0x40" "0x50" "0x60" "0x70" "sample_node [] 0 no_opts"
      "sample_node [] 0 no_opts" 0 "sample_node [] 0 no_opts" 0]
  by (auto simp: two_chars_rep liblist_fresh_def)

end
