(* ===== verification/Initrd.thy ===== *)
theory Initrd
  imports Devfs
begin

text \<open>
  The initial RAM disk, \<^verbatim>\<open>newland/src/fs/initrd.c\<close>: a filesystem whose files are the entries of a zip archive.

  The archive is read by the miniz library, a submodule that is not in the repository: \<open>miniz\<close> is the table of the
  functions the code calls, on the address of the structure that holds the archive. The structures lie in the heaps
  \<open>initrds\<close> and \<open>initrd_nodes\<close>; the member \<open>path\<close> of the latter is in the byte memory, behind the pointer and the index,
  since the library's \<open>basename\<close> and \<open>dirname\<close> cut it in place. The answers of \<open>kmalloc\<close>, and what the memory held, are
  arguments.
\<close>

record initrd =
  zip_opaque :: ptr
  ir_nodes :: list_t

record initrd_node =
  in_initrd :: ptr
  in_index :: u32

record initrd_state = devfs_state +
  initrds :: "ptr \<Rightarrow> initrd option"
  initrd_nodes :: "ptr \<Rightarrow> initrd_node option"

definition node_path :: "ptr \<Rightarrow> ptr" where
  "node_path p = p + 8"

text \<open>\<open>mz_zip_archive_file_stat\<close>, and the functions of the library.\<close>

record mz_file_stat =
  st_filename :: string
  st_uncomp_size :: u64
  st_is_directory :: bool

record 's miniz =
  mz_init :: "ptr \<Rightarrow> u32 \<Rightarrow> 's \<Rightarrow> (bool \<times> 's) option"
  mz_total_files :: "ptr \<Rightarrow> 's \<Rightarrow> u32"
  mz_file_stat :: "ptr \<Rightarrow> u32 \<Rightarrow> 's \<Rightarrow> mz_file_stat option"
  mz_extract :: "ptr \<Rightarrow> u32 \<Rightarrow> 's \<Rightarrow> (ptr \<times> u32 \<times> 's) option"
  mz_end :: "ptr \<Rightarrow> 's \<Rightarrow> 's option"

definition mz_initrd_read ::
  "'z fs_state_scheme drivers \<Rightarrow> (nat \<Rightarrow> ptr) \<Rightarrow> 'z fs_state_scheme \<Rightarrow> ptr \<Rightarrow> u64 \<Rightarrow> ptr \<Rightarrow> u32 \<Rightarrow>
   (u32 \<times> 'z fs_state_scheme) option" where
  "mz_initrd_read env bufs s node ofs buff sz = fs_node_read env bufs s node (ucast ofs) buff sz"

subsection \<open>Operations of the nodes\<close>

text \<open>\<open>kfree\<close> is the effect of releasing the extracted copy.\<close>

definition initrd_read ::
  "'z initrd_state_scheme miniz \<Rightarrow> (mem \<Rightarrow> ptr \<Rightarrow> mem) \<Rightarrow> 'z initrd_state_scheme \<Rightarrow> ptr \<Rightarrow> u32 \<Rightarrow> ptr \<Rightarrow> u32 \<Rightarrow>
   (u32 \<times> 'z initrd_state_scheme) option" where
  "initrd_read mz kfree s node offset buff sz = do {
     n \<leftarrow> node_heap s node;
     v \<leftarrow> initrd_nodes s (node_impl n);
     (copy, size, s1) \<leftarrow> mz_extract mz (in_initrd v) (in_index v) s;
     if copy = 0 then Some (err EINVAL, s1)
     else do {
       (m, d) \<leftarrow> memcpy (fs_mem s1) buff (copy + offset) sz;
       Some (size, s1\<lparr>fs_mem := kfree m copy\<rparr>)
     }
   }"

text \<open>The string after the first character of the answer of \<open>dirname\<close>.\<close>

definition dir_tail :: "mem \<Rightarrow> cstr \<Rightarrow> string option" where
  "dir_tail m d = (case d of Lit t \<Rightarrow> Some (drop 1 t) | Mem p \<Rightarrow> cstr_of m (p + 1))"

text \<open>
  The index is read through \<open>node->impl\<close>: of the root, that is the structure \<open>initrd\<close> itself, where the member
  \<open>index\<close> of the other structure lies on bytes of the archive's state, \<open>pun\<close>.
\<close>

definition node_index :: "(ptr \<Rightarrow> u32) \<Rightarrow> 'z initrd_state_scheme \<Rightarrow> ptr \<Rightarrow> u32" where
  "node_index pun s impl = (case initrd_nodes s impl of Some v \<Rightarrow> in_index v | None \<Rightarrow> pun impl)"

partial_function (option) child_loop ::
  "'z initrd_state_scheme miniz \<Rightarrow> (ptr \<Rightarrow> u32) \<Rightarrow> ptr heap \<Rightarrow> ptr \<Rightarrow> ptr \<Rightarrow> ptr \<Rightarrow> ptr \<Rightarrow> u32 \<Rightarrow> 'z initrd_state_scheme \<Rightarrow>
   (u32 \<times> ptr option \<times> 'z initrd_state_scheme) option" where
  "child_loop mz pun h initrd impl path ln index s =
     (if ln = 0 then Some (err ENOENT, None, s)
      else case dirname (fs_mem s) path of
        None \<Rightarrow> None
      | Some (m, d) \<Rightarrow> (case (dir_tail m d, deref h ln, SLIST_NEXT h ln) of
          (Some t, Some n, Some ln') \<Rightarrow>
            let s1 = s\<lparr>fs_mem := m\<rparr> in
            (case mz_file_stat mz initrd (node_index pun s1 impl) s1 of
               None \<Rightarrow> child_loop mz pun h initrd impl path ln' index s1
             | Some st \<Rightarrow>
                 if strncmp (st_filename st) t (length t) = 0 then
                   if index = 0 then Some (0, Some n, s1)
                   else child_loop mz pun h initrd impl path ln' (index - 1) s1
                 else child_loop mz pun h initrd impl path ln' index s1)
        | _ \<Rightarrow> None))"

text \<open>\<open>slash\<close> is the address of the literal "/".\<close>

definition initrd_get_child ::
  "'z initrd_state_scheme miniz \<Rightarrow> (ptr \<Rightarrow> u32) \<Rightarrow> ptr \<Rightarrow> 'z initrd_state_scheme \<Rightarrow> ptr \<Rightarrow> u32 \<Rightarrow>
   (u32 \<times> ptr option \<times> 'z initrd_state_scheme) option" where
  "initrd_get_child mz pun slash s node index = do {
     n \<leftarrow> node_heap s node;
     (initrd, path) \<leftarrow> (if strcmp (node_name n) ''/'' \<noteq> 0
        then map_option (\<lambda>v. (in_initrd v, node_path (node_impl n))) (initrd_nodes s (node_impl n))
        else Some (node_impl n, slash));
     ir \<leftarrow> initrds s initrd;
     child_loop mz pun (list_nodes (ir_nodes ir)) initrd (node_impl n) path (slh_first (ir_nodes ir)) index s
   }"

subsection \<open>Mounting\<close>

text \<open>The allocator's answers for one file: the structure, the node, and the entry of the list; and its release of blocks.\<close>

record mount_blocks =
  mb_node :: ptr
  mb_file :: ptr
  mb_entry :: ptr

definition free_initrd :: "ptr \<Rightarrow> ptr \<Rightarrow> 'z initrd_state_scheme \<Rightarrow> 'z initrd_state_scheme" where
  "free_initrd a target s = s\<lparr>initrds := (initrds s)(a := None), node_heap := (node_heap s)(target := None)\<rparr>"

text \<open>\<open>strcpy\<close> of a name into the path, which has been cleared; a longer name overruns the structure.\<close>

definition store_path :: "ptr \<Rightarrow> string \<Rightarrow> mem \<Rightarrow> mem option" where
  "store_path p name m = do {
     (m1, d) \<leftarrow> memset m p 0 (of_nat PATH_MAX);
     if length name < PATH_MAX then Some (write_bytes m1 p (cstring name)) else None
   }"

definition cstr_text :: "mem \<Rightarrow> cstr \<Rightarrow> string option" where
  "cstr_text m c = (case c of Lit t \<Rightarrow> Some t | Mem p \<Rightarrow> cstr_of m p)"

text \<open>
  One round of the loop over the files. Where the archive cannot be read, the message is asked of the archive that has
  just been released: a fault. \<open>getc\<close> and \<open>rd\<close> are the code addresses of \<open>initrd_get_child\<close> and \<open>initrd_read\<close>.
\<close>

definition mount_file ::
  "'z initrd_state_scheme miniz \<Rightarrow> (u32 \<Rightarrow> mount_blocks) \<Rightarrow> fs_node \<Rightarrow> u32 \<Rightarrow> u32 \<Rightarrow> ptr \<Rightarrow> ptr \<Rightarrow> fs_node \<Rightarrow> u32 \<Rightarrow>
   'z initrd_state_scheme \<Rightarrow> (u32 \<times> 'z initrd_state_scheme) option" where
  "mount_file mz blocks g getc rd a target src i s = (let b = mb_node (blocks i) in
     if b = 0 then Some (err ENOMEM, free_initrd a target s)
     else (case mz_file_stat mz a i s of
       None \<Rightarrow> None
     | Some st \<Rightarrow> do {
         m \<leftarrow> store_path (node_path b) (st_filename st) (fs_mem s);
         (m1, base) \<leftarrow> basename m (node_path b);
         name \<leftarrow> cstr_text m1 base;
         let s1 = s\<lparr>fs_mem := m1, initrd_nodes := (initrd_nodes s)(b \<mapsto> \<lparr>in_initrd = 0, in_index = i\<rparr>)\<rparr>;
         (r, created, s2) \<leftarrow> fs_node_create s1 (mb_file (blocks i)) g name
           (push_bit (unat (if st_is_directory st then FS_NODE_DIR else FS_NODE_FILE)) 6);
         if sint r < 0 then Some (r, free_initrd a target s2\<lparr>initrd_nodes := (initrd_nodes s2)(b := None)\<rparr>)
         else do {
           node \<leftarrow> created;
           n \<leftarrow> node_heap s2 node;
           ir \<leftarrow> initrds s2 a;
           let n1 = n\<lparr>node_impl := b, node_size := ucast (st_uncomp_size st), node_dev := node_rdev src,
             node_opts := (if st_is_directory st then (node_opts n)\<lparr>op_get_child := getc\<rparr>
               else (node_opts n)\<lparr>op_read := rd\<rparr>)\<rparr>;
           (r2, l) \<leftarrow> liblist_add (ir_nodes ir) node (mb_entry (blocks i));
           Some (0, s2\<lparr>initrd_nodes := (initrd_nodes s2)(b \<mapsto> \<lparr>in_initrd = a, in_index = i\<rparr>),
             node_heap := (node_heap s2)(node \<mapsto> n1), initrds := (initrds s2)(a \<mapsto> ir\<lparr>ir_nodes := l\<rparr>)\<rparr>)
         }
       }))"

text \<open>
  \<open>a\<close> and \<open>p\<close> are the answers of \<open>kmalloc\<close> for the structure and for the root node, \<open>l0\<close> what the memory of the
  structure held as its list of nodes, which is never set. The result is the code's, then what was stored through \<open>targetptr\<close>.
\<close>

definition initrd_mount ::
  "'z initrd_state_scheme miniz \<Rightarrow> (u32 \<Rightarrow> mount_blocks) \<Rightarrow> fs_node \<Rightarrow> u32 \<Rightarrow> u32 \<Rightarrow> ptr \<Rightarrow> list_t \<Rightarrow> ptr \<Rightarrow>
   'z initrd_state_scheme \<Rightarrow> ptr \<Rightarrow> (u32 \<times> ptr option \<times> 'z initrd_state_scheme) option" where
  "initrd_mount mz blocks g getc rd a l0 p s source =
     (if a = 0 then Some (err ENOMEM, None, s)
      else do {
        src \<leftarrow> node_heap s source;
        (ok, s1) \<leftarrow> mz_init mz a (node_size src)
          (s\<lparr>initrds := (initrds s)(a \<mapsto> \<lparr>zip_opaque = source, ir_nodes = l0\<rparr>)\<rparr>);
        if \<not> ok then None
        else do {
          (r, created, s2) \<leftarrow> fs_node_create s1 p g ''/'' (push_bit (unat FS_NODE_DIR) 6);
          if sint r < 0 then Some (r, created, s2\<lparr>initrds := (initrds s2)(a := None)\<rparr>)
          else do {
            target \<leftarrow> created;
            n \<leftarrow> node_heap s2 target;
            let n1 = n\<lparr>node_dev := node_rdev src, node_impl := a, node_opts := (node_opts n)\<lparr>op_get_child := getc\<rparr>\<rparr>;
            (r, s3) \<leftarrow> for_r (mount_file mz blocks g getc rd a target src) (upto_u32 (mz_total_files mz a s2))
              (s2\<lparr>node_heap := (node_heap s2)(target \<mapsto> n1)\<rparr>);
            Some (r, created, s3)
          }
        }
      })"

definition initrd_umount ::
  "'z initrd_state_scheme miniz \<Rightarrow> 'z initrd_state_scheme \<Rightarrow> ptr \<Rightarrow> (u32 \<times> ptr \<times> 'z initrd_state_scheme) option" where
  "initrd_umount mz s target = do {
     n \<leftarrow> node_heap s target;
     s1 \<leftarrow> mz_end mz (node_impl n) s;
     Some (0, 0, free_initrd (node_impl n) target s1)
   }"

definition initrd_init :: "'z fs_state_scheme \<Rightarrow> ptr \<Rightarrow> fs_opts \<Rightarrow> (u32 \<times> 'z fs_state_scheme) option" where
  "initrd_init s p initrd_opts = register_fs s p ''initrd'' FS_VIRT initrd_opts"


subsection \<open>Reading and listing\<close>

lemma dirname_slash:
  assumes "path_at m p ''/''"
  shows "dirname m p = Some (m, Mem p)" "dir_tail m (Mem p) = Some []"
proof -
  have at: "m p = Some (byte (CHR ''/''))" "m (p + 1) = Some 0" using assms by (simp_all add: path_at_def)
  have "strlen m p = Some 1" using strlen_str [of m p "''/''"] assms by (simp add: path_at_def)
  then show "dirname m p = Some (m, Mem p)"
    using assms at(1) by (simp add: dirname_def path_at_def strip_slashes.simps [of m p p] SLASH_def)
  show "dir_tail m (Mem p) = Some []" using at(2) by (simp add: dir_tail_def cstr_of.simps [of m "p + 1"])
qed

text \<open>The root: the empty rest of "/" is a prefix of every name, so every entry of the list counts.\<close>

lemma child_loop_root:
  assumes slash: "path_at (fs_mem s) slash ''/''" and stat: "mz_file_stat mz initrd (node_index pun s impl) s = Some st"
  shows "slist_rep h ln xs \<Longrightarrow> child_loop mz pun h initrd impl slash ln index s =
    Some (if unat index < length xs then (0, Some (snd (xs ! unat index)), s) else (err ENOENT, None, s))"
proof (induction xs arbitrary: ln index)
  case Nil
  then show ?case by (simp add: child_loop.simps)
next
  case (Cons x xs)
  then obtain n where n: "h ln = Some (Cell (snd x) n)" "slist_rep h n xs" "ln \<noteq> 0" "ln = fst x" by auto
  have "s\<lparr>fs_mem := fs_mem s\<rparr> = s" by simp
  moreover have "strncmp b [] 0 = 0" for b by (simp add: strncmp_def)
  moreover have "unat index = Suc (unat (index - 1))" if "index \<noteq> 0" using that unat_gt_0 [of index] by (simp add: unat_minus_one)
  ultimately show ?case
    using n Cons.IH [OF n(2)] dirname_slash [OF slash] stat
    by (subst child_loop.simps) (simp add: deref_def SLIST_NEXT_def Let_def nth_Cons')
qed

lemma child_loop_no_stat:
  assumes slash: "path_at (fs_mem s) slash ''/''" and stat: "mz_file_stat mz initrd (node_index pun s impl) s = None"
  shows "slist_rep h ln xs \<Longrightarrow> child_loop mz pun h initrd impl slash ln index s = Some (err ENOENT, None, s)"
proof (induction xs arbitrary: ln)
  case Nil
  then show ?case by (simp add: child_loop.simps)
next
  case (Cons x xs)
  then obtain n where n: "h ln = Some (Cell (snd x) n)" "slist_rep h n xs" "ln \<noteq> 0" by auto
  have "s\<lparr>fs_mem := fs_mem s\<rparr> = s" by simp
  then show ?case
    using n Cons.IH [OF n(2)] dirname_slash [OF slash] stat by (subst child_loop.simps) (simp add: deref_def SLIST_NEXT_def Let_def)
qed

subsection \<open>Mounting an archive\<close>

lemma store_path_at:
  assumes "mapped m p PATH_MAX" "CHR 0x00 \<notin> set name" "length name < PATH_MAX" "p \<noteq> 0" "unat p + PATH_MAX < 4294967296"
  obtains m' where "store_path p name m = Some m'" "path_at m' p name" "\<And>q n. mapped m q n \<Longrightarrow> mapped m' q n"
    "\<And>q. \<not> off q p < PATH_MAX \<Longrightarrow> m' q = m q"
proof -
  let ?m = "write_bytes (write_bytes m p (replicate PATH_MAX 0)) p (cstring name)"
  have "memset m p 0 (of_nat PATH_MAX) = Some (write_bytes m p (replicate PATH_MAX 0), p)"
    using memset_correct [OF assms(1), of 0] by (simp add: PATH_MAX_def)
  then have "store_path p name m = Some ?m" using assms(3) by (simp add: store_path_def)
  moreover have "bytes_at ?m p (cstring name)" by (rule bytes_at_write_bytes) (use assms(3) in \<open>simp add: PATH_MAX_def\<close>)
  then have "path_at ?m p name" using assms(2-5) by (simp add: path_at_def str_at_bytes)
  moreover have "mapped ?m q n" if "mapped m q n" for q n using that by simp
  moreover have "?m q = m q" if "\<not> off q p < PATH_MAX" for q
    using that assms(3) by (simp add: write_bytes_frame PATH_MAX_def)
  ultimately show ?thesis by (rule that)
qed

text \<open>Names without a slash that fit, and blocks of the allocator that are all different.\<close>

definition plain_name :: "string \<Rightarrow> bool" where
  "plain_name b \<longleftrightarrow> b \<noteq> [] \<and> CHR 0x00 \<notin> set b \<and> CHR ''/'' \<notin> set b \<and> length b < NAME_MAX"

definition mount_ok :: "'z initrd_state_scheme miniz \<Rightarrow> (u32 \<Rightarrow> mount_blocks) \<Rightarrow> ptr \<Rightarrow> ptr \<Rightarrow> list_t \<Rightarrow> nat \<Rightarrow> (nat \<Rightarrow> mz_file_stat) \<Rightarrow> bool" where
  "mount_ok mz blocks a p l0 n st \<longleftrightarrow> n < 2147483648 \<and>
     (\<forall>k < n. (\<forall>s. mz_file_stat mz a (of_nat k) s = Some (st k)) \<and> plain_name (st_filename (st k)) \<and>
       mb_node (blocks (of_nat k)) \<noteq> 0 \<and> unat (mb_node (blocks (of_nat k))) + 8 + PATH_MAX < 4294967296 \<and>
       mb_file (blocks (of_nat k)) \<noteq> 0 \<and> mb_file (blocks (of_nat k)) \<noteq> p \<and> liblist_fresh l0 (mb_entry (blocks (of_nat k)))) \<and>
     (\<forall>f \<in> {mb_node, mb_file, mb_entry}. inj_on (\<lambda>k. f (blocks (of_nat k))) {..<n})"

text \<open>The node of a file.\<close>

definition file_made :: "mount_blocks \<Rightarrow> mz_file_stat \<Rightarrow> fs_node \<Rightarrow> u32 \<Rightarrow> u32 \<Rightarrow> ptr \<Rightarrow> u32 \<Rightarrow> 'z initrd_state_scheme \<Rightarrow> bool" where
  "file_made bl st src getc rd a i s \<longleftrightarrow> initrd_nodes s (mb_node bl) = Some \<lparr>in_initrd = a, in_index = i\<rparr> \<and>
     (\<exists>v. node_heap s (mb_file bl) = Some v \<and> node_name v = st_filename st \<and> node_impl v = mb_node bl \<and>
       node_size v = ucast (st_uncomp_size st) \<and> node_dev v = node_rdev src \<and>
       (if st_is_directory st then op_get_child (node_opts v) = getc else op_read (node_opts v) = rd))"

definition mounting ::
  "'z initrd_state_scheme miniz \<Rightarrow> (u32 \<Rightarrow> mount_blocks) \<Rightarrow> u32 \<Rightarrow> u32 \<Rightarrow> ptr \<Rightarrow> ptr \<Rightarrow> list_t \<Rightarrow> fs_node \<Rightarrow> fs_node \<Rightarrow> nat \<Rightarrow> (nat \<Rightarrow> mz_file_stat) \<Rightarrow>
   u32 \<Rightarrow> nat \<Rightarrow> 'z initrd_state_scheme \<Rightarrow> bool" where
  "mounting mz blocks getc rd a p l0 src root n st ino k s \<longleftrightarrow>
     (\<exists>ir. initrds s a = Some ir \<and> liblist_rep (ir_nodes ir) (rev (map (\<lambda>k. mb_file (blocks (of_nat k))) [0..<k])) \<and>
       (\<forall>e. e \<notin> (\<lambda>k. mb_entry (blocks (of_nat k))) ` {..<k} \<longrightarrow> list_nodes (ir_nodes ir) e = list_nodes l0 e)) \<and>
     (\<forall>j < k. file_made (blocks (of_nat j)) (st j) src getc rd a (of_nat j) s) \<and> node_heap s p = Some root \<and>
     (\<forall>j < n. mapped (fs_mem s) (node_path (mb_node (blocks (of_nat j)))) PATH_MAX) \<and> next_inode s = ino + of_nat k"

text \<open>What mounting leaves alone: the table of mountpoints, and the memory outside the paths.\<close>

definition path_free :: "(u32 \<Rightarrow> mount_blocks) \<Rightarrow> nat \<Rightarrow> ptr \<Rightarrow> bool" where
  "path_free blocks n q \<longleftrightarrow> (\<forall>j < n. \<not> off q (node_path (mb_node (blocks (of_nat j)))) < PATH_MAX)"

definition mount_frame :: "(u32 \<Rightarrow> mount_blocks) \<Rightarrow> nat \<Rightarrow> 'z initrd_state_scheme \<Rightarrow> 'z initrd_state_scheme \<Rightarrow> bool" where
  "mount_frame blocks n s0 s \<longleftrightarrow> mp_heap s = mp_heap s0 \<and> mountpoints s = mountpoints s0 \<and> mp_count s = mp_count s0 \<and>
     (\<forall>q. path_free blocks n q \<longrightarrow> fs_mem s q = fs_mem s0 q) \<and>
     (\<forall>q. (\<forall>j < n. q \<noteq> mb_node (blocks (of_nat j))) \<longrightarrow> initrd_nodes s q = initrd_nodes s0 q)"

lemma mount_frame_trans: "mount_frame blocks n r s \<Longrightarrow> mount_frame blocks n s t \<Longrightarrow> mount_frame blocks n r t"
  by (simp add: mount_frame_def)

lemma mount_file_step:
  assumes ok: "mount_ok mz blocks a p l0 n st" and k: "k < n" and inv: "mounting mz blocks getc rd a p l0 src root n st ino k s"
    and ino: "0 \<le> sint (ino + of_nat k)"
  shows "\<exists>t. mount_file mz blocks g getc rd a p src (of_nat k) s = Some (0, t) \<and>
    mounting mz blocks getc rd a p l0 src root n st ino (Suc k) t \<and> mount_frame blocks n s t"
proof -
  let ?bl = "blocks (of_nat k)" and ?F = "\<lambda>k. mb_file (blocks (of_nat k))" and ?E = "\<lambda>k. mb_entry (blocks (of_nat k))"
  have st: "mz_file_stat mz a (of_nat k) s = Some (st k)" and name: "plain_name (st_filename (st k))"
    and bl: "mb_node ?bl \<noteq> 0" "unat (mb_node ?bl) + 8 + PATH_MAX < 4294967296" "mb_file ?bl \<noteq> 0" "mb_file ?bl \<noteq> p" "liblist_fresh l0 (mb_entry ?bl)"
    using ok k unfolding mount_ok_def by blast+
  have inj: "inj_on (\<lambda>k. mb_node (blocks (of_nat k))) {..<n}" "inj_on ?F {..<n}" "inj_on ?E {..<n}"
    using ok unfolding mount_ok_def by blast+
  have new: "mb_node (blocks (of_nat j)) \<noteq> mb_node ?bl" "?F j \<noteq> ?F k" "?E j \<noteq> ?E k" if "j < k" for j
    using that k inj [THEN inj_on_eq_iff, of j k] by auto
  obtain ir where ir: "initrds s a = Some ir" "liblist_rep (ir_nodes ir) (rev (map ?F [0..<k]))"
    "\<forall>e. e \<notin> ?E ` {..<k} \<longrightarrow> list_nodes (ir_nodes ir) e = list_nodes l0 e"
    using inv unfolding mounting_def by blast
  note inv' = inv [unfolded mounting_def, THEN conjunct2]
  have path: "unat (node_path (mb_node ?bl)) = unat (mb_node ?bl) + 8"
    using bl(2) by (simp add: node_path_def unat_word_ariths PATH_MAX_def)
  have "node_path (mb_node ?bl) \<noteq> 0" using path by (auto simp: word_unat_eq_iff)
  moreover have "mapped (fs_mem s) (node_path (mb_node ?bl)) PATH_MAX" using inv' k by blast
  moreover have "CHR 0x00 \<notin> set (st_filename (st k))" "length (st_filename (st k)) < PATH_MAX"
    using name by (simp_all add: plain_name_def NAME_MAX_def PATH_MAX_def)
  moreover have "unat (node_path (mb_node ?bl)) + PATH_MAX < 4294967296" using bl(2) path by linarith
  ultimately obtain m where m: "store_path (node_path (mb_node ?bl)) (st_filename (st k)) (fs_mem s) = Some m"
    "path_at m (node_path (mb_node ?bl)) (st_filename (st k))" "\<And>q n. mapped (fs_mem s) q n \<Longrightarrow> mapped m q n"
    "\<And>q. \<not> off q (node_path (mb_node ?bl)) < PATH_MAX \<Longrightarrow> m q = fs_mem s q"
    using store_path_at [of "fs_mem s" "node_path (mb_node ?bl)" "st_filename (st k)"] by blast
  have base: "basename m (node_path (mb_node ?bl)) = Some (m, Mem (node_path (mb_node ?bl)))"
    using m(2) name by (intro basename_single) (auto simp: plain_name_def)
  have nm: "cstr_text m (Mem (node_path (mb_node ?bl))) = Some (st_filename (st k))"
    using m(2) by (simp add: cstr_text_def path_at_def cstr_of_str)
  have fst: "?F k \<notin> set (rev (map ?F [0..<k]))" using new(2) by force
  have "?E k \<notin> ?E ` {..<k}" using new(3) by fastforce
  then have fresh: "liblist_fresh (ir_nodes ir) (?E k)" using bl(5) ir(3) unfolding liblist_fresh_def by simp
  obtain l where l: "liblist_add (ir_nodes ir) (?F k) (?E k) = Some (0, l)" "liblist_rep l (?F k # rev (map ?F [0..<k]))"
    using liblist_add_new [OF ir(2) fst fresh] by blast
  have "\<forall>e. e \<noteq> ?E k \<longrightarrow> list_nodes l e = list_nodes (ir_nodes ir) e"
    using l(1) fst fresh liblist_add_rep [OF ir(2), of "?F k" "?E k"] by (auto simp: liblist_fresh_def)
  note l = l this
  let ?st = "st k" and ?b = "mb_node ?bl" and ?f = "?F k"
  let ?mode = "push_bit (unat (if st_is_directory ?st then FS_NODE_DIR else FS_NODE_FILE)) 6"
  let ?n = "g\<lparr>node_name := st_filename ?st, node_mode := ?mode, node_ino := next_inode s\<rparr>"
  let ?n1 = "?n\<lparr>node_impl := ?b, node_size := ucast (st_uncomp_size ?st), node_dev := node_rdev src,
    node_opts := (if st_is_directory ?st then (node_opts ?n)\<lparr>op_get_child := getc\<rparr> else (node_opts ?n)\<lparr>op_read := rd\<rparr>)\<rparr>"
  let ?t = "s\<lparr>fs_mem := m, initrd_nodes := (initrd_nodes s)(?b \<mapsto> \<lparr>in_initrd = a, in_index = of_nat k\<rparr>),
    node_heap := (node_heap s)(?f \<mapsto> ?n1), next_inode := next_inode s + 1, initrds := (initrds s)(a \<mapsto> ir\<lparr>ir_nodes := l\<rparr>)\<rparr>"
  have len: "length (st_filename ?st) < NAME_MAX" using name by (simp add: plain_name_def)
  have neg: "\<not> sint (next_inode s) < 0" using ino inv' by simp
  have "mount_file mz blocks g getc rd a p src (of_nat k) s = Some (0, ?t)"
    using st bl(1,3) m(1) base nm len neg ir(1) l(1) by (simp add: mount_file_def fs_node_create_def Let_def)
  moreover have "mounting mz blocks getc rd a p l0 src root n st ino (Suc k) ?t"
  proof -
    have old: "file_made (blocks (of_nat j)) (st j) src getc rd a (of_nat j) ?t" if "j < k" for j
      using inv' that new [OF that] by (simp add: file_made_def)
    have "file_made ?bl ?st src getc rd a (of_nat k) ?t" by (simp add: file_made_def)
    then have "\<forall>j < Suc k. file_made (blocks (of_nat j)) (st j) src getc rd a (of_nat j) ?t" using old less_Suc_eq by auto
    moreover have "\<forall>e. e \<notin> ?E ` {..<Suc k} \<longrightarrow> list_nodes l e = list_nodes l0 e" using l(3) ir(3) by (simp add: lessThan_Suc)
    moreover have "liblist_rep l (rev (map ?F [0..<Suc k]))" using l(2) by simp
    moreover have "\<forall>j < n. mapped m (node_path (mb_node (blocks (of_nat j)))) PATH_MAX" using inv' m(3) by blast
    ultimately show ?thesis using inv' bl(4) unfolding mounting_def by (simp add: add.assoc)
  qed
  moreover have "mount_frame blocks n s ?t" using m(4) k by (simp add: mount_frame_def path_free_def)
  ultimately show ?thesis by blast
qed


lemma ino_nonneg:
  assumes "unat ino + k < 2147483648"
  shows "0 \<le> sint (ino + of_nat k :: u32)"
proof -
  let ?w = "ino + of_nat k :: u32"
  have "unat ?w = unat ino + k" using assms by (simp add: unat_word_ariths unat_of_nat)
  then have "unat ?w div 2 ^ 31 = 0" using assms by simp
  then have "\<not> bit (unat ?w) 31" unfolding bit_iff_odd by simp
  then have "\<not> bit ?w 31" by (simp add: bit_unsigned_iff)
  then show ?thesis using bit_last_iff [of ?w] by simp
qed

lemma mount_all:
  assumes alloc: "a \<noteq> 0" "p \<noteq> 0" and src: "node_heap s source = Some src"
    and init: "mz_init mz a (node_size src) (s\<lparr>initrds := (initrds s)(a \<mapsto> \<lparr>zip_opaque = source, ir_nodes = l0\<rparr>)\<rparr>) = Some (True, s1)"
    and s1: "initrds s1 a = Some \<lparr>zip_opaque = source, ir_nodes = l0\<rparr>" "unat (next_inode s1) + n + 1 < 2147483648"
      "\<forall>j < n. mapped (fs_mem s1) (node_path (mb_node (blocks (of_nat j)))) PATH_MAX"
    and empty: "liblist_rep l0 []" and total: "\<forall>t. mz_total_files mz a t = of_nat n"
    and ok: "mount_ok mz blocks a p l0 n st"
  shows "\<exists>t root ir. initrd_mount mz blocks g getc rd a l0 p s source = Some (0, Some p, t) \<and>
    node_heap t p = Some root \<and> node_name root = ''/'' \<and> node_impl root = a \<and> node_dev root = node_rdev src \<and>
    op_get_child (node_opts root) = getc \<and>
    initrds t a = Some ir \<and> liblist_rep (ir_nodes ir) (rev (map (\<lambda>k. mb_file (blocks (of_nat k))) [0..<n])) \<and>
    (\<forall>k < n. file_made (blocks (of_nat k)) (st k) src getc rd a (of_nat k) t) \<and> mount_frame blocks n s1 t"
proof -
  let ?n = "g\<lparr>node_name := ''/'', node_mode := push_bit (unat FS_NODE_DIR) 6, node_ino := next_inode s1\<rparr>"
  let ?root = "?n\<lparr>node_dev := node_rdev src, node_impl := a, node_opts := (node_opts ?n)\<lparr>op_get_child := getc\<rparr>\<rparr>"
  let ?s2 = "s1\<lparr>next_inode := next_inode s1 + 1, node_heap := (node_heap s1)(p \<mapsto> ?root)\<rparr>"
  let ?P = "\<lambda>k t. mounting mz blocks getc rd a p l0 src ?root n st (next_inode s1 + 1) k t \<and> mount_frame blocks n ?s2 t"
  have n: "n < 2147483648" using s1(2) by linarith
  have pos: "0 \<le> sint (next_inode s1 + 1 + of_nat k)" if "k < n" for k
    using ino_nonneg [of "next_inode s1" "Suc k"] s1(2) that by (simp add: add.assoc)
  have "?P 0 ?s2" using s1(1,3) empty by (simp add: mounting_def mount_frame_def)
  moreover have "\<exists>u. mount_file mz blocks g getc rd a p src (of_nat k) t = Some (0, u) \<and> ?P (Suc k) u"
    if "k < n" "?P k t" for k t
    using mount_file_step [OF ok that(1) _ pos [OF that(1)]] that(2) mount_frame_trans by blast
  ultimately have "\<exists>t. for_r (mount_file mz blocks g getc rd a p src) (map of_nat [0..<n]) ?s2 = Some (0, t) \<and> ?P n t"
    by (rule for_r_counted [where P = ?P and g = of_nat])
  then obtain t where t: "for_r (mount_file mz blocks g getc rd a p src) (map of_nat [0..<n]) ?s2 = Some (0, t)" "?P n t"
    by blast
  have files: "upto_u32 (mz_total_files mz a u) = map of_nat [0..<n]" for u
    using total n by (simp add: upto_u32_def unat_of_nat take_bit_nat_eq_self)
  have "\<not> sint (next_inode s1) < 0" using ino_nonneg [of "next_inode s1" 0] s1(2) by simp
  then have "initrd_mount mz blocks g getc rd a l0 p s source = Some (0, Some p, t)"
    using alloc src init t(1) by (simp add: initrd_mount_def fs_node_create_def strcpy_field_def NAME_MAX_def Let_def files)
  moreover have "node_heap t p = Some ?root" using t(2) unfolding mounting_def by blast
  moreover obtain ir where "initrds t a = Some ir" "liblist_rep (ir_nodes ir) (rev (map (\<lambda>k. mb_file (blocks (of_nat k))) [0..<n]))"
    using t(2) unfolding mounting_def by blast
  moreover have "\<forall>k < n. file_made (blocks (of_nat k)) (st k) src getc rd a (of_nat k) t" using t(2) unfolding mounting_def by blast
  moreover have "mount_frame blocks n s1 t" using t(2) by (simp add: mount_frame_def)
  ultimately show ?thesis by (intro exI [of _ t] exI [of _ ?root] exI [of _ ir]) simp
qed

lemma root_children:
  assumes root: "node_heap s node = Some n" "node_name n = ''/''" "initrds s (node_impl n) = Some ir"
    and rep: "liblist_rep (ir_nodes ir) vs" and slash: "path_at (fs_mem s) slash ''/''"
  shows "initrd_get_child mz pun slash s node index = Some
    (if mz_file_stat mz (node_impl n) (node_index pun s (node_impl n)) s \<noteq> None \<and> unat index < length vs
     then (0, Some (vs ! unat index), s) else (err ENOENT, None, s))"
proof -
  obtain xs where xs: "slist_rep (list_nodes (ir_nodes ir)) (slh_first (ir_nodes ir)) xs" "vs = map snd xs"
    using rep by (auto simp: liblist_rep_def)
  show ?thesis
  proof (cases "mz_file_stat mz (node_impl n) (node_index pun s (node_impl n)) s")
    case None
    then show ?thesis using child_loop_no_stat [OF slash None xs(1)] root by (simp add: initrd_get_child_def)
  next
    case (Some st)
    then show ?thesis using child_loop_root [OF slash Some xs(1)] root xs(2) by (simp add: initrd_get_child_def)
  qed
qed

subsection \<open>The table of operations, and files of a mounted archive\<close>

record 's initrd_env =
  ie_zip :: "'s miniz"
  ie_blocks :: "u32 \<Rightarrow> mount_blocks"
  ie_garbage :: fs_node
  ie_block :: ptr
  ie_list :: list_t
  ie_root :: ptr
  ie_pun :: "ptr \<Rightarrow> u32"
  ie_slash :: ptr
  ie_kfree :: "mem \<Rightarrow> ptr \<Rightarrow> mem"
  ie_mount :: u32
  ie_get_child :: u32
  ie_read :: u32

text \<open>What the filesystem layer reaches through the code addresses of this file, on top of the drivers \<open>base\<close>.\<close>

definition initrd_drivers :: "'z initrd_state_scheme initrd_env \<Rightarrow> 'z initrd_state_scheme drivers \<Rightarrow> 'z initrd_state_scheme drivers" where
  "initrd_drivers e base = base\<lparr>
     call_mount := (\<lambda>code old source flags data s.
       if code = ie_mount e then
         map_option (\<lambda>(r, q, t). (r, case q of None \<Rightarrow> old | Some q \<Rightarrow> q, t))
           (initrd_mount (ie_zip e) (ie_blocks e) (ie_garbage e) (ie_get_child e) (ie_read e) (ie_block e) (ie_list e) (ie_root e) s source)
       else call_mount base code old source flags data s),
     call_get_child := (\<lambda>code node tmp i s.
       if code = ie_get_child e then
         map_option (\<lambda>(r, c, t). (r, case c of None \<Rightarrow> tmp | Some c \<Rightarrow> c, t)) (initrd_get_child (ie_zip e) (ie_pun e) (ie_slash e) s node i)
       else call_get_child base code node tmp i s),
     call_read := (\<lambda>code node offset buff sz s.
       if code = ie_read e then initrd_read (ie_zip e) (ie_kfree e) s node offset buff sz
       else call_read base code node offset buff sz s)\<rparr>"

text \<open>The root of a mounted archive is a directory that lists the nodes of the files.\<close>

lemma archive_listed:
  assumes root: "node_heap t p = Some root" "node_name root = ''/''" "op_get_child (node_opts root) = ie_get_child e"
      "ie_get_child e \<noteq> 0" "initrds t (node_impl root) = Some ir"
    and list: "liblist_rep (ir_nodes ir) cs" "length cs < 4294967296" "\<forall>c \<in> set cs. node_heap t c \<noteq> None \<and> CHR 0x00 \<notin> set (name_of t c)"
    and pun: "mz_file_stat (ie_zip e) (node_impl root) (node_index (ie_pun e) t (node_impl root)) t \<noteq> None"
    and slash: "path_at (fs_mem t) (ie_slash e) ''/''"
  shows "lists_dir (initrd_drivers e base) t p cs"
proof -
  have "call_get_child (initrd_drivers e base) (ie_get_child e) p tmp i t =
      Some (if unat i < length cs then (0, cs ! unat i, t) else (err ENOENT, tmp, t))" for tmp i
    using root_children [OF root(1,2,5) list(1) slash, of "ie_zip e" "ie_pun e" i] pun by (auto simp: initrd_drivers_def)
  then show ?thesis using root list(2,3) by (simp add: lists_dir_def)
qed

text \<open>Mounting at the root of the filesystem: the new mountpoint is the newest, with an empty target.\<close>

lemma mountpoint_archive:
  assumes fs: "fsptr \<noteq> 0" "deref (fs_heap s) fsptr = Some f" "op_mount (fs_opts f) \<noteq> 0"
    and mp: "mp_rep s xs" "mp \<noteq> 0" "mp_heap s mp = None"
    and v: "v = g0\<lparr>mp_target := [], mp_flags := 0, mp_fsname := fs_name f\<rparr>"
    and call: "call_mount env (op_mount (fs_opts f)) (mp_rootnode v) source 0 data (s\<lparr>mp_heap := (mp_heap s)(mp \<mapsto> Cell v 0)\<rparr>) = Some (0, p, t)"
      "mp_heap t = (mp_heap s)(mp \<mapsto> Cell v 0)" "mountpoints t = mountpoints s" "mp_count t = mp_count s"
  obtains u where "mountpoint_create_fromnode env s mp g0 fsptr source ''/'' 0 data = Some (0, u)"
    "mp_rep u ((mp, v\<lparr>mp_rootnode := p\<rparr>) # xs)" "u = t\<lparr>mp_heap := mp_heap u, mountpoints := mp, mp_count := mp_count u\<rparr>"
proof -
  let ?v = "v\<lparr>mp_rootnode := p\<rparr>"
  let ?u = "t\<lparr>mp_heap := (mp_heap s)(mp \<mapsto> Cell ?v (mountpoints s)), mountpoints := mp, mp_count := mp_count s + 1\<rparr>"
  have list: "slist_rep (mp_heap s) (mountpoints s) xs" using mp(1) by (simp add: mp_rep_def)
  have pn: "mp \<notin> addrs xs" using fresh_not_listed [OF list mp(3)] .
  have "set_val (mp_heap t) mp (\<lambda>v. v\<lparr>mp_rootnode := p\<rparr>) = Some ((mp_heap s)(mp \<mapsto> Cell ?v 0))"
    using call(2) by (simp add: set_val_def)
  moreover have "skip_slash_s ''/'' = []" by (simp add: skip_slash_s_def)
  ultimately have "mountpoint_create_fromnode env s mp g0 fsptr source ''/'' 0 data = Some (0, ?u)"
    using fs mp(2) call v SLIST_INSERT_HEAD_rep(1) [OF list mp(2) pn, of ?v 0]
    by (simp add: mountpoint_create_fromnode_def strcpy_field_def PATH_MAX_def)
  moreover have "mp_rep ?u ((mp, ?v) # xs)"
    using mp(1) SLIST_INSERT_HEAD_rep(2) [OF list mp(2) pn, of ?v] by (simp add: mp_rep_def add.commute)
  ultimately show ?thesis by (rule that) simp
qed

lemma find_only: "x \<in> set xs \<Longrightarrow> P x \<Longrightarrow> \<forall>y \<in> set xs. P y \<longrightarrow> y = x \<Longrightarrow> find P xs = Some x"
proof (induction xs)
  case (Cons y ys)
  show ?case
  proof (cases "P y")
    case True
    then have "y = x" using Cons.prems(3) by (meson list.set_intros(1))
    then show ?thesis using True by simp
  next
    case False
    then have "x \<in> set ys" using Cons.prems(1,2) by auto
    moreover have "\<forall>z \<in> set ys. P z \<longrightarrow> z = x" using Cons.prems(3) by (meson list.set_intros(2))
    ultimately have "find P ys = Some x" using Cons.IH Cons.prems(2) by blast
    then show ?thesis using False by simp
  qed
qed simp

text \<open>An archive of \<open>n\<close> files with different plain names, in a machine that can hold its nodes.\<close>

definition archive_ok :: "'z initrd_state_scheme initrd_env \<Rightarrow> u32 \<Rightarrow> nat \<Rightarrow> (nat \<Rightarrow> mz_file_stat) \<Rightarrow> 'z initrd_state_scheme \<Rightarrow> bool" where
  "archive_ok e sz n st s \<longleftrightarrow> ie_mount e \<noteq> 0 \<and> ie_get_child e \<noteq> 0 \<and> ie_block e \<noteq> 0 \<and> ie_root e \<noteq> 0 \<and> liblist_rep (ie_list e) [] \<and>
     (\<forall>t. mz_init (ie_zip e) (ie_block e) sz t = Some (True, t)) \<and> (\<forall>t. mz_total_files (ie_zip e) (ie_block e) t = of_nat n) \<and>
     mount_ok (ie_zip e) (ie_blocks e) (ie_block e) (ie_root e) (ie_list e) n st \<and> inj_on (\<lambda>k. st_filename (st k)) {..<n} \<and>
     (\<forall>t. mz_file_stat (ie_zip e) (ie_block e) (ie_pun e (ie_block e)) t \<noteq> None) \<and> initrd_nodes s (ie_block e) = None \<and>
     (\<forall>j < n. ie_block e \<noteq> mb_node (ie_blocks e (of_nat j))) \<and>
     unat (next_inode s) + n + 1 < 2147483648 \<and>
     (\<forall>j < n. mapped (fs_mem s) (node_path (mb_node (ie_blocks e (of_nat j)))) PATH_MAX) \<and>
     path_at (fs_mem s) (ie_slash e) ''/'' \<and> path_free (ie_blocks e) n (ie_slash e) \<and> path_free (ie_blocks e) n (ie_slash e + 1)"

lemma mp_rep_klog: "mp_rep (s\<lparr>klog_calls := c\<rparr>) xs \<longleftrightarrow> mp_rep s xs"
  by (simp add: mp_rep_def)

lemma archive_resolves:
  assumes fs: "fsptr \<noteq> 0" "deref (fs_heap s) fsptr = Some f" "op_mount (fs_opts f) = ie_mount e"
    and mp: "mp_rep s xs" "mp \<noteq> 0" "mp_heap s mp = None"
    and src: "node_heap s source = Some src" and ok: "archive_ok e (node_size src) n st s"
  obtains t where "mountpoint_create_fromnode (initrd_drivers e base) s mp g0 fsptr source ''/'' 0 data = Some (0, t)"
    "\<And>k path c. k < n \<Longrightarrow> path_at (fs_mem t) path (CHR ''/'' # st_filename (st k)) \<Longrightarrow>
      fs_resolve (initrd_drivers e base) (t\<lparr>klog_calls := c\<rparr>) path = Some (0, Some (mb_file (ie_blocks e (of_nat k))), t\<lparr>klog_calls := c\<rparr>)"
proof -
  let ?env = "initrd_drivers e base" and ?p = "ie_root e" and ?a = "ie_block e"
  let ?F = "\<lambda>k. mb_file (ie_blocks e (of_nat k))"
  let ?cs = "rev (map ?F [0..<n])"
  let ?v = "g0\<lparr>mp_target := [], mp_flags := 0, mp_fsname := fs_name f\<rparr>"
  let ?s = "s\<lparr>mp_heap := (mp_heap s)(mp \<mapsto> Cell ?v 0)\<rparr>"
  let ?s1 = "?s\<lparr>initrds := (initrds ?s)(?a \<mapsto> \<lparr>zip_opaque = source, ir_nodes = ie_list e\<rparr>)\<rparr>"
  note ok' = ok [unfolded archive_ok_def]
  have mok: "mount_ok (ie_zip e) (ie_blocks e) ?a ?p (ie_list e) n st" and inj: "inj_on (\<lambda>k. st_filename (st k)) {..<n}"
    using ok' by blast+
  have "\<exists>t root ir. initrd_mount (ie_zip e) (ie_blocks e) (ie_garbage e) (ie_get_child e) (ie_read e) ?a (ie_list e) ?p ?s source = Some (0, Some ?p, t) \<and>
    node_heap t ?p = Some root \<and> node_name root = ''/'' \<and> node_impl root = ?a \<and> node_dev root = node_rdev src \<and>
    op_get_child (node_opts root) = ie_get_child e \<and> initrds t ?a = Some ir \<and> liblist_rep (ir_nodes ir) ?cs \<and>
    (\<forall>k < n. file_made (ie_blocks e (of_nat k)) (st k) src (ie_get_child e) (ie_read e) ?a (of_nat k) t) \<and> mount_frame (ie_blocks e) n ?s1 t"
    by (rule mount_all [where ?s1.0 = ?s1]) (use ok' src in simp_all)
  then obtain t root ir where t: "initrd_mount (ie_zip e) (ie_blocks e) (ie_garbage e) (ie_get_child e) (ie_read e) ?a (ie_list e) ?p ?s source = Some (0, Some ?p, t)"
    "node_heap t ?p = Some root" "node_name root = ''/''" "node_impl root = ?a" "op_get_child (node_opts root) = ie_get_child e"
    "initrds t ?a = Some ir" "liblist_rep (ir_nodes ir) ?cs"
    and made: "\<And>k. k < n \<Longrightarrow> file_made (ie_blocks e (of_nat k)) (st k) src (ie_get_child e) (ie_read e) ?a (of_nat k) t"
    and frame: "mount_frame (ie_blocks e) n ?s1 t"
    by blast
  have call: "call_mount ?env (op_mount (fs_opts f)) (mp_rootnode ?v) source 0 data ?s = Some (0, ?p, t)"
    using t(1) fs(3) by (simp add: initrd_drivers_def)
  have nz: "op_mount (fs_opts f) \<noteq> 0" "ie_get_child e \<noteq> 0" "?p \<noteq> 0" using ok' fs(3) by simp_all
  have keep: "mp_heap t = (mp_heap s)(mp \<mapsto> Cell ?v 0)" "mountpoints t = mountpoints s" "mp_count t = mp_count s"
    using frame by (simp_all add: mount_frame_def)
  obtain u where u: "mountpoint_create_fromnode ?env s mp g0 fsptr source ''/'' 0 data = Some (0, u)"
    "mp_rep u ((mp, ?v\<lparr>mp_rootnode := ?p\<rparr>) # xs)" "u = t\<lparr>mp_heap := mp_heap u, mountpoints := mp, mp_count := mp_count u\<rparr>"
    by (rule mountpoint_archive [OF fs(1,2) nz(1) mp refl call keep])
  have nul: "CHR 0x00 \<notin> set (st_filename (st k))" "st_filename (st k) \<noteq> []" "CHR ''/'' \<notin> set (st_filename (st k))" if "k < n" for k
    using mok that by (auto simp: mount_ok_def plain_name_def)
  show ?thesis
  proof (rule that [OF u(1)])
    fix k path c assume k: "k < n" and path': "path_at (fs_mem u) path (CHR ''/'' # st_filename (st k))"
    let ?u = "u\<lparr>klog_calls := c\<rparr>"
    have same: "node_heap ?u = node_heap t" "initrds ?u = initrds t" "initrd_nodes ?u = initrd_nodes t" "fs_mem ?u = fs_mem t" "name_of ?u = name_of t"
      by (subst u(3), simp add: name_of_def fun_eq_iff)+
    have node: "node_heap ?u (?F k) \<noteq> None \<and> name_of ?u (?F k) = st_filename (st k)" if "k < n" for k
      using made [OF that] unfolding same by (auto simp: file_made_def name_of_def)
    have slash: "path_at (fs_mem ?u) (ie_slash e) ''/''"
      using frame ok' unfolding same by (auto simp: mount_frame_def path_at_def)
    have "initrd_nodes ?u ?a = None" using frame ok' unfolding same by (simp add: mount_frame_def)
    then have "node_index (ie_pun e) ?u ?a = ie_pun e ?a" by (simp add: node_index_def)
    then have pun: "mz_file_stat (ie_zip e) ?a (node_index (ie_pun e) ?u ?a) ?u \<noteq> None" using ok' by simp
    have "n < 2147483648" using ok' by linarith
    then have dir: "lists_dir ?env ?u ?p ?cs"
      using t nz node nul slash pun by (intro archive_listed [where root = root and ir = ir]) (auto simp: same)
    have path: "path_at (fs_mem ?u) path (CHR ''/'' # st_filename (st k))" using path' by simp
    have "unat path + 1 < 4294967296" using path by (simp add: path_at_def)
    then have "unat (path + 1) = unat path + 1" by (simp add: unat_word_ariths)
    then have tail: "path_at (fs_mem ?u) (path + 1) (st_filename (st k))" using path by (auto simp: path_at_def word_unat_eq_iff)
    have "find (\<lambda>c. name_of ?u c = st_filename (st k)) ?cs = Some (?F k)"
    proof (rule find_only)
      show "\<forall>c \<in> set ?cs. name_of ?u c = st_filename (st k) \<longrightarrow> c = ?F k"
      proof (intro ballI impI)
        fix c' assume "c' \<in> set ?cs" "name_of ?u c' = st_filename (st k)"
        then obtain j where "j < n" "c' = ?F j" "st_filename (st j) = st_filename (st k)" using node by auto
        then have "j = k" using inj_onD [OF inj] k by simp
        then show "c' = ?F k" using \<open>c' = ?F j\<close> by simp
      qed
    qed (use node k in auto)
    then have "fs_node_resolve ?env ?u ?p (path + 1) = Some (0, Some (?F k), ?u)"
      using fs_node_resolve_single [OF dir tail nul(2,3) [OF k]] by simp
    moreover have "mp_rep ?u ((mp, ?v\<lparr>mp_rootnode := ?p\<rparr>) # xs)" using u(2) by (simp only: mp_rep_klog)
    then have "fs_resolve ?env ?u path = fs_node_resolve ?env ?u ?p (path + 1)"
      using path tail nz(3) fs_resolve_mounted [of ?u _ path "path + 1" "st_filename (st k)" mp "?v\<lparr>mp_rootnode := ?p\<rparr>"]
      by (simp add: path_at_def skip_slash_def SLASH_def strncmp_def)
    ultimately show "fs_resolve ?env ?u path = Some (0, Some (?F k), ?u)" by simp
  qed
qed


subsection \<open>Properties\<close>

text \<open>Mounting an archive of files with plain names: \<open>initrd_mount\<close> returns 0 and the root node, whose list holds
  the node of every file, last file first, each with the name, the length, the kind and the operation of its entry. The
  list is empty at first only when the memory of the structure happens to say so: the code never sets its head.\<close>

theorem initrd_mounts:
  assumes alloc: "a \<noteq> 0" "p \<noteq> 0" and src: "node_heap s source = Some src"
    and init: "mz_init mz a (node_size src) (s\<lparr>initrds := (initrds s)(a \<mapsto> \<lparr>zip_opaque = source, ir_nodes = l0\<rparr>)\<rparr>) = Some (True, s1)"
    and s1: "initrds s1 a = Some \<lparr>zip_opaque = source, ir_nodes = l0\<rparr>" "unat (next_inode s1) + n + 1 < 2147483648"
      "\<forall>j < n. mapped (fs_mem s1) (node_path (mb_node (blocks (of_nat j)))) PATH_MAX"
    and empty: "liblist_rep l0 []" and total: "\<forall>t. mz_total_files mz a t = of_nat n"
    and ok: "mount_ok mz blocks a p l0 n st"
  shows "\<exists>t root ir. initrd_mount mz blocks g getc rd a l0 p s source = Some (0, Some p, t) \<and>
    node_heap t p = Some root \<and> node_name root = ''/'' \<and> node_impl root = a \<and> node_dev root = node_rdev src \<and>
    op_get_child (node_opts root) = getc \<and>
    initrds t a = Some ir \<and> liblist_rep (ir_nodes ir) (rev (map (\<lambda>k. mb_file (blocks (of_nat k))) [0..<n])) \<and>
    (\<forall>k < n. file_made (blocks (of_nat k)) (st k) src getc rd a (of_nat k) t)"
  using mount_all [OF assms] by blast

text \<open>The root of an archive lists every entry of it, of every depth, as its children, in the order of the list: the
  child of an index is the entry there, or \<open>-NEWLAND_ENOENT\<close> behind the last. It lists none at all when the word of the
  archive's state that is read as the index of the root is the index of no entry.\<close>

theorem initrd_lists_root:
  assumes root: "node_heap s node = Some n" "node_name n = ''/''" "initrds s (node_impl n) = Some ir"
    and rep: "liblist_rep (ir_nodes ir) vs" and slash: "path_at (fs_mem s) slash ''/''"
  shows "initrd_get_child mz pun slash s node index = Some
    (if mz_file_stat mz (node_impl n) (node_index pun s (node_impl n)) s \<noteq> None \<and> unat index < length vs
     then (0, Some (vs ! unat index), s) else (err ENOENT, None, s))"
  by (rule root_children [OF assms])

text \<open>Reading a file copies the bytes asked for, which start at the offset of the extracted file, but returns the
  length of the whole file, whatever was asked for.\<close>

theorem initrd_read_whole:
  assumes "node_heap s node = Some n" "initrd_nodes s (node_impl n) = Some v"
    and "mz_extract mz (in_initrd v) (in_index v) s = Some (copy, whole, s1)" "copy \<noteq> 0"
    and "bytes_at (fs_mem s1) (copy + offset) bs" "mapped (fs_mem s1) buff (length bs)" "length bs < 4294967296"
      "disjoint (copy + offset) (length bs) buff (length bs)"
  shows "initrd_read mz kfree s node offset buff (of_nat (length bs)) =
    Some (whole, s1\<lparr>fs_mem := kfree (write_bytes (fs_mem s1) buff bs) copy\<rparr>)"
  using assms(1-4) memcpy_correct [OF assms(5-8)] by (simp add: initrd_read_def)



subsection \<open>An archive of a directory and a file\<close>

definition zip_blocks :: "u32 \<Rightarrow> mount_blocks" where
  "zip_blocks i = \<lparr>mb_node = (if i = 0 then 0x100000 else 0x200000), mb_file = (if i = 0 then 0x1000 else 0x2000),
     mb_entry = (if i = 0 then 0x3000 else 0x4000)\<rparr>"

definition zip_stat :: "nat \<Rightarrow> mz_file_stat" where
  "zip_stat k = \<lparr>st_filename = (if k = 0 then ''bin'' else ''init''), st_uncomp_size = (if k = 0 then 0 else 4), st_is_directory = (k = 0)\<rparr>"

definition zip_lib :: "initrd_state miniz" where
  "zip_lib = \<lparr>mz_init = (\<lambda>a n t. Some (True, t)), mz_total_files = (\<lambda>a t. 2),
     mz_file_stat = (\<lambda>a i t. if i < 2 then Some (zip_stat (unat i)) else None),
     mz_extract = (\<lambda>a i t. Some (0x900000, 4, t)), mz_end = (\<lambda>a. Some)\<rparr>"

definition ram_device :: fs_node where
  "ram_device = \<lparr>node_name = ''ram0'', node_dev = 0, node_ino = 0, node_mode = 0, node_nlink = 0, node_uid = 0,
     node_gid = 0, node_rdev = 0x100, node_size = 0x400, node_blksize = 0, node_blkcnt = 0, node_atime = 0, node_mtime = 0,
     node_ctime = 0, node_opts = no_opts, node_impl = 0\<rparr>"

definition no_list :: list_t where
  "no_list = \<lparr>slh_first = 0, list_nodes = Map.empty\<rparr>"

definition ram_state :: initrd_state where
  "ram_state = devfs_state.extend (fs_state.extend
     (empty_fs\<lparr>fs_mem := (\<lambda>a. if a = 0x500 then Some (byte (CHR ''/'')) else Some 0), node_heap := [0x10 \<mapsto> ram_device]\<rparr>)
     (devfs_state.fields no_list)) (initrd_state.fields Map.empty Map.empty)"

lemmas ram_state_simps = ram_state_def fs_state.defs devfs_state.defs initrd_state.defs

lemma zip_mount_ok: "mount_ok zip_lib zip_blocks 0x20 0x30 no_list 2 zip_stat"
proof -
  have "\<forall>k < 2. (\<forall>s. mz_file_stat zip_lib 0x20 (of_nat k) s = Some (zip_stat k)) \<and> plain_name (st_filename (zip_stat k))"
    by (auto simp: less_2_cases_iff zip_lib_def zip_stat_def plain_name_def NAME_MAX_def)
  moreover have "\<forall>f \<in> {mb_node, mb_file, mb_entry}. inj_on (\<lambda>k. f (zip_blocks (of_nat k))) {..<2}"
    by (auto simp: inj_on_def less_2_cases_iff zip_blocks_def)
  moreover have "\<forall>k < (2::nat). mb_node (zip_blocks (of_nat k)) \<noteq> 0 \<and> unat (mb_node (zip_blocks (of_nat k))) + 8 + PATH_MAX < 4294967296 \<and>
      mb_file (zip_blocks (of_nat k)) \<noteq> 0 \<and> mb_file (zip_blocks (of_nat k)) \<noteq> 0x30 \<and> liblist_fresh no_list (mb_entry (zip_blocks (of_nat k)))"
    by (auto simp: less_2_cases_iff zip_blocks_def PATH_MAX_def liblist_fresh_def no_list_def)
  ultimately show ?thesis unfolding mount_ok_def by simp
qed

lemma no_list_rep: "liblist_rep no_list []"
  by (simp add: liblist_rep_def no_list_def)

lemma initrd_mounts_witness:
  "\<exists>t root ir. initrd_mount zip_lib zip_blocks ram_device 0x71 0x72 0x20 no_list 0x30 ram_state 0x10 = Some (0, Some 0x30, t) \<and>
    node_heap t 0x30 = Some root \<and> node_name root = ''/'' \<and> node_impl root = 0x20 \<and> node_dev root = node_rdev ram_device \<and>
    op_get_child (node_opts root) = 0x71 \<and>
    initrds t 0x20 = Some ir \<and> liblist_rep (ir_nodes ir) (rev (map (\<lambda>k. mb_file (zip_blocks (of_nat k))) [0..<2])) \<and>
    (\<forall>k < 2. file_made (zip_blocks (of_nat k)) (zip_stat k) ram_device 0x71 0x72 0x20 (of_nat k) t)"
proof (rule initrd_mounts [where ?s1.0 = "ram_state\<lparr>initrds := (initrds ram_state)(0x20 \<mapsto> \<lparr>zip_opaque = 0x10, ir_nodes = no_list\<rparr>)\<rparr>"])
  show "mount_ok zip_lib zip_blocks 0x20 0x30 no_list 2 zip_stat" by (rule zip_mount_ok)
  show "liblist_rep no_list []" by (rule no_list_rep)
qed (simp_all add: zip_lib_def ram_state_simps empty_fs_def mapped_def)

lemma initrd_lists_root_witness:
  "(let s = ram_state\<lparr>node_heap := [0x30 \<mapsto> ram_device\<lparr>node_name := ''/'', node_impl := 0x20\<rparr>],
      initrds := [0x20 \<mapsto> \<lparr>zip_opaque = 0x10, ir_nodes = \<lparr>slh_first = 0x40, list_nodes = [0x40 \<mapsto> Cell 0x1000 0]\<rparr>\<rparr>]\<rparr> in
    initrd_get_child zip_lib (\<lambda>_. 1) 0x500 s 0x30 0 = Some (0, Some 0x1000, s) \<and>
    initrd_get_child zip_lib (\<lambda>_. 7) 0x500 s 0x30 0 = Some (err ENOENT, None, s))"
proof -
  let ?l = "\<lparr>slh_first = 0x40, list_nodes = [0x40 \<mapsto> Cell 0x1000 0]\<rparr> :: list_t"
  let ?s = "ram_state\<lparr>node_heap := [0x30 \<mapsto> ram_device\<lparr>node_name := ''/'', node_impl := 0x20\<rparr>],
      initrds := [0x20 \<mapsto> \<lparr>zip_opaque = 0x10, ir_nodes = ?l\<rparr>]\<rparr>"
  have rep: "liblist_rep ?l [0x1000]"
    unfolding liblist_rep_def by (rule exI [of _ "[(0x40, 0x1000)]"]) simp
  have slash: "path_at (fs_mem ?s) 0x500 ''/''"
    by (simp add: path_at_def ram_state_simps empty_fs_def)
  have run: "initrd_get_child zip_lib pun 0x500 ?s 0x30 0 = Some
      (if mz_file_stat zip_lib 0x20 (node_index pun ?s 0x20) ?s \<noteq> None \<and> unat (0 :: u32) < length [0x1000 :: ptr]
       then (0, Some ([0x1000] ! unat (0 :: u32)), ?s) else (err ENOENT, None, ?s))" for pun
    using initrd_lists_root [where s = ?s and vs = "[0x1000]" and slash = "0x500" and node = "0x30" and mz = zip_lib and pun = pun and index = 0
        and n = "ram_device\<lparr>node_name := ''/'', node_impl := 0x20\<rparr>" and ir = "\<lparr>zip_opaque = 0x10, ir_nodes = ?l\<rparr>"] rep slash by simp
  have "node_index pun ?s 0x20 = pun 0x20" for pun
    by (simp add: node_index_def ram_state_simps)
  then show ?thesis using run [of "\<lambda>_. 1"] run [of "\<lambda>_. 7"] by (simp add: Let_def zip_lib_def)
qed

lemma initrd_read_whole_witness:
  "(let s = ram_state\<lparr>node_heap := [0x30 \<mapsto> ram_device\<lparr>node_impl := 0x200000\<rparr>],
      initrd_nodes := [0x200000 \<mapsto> \<lparr>in_initrd = 0x20, in_index = 1\<rparr>]\<rparr> in
    initrd_read zip_lib (\<lambda>m p. m) s 0x30 1 0xA00000 2 =
      Some (4, s\<lparr>fs_mem := write_bytes (fs_mem s) 0xA00000 [0, 0]\<rparr>))"
proof -
  let ?s = "ram_state\<lparr>node_heap := [0x30 \<mapsto> ram_device\<lparr>node_impl := 0x200000\<rparr>],
      initrd_nodes := [0x200000 \<mapsto> \<lparr>in_initrd = 0x20, in_index = 1\<rparr>]\<rparr>"
  have mem: "fs_mem ?s = (\<lambda>a. if a = 0x500 then Some (byte (CHR ''/'')) else Some 0)"
    by (simp add: ram_state_simps)
  have "bytes_at (fs_mem ?s) (0x900000 + 1) [0, 0]" "mapped (fs_mem ?s) 0xA00000 (length [0, 0 :: u8])"
    unfolding mem by (simp_all add: mapped_def)
  moreover have "disjoint (0x900000 + 1) (length [0, 0 :: u8]) 0xA00000 (length [0, 0 :: u8])"
    by (rule disjointI) simp_all
  ultimately show ?thesis
    using initrd_read_whole [where s = ?s and node = "0x30" and n = "ram_device\<lparr>node_impl := 0x200000\<rparr>" and
        v = "\<lparr>in_initrd = 0x20, in_index = 1\<rparr>" and mz = zip_lib and copy = "0x900000" and whole = 4 and ?s1.0 = ?s and offset = 1 and
        bs = "[0, 0]" and buff = "0xA00000" and kfree = "\<lambda>m p. m"]
    by (simp add: Let_def zip_lib_def)
qed

definition zip_env :: "initrd_state initrd_env" where
  "zip_env = \<lparr>ie_zip = zip_lib, ie_blocks = zip_blocks, ie_garbage = ram_device, ie_block = 0x20, ie_list = no_list, ie_root = 0x30,
     ie_pun = (\<lambda>_. 1), ie_slash = 0x500, ie_kfree = (\<lambda>m p. m), ie_mount = 0x70, ie_get_child = 0x71, ie_read = 0x72\<rparr>"


end
