(* ===== verification/PhysMem.thy ===== *)
theory PhysMem
  imports Prelude
begin

text \<open>
  The physical page allocator, the first half of \<^verbatim>\<open>newland/arch/x86/src/mem.c\<close> and
  \<open>mem_loadmmap\<close>.

  The allocator keeps one bit per 4 KiB frame of the 32-bit address space in a byte array of
  131072 entries, here a function from the array index, and two byte counters. A frame number
  is an address divided by the page size. \<open>used_frames\<close> abstracts the bitmap to a set of
  frames; each operation is shown to be a set operation on it, the allocator first-fit.
\<close>

definition PAGE_SIZE :: u32 where
  "PAGE_SIZE = 0x1000"

record phys =
  used_mem :: u32
  total_mem :: u32
  mem_bits :: "u32 \<Rightarrow> u8"

definition mem_index :: "u32 \<Rightarrow> u32" where
  "mem_index addr = addr div PAGE_SIZE div 8"

definition mem_mask :: "u32 \<Rightarrow> u8" where
  "mem_mask addr = push_bit (unat (addr div PAGE_SIZE mod 8)) 1"

definition PHYSICAL_IS_USED :: "'z phys_scheme \<Rightarrow> u32 \<Rightarrow> bool" where
  "PHYSICAL_IS_USED s addr \<longleftrightarrow> mem_bits s (mem_index addr) AND mem_mask addr \<noteq> 0"

definition PHYSICAL_SET_USED :: "u32 \<Rightarrow> 'z phys_scheme \<Rightarrow> 'z phys_scheme" where
  "PHYSICAL_SET_USED addr s = s\<lparr>mem_bits := (mem_bits s)
     (mem_index addr := mem_bits s (mem_index addr) OR mem_mask addr)\<rparr>"

definition PHYSICAL_SET_FREE :: "u32 \<Rightarrow> 'z phys_scheme \<Rightarrow> 'z phys_scheme" where
  "PHYSICAL_SET_FREE addr s = s\<lparr>mem_bits := (mem_bits s)
     (mem_index addr := mem_bits s (mem_index addr) AND NOT (mem_mask addr))\<rparr>"

definition free_mem :: "'z phys_scheme \<Rightarrow> u32" where
  "free_mem s = used_mem s - total_mem s"

definition PAGE_ALIGN :: "u32 \<Rightarrow> u32" where
  "PAGE_ALIGN x = x + PAGE_SIZE - x mod PAGE_SIZE"

definition phys_isused :: "'z phys_scheme \<Rightarrow> u32 \<Rightarrow> u32 \<Rightarrow> bool" where
  "phys_isused s addr count \<longleftrightarrow>
     list_ex (\<lambda>i. PHYSICAL_IS_USED s (addr + i * PAGE_SIZE)) (upto_u32 count)"

definition setused_step :: "u32 \<Rightarrow> u32 \<Rightarrow> 'z phys_scheme \<Rightarrow> 'z phys_scheme" where
  "setused_step addr i s =
     (if \<not> PHYSICAL_IS_USED s (addr + i * PAGE_SIZE)
      then PHYSICAL_SET_USED (addr + i * PAGE_SIZE) (s\<lparr>used_mem := used_mem s + PAGE_SIZE\<rparr>)
      else s)"

definition phys_setused :: "'z phys_scheme \<Rightarrow> u32 \<Rightarrow> u32 \<Rightarrow> 'z phys_scheme" where
  "phys_setused s addr count = fold (setused_step addr) (upto_u32 count) s"

definition setfree_step :: "u32 \<Rightarrow> u32 \<Rightarrow> 'z phys_scheme \<Rightarrow> 'z phys_scheme" where
  "setfree_step addr i s =
     (if PHYSICAL_IS_USED s (addr + i * PAGE_SIZE)
      then PHYSICAL_SET_FREE (addr + i * PAGE_SIZE) (s\<lparr>used_mem := used_mem s - PAGE_SIZE\<rparr>)
      else s)"

definition phys_setfree :: "'z phys_scheme \<Rightarrow> u32 \<Rightarrow> u32 \<Rightarrow> 'z phys_scheme" where
  "phys_setfree s addr count = fold (setfree_step addr) (upto_u32 count) s"

definition phys_alloc :: "'z phys_scheme \<Rightarrow> u32 \<Rightarrow> u32 \<times> 'z phys_scheme" where
  "phys_alloc s count =
     (case find (\<lambda>i. \<not> phys_isused s (i * PAGE_SIZE) count) (upto_u32 (total_mem s div PAGE_SIZE)) of
        Some i \<Rightarrow> (i * PAGE_SIZE, phys_setused s (i * PAGE_SIZE) count)
      | None \<Rightarrow> (err ENOMEM, s))"

subsection \<open>The memory map of the boot loader\<close>

text \<open>
  Entries of the multiboot memory map lie one after another in memory, each \<open>mmap_size + 4\<close>
  bytes after the last; \<open>mmaps\<close> gives the entry found at an address. A module descriptor is
  read at an address through \<open>mods\<close>.
\<close>

record multiboot_mmap =
  mmap_size :: u32
  mmap_addr :: u64
  mmap_len :: u64
  mmap_type :: u32

record multiboot_module =
  mod_start :: u32
  mod_end :: u32
  mod_cmdline :: u32
  mod_pad :: u32

definition MULTIBOOT_MEMORY_AVAILABLE :: u32 where
  "MULTIBOOT_MEMORY_AVAILABLE = 1"

text \<open>\<open>for (uint64_t addr = mmap->addr; addr < mmap->len; addr += PAGE_SIZE)\<close>\<close>

partial_function (option) mmap_reserve :: "u64 \<Rightarrow> u64 \<Rightarrow> 'z phys_scheme \<Rightarrow> 'z phys_scheme option" where
  "mmap_reserve addr len s =
     (if addr < len then mmap_reserve (addr + 0x1000) len (PHYSICAL_SET_USED (ucast addr) s)
      else Some s)"

partial_function (option) mmap_walk ::
  "(ptr \<Rightarrow> multiboot_mmap option) \<Rightarrow> ptr \<Rightarrow> ptr \<Rightarrow> 'z phys_scheme \<Rightarrow> 'z phys_scheme option" where
  "mmap_walk mmaps limit p s =
     (if p < limit then (case mmaps p of
        None \<Rightarrow> None
      | Some e \<Rightarrow>
          (case (if mmap_type e = MULTIBOOT_MEMORY_AVAILABLE
                 then Some (s\<lparr>total_mem := total_mem s + ucast (mmap_len e)\<rparr>)
                 else mmap_reserve (mmap_addr e) (mmap_len e) s) of
             None \<Rightarrow> None
           | Some s' \<Rightarrow> mmap_walk mmaps limit (p + mmap_size e + 4) s'))
      else Some s)"

text \<open>\<open>mod = (multiboot_module_t*)((uint32_t)mod->mod_end + 1)\<close>, once per module.\<close>

definition mods_walk :: "(ptr \<Rightarrow> multiboot_module option) \<Rightarrow> u32 \<Rightarrow> ptr \<Rightarrow> ptr option" where
  "mods_walk mods n p = foldM (\<lambda>_ q. map_option (\<lambda>m. mod_end m + 1) (mods q)) (upto_u32 n) p"

definition mem_loadmmap ::
  "(ptr \<Rightarrow> multiboot_mmap option) \<Rightarrow> (ptr \<Rightarrow> multiboot_module option) \<Rightarrow> ptr \<Rightarrow>
   ptr \<Rightarrow> u32 \<Rightarrow> ptr \<Rightarrow> u32 \<Rightarrow> 'z phys_scheme \<Rightarrow> 'z phys_scheme option" where
  "mem_loadmmap mmaps mods kernel_end mmap_base mmap_length mods_addr mods_count s = do {
     s1 \<leftarrow> mmap_walk mmaps (mmap_base + mmap_length) mmap_base (s\<lparr>total_mem := 0\<rparr>);
     m \<leftarrow> mods_walk mods mods_count mods_addr;
     Some (s1\<lparr>used_mem := PAGE_ALIGN (max kernel_end m)\<rparr>)
   }"

subsection \<open>The bitmap as a set of frames\<close>

definition frame_of :: "u32 \<Rightarrow> u32" where
  "frame_of addr = addr div PAGE_SIZE"

definition frame_used :: "'z phys_scheme \<Rightarrow> u32 \<Rightarrow> bool" where
  "frame_used s f \<longleftrightarrow> bit (mem_bits s (f div 8)) (unat (f mod 8))"

definition used_frames :: "'z phys_scheme \<Rightarrow> u32 set" where
  "used_frames s = {f. f < 0x100000 \<and> frame_used s f}"

definition frames :: "u32 \<Rightarrow> u32 \<Rightarrow> u32 set" where
  "frames addr count = (\<lambda>i. frame_of (addr + i * PAGE_SIZE)) ` {i. i < count}"

lemma frame_of_less [simp]: "frame_of addr < 0x100000"
proof -
  have "unat addr div 4096 < 0x100000"
    using unat_u32_less [of addr] by (simp add: less_mult_imp_div_less del: unat_u32_less)
  then show ?thesis
    by (simp add: frame_of_def PAGE_SIZE_def word_less_nat_alt unat_div)
qed

text \<open>Every index the code computes lies in the array.\<close>

lemma mem_index_bound: "unat (mem_index addr) < 1024 * 1024 div 8"
proof -
  have "unat addr div 4096 div 8 < 131072"
    using unat_u32_less [of addr] by (simp add: less_mult_imp_div_less del: unat_u32_less)
  then show ?thesis by (simp add: mem_index_def PAGE_SIZE_def unat_div)
qed

lemma mod8_less: "unat (w mod 8 :: u32) < 8"
  by (simp add: unat_mod)

lemma bit_mem_mask: "bit (mem_mask addr) k \<longleftrightarrow> k = unat (frame_of addr mod 8)"
  using mod8_less [of "frame_of addr"]
  by (auto simp: mem_mask_def frame_of_def bit_exp_iff)

lemma mem_index_frame: "mem_index addr = frame_of addr div 8"
  by (simp add: mem_index_def frame_of_def)

lemma PHYSICAL_IS_USED_iff: "PHYSICAL_IS_USED s addr \<longleftrightarrow> frame_used s (frame_of addr)"
proof -
  have "(w AND mem_mask addr \<noteq> 0) \<longleftrightarrow> bit w (unat (frame_of addr mod 8))" for w
    using mod8_less [of "frame_of addr"]
    by (auto simp: bit_eq_iff [of "w AND mem_mask addr" 0] bit_and_iff bit_mem_mask simp del: bit_eq_iff)
  then show ?thesis by (simp add: PHYSICAL_IS_USED_def frame_used_def mem_index_frame)
qed

lemma div_mod_8_inj: "(f :: u32) div 8 = g div 8 \<Longrightarrow> unat (f mod 8) = unat (g mod 8) \<Longrightarrow> f = g"
  by (metis div_mult_mod_eq word_unat_eq_iff)

lemma frame_used_SET_USED [simp]:
  "frame_used (PHYSICAL_SET_USED addr s) f \<longleftrightarrow> f = frame_of addr \<or> frame_used s f"
  by (auto simp: frame_used_def PHYSICAL_SET_USED_def mem_index_frame bit_or_iff bit_mem_mask
      dest: div_mod_8_inj)

lemma frame_used_SET_FREE [simp]:
  "frame_used (PHYSICAL_SET_FREE addr s) f \<longleftrightarrow> f \<noteq> frame_of addr \<and> frame_used s f"
  using mod8_less [of f]
  by (auto simp: frame_used_def PHYSICAL_SET_FREE_def mem_index_frame bit_and_iff bit_not_iff
      bit_mem_mask dest: div_mod_8_inj)

lemma frame_used_used_mem [simp]: "frame_used (s\<lparr>used_mem := n\<rparr>) f = frame_used s f"
  "frame_used (s\<lparr>total_mem := n\<rparr>) f = frame_used s f"
  by (simp_all add: frame_used_def)

lemma used_mem_SET [simp]:
  "used_mem (PHYSICAL_SET_USED addr s) = used_mem s" "total_mem (PHYSICAL_SET_USED addr s) = total_mem s"
  "used_mem (PHYSICAL_SET_FREE addr s) = used_mem s" "total_mem (PHYSICAL_SET_FREE addr s) = total_mem s"
  by (simp_all add: PHYSICAL_SET_USED_def PHYSICAL_SET_FREE_def)

lemma frames_subset: "frames addr count \<subseteq> {f. f < 0x100000}"
  by (auto simp: frames_def)

lemma used_frames_SET [simp]:
  "used_frames (PHYSICAL_SET_USED addr s) = insert (frame_of addr) (used_frames s)"
  "used_frames (PHYSICAL_SET_FREE addr s) = used_frames s - {frame_of addr}"
  "used_frames (s\<lparr>used_mem := n\<rparr>) = used_frames s" "used_frames (s\<lparr>total_mem := n\<rparr>) = used_frames s"
  by (auto simp: used_frames_def)

lemma frame_used_iff: "frame_used s (frame_of a) \<longleftrightarrow> frame_of a \<in> used_frames s"
  by (simp add: used_frames_def)

subsection \<open>Marking and releasing\<close>

lemma phys_isused_iff: "phys_isused s addr count \<longleftrightarrow> frames addr count \<inter> used_frames s \<noteq> {}"
  unfolding phys_isused_def list_ex_iff PHYSICAL_IS_USED_iff frame_used_iff frames_def by fastforce

lemma frames_set: "frames addr count = (\<lambda>i. frame_of (addr + i * PAGE_SIZE)) ` set (upto_u32 count)"
  by (auto simp: frames_def)

lemma setused_step:
  "used_frames (setused_step addr i s) = insert (frame_of (addr + i * PAGE_SIZE)) (used_frames s)"
  "used_mem (setused_step addr i s) =
    (if frame_of (addr + i * PAGE_SIZE) \<in> used_frames s then used_mem s else used_mem s + PAGE_SIZE)"
  "total_mem (setused_step addr i s) = total_mem s"
  by (auto simp: setused_step_def PHYSICAL_IS_USED_iff frame_used_iff)

lemma setfree_step:
  "used_frames (setfree_step addr i s) = used_frames s - {frame_of (addr + i * PAGE_SIZE)}"
  "used_mem (setfree_step addr i s) =
    (if frame_of (addr + i * PAGE_SIZE) \<in> used_frames s then used_mem s - PAGE_SIZE else used_mem s)"
  "total_mem (setfree_step addr i s) = total_mem s"
  by (auto simp: setfree_step_def PHYSICAL_IS_USED_iff frame_used_iff)

lemma fold_setused:
  "used_frames (fold (setused_step addr) is s) =
     used_frames s \<union> (\<lambda>i. frame_of (addr + i * PAGE_SIZE)) ` set is"
  "used_mem (fold (setused_step addr) is s) = used_mem s + PAGE_SIZE *
     of_nat (card ((\<lambda>i. frame_of (addr + i * PAGE_SIZE)) ` set is - used_frames s))"
  "total_mem (fold (setused_step addr) is s) = total_mem s"
proof (induction "is" arbitrary: s)
  case (Cons i "is")
  let ?F = "(\<lambda>i. frame_of (addr + i * PAGE_SIZE)) ` set is" and ?f = "frame_of (addr + i * PAGE_SIZE)"
  have card: "card (insert ?f ?F - used_frames s) = Suc (card (?F - insert ?f (used_frames s)))"
    if "?f \<notin> used_frames s" for s :: "'a phys_scheme"
  proof -
    have "insert ?f ?F - used_frames s = insert ?f (?F - insert ?f (used_frames s))"
      using that by auto
    then show ?thesis by simp
  qed
  {
    case 1
    show ?case by (auto simp: Cons.IH(1) setused_step)
  next
    case 2
    show ?case
    proof (cases "?f \<in> used_frames s")
      case True
      then show ?thesis by (simp add: Cons.IH(2) setused_step insert_absorb insert_Diff_if)
    next
      case False
      then show ?thesis
        using card [OF False] by (simp add: Cons.IH(2) setused_step distrib_left)
    qed
  next
    case 3
    show ?case by (simp add: Cons.IH(3) setused_step)
  }
qed simp_all

lemma fold_setfree:
  "used_frames (fold (setfree_step addr) is s) =
     used_frames s - (\<lambda>i. frame_of (addr + i * PAGE_SIZE)) ` set is"
  "used_mem (fold (setfree_step addr) is s) = used_mem s - PAGE_SIZE *
     of_nat (card ((\<lambda>i. frame_of (addr + i * PAGE_SIZE)) ` set is \<inter> used_frames s))"
  "total_mem (fold (setfree_step addr) is s) = total_mem s"
proof (induction "is" arbitrary: s)
  case (Cons i "is")
  let ?F = "(\<lambda>i. frame_of (addr + i * PAGE_SIZE)) ` set is" and ?f = "frame_of (addr + i * PAGE_SIZE)"
  have card: "card (insert ?f ?F \<inter> used_frames s) = Suc (card (?F \<inter> (used_frames s - {?f})))"
    if "?f \<in> used_frames s" for s :: "'a phys_scheme"
  proof -
    have "insert ?f ?F \<inter> used_frames s = insert ?f (?F \<inter> (used_frames s - {?f}))"
      using that by auto
    then show ?thesis by simp
  qed
  {
    case 1
    show ?case by (auto simp: Cons.IH(1) setfree_step)
  next
    case 2
    show ?case
    proof (cases "?f \<in> used_frames s")
      case False
      then show ?thesis by (simp add: Cons.IH(2) setfree_step Int_insert_left)
    next
      case True
      then show ?thesis
        using card [OF True] by (simp add: Cons.IH(2) setfree_step distrib_left)
    qed
  next
    case 3
    show ?case by (simp add: Cons.IH(3) setfree_step)
  }
qed simp_all

lemma phys_setused_frames:
  "used_frames (phys_setused s addr count) = used_frames s \<union> frames addr count"
  "used_mem (phys_setused s addr count) =
     used_mem s + PAGE_SIZE * of_nat (card (frames addr count - used_frames s))"
  "total_mem (phys_setused s addr count) = total_mem s"
  by (simp_all only: phys_setused_def fold_setused frames_set)

lemma phys_setfree_frames:
  "used_frames (phys_setfree s addr count) = used_frames s - frames addr count"
  "used_mem (phys_setfree s addr count) =
     used_mem s - PAGE_SIZE * of_nat (card (frames addr count \<inter> used_frames s))"
  "total_mem (phys_setfree s addr count) = total_mem s"
  by (simp_all only: phys_setfree_def fold_setfree frames_set)

text \<open>Marking free frames used and releasing them again gives back the set and the counter.\<close>

lemma phys_setused_setfree:
  assumes "frames addr count \<inter> used_frames s = {}"
  shows "used_frames (phys_setfree (phys_setused s addr count) addr count) = used_frames s"
    and "used_mem (phys_setfree (phys_setused s addr count) addr count) = used_mem s"
proof -
  have "frames addr count \<inter> (used_frames s \<union> frames addr count) = frames addr count" by auto
  moreover have "frames addr count - used_frames s = frames addr count" using assms by auto
  ultimately show "used_mem (phys_setfree (phys_setused s addr count) addr count) = used_mem s"
    by (simp add: phys_setfree_frames phys_setused_frames)
  show "used_frames (phys_setfree (phys_setused s addr count) addr count) = used_frames s"
    using assms by (auto simp: phys_setfree_frames phys_setused_frames)
qed

text \<open>The counter follows the bitmap: \<open>used_mem\<close> counts the used frames above a base.\<close>

definition phys_ok :: "u32 \<Rightarrow> 'z phys_scheme \<Rightarrow> bool" where
  "phys_ok base s \<longleftrightarrow> used_mem s = base + PAGE_SIZE * of_nat (card (used_frames s))"

lemma phys_setused_ok: "phys_ok base s \<Longrightarrow> phys_ok base (phys_setused s addr count)"
proof -
  assume ok: "phys_ok base s"
  have "card (used_frames s \<union> frames addr count) =
      card (used_frames s) + card (frames addr count - used_frames s)"
    by (subst card_Un_disjoint [symmetric]) auto
  then show ?thesis using ok by (simp add: phys_ok_def phys_setused_frames algebra_simps)
qed

lemma phys_setfree_ok: "phys_ok base s \<Longrightarrow> phys_ok base (phys_setfree s addr count)"
proof -
  assume ok: "phys_ok base s"
  have "card (used_frames s - frames addr count) + card (frames addr count \<inter> used_frames s) =
      card (used_frames s)"
    by (subst card_Un_disjoint [symmetric]) (auto intro: arg_cong [where f = card])
  then have "(of_nat (card (used_frames s)) :: u32) =
      of_nat (card (used_frames s - frames addr count)) + of_nat (card (frames addr count \<inter> used_frames s))"
    by (metis of_nat_add)
  then show ?thesis using ok by (simp add: phys_ok_def phys_setfree_frames algebra_simps)
qed

subsection \<open>The allocator\<close>

text \<open>
  First fit: the address returned is the lowest page boundary below \<open>total_mem\<close> from which
  \<open>count\<close> frames are free, and exactly those become used.
\<close>

lemma phys_alloc_success:
  assumes "i < total_mem s div PAGE_SIZE" "\<not> phys_isused s (i * PAGE_SIZE) count"
    and "\<forall>j < i. phys_isused s (j * PAGE_SIZE) count"
  shows "phys_alloc s count = (i * PAGE_SIZE, phys_setused s (i * PAGE_SIZE) count)"
proof -
  have "find (\<lambda>i. \<not> phys_isused s (i * PAGE_SIZE) count) (upto_u32 (total_mem s div PAGE_SIZE)) = Some i"
    unfolding find_Some_iff
  proof (intro exI [of _ "unat i"] conjI allI impI)
    show lt: "unat i < length (upto_u32 (total_mem s div PAGE_SIZE))"
      using assms(1) by (simp add: word_less_nat_alt)
    show "\<not> phys_isused s (upto_u32 (total_mem s div PAGE_SIZE) ! unat i * PAGE_SIZE) count"
      "i = upto_u32 (total_mem s div PAGE_SIZE) ! unat i"
      using lt assms(2) by simp_all
    fix j assume j: "j < unat i"
    then have "(of_nat j :: u32) < i"
      using unat_u32_less [of i] by (simp add: word_less_nat_alt unat_of_nat_small del: unat_u32_less)
    with assms(3) j lt show "\<not> \<not> phys_isused s (upto_u32 (total_mem s div PAGE_SIZE) ! j * PAGE_SIZE) count"
      by simp
  qed
  then show ?thesis by (simp add: phys_alloc_def)
qed

lemma phys_alloc_failure:
  assumes "\<forall>i < total_mem s div PAGE_SIZE. phys_isused s (i * PAGE_SIZE) count"
  shows "phys_alloc s count = (err ENOMEM, s)"
proof -
  have "find (\<lambda>i. \<not> phys_isused s (i * PAGE_SIZE) count) (upto_u32 (total_mem s div PAGE_SIZE)) = None"
    using assms by (simp add: find_None_iff)
  then show ?thesis by (simp add: phys_alloc_def)
qed

lemma phys_alloc_cases:
  obtains (found) i where "i < total_mem s div PAGE_SIZE" "\<not> phys_isused s (i * PAGE_SIZE) count"
      "\<forall>j < i. phys_isused s (j * PAGE_SIZE) count"
      "phys_alloc s count = (i * PAGE_SIZE, phys_setused s (i * PAGE_SIZE) count)"
    | (full) "\<forall>i < total_mem s div PAGE_SIZE. phys_isused s (i * PAGE_SIZE) count"
      "phys_alloc s count = (err ENOMEM, s)"
proof (cases "\<forall>i < total_mem s div PAGE_SIZE. phys_isused s (i * PAGE_SIZE) count")
  case True
  then show ?thesis using full phys_alloc_failure by blast
next
  case False
  define P where "P n \<longleftrightarrow> (of_nat n :: u32) < total_mem s div PAGE_SIZE \<and>
    \<not> phys_isused s (of_nat n * PAGE_SIZE) count" for n
  from False obtain k where k: "k < total_mem s div PAGE_SIZE" "\<not> phys_isused s (k * PAGE_SIZE) count"
    by blast
  then have "P (unat k)" by (simp add: P_def)
  then obtain n where n: "P n" "n \<le> unat k" "\<forall>m < n. \<not> P m"
    by (metis exists_least_iff less_le_trans nat_le_linear not_le)
  then have small: "n < 4294967296" using unat_u32_less [of k] by linarith
  have "phys_isused s (j * PAGE_SIZE) count" if "j < of_nat n" for j
  proof -
    have "unat j < n" using that small by (simp add: word_less_nat_alt unat_of_nat_small)
    then have "\<not> P (unat j)" using n(3) by blast
    moreover have "j < total_mem s div PAGE_SIZE" using n(1) that unfolding P_def by (rule_tac less_trans) auto
    ultimately show ?thesis by (simp add: P_def)
  qed
  then show ?thesis
    using n(1) by (intro found [of "of_nat n"] phys_alloc_success) (auto simp: P_def)
qed

text \<open>An empty range is free everywhere, so a request for no frames answers address 0.\<close>

lemma phys_alloc_zero: "PAGE_SIZE \<le> total_mem s \<Longrightarrow> phys_alloc s 0 = (0, s)"
proof -
  assume "PAGE_SIZE \<le> total_mem s"
  then have "0 < total_mem s div PAGE_SIZE"
    by (simp add: PAGE_SIZE_def word_less_nat_alt word_le_nat_alt unat_div div_greater_zero_iff)
  from phys_alloc_success [OF this] show ?thesis
    by (simp add: phys_isused_def phys_setused_def)
qed

subsection \<open>The memory map\<close>

lemma mmap_reserve_nothing: "len \<le> addr \<Longrightarrow> mmap_reserve addr len s = Some s"
  by (subst mmap_reserve.simps) (auto simp: not_less)

text \<open>
  The loop that reserves an unavailable region marks the frames of the addresses from its base
  up to its \<^emph>\<open>length\<close>, and returns unless the length is within a page of the end of the
  64-bit range.
\<close>

lemma mmap_reserve_frames:
  assumes "unat len + 4096 \<le> 2 ^ 64"
  shows "\<exists>s'. mmap_reserve addr len s = Some s' \<and> used_mem s' = used_mem s \<and>
    total_mem s' = total_mem s \<and> used_frames s' = used_frames s \<union>
      {frame_of (ucast (addr + of_nat k * 4096)) | k. unat addr + k * 4096 < unat len}"
proof (induction "unat len - unat addr" arbitrary: addr s rule: less_induct)
  case less
  show ?case
  proof (cases "addr < len")
    case False
    then have "{frame_of (ucast (addr + of_nat k * 4096)) | k. unat addr + k * 4096 < unat len} = {}"
      by (auto simp: word_less_nat_alt)
    moreover have "mmap_reserve addr len s = Some s"
      using False by (intro mmap_reserve_nothing) (simp add: not_less)
    ultimately show ?thesis by blast
  next
    case True
    then have lt: "unat addr < unat len" by (simp add: word_less_nat_alt)
    have nxt: "unat (addr + 0x1000) = unat addr + 4096"
      using lt assms by (subst unat_plus_simple [THEN iffD1]) (simp_all add: word_le_nat_alt unat_word_ariths)
    let ?s1 = "PHYSICAL_SET_USED (ucast addr) s"
    have dec: "unat len - unat (addr + 0x1000) < unat len - unat addr"
      using lt nxt by simp
    obtain s' where s': "mmap_reserve (addr + 0x1000) len ?s1 = Some s'" "used_mem s' = used_mem ?s1"
      "total_mem s' = total_mem ?s1" "used_frames s' = used_frames ?s1 \<union>
        {frame_of (ucast (addr + 0x1000 + of_nat k * 4096)) | k. unat (addr + 0x1000) + k * 4096 < unat len}"
      using less [OF dec, of ?s1] by blast
    have split: "{frame_of (ucast (addr + of_nat k * 4096)) | k. unat addr + k * 4096 < unat len} =
      insert (frame_of (ucast addr))
        {frame_of (ucast (addr + 0x1000 + of_nat k * 4096)) | k. unat (addr + 0x1000) + k * 4096 < unat len}"
      (is "?L = insert ?a ?R")
    proof (intro equalityI subsetI)
      fix f assume "f \<in> ?L"
      then obtain k where k: "f = frame_of (ucast (addr + of_nat k * 4096))" "unat addr + k * 4096 < unat len"
        by blast
      show "f \<in> insert ?a ?R"
      proof (cases k)
        case 0
        then show ?thesis using k by simp
      next
        case (Suc j)
        then have "f = frame_of (ucast (addr + 0x1000 + of_nat j * 4096))"
          "unat (addr + 0x1000) + j * 4096 < unat len"
          using k nxt by (simp_all add: algebra_simps)
        then show ?thesis by blast
      qed
    next
      fix f assume "f \<in> insert ?a ?R"
      then consider "f = ?a" | k where "f = frame_of (ucast (addr + 0x1000 + of_nat k * 4096))"
        "unat (addr + 0x1000) + k * 4096 < unat len" by blast
      then show "f \<in> ?L"
      proof cases
        case 1
        then show ?thesis using lt by (auto intro!: exI [of _ 0])
      next
        case 2
        then have "f = frame_of (ucast (addr + of_nat (Suc k) * 4096))" "unat addr + Suc k * 4096 < unat len"
          using nxt by (simp_all add: algebra_simps)
        then show ?thesis by blast
      qed
    qed
    have "mmap_reserve addr len s = mmap_reserve (addr + 0x1000) len ?s1"
      using True by (subst mmap_reserve.simps) simp
    then show ?thesis using s' split by auto
  qed
qed

text \<open>\<open>PAGE_ALIGN\<close> rounds up, but moves a value that is already aligned by a whole page.\<close>

lemma PAGE_ALIGN_aligned: "x mod PAGE_SIZE = 0 \<Longrightarrow> PAGE_ALIGN x = x + PAGE_SIZE"
  by (simp add: PAGE_ALIGN_def)

lemma PAGE_ALIGN_up:
  assumes "unat x + 4096 < 2 ^ 32"
  shows "x < PAGE_ALIGN x" "PAGE_ALIGN x mod PAGE_SIZE = 0" "PAGE_ALIGN x \<le> x + PAGE_SIZE"
proof -
  have m: "unat x mod 4096 < 4096" "unat x mod 4096 \<le> unat x" by simp_all
  have eq: "unat (PAGE_ALIGN x) = unat x + 4096 - unat x mod 4096"
    using assms m by (simp add: PAGE_ALIGN_def PAGE_SIZE_def unat_sub_if' unat_word_ariths unat_mod)
  have "unat x + 4096 - unat x mod 4096 = (unat x div 4096 + 1) * 4096"
    using m by (simp add: minus_mod_eq_div_mult [symmetric])
  then have "(unat x + 4096 - unat x mod 4096) mod 4096 = 0" by simp
  then show "PAGE_ALIGN x mod PAGE_SIZE = 0"
    by (simp add: word_unat_eq_iff unat_mod eq PAGE_SIZE_def)
  show "x < PAGE_ALIGN x" using m by (simp add: word_less_nat_alt eq)
  show "PAGE_ALIGN x \<le> x + PAGE_SIZE"
    using assms by (simp add: word_le_nat_alt eq PAGE_SIZE_def unat_word_ariths)
qed

subsection \<open>Properties\<close>


definition small_phys :: phys where
  "small_phys = \<lparr>used_mem = 0, total_mem = 0x10000, mem_bits = (\<lambda>k. if k = 0 then 0x07 else 0)\<rparr>"


text \<open>Marking a free run used and setting it free again is the identity on the set of used frames and on the
  counter \<open>used_mem\<close>.\<close>

theorem setused_setfree:
  assumes "frames addr count \<inter> used_frames s = {}"
  shows "used_frames (phys_setfree (phys_setused s addr count) addr count) = used_frames s \<and>
    used_mem (phys_setfree (phys_setused s addr count) addr count) = used_mem s"
  using phys_setused_setfree [OF assms] by blast

theorem setused_setfree_witness:
  "used_mem (phys_setfree (phys_setused small_phys 0x3000 1) 0x3000 1) = 0"
proof -
  have "frames 0x3000 1 = {3}"
    by (simp add: frames_set upto_u32_def frame_of_def PAGE_SIZE_def)
  moreover have "3 \<notin> used_frames small_phys"
    by (simp add: used_frames_def frame_used_def small_phys_def)
  ultimately show ?thesis using setused_setfree [of "0x3000" 1 small_phys] by (simp add: small_phys_def)
qed

text \<open>C14: the counter agrees with the bitmap: \<open>used_mem\<close> less a constant is the page size times the number of
  used frames, and every operation keeps it so.\<close>

theorem used_mem_counts:
  assumes "used_mem s = base + PAGE_SIZE * of_nat (card (used_frames s))"
  shows "used_mem (phys_setused s addr count) = base + PAGE_SIZE * of_nat (card (used_frames (phys_setused s addr count))) \<and>
    used_mem (phys_setfree s addr count) = base + PAGE_SIZE * of_nat (card (used_frames (phys_setfree s addr count))) \<and>
    used_mem (snd (phys_alloc s count)) = base + PAGE_SIZE * of_nat (card (used_frames (snd (phys_alloc s count))))"
proof -
  have ok: "phys_ok base s" using assms by (simp add: phys_ok_def)
  have "phys_ok base (snd (phys_alloc s count))"
    by (cases rule: phys_alloc_cases [of s count]) (simp_all add: ok phys_setused_ok)
  then show ?thesis
    using phys_setused_ok [OF ok, of addr count] phys_setfree_ok [OF ok, of addr count] by (simp add: phys_ok_def)
qed

theorem used_mem_counts_witness:
  "used_mem (phys_setused small_phys 0x3000 1) =
    - (PAGE_SIZE * of_nat (card (used_frames small_phys))) + PAGE_SIZE * of_nat (card (used_frames (phys_setused small_phys 0x3000 1)))"
  by (rule used_mem_counts [of small_phys, THEN conjunct1]) (simp add: small_phys_def)

end
