(* ===== verification/VirtMem.thy ===== *)
theory VirtMem
  imports PhysMem
begin

text \<open>
  Paging, the second half of \<^verbatim>\<open>newland/arch/x86/src/mem.c\<close>, and \<^verbatim>\<open>alloc.c\<close>.

  Page directories and page tables live in memory: \<open>vmem\<close> holds the 32-bit words at the
  4-aligned physical addresses, which the kernel reaches through its identity mapping. An entry
  is a word whose bits 0, 1 and 2 are \<open>present\<close>, \<open>write\<close> and \<open>user\<close> and whose bits 12 to
  31 are the frame; storing an \<open>int\<close> in a one-bit field keeps its low bit. \<open>krnl_pgdir\<close> and
  \<open>krnl_pgtbl\<close> are the addresses of the two static objects. Invalidating the TLB does not
  change memory.

  \<open>virt_map\<close> calls \<open>mem_allocident\<close> for a missing page table and \<open>mem_allocident\<close> calls
  \<open>virt_map\<close>, so both carry a fuel; the recursion ends as soon as the kernel's own tables are
  present, which \<open>mem_init\<close> and \<open>mem_alloc_pgdir\<close> see to, and fuel 4 is enough then.
\<close>

record vm = phys +
  vmem :: "u32 \<Rightarrow> u32"
  krnl_pgdir :: ptr
  krnl_pgtbl :: ptr
  page_dir_reg :: ptr
  paging_on :: bool

subsection \<open>Entries\<close>

definition PD_INDEX :: "u32 \<Rightarrow> u32" where
  "PD_INDEX vaddr = drop_bit 22 vaddr"

definition PT_INDEX :: "u32 \<Rightarrow> u32" where
  "PT_INDEX vaddr = take_bit 10 (drop_bit 12 vaddr)"

definition entry_present :: "u32 \<Rightarrow> bool" where
  "entry_present v \<longleftrightarrow> bit v 0"

definition entry_write :: "u32 \<Rightarrow> bool" where
  "entry_write v \<longleftrightarrow> bit v 1"

definition entry_user :: "u32 \<Rightarrow> bool" where
  "entry_user v \<longleftrightarrow> bit v 2"

definition entry_frame :: "u32 \<Rightarrow> u32" where
  "entry_frame v = drop_bit 12 v"

definition put_bit :: "nat \<Rightarrow> bool \<Rightarrow> u32 \<Rightarrow> u32" where
  "put_bit n b v = (if b then Bit_Operations.set_bit n v else unset_bit n v)"

definition put_frame :: "u32 \<Rightarrow> u32 \<Rightarrow> u32" where
  "put_frame f v = take_bit 12 v OR push_bit 12 f"

text \<open>The assignments \<open>present = 1; write = iswrite; user = isuser; frame = f\<close>.\<close>

definition put_entry :: "u32 \<Rightarrow> u32 \<Rightarrow> u32 \<Rightarrow> u32 \<Rightarrow> u32" where
  "put_entry iswrite isuser f v =
     put_frame f (put_bit 2 (odd isuser) (put_bit 1 (odd iswrite) (put_bit 0 True v)))"

definition pde_at :: "ptr \<Rightarrow> u32 \<Rightarrow> ptr" where
  "pde_at dir pdi = dir + 4 * pdi"

definition table_of :: "u32 \<Rightarrow> ptr" where
  "table_of pde = entry_frame pde * PAGE_SIZE"

definition set_word :: "ptr \<Rightarrow> u32 \<Rightarrow> 'z vm_scheme \<Rightarrow> 'z vm_scheme" where
  "set_word a v s = s\<lparr>vmem := (vmem s)(a := v)\<rparr>"

subsection \<open>Looking up and translating\<close>

definition page_ispresent :: "'z vm_scheme \<Rightarrow> ptr \<Rightarrow> u32 \<Rightarrow> bool" where
  "page_ispresent s dir vaddr =
     (let pde = vmem s (pde_at dir (PD_INDEX vaddr))
      in entry_present pde \<and> entry_present (vmem s (table_of pde + 4 * PT_INDEX vaddr)))"

definition virt_ispresent :: "'z vm_scheme \<Rightarrow> ptr \<Rightarrow> u32 \<Rightarrow> u32 \<Rightarrow> bool" where
  "virt_ispresent s dir vaddr count \<longleftrightarrow>
     list_all (\<lambda>i. page_ispresent s dir (vaddr + i * PAGE_SIZE)) (upto_u32 count)"

definition virt2phys :: "'z vm_scheme \<Rightarrow> ptr \<Rightarrow> u32 \<Rightarrow> u32" where
  "virt2phys s dir vaddr =
     (let pde = vmem s (pde_at dir (PD_INDEX vaddr));
          pg = vmem s (table_of pde + 4 * PT_INDEX vaddr)
      in entry_frame pg * PAGE_SIZE + (vaddr AND 0xfff))"

text \<open>
  \<open>memset (vaddr, 0, count * PAGE_SIZE)\<close> through the mappings of \<open>dir\<close>, page by page; a page
  that is not present faults.
\<close>

definition clear_page :: "ptr \<Rightarrow> 'z vm_scheme \<Rightarrow> 'z vm_scheme" where
  "clear_page a s = s\<lparr>vmem := (\<lambda>x. if x - a < PAGE_SIZE then 0 else vmem s x)\<rparr>"

definition clear_virt_page :: "ptr \<Rightarrow> u32 \<Rightarrow> u32 \<Rightarrow> 'z vm_scheme \<Rightarrow> 'z vm_scheme option" where
  "clear_virt_page dir vaddr i s =
     (if page_ispresent s dir (vaddr + i * PAGE_SIZE)
      then Some (clear_page (virt2phys s dir (vaddr + i * PAGE_SIZE)) s) else None)"

definition clear_virt :: "ptr \<Rightarrow> u32 \<Rightarrow> u32 \<Rightarrow> 'z vm_scheme \<Rightarrow> 'z vm_scheme option" where
  "clear_virt dir vaddr count s = foldM (clear_virt_page dir vaddr) (upto_u32 count) s"

subsection \<open>Mapping\<close>

text \<open>
  One iteration of \<open>virt_map\<close>. \<open>alloc\<close> is the call of \<open>mem_allocident\<close> for a page table.
  The entry of a new table gets the frame of the entry itself, as the code has it.
\<close>

definition map_step ::
  "('z vm_scheme \<Rightarrow> (ptr \<times> 'z vm_scheme) option) \<Rightarrow> ptr \<Rightarrow> u32 \<Rightarrow> u32 \<Rightarrow> u32 \<Rightarrow> u32 \<Rightarrow> u32 \<Rightarrow>
   'z vm_scheme \<Rightarrow> 'z vm_scheme option" where
  "map_step alloc dir vaddr paddr iswrite isuser i s =
     (let offset = i * PAGE_SIZE;
          pde = pde_at dir (PD_INDEX (vaddr + offset));
          pti = PT_INDEX (vaddr + offset)
      in do {
        (pt, s1) \<leftarrow> (if entry_present (vmem s pde) then Some (table_of (vmem s pde), s)
          else do {
            (pt, s') \<leftarrow> alloc s;
            Some (pt, set_word pde (put_entry iswrite isuser (drop_bit 12 pde) (vmem s' pde)) s')
          });
        Some (set_word (pt + 4 * pti)
          (put_entry iswrite isuser (drop_bit 12 (paddr + offset)) (vmem s1 (pt + 4 * pti))) s1)
      })"

text \<open>
  The search of \<open>mem_allocident\<close> and \<open>virt_alloc\<close> for a run of \<open>count\<close> pages that satisfy
  \<open>free\<close>: \<open>n\<close> iterations are left, \<open>i\<close> is the page looked at, \<open>curr_size\<close> the length of the
  run so far and \<open>startaddr\<close> where it began.
\<close>

fun find_run :: "(u32 \<Rightarrow> bool) \<Rightarrow> u32 \<Rightarrow> nat \<Rightarrow> u32 \<Rightarrow> u32 \<Rightarrow> u32 \<Rightarrow> u32 option" where
  "find_run free count 0 i curr_size startaddr = None"
| "find_run free count (Suc n) i curr_size startaddr =
     (if free (i * PAGE_SIZE)
      then let startaddr' = (if curr_size = 0 then i * PAGE_SIZE else startaddr)
           in if curr_size + 1 = count then Some startaddr'
              else find_run free count n (i + 1) (curr_size + 1) startaddr'
      else find_run free count n (i + 1) 0 startaddr)"

fun virt_map ::
  "nat \<Rightarrow> 'z vm_scheme \<Rightarrow> ptr \<Rightarrow> u32 \<Rightarrow> u32 \<Rightarrow> u32 \<Rightarrow> u32 \<Rightarrow> u32 \<Rightarrow> (u32 \<times> 'z vm_scheme) option"
and mem_allocident ::
  "nat \<Rightarrow> 'z vm_scheme \<Rightarrow> ptr \<Rightarrow> u32 \<Rightarrow> u32 \<Rightarrow> u32 \<Rightarrow> (u32 \<times> 'z vm_scheme) option" where
  "virt_map 0 s dir vaddr paddr count iswrite isuser = None"
| "virt_map (Suc n) s dir vaddr paddr count iswrite isuser = do {
     s' \<leftarrow> foldM (map_step (\<lambda>s. mem_allocident n s dir 1 iswrite 0) dir vaddr paddr iswrite isuser)
            (upto_u32 count) s;
     Some (0, s')
   }"
| "mem_allocident 0 s dir count iswrite isuser = None"
| "mem_allocident (Suc n) s dir count iswrite isuser =
     (if count = 0 then Some (0, s)
      else let lo = (if isuser \<noteq> 0 then 256 else 0);
               hi = (if isuser \<noteq> 0 then 1024 else 256) * 1024
      in case find_run (\<lambda>addr. \<not> (page_ispresent s dir addr \<or> phys_isused s addr 1)) count
             (hi - lo) (of_nat lo) 0 0 of
           None \<Rightarrow> Some (0, s)
         | Some startaddr \<Rightarrow> do {
             (r, s1) \<leftarrow> virt_map n (phys_setused s startaddr count) dir startaddr startaddr count iswrite isuser;
             s2 \<leftarrow> clear_virt dir startaddr count s1;
             Some (startaddr, s2)
           })"

definition unmap_page :: "ptr \<Rightarrow> u32 \<Rightarrow> u32 \<Rightarrow> 'z vm_scheme \<Rightarrow> 'z vm_scheme" where
  "unmap_page dir vaddr i s =
     (let va = vaddr + i * PAGE_SIZE;
          pg = table_of (vmem s (pde_at dir (PD_INDEX va))) + 4 * PT_INDEX va
      in if entry_present (vmem s pg) then set_word pg 0 s else s)"

definition virt_unmap :: "'z vm_scheme \<Rightarrow> ptr \<Rightarrow> u32 \<Rightarrow> u32 \<Rightarrow> 'z vm_scheme" where
  "virt_unmap s dir vaddr count = fold (unmap_page dir vaddr) (upto_u32 count) s"

definition virt_alloc ::
  "nat \<Rightarrow> 'z vm_scheme \<Rightarrow> ptr \<Rightarrow> u32 \<Rightarrow> u32 \<Rightarrow> u32 \<Rightarrow> u32 \<Rightarrow> (u32 \<times> 'z vm_scheme) option" where
  "virt_alloc fuel s dir paddr count iswrite isuser =
     (if count = 0 then Some (0, s)
      else let lo = (if isuser \<noteq> 0 then 256 else 0) * 1024;
               hi = (if isuser \<noteq> 0 then 1024 else 256) * 1024
      in case find_run (\<lambda>vaddr. \<not> page_ispresent s dir vaddr) count (hi - lo) (of_nat lo) 0 0 of
           None \<Rightarrow> Some (0, s)
         | Some startaddr \<Rightarrow> do {
             (r, s1) \<leftarrow> virt_map fuel s dir startaddr paddr count iswrite isuser;
             Some (startaddr, s1)
           })"

subsection \<open>The allocator's interface\<close>

definition mem_alloc ::
  "nat \<Rightarrow> 'z vm_scheme \<Rightarrow> ptr \<Rightarrow> u32 \<Rightarrow> u32 \<Rightarrow> u32 \<Rightarrow> (u32 \<times> 'z vm_scheme) option" where
  "mem_alloc fuel s dir count iswrite isuser =
     (if count = 0 then Some (0, s)
      else let (paddr, s1) = phys_alloc s count
      in if paddr = 0 then Some (0, s1)
      else do {
        (vaddr, s2) \<leftarrow> virt_alloc fuel s1 dir paddr count iswrite isuser;
        s3 \<leftarrow> clear_virt dir vaddr count s2;
        Some (vaddr, s3)
      })"

definition mem_free :: "'z vm_scheme \<Rightarrow> ptr \<Rightarrow> u32 \<Rightarrow> u32 \<Rightarrow> 'z vm_scheme" where
  "mem_free s dir addr count =
     (if virt_ispresent s dir addr count
      then virt_unmap (phys_setfree s (virt2phys s dir addr) count) dir addr count
      else s)"

definition mem_identmap ::
  "nat \<Rightarrow> 'z vm_scheme \<Rightarrow> ptr \<Rightarrow> u32 \<Rightarrow> u32 \<Rightarrow> (u32 \<times> 'z vm_scheme) option" where
  "mem_identmap fuel s dir addr count = do {
     (r, s') \<leftarrow> virt_map fuel (phys_setused s addr count) dir addr addr count 1 0;
     Some (0, s')
   }"

definition mem_map ::
  "nat \<Rightarrow> 'z vm_scheme \<Rightarrow> ptr \<Rightarrow> u32 \<Rightarrow> u32 \<Rightarrow> u32 \<Rightarrow> u32 \<Rightarrow> (u32 \<times> 'z vm_scheme) option" where
  "mem_map fuel s pgdir addr count iswrite isuser = do {
     s' \<leftarrow> foldM (\<lambda>i s.
       let vaddr = addr + i * PAGE_SIZE
       in if \<not> virt_ispresent s pgdir vaddr 1
          then let (paddr, s1) = phys_alloc s 1
               in map_option snd (virt_map fuel s1 pgdir vaddr paddr 1 iswrite isuser)
          else Some s) (upto_u32 count) s;
     Some (0, s')
   }"

definition get_krnlpgdir :: "'z vm_scheme \<Rightarrow> ptr" where
  "get_krnlpgdir s = krnl_pgdir s"

text \<open>The 256 kernel entries of a directory point to the kernel's tables.\<close>

definition set_kernel_entry :: "ptr \<Rightarrow> u32 \<Rightarrow> 'z vm_scheme \<Rightarrow> 'z vm_scheme" where
  "set_kernel_entry dir i s =
     (let pde = pde_at dir i
      in set_word pde (put_frame ((krnl_pgtbl s + i * PAGE_SIZE) div PAGE_SIZE)
           (put_bit 0 True (put_bit 1 True (put_bit 2 False (vmem s pde))))) s)"

definition set_kernel_entries :: "ptr \<Rightarrow> 'z vm_scheme \<Rightarrow> 'z vm_scheme" where
  "set_kernel_entries dir s = fold (set_kernel_entry dir) (upto_u32 256) s"

definition mem_alloc_pgdir :: "nat \<Rightarrow> 'z vm_scheme \<Rightarrow> (ptr \<times> 'z vm_scheme) option" where
  "mem_alloc_pgdir fuel s = do {
     (pgdir, s1) \<leftarrow> mem_allocident fuel s (krnl_pgdir s) 1 1 0;
     if pgdir = 0 then Some (0, s1)
     else Some (pgdir, set_kernel_entries pgdir (clear_page pgdir s1))
   }"

text \<open>
  The inner loop of \<open>mem_free_pgdir\<close> counts with the outer counter \<open>i\<close> while it indexes with
  \<open>x\<close>, which stays 0; it ends with \<open>i = 1024\<close>, and so does the outer loop. \<open>n\<close> is the
  number of values of \<open>i\<close> left.
\<close>

definition free_tables_inner :: "ptr \<Rightarrow> nat \<Rightarrow> 'z vm_scheme \<Rightarrow> 'z vm_scheme" where
  "free_tables_inner pt n s = fold (\<lambda>_ s.
     let pg = vmem s pt
     in if entry_present pg then phys_setfree s (entry_frame pg * PAGE_SIZE) 1 else s) [0..<n] s"

fun free_tables :: "ptr \<Rightarrow> nat \<Rightarrow> 'z vm_scheme \<Rightarrow> 'z vm_scheme" where
  "free_tables dir 0 s = s"
| "free_tables dir (Suc n) s =
     (let pde = vmem s (pde_at dir (of_nat (1024 - Suc n)))
      in if entry_present pde
         then mem_free (free_tables_inner (table_of pde) (Suc n) s) (krnl_pgdir s) (table_of pde) 1
         else free_tables dir n s)"

definition mem_free_pgdir :: "'z vm_scheme \<Rightarrow> ptr \<Rightarrow> 'z vm_scheme" where
  "mem_free_pgdir s dir = mem_free (free_tables dir 768 s) (krnl_pgdir s) dir 1"

text \<open>\<open>mem_init\<close>: the kernel's directory, the memory map, and the identity mapping of used memory.\<close>

definition mem_init ::
  "nat \<Rightarrow> (ptr \<Rightarrow> multiboot_mmap option) \<Rightarrow> (ptr \<Rightarrow> multiboot_module option) \<Rightarrow> ptr \<Rightarrow>
   ptr \<Rightarrow> u32 \<Rightarrow> ptr \<Rightarrow> u32 \<Rightarrow> 'z vm_scheme \<Rightarrow> 'z vm_scheme option" where
  "mem_init fuel mmaps mods kernel_end mmap_base mmap_length mods_addr mods_count s = do {
     let s1 = s\<lparr>mem_bits := (\<lambda>_. 0)\<rparr>;
     let s2 = set_kernel_entries (krnl_pgdir s1) s1;
     s3 \<leftarrow> mem_loadmmap mmaps mods kernel_end mmap_base mmap_length mods_addr mods_count s2;
     (r, s4) \<leftarrow> mem_identmap fuel s3 (krnl_pgdir s3) 0 (PAGE_ALIGN (used_mem s3) div PAGE_SIZE + 1);
     Some (s4\<lparr>page_dir_reg := krnl_pgdir s4, paging_on := True\<rparr>)
   }"

definition liballoc_lock :: u32 where "liballoc_lock = 0"
definition liballoc_unlock :: u32 where "liballoc_unlock = 0"

definition liballoc_alloc :: "nat \<Rightarrow> 'z vm_scheme \<Rightarrow> u32 \<Rightarrow> (u32 \<times> 'z vm_scheme) option" where
  "liballoc_alloc fuel s pages = mem_alloc fuel s (get_krnlpgdir s) (pages * PAGE_SIZE) 1 0"

definition liballoc_free :: "'z vm_scheme \<Rightarrow> ptr \<Rightarrow> u32 \<Rightarrow> u32 \<times> 'z vm_scheme" where
  "liballoc_free s p pages = (0, mem_free s (get_krnlpgdir s) p (pages * PAGE_SIZE))"

subsection \<open>Entries read back what was stored\<close>

lemma entry_present_put_bit:
  "entry_present (put_bit n b v) = (if n = 0 then b else entry_present v)"
  "entry_write (put_bit n b v) = (if n = 1 then b else entry_write v)"
  "entry_user (put_bit n b v) = (if n = 2 then b else entry_user v)"
  by (auto simp: entry_present_def entry_write_def entry_user_def put_bit_def bit_set_bit_iff
      bit_unset_bit_iff)

lemma entry_put_frame:
  "entry_present (put_frame f v) = entry_present v" "entry_write (put_frame f v) = entry_write v"
  "entry_user (put_frame f v) = entry_user v" "entry_frame (put_frame f v) = take_bit 20 f"
proof -
  have low: "bit (put_frame f v) k = bit v k" if "k < 12" for k
    using that by (simp add: put_frame_def bit_or_iff bit_take_bit_iff bit_push_bit_iff)
  show "entry_present (put_frame f v) = entry_present v" "entry_write (put_frame f v) = entry_write v"
    "entry_user (put_frame f v) = entry_user v"
    by (simp_all add: entry_present_def entry_write_def entry_user_def low)
  show "entry_frame (put_frame f v) = take_bit 20 f"
    by (rule bit_word_eqI)
      (auto simp: entry_frame_def put_frame_def bit_drop_bit_eq bit_or_iff bit_take_bit_iff bit_push_bit_iff)
qed

lemma put_entry_read [simp]:
  "entry_present (put_entry w u f v)" "entry_write (put_entry w u f v) = odd w"
  "entry_user (put_entry w u f v) = odd u" "entry_frame (put_entry w u f v) = take_bit 20 f"
  by (simp_all add: put_entry_def entry_put_frame entry_present_put_bit)

lemma entry_zero [simp]: "\<not> entry_present 0"
  by (simp add: entry_present_def)

subsection \<open>Addresses of entries\<close>

definition aligned :: "u32 \<Rightarrow> bool" where
  "aligned p \<longleftrightarrow> p mod PAGE_SIZE = 0"

lemma aligned_unat: "aligned p \<longleftrightarrow> unat p mod 4096 = 0"
  by (simp add: aligned_def PAGE_SIZE_def word_unat_eq_iff unat_mod)

lemma page_base_add:
  assumes "(p :: nat) mod 4096 = 0" "i < 1024"
  shows "(p + 4 * i) div 4096 = p div 4096"
proof -
  obtain k where "p = 4096 * k" using assms(1) by (auto simp: mod_eq_0_iff_dvd dvd_def)
  then show ?thesis using assms(2) by simp
qed

lemma page_base_bound:
  assumes "(p :: nat) mod 4096 = 0" "p < 4294967296"
  shows "p + 4096 \<le> 4294967296"
proof -
  obtain k where "p = 4096 * k" using assms(1) by (auto simp: mod_eq_0_iff_dvd dvd_def)
  then show ?thesis using assms(2) by simp
qed

lemma unat_entry_addr:
  assumes "aligned p" "i < 1024"
  shows "unat (p + 4 * i) = unat p + 4 * unat i"
proof -
  have i: "unat i < 1024" using assms(2) by (simp add: word_less_nat_alt)
  have "unat p + 4096 \<le> 4294967296"
    using assms(1) by (intro page_base_bound) (simp_all add: aligned_unat)
  then have b: "unat p + 4 * unat i < 4294967296" using i by linarith
  have "unat (4 * i) = 4 * unat i" using i by (simp add: unat_word_ariths)
  then show ?thesis using b by (simp add: unat_word_ariths)
qed

lemma entry_addr_div:
  assumes "aligned p" "i < 1024"
  shows "unat (p + 4 * i) div 4096 = unat p div 4096"
  using assms by (simp add: unat_entry_addr page_base_add aligned_unat word_less_nat_alt)

lemma entry_addr_inj:
  assumes "aligned p" "aligned q" "i < 1024" "j < 1024"
  shows "p + 4 * i = q + 4 * j \<longleftrightarrow> p = q \<and> i = j"
proof
  assume e: "p + 4 * i = q + 4 * j"
  have "unat p div 4096 = unat q div 4096"
    using entry_addr_div [OF assms(1,3)] entry_addr_div [OF assms(2,4)] e by simp
  moreover have "unat p mod 4096 = unat q mod 4096"
    using assms(1,2) by (simp add: aligned_unat)
  ultimately have pq: "unat p = unat q" by (metis div_mult_mod_eq)
  have "unat p + 4 * unat i = unat q + 4 * unat j"
    using unat_entry_addr [OF assms(1,3)] unat_entry_addr [OF assms(2,4)] e by simp
  with pq show "p = q \<and> i = j" by (simp add: word_unat_eq_iff)
qed simp

lemma aligned_table_of: "aligned (table_of pde)"
proof -
  have "entry_frame pde * PAGE_SIZE = push_bit 12 (entry_frame pde)"
    by (simp add: PAGE_SIZE_def push_bit_eq_mult)
  moreover have "take_bit 12 (push_bit 12 (entry_frame pde)) = 0"
    by (simp add: take_bit_push_bit)
  ultimately show ?thesis
    by (simp add: aligned_def table_of_def PAGE_SIZE_def take_bit_eq_mod)
qed

subsection \<open>A directory as a map from pages to frames\<close>

definition page_of :: "u32 \<Rightarrow> u32" where
  "page_of vaddr = drop_bit 12 vaddr"

definition pte_loc :: "'z vm_scheme \<Rightarrow> ptr \<Rightarrow> u32 \<Rightarrow> ptr" where
  "pte_loc s dir p = table_of (vmem s (pde_at dir (drop_bit 10 p))) + 4 * take_bit 10 p"

definition table_present :: "'z vm_scheme \<Rightarrow> ptr \<Rightarrow> u32 \<Rightarrow> bool" where
  "table_present s dir p \<longleftrightarrow> entry_present (vmem s (pde_at dir (drop_bit 10 p)))"

definition pte_value :: "u32 \<Rightarrow> (u32 \<times> bool \<times> bool) option" where
  "pte_value v = (if entry_present v then Some (entry_frame v, entry_write v, entry_user v) else None)"

definition mapping :: "'z vm_scheme \<Rightarrow> ptr \<Rightarrow> u32 \<Rightarrow> (u32 \<times> bool \<times> bool) option" where
  "mapping s dir p = (if p < 0x100000 \<and> table_present s dir p then pte_value (vmem s (pte_loc s dir p)) else None)"

text \<open>The tables of a directory lie outside it and do not overlap.\<close>

definition dir_ok :: "'z vm_scheme \<Rightarrow> ptr \<Rightarrow> bool" where
  "dir_ok s dir \<longleftrightarrow> aligned dir \<and>
     (\<forall>i < 1024. entry_present (vmem s (pde_at dir i)) \<longrightarrow> table_of (vmem s (pde_at dir i)) \<noteq> dir) \<and>
     (\<forall>i < 1024. \<forall>j < 1024. i \<noteq> j \<longrightarrow> entry_present (vmem s (pde_at dir i)) \<longrightarrow>
        entry_present (vmem s (pde_at dir j)) \<longrightarrow>
        table_of (vmem s (pde_at dir i)) \<noteq> table_of (vmem s (pde_at dir j)))"

lemma PD_PT_page: "PD_INDEX va = drop_bit 10 (page_of va)" "PT_INDEX va = take_bit 10 (page_of va)"
  by (simp_all add: PD_INDEX_def PT_INDEX_def page_of_def)

lemma page_of_less [simp]: "page_of va < 0x100000"
proof -
  have "unat va div 4096 < 0x100000"
    using unat_u32_less [of va] by (simp add: less_mult_imp_div_less del: unat_u32_less)
  then show ?thesis by (simp add: page_of_def word_less_nat_alt drop_bit_eq_div unat_div)
qed

lemma page_index_less: "p < 0x100000 \<Longrightarrow> drop_bit 10 p < 1024" "take_bit 10 (p :: u32) < 1024"
proof -
  show "take_bit 10 p < 1024"
    using take_bit_nat_less_exp [of 10 "unat p"] by (simp add: word_less_nat_alt unsigned_take_bit_eq)
  assume "p < 0x100000"
  then have "unat p div 1024 < 1024" by (simp add: word_less_nat_alt less_mult_imp_div_less)
  then show "drop_bit 10 p < 1024"
    by (simp add: word_less_nat_alt drop_bit_eq_div unat_div)
qed

lemma page_split: "drop_bit 10 p = drop_bit 10 q \<Longrightarrow> take_bit 10 p = take_bit 10 q \<Longrightarrow> p = (q :: u32)"
  by (metis bits_ident)

lemma page_ispresent_mapping: "page_ispresent s dir va \<longleftrightarrow> mapping s dir (page_of va) \<noteq> None"
  by (simp add: page_ispresent_def mapping_def Let_def PD_PT_page table_present_def pte_loc_def pte_value_def)

lemma virt2phys_mapping:
  "mapping s dir (page_of va) = Some (f, w, u) \<Longrightarrow> virt2phys s dir va = f * PAGE_SIZE + (va AND 0xfff)"
  by (simp add: virt2phys_def mapping_def Let_def PD_PT_page pte_loc_def pte_value_def split: if_splits)

text \<open>Storing an entry of a present table changes the map at that page only.\<close>

lemma set_pte:
  fixes v :: u32
  assumes ok: "dir_ok s dir" and p: "p < 0x100000" and tp: "table_present s dir p"
  defines "s' \<equiv> set_word (pte_loc s dir p) v s"
  shows "dir_ok s' dir" "mapping s' dir = (mapping s dir)(p := pte_value v)"
    "\<And>q. q < 0x100000 \<Longrightarrow> table_present s' dir q = table_present s dir q"
    "\<And>q. q < 0x100000 \<Longrightarrow> pte_loc s' dir q = pte_loc s dir q"
    "\<And>i. i < 1024 \<Longrightarrow> vmem s' (pde_at dir i) = vmem s (pde_at dir i)"
proof -
  have al: "aligned dir" using ok by (simp add: dir_ok_def)
  show pde: "vmem s' (pde_at dir i) = vmem s (pde_at dir i)" if "i < 1024" for i
  proof -
    have "table_of (vmem s (pde_at dir (drop_bit 10 p))) \<noteq> dir"
      using ok tp page_index_less(1) [OF p] unfolding dir_ok_def table_present_def by blast
    then have "dir + 4 * i \<noteq> pte_loc s dir p"
      using entry_addr_inj [OF al aligned_table_of that page_index_less(2),
          of "vmem s (pde_at dir (drop_bit 10 p))" p]
      by (simp add: pte_loc_def)
    then show ?thesis by (simp add: s'_def set_word_def pde_at_def)
  qed
  show "dir_ok s' dir" using ok by (simp add: dir_ok_def pde)
  show tp': "table_present s' dir q = table_present s dir q" if "q < 0x100000" for q
    using page_index_less(1) [OF that] by (simp add: table_present_def pde)
  show loc': "pte_loc s' dir q = pte_loc s dir q" if "q < 0x100000" for q
    using page_index_less(1) [OF that] by (simp add: pte_loc_def pde)
  show "mapping s' dir = (mapping s dir)(p := pte_value v)"
  proof
    fix q
    show "mapping s' dir q = ((mapping s dir)(p := pte_value v)) q"
    proof (cases "q = p \<or> \<not> q < 0x100000 \<or> \<not> table_present s dir q")
      case True
      then show ?thesis using p tp tp' loc'
        by (auto simp: mapping_def) (auto simp: s'_def set_word_def)
    next
      case False
      have "pte_loc s dir q \<noteq> pte_loc s dir p"
      proof
        assume "pte_loc s dir q = pte_loc s dir p"
        then have eq: "table_of (vmem s (pde_at dir (drop_bit 10 q))) = table_of (vmem s (pde_at dir (drop_bit 10 p)))"
          "take_bit 10 q = take_bit 10 p"
          unfolding pte_loc_def using entry_addr_inj [OF aligned_table_of aligned_table_of
              page_index_less(2) page_index_less(2)] by blast+
        have "drop_bit 10 q = drop_bit 10 p"
          using eq(1) ok tp False page_index_less(1) p unfolding dir_ok_def table_present_def by blast
        with eq(2) False show False using page_split by blast
      qed
      then show ?thesis using False tp' loc' by (simp add: mapping_def) (simp add: s'_def set_word_def)
    qed
  qed
qed

subsection \<open>Mapping and unmapping update the map\<close>

lemma pte_value_put_entry: "pte_value (put_entry w u (drop_bit 12 a) v) = Some (page_of a, odd w, odd u)"
proof -
  have "take_bit 20 (drop_bit 12 a) = drop_bit 12 a"
    using page_of_less [of a] by (intro take_bit_small_self) (simp add: page_of_def word_less_nat_alt)
  then show ?thesis by (simp add: pte_value_def page_of_def)
qed

definition map_pages ::
  "u32 \<Rightarrow> u32 \<Rightarrow> u32 \<Rightarrow> u32 \<Rightarrow> u32 list \<Rightarrow> (u32 \<Rightarrow> (u32 \<times> bool \<times> bool) option) \<Rightarrow>
   (u32 \<Rightarrow> (u32 \<times> bool \<times> bool) option)" where
  "map_pages vaddr paddr w u is m = fold (\<lambda>i m. m(page_of (vaddr + i * PAGE_SIZE) \<mapsto>
     (page_of (paddr + i * PAGE_SIZE), odd w, odd u))) is m"

lemma map_pages_simps [simp]:
  "map_pages vaddr paddr w u [] m = m"
  "map_pages vaddr paddr w u (i # is) m = map_pages vaddr paddr w u is
     (m(page_of (vaddr + i * PAGE_SIZE) \<mapsto> (page_of (paddr + i * PAGE_SIZE), odd w, odd u)))"
  by (simp_all add: map_pages_def)

lemma map_step_present:
  assumes ok: "dir_ok s dir" and tp: "table_present s dir (page_of (vaddr + i * PAGE_SIZE))"
  obtains s' where "map_step alloc dir vaddr paddr w u i s = Some s'" "dir_ok s' dir"
    "mapping s' dir = (mapping s dir)(page_of (vaddr + i * PAGE_SIZE) \<mapsto>
       (page_of (paddr + i * PAGE_SIZE), odd w, odd u))"
    "\<And>q. q < 0x100000 \<Longrightarrow> table_present s' dir q = table_present s dir q"
    "\<And>j. j < 1024 \<Longrightarrow> vmem s' (pde_at dir j) = vmem s (pde_at dir j)"
    "phys.truncate s' = phys.truncate s"
proof -
  let ?p = "page_of (vaddr + i * PAGE_SIZE)"
  let ?v = "put_entry w u (drop_bit 12 (paddr + i * PAGE_SIZE)) (vmem s (pte_loc s dir ?p))"
  let ?s' = "set_word (pte_loc s dir ?p) ?v s"
  have step: "map_step alloc dir vaddr paddr w u i s = Some ?s'"
    using tp by (simp add: map_step_def Let_def PD_PT_page table_present_def pte_loc_def)
  have t: "phys.truncate ?s' = phys.truncate s" by (simp add: set_word_def phys.defs)
  note pte = set_pte [OF ok page_of_less tp, where v = ?v]
  have m: "mapping ?s' dir = (mapping s dir)(?p \<mapsto> (page_of (paddr + i * PAGE_SIZE), odd w, odd u))"
    using pte(2) by (simp only: pte_value_put_entry)
  show ?thesis by (rule that [OF step pte(1) m pte(3) pte(5) t])
qed

lemma foldM_map_step:
  assumes "dir_ok s dir" "\<forall>i \<in> set is. table_present s dir (page_of (vaddr + i * PAGE_SIZE))"
  obtains s' where "foldM (map_step alloc dir vaddr paddr w u) is s = Some s'" "dir_ok s' dir"
    "mapping s' dir = map_pages vaddr paddr w u is (mapping s dir)" "phys.truncate s' = phys.truncate s"
    "\<And>j. j < 1024 \<Longrightarrow> vmem s' (pde_at dir j) = vmem s (pde_at dir j)"
proof -
  have "\<exists>s'. foldM (map_step alloc dir vaddr paddr w u) is s = Some s' \<and> dir_ok s' dir \<and>
    mapping s' dir = map_pages vaddr paddr w u is (mapping s dir) \<and> phys.truncate s' = phys.truncate s \<and>
    (\<forall>j < 1024. vmem s' (pde_at dir j) = vmem s (pde_at dir j))"
    using assms
  proof (induction "is" arbitrary: s)
    case Nil
    then show ?case by simp
  next
    case (Cons i "is")
    have tp: "table_present s dir (page_of (vaddr + i * PAGE_SIZE))" using Cons.prems(2) by simp
    note step = map_step_present [OF Cons.prems(1) tp, of alloc paddr w u]
    show ?case
    proof (rule step)
      fix s1
      assume s1: "map_step alloc dir vaddr paddr w u i s = Some s1" "dir_ok s1 dir"
        "mapping s1 dir = (mapping s dir)(page_of (vaddr + i * PAGE_SIZE) \<mapsto>
           (page_of (paddr + i * PAGE_SIZE), odd w, odd u))"
        "\<And>q. q < 0x100000 \<Longrightarrow> table_present s1 dir q = table_present s dir q"
        "\<And>j. j < 1024 \<Longrightarrow> vmem s1 (pde_at dir j) = vmem s (pde_at dir j)"
        "phys.truncate s1 = phys.truncate s"
      have "\<forall>j \<in> set is. table_present s1 dir (page_of (vaddr + j * PAGE_SIZE))"
        using s1(4) Cons.prems(2) by simp
      from Cons.IH [OF s1(2) this] s1(3,6)
      have "\<exists>s'. foldM (map_step alloc dir vaddr paddr w u) is s1 = Some s' \<and> dir_ok s' dir \<and>
        mapping s' dir = map_pages vaddr paddr w u (i # is) (mapping s dir) \<and>
        phys.truncate s' = phys.truncate s \<and> (\<forall>j < 1024. vmem s' (pde_at dir j) = vmem s1 (pde_at dir j))"
        by (simp only: map_pages_simps)
      then show "\<exists>s'. foldM (map_step alloc dir vaddr paddr w u) (i # is) s = Some s' \<and> dir_ok s' dir \<and>
        mapping s' dir = map_pages vaddr paddr w u (i # is) (mapping s dir) \<and>
        phys.truncate s' = phys.truncate s \<and> (\<forall>j < 1024. vmem s' (pde_at dir j) = vmem s (pde_at dir j))"
        by (auto simp: s1(1,5) simp del: map_pages_simps)
    qed
  qed
  then show ?thesis using that by blast
qed

text \<open>With the page tables present, \<open>virt_map\<close> returns 0 and adds exactly the pages asked for.\<close>

lemma virt_map_present:
  assumes "dir_ok s dir" "\<forall>i < count. table_present s dir (page_of (vaddr + i * PAGE_SIZE))"
  obtains s' where "virt_map (Suc n) s dir vaddr paddr count w u = Some (0, s')" "dir_ok s' dir"
    "mapping s' dir = map_pages vaddr paddr w u (upto_u32 count) (mapping s dir)"
    "phys.truncate s' = phys.truncate s"
    "\<And>j. j < 1024 \<Longrightarrow> vmem s' (pde_at dir j) = vmem s (pde_at dir j)"
proof -
  have "\<forall>i \<in> set (upto_u32 count). table_present s dir (page_of (vaddr + i * PAGE_SIZE))"
    using assms(2) by simp
  from foldM_map_step [OF assms(1) this, of "\<lambda>s. mem_allocident n s dir 1 w 0" paddr w u]
  obtain s' where "foldM (map_step (\<lambda>s. mem_allocident n s dir 1 w 0) dir vaddr paddr w u)
      (upto_u32 count) s = Some s'" "dir_ok s' dir"
    "mapping s' dir = map_pages vaddr paddr w u (upto_u32 count) (mapping s dir)"
    "phys.truncate s' = phys.truncate s"
    "\<And>j. j < 1024 \<Longrightarrow> vmem s' (pde_at dir j) = vmem s (pde_at dir j)" by blast
  then show ?thesis by (intro that [of s']) simp_all
qed

lemma map_pages_other:
  "p \<notin> (\<lambda>i. page_of (vaddr + i * PAGE_SIZE)) ` set is \<Longrightarrow> map_pages vaddr paddr w u is m p = m p"
  by (induction "is" arbitrary: m) auto

lemma map_pages_in:
  assumes "i \<in> set is" "\<And>j. j \<in> set is \<Longrightarrow> page_of (vaddr + j * PAGE_SIZE) = page_of (vaddr + i * PAGE_SIZE) \<Longrightarrow> j = i"
  shows "map_pages vaddr paddr w u is m (page_of (vaddr + i * PAGE_SIZE)) =
    Some (page_of (paddr + i * PAGE_SIZE), odd w, odd u)"
  using assms
proof (induction "is" arbitrary: m)
  case (Cons k ks)
  show ?case
  proof (cases "i \<in> set ks")
    case True
    then show ?thesis using Cons.IH [OF True] Cons.prems(2) by simp
  next
    case False
    then have "k = i" using Cons.prems(1) by simp
    moreover have "page_of (vaddr + i * PAGE_SIZE) \<notin> (\<lambda>j. page_of (vaddr + j * PAGE_SIZE)) ` set ks"
      using Cons.prems(2) False by force
    ultimately show ?thesis
      using map_pages_other [of "page_of (vaddr + i * PAGE_SIZE)" vaddr ks] by simp
  qed
qed simp

lemma page_of_add:
  assumes "aligned a" "unat a + unat i * 4096 < 4294967296"
  shows "unat (page_of (a + i * PAGE_SIZE)) = unat a div 4096 + unat i"
    and "unat (a + i * PAGE_SIZE) = unat a + unat i * 4096"
proof -
  have "unat (i * PAGE_SIZE) = unat i * 4096"
    using assms(2) by (simp add: PAGE_SIZE_def unat_word_ariths)
  then show eq: "unat (a + i * PAGE_SIZE) = unat a + unat i * 4096"
    using assms(2) by (simp add: unat_word_ariths)
  show "unat (page_of (a + i * PAGE_SIZE)) = unat a div 4096 + unat i"
    by (simp add: page_of_def drop_bit_eq_div unat_div eq)
qed

lemma page_of_offset:
  assumes "aligned a" "off < PAGE_SIZE" "unat a + 4096 \<le> 4294967296"
  shows "page_of (a + off) = page_of a" "(a + off) AND 0xfff = off"
proof -
  have o: "unat off < 4096" using assms(2) by (simp add: PAGE_SIZE_def word_less_nat_alt)
  then have eq: "unat (a + off) = unat a + unat off" using assms(3) by (simp add: unat_word_ariths)
  have a0: "unat a mod 4096 = 0" using assms(1) by (simp add: aligned_unat)
  then obtain k where k: "unat a = 4096 * k" by (auto simp: mod_eq_0_iff_dvd dvd_def)
  have "unat (a + off) div 4096 = unat a div 4096" using eq k o by simp
  then show "page_of (a + off) = page_of a"
    by (simp only: page_of_def drop_bit_eq_div word_unat_eq_iff unat_div) simp
  have "(a + off) AND 0xfff = take_bit 12 (a + off)"
    by (simp add: take_bit_eq_mask mask_eq_exp_minus_1)
  also have "\<dots> = off"
    using eq k o by (simp add: word_unat_eq_iff take_bit_eq_mod unat_mod)
  finally show "(a + off) AND 0xfff = off" .
qed

text \<open>
  The contract of a mapping: every byte of the range translates to the byte at the same offset
  of the physical range, and pages outside the range keep their mapping.
\<close>

lemma virt_map_translates:
  assumes ok: "dir_ok s dir" and tp: "\<forall>i < count. table_present s dir (page_of (vaddr + i * PAGE_SIZE))"
    and al: "aligned vaddr" "aligned paddr"
    and fit: "unat vaddr + unat count * 4096 \<le> 4294967296" "unat paddr + unat count * 4096 \<le> 4294967296"
  obtains s' where "virt_map (Suc n) s dir vaddr paddr count w u = Some (0, s')" "dir_ok s' dir"
    "\<And>i off. i < count \<Longrightarrow> off < PAGE_SIZE \<Longrightarrow> page_ispresent s' dir (vaddr + i * PAGE_SIZE + off) \<and>
      virt2phys s' dir (vaddr + i * PAGE_SIZE + off) = paddr + i * PAGE_SIZE + off"
    "\<And>va. page_of va \<notin> {page_of (vaddr + i * PAGE_SIZE) | i. i < count} \<Longrightarrow>
      mapping s' dir (page_of va) = mapping s dir (page_of va)"
proof -
  obtain s' where s': "virt_map (Suc n) s dir vaddr paddr count w u = Some (0, s')" "dir_ok s' dir"
    "mapping s' dir = map_pages vaddr paddr w u (upto_u32 count) (mapping s dir)"
    using virt_map_present [OF ok tp] by metis
  have fits: "unat a + unat i * 4096 < 4294967296" "unat a + unat i * 4096 + 4096 \<le> 4294967296"
    if "i < count" "unat a + unat count * 4096 \<le> 4294967296" for a i :: u32
    using that by (simp_all add: word_less_nat_alt)
  have al_i: "aligned (a + i * PAGE_SIZE)"
    if "aligned a" "i < count" "unat a + unat count * 4096 \<le> 4294967296" for a i :: u32
    using page_of_add(2) [OF that(1) fits(1) [OF that(2,3)]] that(1) by (simp add: aligned_unat)
  show ?thesis
  proof (rule that [OF s'(1,2)])
    fix i off assume i: "i < count" and off: "off < PAGE_SIZE"
    have "map_pages vaddr paddr w u (upto_u32 count) (mapping s dir) (page_of (vaddr + i * PAGE_SIZE)) =
        Some (page_of (paddr + i * PAGE_SIZE), odd w, odd u)"
    proof (rule map_pages_in)
      show "i \<in> set (upto_u32 count)" using i by simp
      fix j assume j: "j \<in> set (upto_u32 count)" and "page_of (vaddr + j * PAGE_SIZE) = page_of (vaddr + i * PAGE_SIZE)"
      then show "j = i"
        using page_of_add(1) [OF al(1) fits(1) [OF i fit(1)]]
          page_of_add(1) [OF al(1) fits(1) [OF _ fit(1)], of j] by (simp add: word_unat_eq_iff)
    qed
    moreover have page: "page_of (vaddr + i * PAGE_SIZE + off) = page_of (vaddr + i * PAGE_SIZE)"
      "(vaddr + i * PAGE_SIZE + off) AND 0xfff = off"
      using page_of_offset [OF al_i [OF al(1) i fit(1)] off] fits(2) [OF i fit(1)]
        page_of_add(2) [OF al(1) fits(1) [OF i fit(1)]] by simp_all
    ultimately have m: "mapping s' dir (page_of (vaddr + i * PAGE_SIZE + off)) =
        Some (page_of (paddr + i * PAGE_SIZE), odd w, odd u)" using s'(3) by simp
    have "page_of (paddr + i * PAGE_SIZE) * PAGE_SIZE = paddr + i * PAGE_SIZE"
    proof -
      have "unat (paddr + i * PAGE_SIZE) mod 4096 = 0"
        using al_i [OF al(2) i fit(2)] by (simp add: aligned_unat)
      then have "unat (paddr + i * PAGE_SIZE) div 4096 * 4096 = unat (paddr + i * PAGE_SIZE)"
        by (metis add.right_neutral div_mult_mod_eq)
      then show ?thesis
        by (simp add: page_of_def PAGE_SIZE_def drop_bit_eq_div word_unat_eq_iff unat_word_ariths unat_div)
    qed
    then show "page_ispresent s' dir (vaddr + i * PAGE_SIZE + off) \<and>
      virt2phys s' dir (vaddr + i * PAGE_SIZE + off) = paddr + i * PAGE_SIZE + off"
      using m virt2phys_mapping [OF m] page(2) by (simp add: page_ispresent_mapping)
  next
    fix va assume "page_of va \<notin> {page_of (vaddr + i * PAGE_SIZE) | i. i < count}"
    then have "page_of va \<notin> (\<lambda>i. page_of (vaddr + i * PAGE_SIZE)) ` set (upto_u32 count)" by auto
    then show "mapping s' dir (page_of va) = mapping s dir (page_of va)"
      unfolding s'(3) by (rule map_pages_other)
  qed
qed

subsection \<open>Unmapping\<close>

lemma unmap_page_present:
  assumes "dir_ok s dir" "table_present s dir (page_of (vaddr + i * PAGE_SIZE))"
  shows "dir_ok (unmap_page dir vaddr i s) dir"
    "mapping (unmap_page dir vaddr i s) dir = (mapping s dir)(page_of (vaddr + i * PAGE_SIZE) := None)"
    "\<And>q. q < 0x100000 \<Longrightarrow> table_present (unmap_page dir vaddr i s) dir q = table_present s dir q"
proof -
  let ?p = "page_of (vaddr + i * PAGE_SIZE)"
  have z: "pte_value 0 = None" by (simp add: pte_value_def)
  have step: "unmap_page dir vaddr i s = (if entry_present (vmem s (pte_loc s dir ?p))
      then set_word (pte_loc s dir ?p) 0 s else s)"
    by (simp add: unmap_page_def Let_def PD_PT_page pte_loc_def)
  note pte = set_pte [OF assms(1) page_of_less assms(2), where v = 0]
  show "dir_ok (unmap_page dir vaddr i s) dir" using assms(1) pte(1) by (simp add: step)
  show "table_present (unmap_page dir vaddr i s) dir q = table_present s dir q" if "q < 0x100000" for q
    using pte(3) [OF that] by (simp add: step)
  show "mapping (unmap_page dir vaddr i s) dir = (mapping s dir)(?p := None)"
  proof (cases "entry_present (vmem s (pte_loc s dir ?p))")
    case True
    then show ?thesis using pte(2) z by (simp add: step)
  next
    case False
    then have "mapping s dir ?p = None" by (simp add: mapping_def pte_value_def)
    then show ?thesis using False by (auto simp: step)
  qed
qed

lemma fold_unmap_page:
  assumes "dir_ok s dir" "\<forall>i \<in> set is. table_present s dir (page_of (vaddr + i * PAGE_SIZE))"
  shows "dir_ok (fold (unmap_page dir vaddr) is s) dir \<and> mapping (fold (unmap_page dir vaddr) is s) dir p =
      (if p \<in> (\<lambda>i. page_of (vaddr + i * PAGE_SIZE)) ` set is then None else mapping s dir p)"
  using assms
proof (induction "is" arbitrary: s)
  case (Cons i "is")
  have tp: "table_present s dir (page_of (vaddr + i * PAGE_SIZE))" using Cons.prems(2) by simp
  note u = unmap_page_present [OF Cons.prems(1) tp]
  have "\<forall>j \<in> set is. table_present (unmap_page dir vaddr i s) dir (page_of (vaddr + j * PAGE_SIZE))"
    using u(3) Cons.prems(2) by simp
  from Cons.IH [OF u(1) this] show ?case by (simp add: u(2))
qed simp

lemma virt_unmap_present:
  assumes "dir_ok s dir" "\<forall>i < count. table_present s dir (page_of (vaddr + i * PAGE_SIZE))"
  shows "dir_ok (virt_unmap s dir vaddr count) dir"
    and "mapping (virt_unmap s dir vaddr count) dir p =
      (if p \<in> (\<lambda>i. page_of (vaddr + i * PAGE_SIZE)) ` {i. i < count} then None else mapping s dir p)"
proof -
  have "set (upto_u32 count) = {i. i < count}" by auto
  then show "dir_ok (virt_unmap s dir vaddr count) dir" "mapping (virt_unmap s dir vaddr count) dir p =
      (if p \<in> (\<lambda>i. page_of (vaddr + i * PAGE_SIZE)) ` {i. i < count} then None else mapping s dir p)"
    using fold_unmap_page [OF assms(1), of "upto_u32 count" vaddr p] assms(2)
    unfolding virt_unmap_def by simp_all
qed

subsection \<open>The search for a run of free pages\<close>

lemma find_run_sound:
  assumes "find_run free count n (of_nat i) (of_nat c) st = Some a"
    and "i + n \<le> 0x100000" "c \<le> i" "c < unat count" "c \<noteq> 0 \<Longrightarrow> st = of_nat (i - c) * PAGE_SIZE"
    and "\<forall>k < c. free (of_nat (i - c + k) * PAGE_SIZE)"
  shows "\<exists>j. a = of_nat j * PAGE_SIZE \<and> i - c \<le> j \<and> j + unat count \<le> i + n \<and>
    (\<forall>k < unat count. free (of_nat (j + k) * PAGE_SIZE))"
  using assms
proof (induction n arbitrary: i c st)
  case (Suc n)
  show ?case
  proof (cases "free (of_nat i * PAGE_SIZE)")
    case False
    then have "find_run free count n (of_nat (Suc i)) (of_nat 0) st = Some a"
      using Suc.prems(1) by (simp add: add.commute)
    then obtain j where "a = of_nat j * PAGE_SIZE" "Suc i \<le> j" "j + unat count \<le> Suc i + n"
      "\<forall>k < unat count. free (of_nat (j + k) * PAGE_SIZE)"
      using Suc.IH [of "Suc i" 0 st] Suc.prems(2,4) by auto
    then show ?thesis by (intro exI [of _ j]) simp
  next
    case True
    let ?st = "if c = 0 then of_nat i * PAGE_SIZE else st"
    have st: "?st = of_nat (i - c) * PAGE_SIZE" using Suc.prems(5) by simp
    have small: "Suc c < 4294967296" using Suc.prems(2,3) by simp
    have free: "\<forall>k < Suc c. free (of_nat (i - c + k) * PAGE_SIZE)"
    proof (intro allI impI)
      fix k assume "k < Suc c"
      then consider "k < c" | "k = c" by linarith
      then show "free (of_nat (i - c + k) * PAGE_SIZE)"
        using Suc.prems(3,6) True by cases simp_all
    qed
    have c0: "(of_nat c :: u32) = 0 \<longleftrightarrow> c = 0"
      using small of_nat_u32_inj [of c 0] by simp
    have cnt: "(of_nat c + 1 :: u32) = count \<longleftrightarrow> Suc c = unat count"
      using unat_of_nat_small [OF small] by (simp add: word_unat_eq_iff add.commute)
    show ?thesis
    proof (cases "Suc c = unat count")
      case True
      then have "a = ?st" using Suc.prems(1) \<open>free (of_nat i * PAGE_SIZE)\<close> cnt c0 by (simp add: Let_def)
      then show ?thesis using st free True Suc.prems(3) by (intro exI [of _ "i - c"]) simp
    next
      case False
      have "find_run free count n (of_nat (Suc i)) (of_nat (Suc c)) ?st = Some a"
        using Suc.prems(1) True False cnt c0 by (simp add: Let_def add.commute)
      then obtain j where "a = of_nat j * PAGE_SIZE" "Suc i - Suc c \<le> j" "j + unat count \<le> Suc i + n"
        "\<forall>k < unat count. free (of_nat (j + k) * PAGE_SIZE)"
        using Suc.IH [of "Suc i" "Suc c" ?st] Suc.prems(2-4) False st free by auto
      then show ?thesis by (intro exI [of _ j]) simp
    qed
  qed
qed simp

subsection \<open>Identity allocation\<close>

lemma frame_of_page: "frame_of a = page_of a"
  by (simp add: frame_of_def page_of_def PAGE_SIZE_def drop_bit_eq_div)

lemma page_of_iff: "page_of x = page_of a \<longleftrightarrow> unat x div 4096 = unat a div 4096"
  by (simp only: page_of_def drop_bit_eq_div word_unat_eq_iff unat_div) simp

lemma same_page:
  assumes "aligned a"
  shows "x - a < PAGE_SIZE \<longleftrightarrow> page_of x = page_of a"
proof -
  have a0: "unat a mod 4096 = 0" using assms by (simp add: aligned_unat)
  then obtain k where k: "unat a = 4096 * k" by (auto simp: mod_eq_0_iff_dvd dvd_def)
  have b: "unat a + 4096 \<le> 4294967296" using a0 by (intro page_base_bound) simp_all
  have "x - a < PAGE_SIZE \<longleftrightarrow> unat a \<le> unat x \<and> unat x - unat a < 4096"
    using b unat_u32_less [of x] by (auto simp: PAGE_SIZE_def word_less_nat_alt unat_sub_if')
  also have "\<dots> \<longleftrightarrow> unat x div 4096 = k"
    unfolding k by (auto simp: div_nat_eqI less_diff_conv2 div_times_less_eq_dividend
        dividend_less_div_times)
  also have "\<dots> \<longleftrightarrow> page_of x = page_of a" by (simp add: page_of_iff k)
  finally show ?thesis .
qed

lemma vmem_clear_page:
  "aligned a \<Longrightarrow> vmem (clear_page a s) x = (if page_of x = page_of a then 0 else vmem s x)"
  by (simp add: clear_page_def same_page)

text \<open>The pages a directory occupies with its tables, and the frame rule for them.\<close>

definition table_pages :: "'z vm_scheme \<Rightarrow> ptr \<Rightarrow> u32 set" where
  "table_pages s dir = insert (page_of dir)
     {entry_frame (vmem s (pde_at dir i)) | i. i < 1024 \<and> entry_present (vmem s (pde_at dir i))}"

lemma page_of_frame: "p < 0x100000 \<Longrightarrow> page_of (p * PAGE_SIZE) = p"
proof -
  assume "p < 0x100000"
  then have "unat (p * PAGE_SIZE) = unat p * 4096"
    by (simp add: PAGE_SIZE_def word_less_nat_alt unat_word_ariths)
  then show ?thesis by (simp only: page_of_def drop_bit_eq_div word_unat_eq_iff unat_div) simp
qed

lemma entry_frame_less: "entry_frame v < 0x100000"
  using page_of_less [of v] by (simp add: entry_frame_def page_of_def)

lemma page_of_table: "page_of (table_of pde) = entry_frame pde"
  by (simp add: table_of_def page_of_frame entry_frame_less)

lemma page_of_pde: "aligned dir \<Longrightarrow> i < 1024 \<Longrightarrow> page_of (pde_at dir i) = page_of dir"
  by (simp add: page_of_iff pde_at_def entry_addr_div)

lemma page_of_pte: "page_of (pte_loc s dir p) = entry_frame (vmem s (pde_at dir (drop_bit 10 p)))"
proof -
  have "page_of (pte_loc s dir p) = page_of (table_of (vmem s (pde_at dir (drop_bit 10 p))))"
    using entry_addr_div [OF aligned_table_of page_index_less(2)] by (simp only: page_of_iff pte_loc_def)
  then show ?thesis by (simp add: page_of_table)
qed

lemma table_pages_cong:
  assumes "\<And>i. i < 1024 \<Longrightarrow> vmem s' (pde_at dir i) = vmem s (pde_at dir i)"
  shows "table_pages s' dir = table_pages s dir"
proof -
  have "(\<exists>i. f = entry_frame (vmem s' (pde_at dir i)) \<and> i < 1024 \<and> entry_present (vmem s' (pde_at dir i))) \<longleftrightarrow>
    (\<exists>i. f = entry_frame (vmem s (pde_at dir i)) \<and> i < 1024 \<and> entry_present (vmem s (pde_at dir i)))" for f
    using assms by metis
  then show ?thesis by (simp add: table_pages_def)
qed

lemma tables_frame:
  assumes ok: "dir_ok s dir" and same: "\<And>x. page_of x \<in> table_pages s dir \<Longrightarrow> vmem s' x = vmem s x"
  shows "dir_ok s' dir" "mapping s' dir = mapping s dir" "table_pages s' dir = table_pages s dir"
    "\<And>q. q < 0x100000 \<Longrightarrow> table_present s' dir q = table_present s dir q"
proof -
  have al: "aligned dir" using ok by (simp add: dir_ok_def)
  have pde: "vmem s' (pde_at dir i) = vmem s (pde_at dir i)" if "i < 1024" for i
    using same [of "pde_at dir i"] page_of_pde [OF al that] by (simp add: table_pages_def)
  show "dir_ok s' dir" using ok by (simp add: dir_ok_def pde)
  show "table_pages s' dir = table_pages s dir"
    by (rule table_pages_cong) (rule pde)
  show tp: "table_present s' dir q = table_present s dir q" if "q < 0x100000" for q
    using page_index_less(1) [OF that] by (simp add: table_present_def pde)
  show "mapping s' dir = mapping s dir"
  proof
    fix p
    show "mapping s' dir p = mapping s dir p"
    proof (cases "p < 0x100000 \<and> table_present s dir p")
      case True
      then have lt: "drop_bit 10 p < 1024" using page_index_less(1) by blast
      then have "pte_loc s' dir p = pte_loc s dir p" by (simp add: pte_loc_def pde)
      moreover have "page_of (pte_loc s dir p) \<in> table_pages s dir"
        using True lt unfolding page_of_pte table_pages_def table_present_def by blast
      ultimately show ?thesis using True same tp by (simp add: mapping_def)
    next
      case False
      then show ?thesis using tp by (auto simp: mapping_def)
    qed
  qed
qed

lemma clear_page_tables:
  assumes "dir_ok s dir" "aligned a" "page_of a \<notin> table_pages s dir"
  shows "dir_ok (clear_page a s) dir" "mapping (clear_page a s) dir = mapping s dir"
    "table_pages (clear_page a s) dir = table_pages s dir"
proof -
  have "vmem (clear_page a s) x = vmem s x" if "page_of x \<in> table_pages s dir" for x
    using that assms(3) by (auto simp: vmem_clear_page [OF assms(2)])
  from tables_frame [OF assms(1) this]
  show "dir_ok (clear_page a s) dir" "mapping (clear_page a s) dir = mapping s dir"
    "table_pages (clear_page a s) dir = table_pages s dir" by blast+
qed

lemma page_of_mult_aligned: "aligned a \<Longrightarrow> page_of a * PAGE_SIZE = a"
proof -
  assume "aligned a"
  then have "unat a mod 4096 = 0" by (simp add: aligned_unat)
  then have "unat a div 4096 * 4096 = unat a" by (metis add.right_neutral div_mult_mod_eq)
  then show ?thesis
    by (simp add: page_of_def PAGE_SIZE_def drop_bit_eq_div word_unat_eq_iff unat_word_ariths unat_div
        mod_mult_left_eq)
qed

lemma aligned_low_zero: "aligned a \<Longrightarrow> a AND 0xfff = 0"
proof -
  assume "aligned a"
  moreover have "a AND 0xfff = take_bit 12 a" by (simp add: take_bit_eq_mask mask_eq_exp_minus_1)
  ultimately show ?thesis by (simp add: aligned_def PAGE_SIZE_def take_bit_eq_mod)
qed

lemma virt2phys_identity:
  assumes "mapping s dir (page_of a) = Some (page_of a, w, u)" "aligned a"
  shows "virt2phys s dir a = a"
  using virt2phys_mapping [OF assms(1)] assms(2) by (simp add: page_of_mult_aligned aligned_low_zero)

lemma clear_identity:
  assumes "dir_ok s dir"
    and "\<forall>i \<in> set is. aligned (a + i * PAGE_SIZE) \<and> page_of (a + i * PAGE_SIZE) \<notin> table_pages s dir \<and>
      mapping s dir (page_of (a + i * PAGE_SIZE)) = Some (page_of (a + i * PAGE_SIZE), w, u)"
  shows "\<exists>s'. foldM (clear_virt_page dir a) is s = Some s' \<and> dir_ok s' dir \<and>
    mapping s' dir = mapping s dir \<and> phys.truncate s' = phys.truncate s \<and>
    (\<forall>x. vmem s' x = (if page_of x \<in> (\<lambda>i. page_of (a + i * PAGE_SIZE)) ` set is then 0 else vmem s x))"
  using assms
proof (induction "is" arbitrary: s)
  case (Cons i "is")
  let ?a = "a + i * PAGE_SIZE" and ?s1 = "clear_page (a + i * PAGE_SIZE) s"
  have i: "aligned ?a" "page_of ?a \<notin> table_pages s dir" "mapping s dir (page_of ?a) = Some (page_of ?a, w, u)"
    using Cons.prems(2) by simp_all
  have step: "clear_virt_page dir a i s = Some ?s1"
    using i(3) virt2phys_identity [OF i(3,1)] by (simp add: clear_virt_page_def page_ispresent_mapping)
  note c = clear_page_tables [OF Cons.prems(1) i(1,2)]
  have "\<forall>j \<in> set is. aligned (a + j * PAGE_SIZE) \<and> page_of (a + j * PAGE_SIZE) \<notin> table_pages ?s1 dir \<and>
      mapping ?s1 dir (page_of (a + j * PAGE_SIZE)) = Some (page_of (a + j * PAGE_SIZE), w, u)"
    using Cons.prems(2) by (simp add: c(2,3))
  from Cons.IH [OF c(1) this] obtain s' where s': "foldM (clear_virt_page dir a) is ?s1 = Some s'"
    "dir_ok s' dir" "mapping s' dir = mapping ?s1 dir" "phys.truncate s' = phys.truncate ?s1"
    "\<forall>x. vmem s' x = (if page_of x \<in> (\<lambda>i. page_of (a + i * PAGE_SIZE)) ` set is then 0 else vmem ?s1 x)"
    by blast
  have "phys.truncate ?s1 = phys.truncate s" by (simp add: clear_page_def phys.defs)
  then show ?case
    using s' step c(2) by (auto simp: vmem_clear_page [OF i(1)])
qed simp

lemma used_frames_truncate: "phys.truncate s' = phys.truncate s \<Longrightarrow> used_frames s' = used_frames s"
  by (auto simp: used_frames_def frame_used_def phys.defs)

lemma dir_ok_setused [simp]:
  "dir_ok (phys_setused s a n) dir \<longleftrightarrow> dir_ok s dir" "mapping (phys_setused s a n) dir = mapping s dir"
  "table_pages (phys_setused s a n) dir = table_pages s dir"
  "table_present (phys_setused s a n) dir q \<longleftrightarrow> table_present s dir q"
  "vmem (phys_setused s a n) = vmem s"
proof -
  have "vmem (fold (setused_step a) is s) = vmem s" for "is"
    by (induction "is" arbitrary: s) (simp_all add: setused_step_def PHYSICAL_SET_USED_def)
  then show v: "vmem (phys_setused s a n) = vmem s" by (simp add: phys_setused_def)
  show "dir_ok (phys_setused s a n) dir \<longleftrightarrow> dir_ok s dir" "mapping (phys_setused s a n) dir = mapping s dir"
    "table_pages (phys_setused s a n) dir = table_pages s dir"
    "table_present (phys_setused s a n) dir q \<longleftrightarrow> table_present s dir q"
    by (simp_all add: dir_ok_def mapping_def table_pages_def table_present_def pte_loc_def fun_eq_iff v)
qed

lemma phys_isused_one: "phys_isused s addr 1 \<longleftrightarrow> page_of addr \<in> used_frames s"
  by (auto simp: phys_isused_iff frames_def frame_of_page word_less_1 intro: exI [of _ 0])

lemma page_of_number: "j < 0x100000 \<Longrightarrow> unat (page_of (of_nat j * PAGE_SIZE)) = j"
    "j < 0x100000 \<Longrightarrow> page_of (of_nat j * PAGE_SIZE) = of_nat j" "aligned (of_nat j * PAGE_SIZE)"
proof -
  show "aligned (of_nat j * PAGE_SIZE)"
    using aligned_table_of [of "of_nat j * PAGE_SIZE"]
    by (simp add: aligned_unat PAGE_SIZE_def unat_word_ariths mod_mod_cancel)
  assume j: "j < 0x100000"
  then have "(of_nat j :: u32) < 0x100000"
    by (simp add: word_less_nat_alt unat_of_nat_small)
  then show "page_of (of_nat j * PAGE_SIZE) = of_nat j" by (rule page_of_frame)
  then show "unat (page_of (of_nat j * PAGE_SIZE)) = j" using j by (simp add: unat_of_nat_small)
qed

text \<open>
  Allocation of identity-mapped kernel pages, when the kernel's page tables are present and
  marked used: it always returns; it answers 0 and changes nothing when no run of pages is
  free, and otherwise the pages were free and unmapped, become used and mapped to themselves,
  read as zero, and everything else is as before.
\<close>

lemma mem_allocident_kernel:
  assumes ok: "dir_ok s dir" and used: "table_pages s dir \<subseteq> used_frames s"
    and tables: "\<forall>p < 0x40000. table_present s dir p" and count: "0 < count"
  obtains (none) "mem_allocident (Suc (Suc n)) s dir count w 0 = Some (0, s)"
    | (run) a s' where "mem_allocident (Suc (Suc n)) s dir count w 0 = Some (a, s')"
      "aligned a" "unat a + unat count * 4096 \<le> 0x40000000"
      "frames a count \<inter> used_frames s = {}" "used_frames s' = used_frames s \<union> frames a count"
      "dir_ok s' dir"
      "\<And>i. i < count \<Longrightarrow> mapping s dir (page_of (a + i * PAGE_SIZE)) = None \<and>
        mapping s' dir (page_of (a + i * PAGE_SIZE)) = Some (page_of (a + i * PAGE_SIZE), odd w, False)"
      "\<And>p. p \<notin> frames a count \<Longrightarrow> mapping s' dir p = mapping s dir p"
      "\<And>x. page_of x \<in> frames a count \<Longrightarrow> vmem s' x = 0"
proof -
  define free where "free addr \<longleftrightarrow> \<not> (page_ispresent s dir addr \<or> phys_isused s addr 1)" for addr
  show ?thesis
  proof (cases "find_run free count 0x40000 0 0 0")
    case None
    then have "mem_allocident (Suc (Suc n)) s dir count w 0 = Some (0, s)"
      using count by (simp add: free_def [abs_def])
    then show ?thesis by (rule none)
  next
    case (Some a)
    from count have cn: "count \<noteq> 0" by auto
    from count have c0: "0 < unat count" by (simp add: word_less_nat_alt)
    have fr: "find_run free count 0x40000 (of_nat 0) (of_nat 0) 0 = Some a" using Some by simp
    obtain j where j: "a = of_nat j * PAGE_SIZE" "j + unat count \<le> 0x40000"
      "\<forall>k < unat count. free (of_nat (j + k) * PAGE_SIZE)"
      using find_run_sound [OF fr _ _ c0] by auto
    have page: "a + i * PAGE_SIZE = of_nat (j + unat i) * PAGE_SIZE" for i
      by (simp add: j(1) distrib_right)
    have lt: "j + unat i < 0x40000" if "i < count" for i
      using that j(2) by (simp add: word_less_nat_alt)
    have pg: "page_of (a + i * PAGE_SIZE) = of_nat (j + unat i)" "aligned (a + i * PAGE_SIZE)"
      "page_of (a + i * PAGE_SIZE) < 0x40000" "page_of (a + i * PAGE_SIZE) \<notin> used_frames s"
      "mapping s dir (page_of (a + i * PAGE_SIZE)) = None" if "i < count" for i
    proof -
      have l: "j + unat i < 0x100000" using lt [OF that] by simp
      show p: "page_of (a + i * PAGE_SIZE) = of_nat (j + unat i)"
        unfolding page using page_of_number(2) [OF l] .
      show "aligned (a + i * PAGE_SIZE)" unfolding page by (rule page_of_number(3))
      show "page_of (a + i * PAGE_SIZE) < 0x40000"
        using lt [OF that] unfolding p by (simp add: word_less_nat_alt unat_of_nat_small del: of_nat_add)
      have "free (a + i * PAGE_SIZE)"
        unfolding page using j(3) that by (simp add: word_less_nat_alt del: of_nat_add)
      then show "page_of (a + i * PAGE_SIZE) \<notin> used_frames s"
        "mapping s dir (page_of (a + i * PAGE_SIZE)) = None"
        by (simp_all add: free_def phys_isused_one page_ispresent_mapping del: not_None_eq)
    qed
    have frames: "frames a count = (\<lambda>i. page_of (a + i * PAGE_SIZE)) ` set (upto_u32 count)"
      by (simp add: frames_set frame_of_page)
    let ?s1 = "phys_setused s a count"
    have ok1: "dir_ok ?s1 dir" using ok by simp
    have "\<forall>i < count. table_present ?s1 dir (page_of (a + i * PAGE_SIZE))"
      using tables pg(3) by simp
    from virt_map_present [OF ok1 this, of n a w 0] obtain s2 where
      s2: "virt_map (Suc n) ?s1 dir a a count w 0 = Some (0, s2)" "dir_ok s2 dir"
      "mapping s2 dir = map_pages a a w 0 (upto_u32 count) (mapping ?s1 dir)"
      "phys.truncate s2 = phys.truncate ?s1"
      "\<And>j. j < 1024 \<Longrightarrow> vmem s2 (pde_at dir j) = vmem ?s1 (pde_at dir j)" by blast
    have tp2: "table_pages s2 dir = table_pages s dir"
      using table_pages_cong [of s2 dir s] s2(5) by simp
    have inj: "j' = i" if "j' < count" "i < count" "page_of (a + j' * PAGE_SIZE) = page_of (a + i * PAGE_SIZE)" for i j'
    proof -
      have "(of_nat (j + unat j') :: u32) = of_nat (j + unat i)" using that pg(1) by metis
      then show ?thesis
        using of_nat_u32_inj lt [OF that(1)] lt [OF that(2)] by (simp add: word_unat_eq_iff del: of_nat_add)
    qed
    have new: "mapping s2 dir (page_of (a + i * PAGE_SIZE)) = Some (page_of (a + i * PAGE_SIZE), odd w, False)"
      if "i < count" for i
      unfolding s2(3) using map_pages_in [of i "upto_u32 count" a a w 0] that inj by simp
    have "\<forall>i \<in> set (upto_u32 count). aligned (a + i * PAGE_SIZE) \<and>
        page_of (a + i * PAGE_SIZE) \<notin> table_pages s2 dir \<and>
        mapping s2 dir (page_of (a + i * PAGE_SIZE)) = Some (page_of (a + i * PAGE_SIZE), odd w, False)"
      using pg used new tp2 by auto
    from clear_identity [OF s2(2) this] obtain s' where s': "clear_virt dir a count s2 = Some s'"
      "dir_ok s' dir" "mapping s' dir = mapping s2 dir" "phys.truncate s' = phys.truncate s2"
      "\<forall>x. vmem s' x = (if page_of x \<in> frames a count then 0 else vmem s2 x)"
      unfolding clear_virt_def frames by blast
    have ret: "mem_allocident (Suc (Suc n)) s dir count w 0 = Some (a, s')"
      using Some cn s2(1) s'(1) by (simp add: free_def [abs_def])
    show ?thesis
    proof (rule run [OF ret])
      show "aligned a" unfolding j(1) by (rule page_of_number(3))
      have "unat a = j * 4096"
        using j(2) c0 by (simp add: j(1) PAGE_SIZE_def unat_word_ariths unat_of_nat_small)
      then show "unat a + unat count * 4096 \<le> 0x40000000" using j(2) by simp
      show "frames a count \<inter> used_frames s = {}" using pg(4) by (auto simp: frames)
      show "used_frames s' = used_frames s \<union> frames a count"
        using used_frames_truncate [of s' ?s1] s'(4) s2(4) by (simp add: phys_setused_frames)
      show "dir_ok s' dir" by (rule s'(2))
      show "mapping s dir (page_of (a + i * PAGE_SIZE)) = None \<and>
        mapping s' dir (page_of (a + i * PAGE_SIZE)) = Some (page_of (a + i * PAGE_SIZE), odd w, False)"
        if "i < count" for i using pg(5) [OF that] new [OF that] s'(3) by simp
      show "mapping s' dir p = mapping s dir p" if "p \<notin> frames a count" for p
        using that map_pages_other [of p a "upto_u32 count" a w 0] s'(3) s2(3) unfolding frames by simp
      show "vmem s' x = 0" if "page_of x \<in> frames a count" for x using s'(5) that by simp
    qed
  qed
qed

subsection \<open>The kernel's entries\<close>

lemma pde_at_inj: "aligned dir \<Longrightarrow> i < 1024 \<Longrightarrow> j < 1024 \<Longrightarrow> pde_at dir i = pde_at dir j \<longleftrightarrow> i = j"
  using entry_addr_inj [of dir dir i j] unfolding pde_at_def by blast

definition kernel_entry :: "'z vm_scheme \<Rightarrow> u32 \<Rightarrow> u32 \<Rightarrow> bool" where
  "kernel_entry s i v \<longleftrightarrow> entry_present v \<and> entry_write v \<and> \<not> entry_user v \<and>
     entry_frame v = take_bit 20 ((krnl_pgtbl s + i * PAGE_SIZE) div PAGE_SIZE)"

lemma fold_kernel_entries:
  assumes "aligned dir" "\<forall>i \<in> set is. i < 1024" "distinct is" "i < 1024"
  shows "krnl_pgtbl (fold (set_kernel_entry dir) is s) = krnl_pgtbl s \<and>
    (if i \<in> set is then kernel_entry s i (vmem (fold (set_kernel_entry dir) is s) (pde_at dir i))
     else vmem (fold (set_kernel_entry dir) is s) (pde_at dir i) = vmem s (pde_at dir i))"
  using assms(2,3)
proof (induction "is" arbitrary: s)
  case (Cons k ks)
  let ?s1 = "set_kernel_entry dir k s"
  have k: "k < 1024" using Cons.prems(1) by simp
  have one: "krnl_pgtbl ?s1 = krnl_pgtbl s" "kernel_entry s k (vmem ?s1 (pde_at dir k))"
    by (simp_all add: set_kernel_entry_def set_word_def kernel_entry_def entry_put_frame
        entry_present_put_bit Let_def)
  have other: "vmem ?s1 (pde_at dir i) = vmem s (pde_at dir i)" if "i \<noteq> k"
    using that pde_at_inj [OF assms(1,4) k] by (simp add: set_kernel_entry_def set_word_def Let_def)
  have "kernel_entry ?s1 i v = kernel_entry s i v" for v by (simp add: kernel_entry_def one(1))
  then show ?case using Cons.IH [of ?s1] Cons.prems one other by (auto split: if_splits)
qed simp

text \<open>The 256 kernel entries of a directory point to the kernel's tables; the others stay as they were.\<close>

lemma set_kernel_entries_read:
  assumes "aligned dir"
  shows "i < 256 \<Longrightarrow> kernel_entry s i (vmem (set_kernel_entries dir s) (pde_at dir i))"
    and "256 \<le> i \<Longrightarrow> i < 1024 \<Longrightarrow> vmem (set_kernel_entries dir s) (pde_at dir i) = vmem s (pde_at dir i)"
proof -
  have lt: "\<forall>i \<in> set (upto_u32 256). i < 1024" by (auto intro: less_trans)
  note f = fold_kernel_entries [OF assms lt distinct_upto_u32, of i s]
  show "i < 256 \<Longrightarrow> kernel_entry s i (vmem (set_kernel_entries dir s) (pde_at dir i))"
    using f less_trans [of i 256 1024] by (simp add: set_kernel_entries_def)
  show "256 \<le> i \<Longrightarrow> i < 1024 \<Longrightarrow> vmem (set_kernel_entries dir s) (pde_at dir i) = vmem s (pde_at dir i)"
    using f by (simp add: set_kernel_entries_def not_less [symmetric])
qed

text \<open>
  A missing page table is not installed: the entry written for it holds the frame of the page
  the directory itself lies in, not of the table that was allocated and filled.
\<close>

lemma map_step_missing_table:
  assumes "aligned dir" "\<not> entry_present (vmem s (pde_at dir (PD_INDEX (vaddr + i * PAGE_SIZE))))"
    and "alloc s = Some (pt, s1)" "aligned pt" "pt \<noteq> dir"
  obtains s' where "map_step alloc dir vaddr paddr w u i s = Some s'"
    "entry_present (vmem s' (pde_at dir (PD_INDEX (vaddr + i * PAGE_SIZE))))"
    "table_of (vmem s' (pde_at dir (PD_INDEX (vaddr + i * PAGE_SIZE)))) = dir"
proof -
  let ?va = "vaddr + i * PAGE_SIZE"
  let ?pde = "pde_at dir (PD_INDEX ?va)"
  let ?s2 = "set_word ?pde (put_entry w u (drop_bit 12 ?pde) (vmem s1 ?pde)) s1"
  let ?s' = "set_word (pt + 4 * PT_INDEX ?va) (put_entry w u (drop_bit 12 (paddr + i * PAGE_SIZE))
    (vmem ?s2 (pt + 4 * PT_INDEX ?va))) ?s2"
  have lt: "PD_INDEX ?va < 1024" "PT_INDEX ?va < 1024"
    unfolding PD_PT_page by (rule page_index_less(1) [OF page_of_less]) (rule page_index_less(2))
  have step: "map_step alloc dir vaddr paddr w u i s = Some ?s'"
    using assms(2,3) by (simp add: map_step_def Let_def)
  have "?pde \<noteq> pt + 4 * PT_INDEX ?va"
    using entry_addr_inj [OF assms(1,4) lt] assms(5) by (simp add: pde_at_def)
  then have v: "vmem ?s' ?pde = put_entry w u (drop_bit 12 ?pde) (vmem s1 ?pde)"
    by (simp add: set_word_def)
  have "take_bit 20 (drop_bit 12 ?pde) = page_of ?pde"
    using page_of_less [of ?pde] by (simp add: page_of_def take_bit_small_self word_less_nat_alt)
  also have "page_of ?pde = page_of dir" by (rule page_of_pde [OF assms(1) lt(1)])
  finally have "table_of (vmem ?s' ?pde) = dir"
    by (simp add: v table_of_def page_of_mult_aligned [OF assms(1)])
  with that [OF step] v show ?thesis by simp
qed

subsection \<open>A kernel address space\<close>

text \<open>
  The directory at \<open>0x100000\<close> with the 256 page tables of the kernel's gigabyte behind it, all
  empty, and the first 1024 frames in use: the state the witnesses below are evaluated on.
\<close>

definition kernel_vm_at_boot :: vm where
  "kernel_vm_at_boot = \<lparr>used_mem = 0x400000, total_mem = 0x8000000,
     mem_bits = (\<lambda>k. if unat k < 128 then 0xFF else 0),
     vmem = (\<lambda>x. if 0x100000 \<le> unat x \<and> unat x < 0x100400
       then of_nat (((unat x - 0x100000) div 4 + 0x101) * 4096 + 1) else 0),
     krnl_pgdir = 0x100000, krnl_pgtbl = 0x101000, page_dir_reg = 0x100000, paging_on = True\<rparr>"

lemma boot_pde:
  assumes "i < 1024"
  shows "vmem kernel_vm_at_boot (pde_at 0x100000 i) =
    (if i < 256 then of_nat ((unat i + 0x101) * 4096 + 1) else 0)"
proof -
  have "unat ((0x100000 :: u32) + 4 * i) = 0x100000 + 4 * unat i"
    using unat_entry_addr [of "0x100000" i] assms by (simp add: aligned_unat)
  then show ?thesis by (simp add: kernel_vm_at_boot_def pde_at_def word_less_nat_alt)
qed

lemma boot_frame:
  assumes "k < 256"
  shows "entry_present (of_nat ((k + 0x101) * 4096 + 1))" "entry_frame (of_nat ((k + 0x101) * 4096 + 1)) = of_nat (k + 0x101)"
proof -
  have n: "(k + 0x101) * 4096 + 1 < 4294967296" using assms by simp
  show "entry_present (of_nat ((k + 0x101) * 4096 + 1))"
  proof -
    have "bit (unat (of_nat ((k + 0x101) * 4096 + 1) :: u32)) 0"
      by (simp only: unat_of_nat_small [OF n]) (simp add: bit_0)
    then show ?thesis by (simp only: entry_present_def bit_unsigned_iff)
  qed
  have "unat (entry_frame (of_nat ((k + 0x101) * 4096 + 1))) = k + 0x101"
    unfolding entry_frame_def unat_drop_bit_eq unat_of_nat_small [OF n] by (simp add: drop_bit_eq_div)
  also have "\<dots> = unat (of_nat (k + 0x101) :: u32)"
    using assms by (intro unat_of_nat_small [symmetric]) simp
  finally show "entry_frame (of_nat ((k + 0x101) * 4096 + 1)) = of_nat (k + 0x101)"
    by (simp only: word_unat_eq_iff)
qed

lemma boot_present: "i < 1024 \<Longrightarrow> entry_present (vmem kernel_vm_at_boot (pde_at 0x100000 i)) \<longleftrightarrow> i < 256"
  using boot_frame(1) [of "unat i"] by (simp add: boot_pde word_less_nat_alt del: of_nat_add of_nat_mult)

lemma boot_table:
  assumes "i < 256"
  shows "entry_frame (vmem kernel_vm_at_boot (pde_at 0x100000 i)) = i + 0x101"
proof -
  have "i < 1024" using assms by (rule less_trans) simp
  then show ?thesis
    using boot_frame(2) [of "unat i"] assms by (simp add: boot_pde word_less_nat_alt)
qed

lemma boot_dir_ok: "dir_ok kernel_vm_at_boot 0x100000"
proof -
  have t: "unat (table_of (vmem kernel_vm_at_boot (pde_at 0x100000 i))) = (unat i + 0x101) * 4096" if "i < 256" for i
  proof -
    have i: "unat i < 256" using that by (simp add: word_less_nat_alt)
    then have "unat (i + 0x101) = unat i + 0x101" by (simp add: unat_word_ariths)
    then show ?thesis using i by (simp add: table_of_def boot_table [OF that] PAGE_SIZE_def unat_word_ariths)
  qed
  show ?thesis
    unfolding dir_ok_def
  proof (intro conjI allI impI)
    show "aligned 0x100000" by (simp add: aligned_unat)
  next
    fix i :: u32 assume "i < 1024" "entry_present (vmem kernel_vm_at_boot (pde_at 0x100000 i))"
    then have "i < 256" by (simp add: boot_present)
    then show "table_of (vmem kernel_vm_at_boot (pde_at 0x100000 i)) \<noteq> 0x100000"
      using t [of i] by (intro notI) simp
  next
    fix i j :: u32
    assume "i < 1024" "j < 1024" "i \<noteq> j" "entry_present (vmem kernel_vm_at_boot (pde_at 0x100000 i))"
      "entry_present (vmem kernel_vm_at_boot (pde_at 0x100000 j))"
    then have "i < 256" "j < 256" "unat i \<noteq> unat j" by (simp_all add: boot_present word_unat_eq_iff)
    then show "table_of (vmem kernel_vm_at_boot (pde_at 0x100000 i)) \<noteq> table_of (vmem kernel_vm_at_boot (pde_at 0x100000 j))"
      using t [of i] t [of j] by (intro notI) simp
  qed
qed

lemma boot_tables: "p < 0x40000 \<Longrightarrow> table_present kernel_vm_at_boot 0x100000 p"
proof -
  assume "p < 0x40000"
  then have p: "unat p < 0x40000" by (simp add: word_less_nat_alt)
  have "unat (drop_bit 10 p) = unat p div 1024" by (simp only: unat_drop_bit_eq drop_bit_eq_div) (simp add: unat_div)
  then have "drop_bit 10 p < 1024" "drop_bit 10 p < 256" using p by (simp_all add: word_less_nat_alt)
  then show ?thesis by (simp add: table_present_def boot_present)
qed

lemma boot_used: "f < 0x400 \<Longrightarrow> f \<in> used_frames kernel_vm_at_boot"
proof -
  assume "f < 0x400"
  then have f: "unat f < 0x400" by (simp add: word_less_nat_alt)
  then have "unat (f div 8) < 128" by (simp add: unat_div)
  then have "mem_bits kernel_vm_at_boot (f div 8) = mask 8" by (simp add: kernel_vm_at_boot_def mask_eq_exp_minus_1)
  then have "frame_used kernel_vm_at_boot f" using mod8_less [of f] by (simp only: frame_used_def bit_mask_iff) simp
  then show ?thesis using f by (simp add: used_frames_def word_less_nat_alt)
qed

lemma boot_table_pages: "table_pages kernel_vm_at_boot 0x100000 \<subseteq> used_frames kernel_vm_at_boot"
proof
  fix f assume "f \<in> table_pages kernel_vm_at_boot 0x100000"
  then consider "f = page_of 0x100000" | i where "f = i + 0x101" "i < 256"
    unfolding table_pages_def using boot_present boot_table by fastforce
  then have "f < 0x400"
  proof cases
    case 1
    then show ?thesis by (simp add: page_of_def)
  next
    case 2
    then show ?thesis by (simp add: word_less_nat_alt unat_word_ariths)
  qed
  then show "f \<in> used_frames kernel_vm_at_boot" by (rule boot_used)
qed

subsection \<open>Properties\<close>


lemma boot_range:
  "unat i < 16 \<Longrightarrow> page_of (0x3FC00000 + i * PAGE_SIZE) < 0x40000"
  by (simp add: page_of_def PAGE_SIZE_def word_less_nat_alt unat_drop_bit_eq drop_bit_eq_div unat_word_ariths unat_div)


text \<open>\<open>virt_unmap\<close> takes away exactly the mappings of its range: afterwards no page of the range is
  present and every other page maps to what it did.\<close>

theorem unmap_removes:
  assumes "dir_ok s dir" "\<forall>i < count. table_present s dir (page_of (vaddr + i * PAGE_SIZE))"
  shows "mapping (virt_unmap s dir vaddr count) dir p =
      (if p \<in> (\<lambda>i. page_of (vaddr + i * PAGE_SIZE)) ` {i. i < count} then None else mapping s dir p)"
  by (rule virt_unmap_present(2) [OF assms])

theorem unmap_removes_witness:
  "mapping (virt_unmap kernel_vm_at_boot 0x100000 0x3FC00000 4) 0x100000 0x3FC01 = None"
proof -
  have "\<forall>i < 4. table_present kernel_vm_at_boot 0x100000 (page_of (0x3FC00000 + i * PAGE_SIZE))"
    using boot_range by (auto intro!: boot_tables simp: word_less_nat_alt)
  from unmap_removes [OF boot_dir_ok this, of "0x3FC01"]
  have "0x3FC01 \<in> (\<lambda>i. page_of (0x3FC00000 + i * PAGE_SIZE)) ` {i. i < 4} \<Longrightarrow> ?thesis" by simp
  moreover have "0x3FC01 \<in> (\<lambda>i. page_of (0x3FC00000 + i * PAGE_SIZE)) ` {i. i < 4}"
    by (rule image_eqI [of _ _ 1]) (simp_all add: page_of_def PAGE_SIZE_def)
  ultimately show ?thesis by blast
qed

text \<open>A page table that is missing is not installed. When the directory entry of the address to be mapped is
  not present, \<open>virt_map\<close> allocates a table and fills the page's entry in it, but writes into the directory
  entry the frame of the entry itself: the directory then names itself as the table of that
  region.\<close>

theorem map_missing_table_self:
  assumes "aligned dir" "\<not> entry_present (vmem s (pde_at dir (PD_INDEX (vaddr + i * PAGE_SIZE))))"
    and "alloc s = Some (pt, s1)" "aligned pt" "pt \<noteq> dir"
  shows "\<exists>s'. map_step alloc dir vaddr paddr w u i s = Some s' \<and>
    entry_present (vmem s' (pde_at dir (PD_INDEX (vaddr + i * PAGE_SIZE)))) \<and>
    table_of (vmem s' (pde_at dir (PD_INDEX (vaddr + i * PAGE_SIZE)))) = dir"
  by (rule map_step_missing_table [where alloc = alloc and s = s and pt = pt and ?s1.0 = s1 and vaddr = vaddr and i = i,
      OF assms, of paddr w u]) blast

theorem map_missing_table_self_witness:
  "\<exists>s'. map_step (\<lambda>s. Some (0x500000, s)) 0x100000 0x80000000 0x800000 1 0 0 kernel_vm_at_boot = Some s' \<and>
    table_of (vmem s' (pde_at 0x100000 512)) = 0x100000"
proof -
  have pd: "PD_INDEX 0x80000000 = 512" by (simp add: PD_INDEX_def)
  have "\<not> entry_present (vmem kernel_vm_at_boot (pde_at 0x100000 512))" by (simp add: boot_present)
  then show ?thesis
    using map_missing_table_self [of "0x100000" kernel_vm_at_boot "0x80000000" 0 "\<lambda>s. Some (0x500000, s)" "0x500000"
        kernel_vm_at_boot "0x800000" 1 0]
    by (auto simp: pd aligned_unat)
qed



end
