(* ===== verification/Proc.thy ===== *)
theory Proc
  imports Initrd VirtMem
begin

text \<open>
  Processes, signals and the scheduler: \<^verbatim>\<open>newland/arch/x86/src/proc.c\<close> and \<^verbatim>\<open>fpu.c\<close>, with
  \<^verbatim>\<open>newland/arch/x86/include/newland/arch/proc.h\<close>.

  The process table is a list of \<open>proc_t\<close> in a heap; the paging state is the field
  \<open>kernel_vm\<close>; process stacks lie in the byte memory \<open>fs_mem\<close>. \<open>kfree\<close> comes from the
  allocator library and is a parameter: what matters is whether a freed structure can still be
  read, since \<open>proc_destroy\<close> and \<open>processes_cleanup\<close> do. \<open>regswitch\<close> stands for the
  assembly routine \<open>proc_regswitch\<close>. Interrupts are off inside these functions, so each is one
  step. \<open>pgdir_fuel\<close> is the fuel of the page-directory allocation.
\<close>

definition SCHED_RECCOUNT :: nat where "SCHED_RECCOUNT = 128"
definition PROC_STACKSIZE :: u32 where "PROC_STACKSIZE = 16384"
definition PROC_ZOMBIE :: u32 where "PROC_ZOMBIE = 0"
definition PROC_FINISHED :: u32 where "PROC_FINISHED = 1"
definition PROC_RUNNING :: u32 where "PROC_RUNNING = 2"
definition PROC_READY :: u32 where "PROC_READY = 3"

definition SIGFPE :: u8 where "SIGFPE = 1"
definition SIGKILL :: u8 where "SIGKILL = 2"
definition SIGSEGV :: u8 where "SIGSEGV = 3"
definition SIGSTKFLT :: u8 where "SIGSTKFLT = 4"
definition SIGILL :: u8 where "SIGILL = 5"

lemmas PROC_status_defs = PROC_ZOMBIE_def PROC_FINISHED_def PROC_RUNNING_def PROC_READY_def
lemmas SIG_defs = SIGFPE_def SIGKILL_def SIGSEGV_def SIGSTKFLT_def SIGILL_def

record proc_regs =
  r_eax :: u32
  r_ebx :: u32
  r_ecx :: u32
  r_edx :: u32
  r_esi :: u32
  r_edi :: u32
  r_esp :: u32
  r_ebp :: u32
  r_eip :: u32
  r_eflags :: u32
  r_cr3 :: u32

record proc =
  p_id :: u32
  p_name :: string
  p_cwd :: string
  p_tty :: string
  p_status :: u32
  p_exitval :: u32
  p_isuser :: bool
  p_issignaling :: bool
  p_signum :: u8
  p_regs :: proc_regs
  p_signal_handler :: u32
  p_fpu :: "u8 list"
  p_fd :: "fd list"
  p_gid :: u32
  p_uid :: u32
  p_parent :: u32
  p_child :: "u32 list"
  p_child_count :: u32

record proc_state = initrd_state +
  proc_heap :: "proc heap"
  processes :: ptr
  next_pid :: u32
  curr_pid :: u32
  proc_count :: u32
  ticks :: u32
  sched_rec :: "u32 list"
  errno_var :: u32
  fpu_regs :: "u8 list"
  fpu_hw :: "u8 list"
  kernel_vm :: vm

text \<open>What \<open>memset (proc, 0, sizeof (proc_t))\<close> leaves.\<close>

definition zero_fd :: fd where
  "zero_fd = \<lparr>fd_node = 0, fd_gid = 0, fd_uid = 0, fd_pid = 0, fd_offset = 0, fd_mode = 0\<rparr>"

definition zero_regs :: proc_regs where
  "zero_regs = \<lparr>r_eax = 0, r_ebx = 0, r_ecx = 0, r_edx = 0, r_esi = 0, r_edi = 0, r_esp = 0,
     r_ebp = 0, r_eip = 0, r_eflags = 0, r_cr3 = 0\<rparr>"

definition zero_proc :: proc where
  "zero_proc = \<lparr>p_id = 0, p_name = [], p_cwd = [], p_tty = [], p_status = 0, p_exitval = 0,
     p_isuser = False, p_issignaling = False, p_signum = 0, p_regs = zero_regs,
     p_signal_handler = 0, p_fpu = replicate 512 0, p_fd = replicate OPEN_MAX zero_fd,
     p_gid = 0, p_uid = 0, p_parent = 0, p_child = replicate CHILD_MAX 0, p_child_count = 0\<rparr>"

text \<open>
  Offsets of the members of \<open>proc_t\<close> whose address is taken: the stack follows the link, the
  id and the three names; the descriptors follow the FPU area.
\<close>

definition stack_of :: "ptr \<Rightarrow> ptr" where
  "stack_of proc = proc + 4488"

definition fd_slot :: "ptr \<Rightarrow> nat \<Rightarrow> ptr" where
  "fd_slot proc i = proc + 70596 + 24 * of_nat i"

subsection \<open>Looking processes up\<close>

definition process_count :: "'z proc_state_scheme \<Rightarrow> u32" where
  "process_count s = proc_count s"

definition process_get :: "'z proc_state_scheme \<Rightarrow> u32 \<Rightarrow> ptr option" where
  "process_get s i = slist_get (proc_heap s) (processes s) 0 i"

definition process_frompid :: "'z proc_state_scheme \<Rightarrow> u32 \<Rightarrow> ptr option" where
  "process_frompid s pid = slist_find (proc_heap s) (\<lambda>p. p_id p = pid) (processes s)"

definition process_curr :: "'z proc_state_scheme \<Rightarrow> ptr option" where
  "process_curr s =
     (if proc_count s = 0 then Some 0
      else if curr_pid s = 0 then Some 0
      else process_frompid s (curr_pid s))"

definition process_next :: "'z proc_state_scheme \<Rightarrow> ptr option" where
  "process_next s =
     (if proc_count s = 0 then Some 0
      else if curr_pid s = 0 then Some 0
      else do {
        curr_proc \<leftarrow> process_frompid s (curr_pid s);
        if curr_proc = 0 then Some (processes s)
        else do {
          n \<leftarrow> SLIST_NEXT (proc_heap s) curr_proc;
          if n \<noteq> 0 then Some n else Some (processes s)
        }
      })"

text \<open>Updating a field of a process through its pointer.\<close>

definition upd_proc :: "ptr \<Rightarrow> (proc \<Rightarrow> proc) \<Rightarrow> 'z proc_state_scheme \<Rightarrow> 'z proc_state_scheme option" where
  "upd_proc p f s = map_option (\<lambda>h. s\<lparr>proc_heap := h\<rparr>) (set_val (proc_heap s) p f)"

subsection \<open>The FPU context\<close>

definition fpu_savectx :: "ptr \<Rightarrow> 'z proc_state_scheme \<Rightarrow> 'z proc_state_scheme option" where
  "fpu_savectx proc s = upd_proc proc (\<lambda>p. p\<lparr>p_fpu := fpu_hw s\<rparr>) (s\<lparr>fpu_regs := fpu_hw s\<rparr>)"

definition fpu_loadctx :: "ptr \<Rightarrow> 'z proc_state_scheme \<Rightarrow> 'z proc_state_scheme option" where
  "fpu_loadctx proc s = (case deref (proc_heap s) proc of
      None \<Rightarrow> None
    | Some p \<Rightarrow> Some (s\<lparr>fpu_regs := p_fpu p, fpu_hw := p_fpu p\<rparr>))"

subsection \<open>Creating a process\<close>

text \<open>The index for the new child in its parent: a cleared slot, or one past the last.\<close>

definition free_child_slot :: "proc \<Rightarrow> nat option" where
  "free_child_slot p = find (\<lambda>i. p_child p ! i = 0) [0..<unat (p_child_count p)]"

definition child_slot :: "proc \<Rightarrow> (nat \<times> u32) option" where
  "child_slot p = (case free_child_slot p of
      Some i \<Rightarrow> Some (i, p_child_count p)
    | None \<Rightarrow>
        if p_child_count p + 1 > of_nat CHILD_MAX then None
        else Some (unat (p_child_count p), p_child_count p + 1))"

definition add_child :: "nat \<Rightarrow> u32 \<Rightarrow> u32 \<Rightarrow> proc \<Rightarrow> proc" where
  "add_child index cnt pid pp = pp\<lparr>p_child := (p_child pp)[index := pid], p_child_count := cnt\<rparr>"

definition pgdir_fuel :: nat where
  "pgdir_fuel = 4"

text \<open>
  The body of \<open>proc_create\<close> after the slot in the parent is settled; \<open>par\<close> is the parent's
  structure, or \<open>None\<close> for a process without a parent.
\<close>

definition init_proc :: "proc option \<Rightarrow> string \<Rightarrow> string \<Rightarrow> u32 \<Rightarrow> u32 \<Rightarrow> proc" where
  "init_proc par tty0 name isuser pid =
     (let p = zero_proc\<lparr>p_id := pid, p_name := strncpy_field 256 name, p_status := PROC_READY,
        p_isuser := odd isuser\<rparr>
      in case par of
        None \<Rightarrow> p\<lparr>p_cwd := ''/'', p_tty := strncpy_field NAME_MAX tty0\<rparr>
      | Some pp \<Rightarrow> p\<lparr>p_cwd := strncpy_field PATH_MAX (p_cwd pp), p_gid := p_gid pp, p_uid := p_uid pp,
          p_parent := p_id pp, p_tty := strncpy_field NAME_MAX (p_tty pp)\<rparr>)"

text \<open>Its last part: the FPU context is saved and the process enters the table.\<close>

definition link_proc :: "ptr \<Rightarrow> proc \<Rightarrow> 'z proc_state_scheme \<Rightarrow> 'z proc_state_scheme option" where
  "link_proc proc p s = do {
     s1 \<leftarrow> fpu_savectx proc (s\<lparr>proc_heap := (proc_heap s)(proc \<mapsto> Cell p 0)\<rparr>);
     (h, head) \<leftarrow> SLIST_INSERT_HEAD (proc_heap s1) (processes s1) proc;
     let s2 = s1\<lparr>proc_heap := h, processes := head, proc_count := proc_count s1 + 1\<rparr>;
     Some (if proc_count s2 = 1 \<and> curr_pid s2 = 0 then s2\<lparr>curr_pid := p_id p\<rparr> else s2)
   }"

definition first_tty_name :: "'z proc_state_scheme \<Rightarrow> string option" where
  "first_tty_name s = do {
     t \<leftarrow> tty_get s 0;
     if t = 0 then Some [] else map_option tty_name (deref (tty_heap s) t)
   }"

definition proc_create ::
  "'z proc_state_scheme \<Rightarrow> ptr \<Rightarrow> ptr \<Rightarrow> string \<Rightarrow> u32 \<Rightarrow> (ptr \<times> 'z proc_state_scheme) option" where
  "proc_create s proc parent name isuser =
     (if proc = 0 then Some (0, s)
      else do {
        slot \<leftarrow> (if parent = 0 then Some (Some (0, 0)) else map_option child_slot (deref (proc_heap s) parent));
        (case slot of
           None \<Rightarrow> Some (0, s\<lparr>errno_var := err ECHILD\<rparr>)
         | Some (index, cnt) \<Rightarrow> do {
             par \<leftarrow> (if parent = 0 then Some None else map_option Some (deref (proc_heap s) parent));
             tty0 \<leftarrow> (if parent = 0 then first_tty_name s else Some []);
             let pid = next_pid s;
             let s1 = s\<lparr>next_pid := next_pid s + 1\<rparr>;
             s2 \<leftarrow> (if parent = 0 then Some s1
                   else upd_proc parent (add_child index cnt pid) s1);
             let p = init_proc par tty0 name isuser pid;
             (cr3, vm) \<leftarrow> (if odd isuser then mem_alloc_pgdir pgdir_fuel (kernel_vm s2)
                          else Some (get_krnlpgdir (kernel_vm s2), kernel_vm s2));
             let p1 = p\<lparr>p_regs := (p_regs p)\<lparr>r_esp := stack_of proc + PROC_STACKSIZE, r_cr3 := cr3\<rparr>\<rparr>;
             s3 \<leftarrow> link_proc proc p1 (s2\<lparr>kernel_vm := vm\<rparr>);
             Some (proc, s3)
           })
      })"

subsection \<open>Destroying a process\<close>

definition close_fd ::
  "'z proc_state_scheme drivers \<Rightarrow> ptr \<Rightarrow> nat \<Rightarrow> 'z proc_state_scheme \<Rightarrow> 'z proc_state_scheme option" where
  "close_fd env proc i s = (case deref (proc_heap s) proc of
      None \<Rightarrow> None
    | Some p \<Rightarrow>
        if fd_node (p_fd p ! i) = 0 then Some s
        else map_option snd (fs_node_close env s (fd_node (p_fd p ! i)) (fd_slot proc i)))"

definition remove_child :: "u32 \<Rightarrow> proc \<Rightarrow> proc" where
  "remove_child pid p = (case find (\<lambda>i. p_child p ! i = pid) [0..<unat (p_child_count p)] of
      None \<Rightarrow> p
    | Some i \<Rightarrow> p\<lparr>p_child := (p_child p)[i := 0], p_child_count := p_child_count p - 1\<rparr>)"

definition proc_destroy ::
  "(proc heap \<Rightarrow> ptr \<Rightarrow> proc heap) \<Rightarrow> 'z proc_state_scheme drivers \<Rightarrow> 'z proc_state_scheme \<Rightarrow> ptr \<Rightarrow>
   (u32 \<times> 'z proc_state_scheme) option" where
  "proc_destroy kfree env s proc = do {
     s1 \<leftarrow> foldM (close_fd env proc) [0..<OPEN_MAX] s;
     p \<leftarrow> deref (proc_heap s1) proc;
     let s2 = (if r_cr3 (p_regs p) \<noteq> get_krnlpgdir (kernel_vm s1)
       then s1\<lparr>kernel_vm := mem_free_pgdir (kernel_vm s1) (r_cr3 (p_regs p))\<rparr> else s1);
     s3 \<leftarrow> (if p_parent p \<noteq> 0 then do {
         parent \<leftarrow> process_frompid s2 (p_parent p);
         upd_proc parent (remove_child (p_id p)) s2
       } else Some s2);
     let s4 = s3\<lparr>proc_heap := kfree (proc_heap s3) proc\<rparr>;
     (h, head) \<leftarrow> SLIST_REMOVE (proc_heap s4) (processes s4) proc;
     Some (0, s4\<lparr>proc_heap := h, processes := head, proc_count := proc_count s4 - 1\<rparr>)
   }"

text \<open>The loop reads the link of the process it has just destroyed.\<close>

partial_function (option) cleanup_loop ::
  "(proc heap \<Rightarrow> ptr \<Rightarrow> proc heap) \<Rightarrow> 'z proc_state_scheme drivers \<Rightarrow> ptr \<Rightarrow> 'z proc_state_scheme \<Rightarrow>
   'z proc_state_scheme option" where
  "cleanup_loop kfree env proc s =
     (if proc = 0 then Some s
      else case deref (proc_heap s) proc of
        None \<Rightarrow> None
      | Some p \<Rightarrow>
          (case (if p_status p = PROC_ZOMBIE then map_option snd (proc_destroy kfree env s proc) else Some s) of
            None \<Rightarrow> None
          | Some s1 \<Rightarrow> (case SLIST_NEXT (proc_heap s1) proc of
              None \<Rightarrow> None
            | Some n \<Rightarrow> cleanup_loop kfree env n s1)))"

definition processes_cleanup ::
  "(proc heap \<Rightarrow> ptr \<Rightarrow> proc heap) \<Rightarrow> 'z proc_state_scheme drivers \<Rightarrow> 'z proc_state_scheme \<Rightarrow>
   'z proc_state_scheme option" where
  "processes_cleanup kfree env s = cleanup_loop kfree env (processes s) s"

subsection \<open>Stack and page directory\<close>

definition proc_pushstack ::
  "'z proc_state_scheme \<Rightarrow> ptr \<Rightarrow> ptr \<Rightarrow> u32 \<Rightarrow> (u32 \<times> 'z proc_state_scheme) option" where
  "proc_pushstack s proc value sz = do {
     s1 \<leftarrow> upd_proc proc (\<lambda>p. p\<lparr>p_regs := (p_regs p)\<lparr>r_esp := r_esp (p_regs p) - sz\<rparr>\<rparr>) s;
     p \<leftarrow> deref (proc_heap s1) proc;
     (m, d) \<leftarrow> memcpy (fs_mem s1) (r_esp (p_regs p)) value sz;
     Some (r_esp (p_regs p), s1\<lparr>fs_mem := m\<rparr>)
   }"

definition proc_switch_pgdir ::
  "'z proc_state_scheme \<Rightarrow> ptr \<Rightarrow> ptr \<Rightarrow> (ptr \<times> 'z proc_state_scheme) option" where
  "proc_switch_pgdir s proc pgdir = do {
     p \<leftarrow> deref (proc_heap s) proc;
     s1 \<leftarrow> upd_proc proc (\<lambda>p. p\<lparr>p_regs := (p_regs p)\<lparr>r_cr3 := pgdir\<rparr>\<rparr>) s;
     Some (r_cr3 (p_regs p), s1\<lparr>kernel_vm := (kernel_vm s1)\<lparr>page_dir_reg := pgdir\<rparr>\<rparr>)
   }"

subsection \<open>Signals\<close>

definition proc_sigenter ::
  "'z proc_state_scheme \<Rightarrow> ptr \<Rightarrow> u8 \<Rightarrow> ptr \<Rightarrow> u32 \<Rightarrow> (u32 \<times> 'z proc_state_scheme) option" where
  "proc_sigenter s proc signum data datasz = do {
     p \<leftarrow> deref (proc_heap s) proc;
     if p_issignaling p then Some (err EINPROGRESS, s)
     else if p_signal_handler p = 0 then
       if signum = SIGKILL \<or> signum = SIGSEGV \<or> signum = SIGSTKFLT \<or> signum = SIGILL
       then map_option (Pair 0) (upd_proc proc (\<lambda>p. p\<lparr>p_status := PROC_ZOMBIE\<rparr>) s)
       else Some (err ENOSYS, s)
     else do {
       s1 \<leftarrow> upd_proc proc (\<lambda>p. p\<lparr>p_issignaling := True, p_signum := signum\<rparr>) s;
       s2 \<leftarrow> (if datasz > 0 \<and> data \<noteq> 0 then map_option snd (proc_pushstack s1 proc data datasz) else Some s1);
       Some (0, s2)
     }
   }"

definition proc_sigleave :: "'z proc_state_scheme \<Rightarrow> ptr \<Rightarrow> (u32 \<times> 'z proc_state_scheme) option" where
  "proc_sigleave s proc = do {
     p \<leftarrow> deref (proc_heap s) proc;
     if \<not> p_issignaling p then Some (err EINTR, s)
     else map_option (Pair 0) (upd_proc proc (\<lambda>p. p\<lparr>p_issignaling := False, p_signum := 0\<rparr>) s)
   }"

subsection \<open>The scheduler\<close>

definition schedule ::
  "(ptr \<Rightarrow> ptr \<Rightarrow> 'z proc_state_scheme \<Rightarrow> 'z proc_state_scheme) \<Rightarrow> 'z proc_state_scheme \<Rightarrow>
   'z proc_state_scheme option" where
  "schedule regswitch s =
     (if proc_count s = 0 then Some s
      else do {
        curr_proc \<leftarrow> process_frompid s (curr_pid s);
        next_proc \<leftarrow> process_next s;
        if curr_proc = 0 then Some s
        else do {
          s1 \<leftarrow> fpu_savectx curr_proc s;
          let s2 = s1\<lparr>sched_rec := (sched_rec s1)[unat (ticks s1) mod SCHED_RECCOUNT := curr_pid s1],
            ticks := ticks s1 + 1\<rparr>;
          s3 \<leftarrow> upd_proc curr_proc (\<lambda>p. p\<lparr>p_status := PROC_READY\<rparr>) s2;
          np \<leftarrow> deref (proc_heap s3) next_proc;
          let s4 = s3\<lparr>curr_pid := p_id np\<rparr>;
          s5 \<leftarrow> upd_proc next_proc (\<lambda>p. p\<lparr>p_status := PROC_RUNNING\<rparr>) s4;
          s6 \<leftarrow> fpu_loadctx next_proc s5;
          let s7 = printk_s (KLOG_INFO @ ''proc: switching context %d'' @ [CHR 0x0A]) (sdec (p_id np)) s6;
          Some (regswitch curr_proc next_proc s7)
        }
      })"

definition sched_getusage :: "'z proc_state_scheme \<Rightarrow> u32 \<Rightarrow> u32" where
  "sched_getusage s pid =
     fold (\<lambda>i count. if sched_rec s ! i = pid then count + 1 else count) [0..<SCHED_RECCOUNT] 0"

text \<open>\<open>proc_getcpuusage\<close>, the share in per cent.\<close>

definition proc_getcpuusage :: "'z proc_state_scheme \<Rightarrow> ptr \<Rightarrow> u32 option" where
  "proc_getcpuusage s proc = do {
     p \<leftarrow> deref (proc_heap s) proc;
     Some (of_nat (unat (sched_getusage s (p_id p)) * 100 div SCHED_RECCOUNT))
   }"

text \<open>The exceptions the kernel turns into signals; with no current process it halts (\<open>None\<close>).\<close>

definition proc_handle_interrupt ::
  "'z proc_state_scheme \<Rightarrow> u32 \<Rightarrow> 'z proc_state_scheme option" where
  "proc_handle_interrupt s int_no = do {
     curr_proc \<leftarrow> process_curr s;
     if curr_proc = 0 then None
     else if int_no = 0x06 then map_option snd (proc_sigenter s curr_proc SIGILL 0 0)
     else if int_no = 0x10 then map_option snd (proc_sigenter s curr_proc SIGFPE 0 0)
     else if int_no = 0x0C then map_option snd (proc_sigenter s curr_proc SIGSTKFLT 0 0)
     else if int_no = 0x0E then map_option snd (proc_sigenter s curr_proc SIGSEGV 0 0)
     else Some s
   }"

subsection \<open>The process table\<close>

definition proc_wf :: "proc \<Rightarrow> bool" where
  "proc_wf p \<longleftrightarrow> p_id p \<noteq> 0 \<and> length (p_child p) = CHILD_MAX \<and> unat (p_child_count p) \<le> CHILD_MAX \<and>
     length (p_fd p) = OPEN_MAX"

definition proc_rep :: "'z proc_state_scheme \<Rightarrow> (ptr \<times> proc) list \<Rightarrow> bool" where
  "proc_rep s xs \<longleftrightarrow> slist_rep (proc_heap s) (processes s) xs \<and> proc_count s = of_nat (length xs) \<and>
     distinct (map (p_id \<circ> snd) xs) \<and> (\<forall>x \<in> set xs. proc_wf (snd x))"

lemma proc_rep_list: "proc_rep s xs \<Longrightarrow> slist_rep (proc_heap s) (processes s) xs"
  by (simp add: proc_rep_def)

lemma proc_rep_nonzero: "proc_rep s xs \<Longrightarrow> 0 \<notin> addrs xs"
  by (auto simp: proc_rep_def dest: slist_rep_nonzero)

lemma proc_rep_deref: "proc_rep s xs \<Longrightarrow> (p, v) \<in> set xs \<Longrightarrow> deref (proc_heap s) p = Some v"
  by (rule slist_rep_deref [OF proc_rep_list])

lemma process_frompid_rep:
  "proc_rep s xs \<Longrightarrow> process_frompid s pid = Some (find_ptr (\<lambda>p. p_id p = pid) xs)"
  by (simp add: process_frompid_def slist_find_rep [OF proc_rep_list])

lemma process_frompid_nth:
  assumes "proc_rep s xs" "i < length xs"
  shows "process_frompid s (p_id (snd (xs ! i))) = Some (fst (xs ! i))"
proof -
  have inj: "inj_on (p_id \<circ> snd) (set xs)" using assms(1) by (simp add: proc_rep_def distinct_map)
  have mem: "(fst (xs ! i), snd (xs ! i)) \<in> set xs" using assms(2) by simp
  have "find_ptr (\<lambda>p. p_id p = p_id (snd (xs ! i))) xs = fst (xs ! i)"
  proof (rule find_ptr_unique [OF mem refl])
    fix b w assume "(b, w) \<in> set xs" "p_id w = p_id (snd (xs ! i))"
    then have "(b, w) = (fst (xs ! i), snd (xs ! i))" using mem by (intro inj_onD [OF inj]) simp_all
    then show "b = fst (xs ! i)" by (rule Pair_inject)
  qed
  then show ?thesis by (simp add: process_frompid_rep [OF assms(1)])
qed

lemma process_frompid_0: "proc_rep s xs \<Longrightarrow> process_frompid s 0 = Some 0"
proof -
  assume rep: "proc_rep s xs"
  have "find_ptr (\<lambda>p. p_id p = 0) xs = 0"
    using rep by (intro find_ptr_eq_0 [OF proc_rep_nonzero [OF rep]]) (simp add: proc_rep_def proc_wf_def)
  then show ?thesis by (simp add: process_frompid_rep [OF rep])
qed

lemma proc_count_pos:
  assumes "proc_rep s xs" "i < length xs"
  shows "proc_count s \<noteq> 0"
proof -
  have "length xs < 4294967296" using slist_rep_length [OF proc_rep_list [OF assms(1)]] .
  then have "(of_nat (length xs) :: u32) \<noteq> 0"
    using assms(2) of_nat_u32_inj [of "length xs" 0] by auto
  then show ?thesis using assms(1) by (simp add: proc_rep_def)
qed

text \<open>Updates that keep a process's id and its arrays keep the table well-formed.\<close>

definition keeps_wf :: "(proc \<Rightarrow> proc) \<Rightarrow> bool" where
  "keeps_wf f \<longleftrightarrow> (\<forall>p. p_id (f p) = p_id p \<and> (proc_wf p \<longrightarrow> proc_wf (f p)))"

lemma upd_proc_rep:
  assumes "proc_rep s xs" "e \<in> addrs xs" "keeps_wf f"
  obtains h where "upd_proc e f s = Some (s\<lparr>proc_heap := h\<rparr>)" "proc_rep (s\<lparr>proc_heap := h\<rparr>) (slist_upd e f xs)"
proof -
  obtain h where h: "set_val (proc_heap s) e f = Some h" "slist_rep h (processes s) (slist_upd e f xs)"
    using set_val_rep [OF proc_rep_list [OF assms(1)] assms(2), of f] by metis
  have "map (p_id \<circ> snd) (slist_upd e f xs) = map (p_id \<circ> snd) xs"
    using assms(3) by (intro map_snd_slist_upd) (simp add: keeps_wf_def)
  moreover have "\<forall>x \<in> set (slist_upd e f xs). proc_wf (snd x)"
    using assms(1,3) by (intro ball_slist_upd) (simp add: proc_rep_def keeps_wf_def)
  ultimately have "proc_rep (s\<lparr>proc_heap := h\<rparr>) (slist_upd e f xs)"
    using h(2) assms(1) by (simp add: proc_rep_def)
  then show ?thesis using that h(1) by (simp add: upd_proc_def)
qed

lemma proc_rep_other [simp]:
  "proc_rep (s\<lparr>fpu_regs := x\<rparr>) xs \<longleftrightarrow> proc_rep s xs"
  "proc_rep (s\<lparr>fpu_hw := x\<rparr>) xs \<longleftrightarrow> proc_rep s xs"
  "proc_rep (s\<lparr>sched_rec := y\<rparr>) xs \<longleftrightarrow> proc_rep s xs"
  "proc_rep (s\<lparr>ticks := z\<rparr>) xs \<longleftrightarrow> proc_rep s xs"
  "proc_rep (s\<lparr>curr_pid := z\<rparr>) xs \<longleftrightarrow> proc_rep s xs"
  "proc_rep (s\<lparr>next_pid := z\<rparr>) xs \<longleftrightarrow> proc_rep s xs"
  "proc_rep (s\<lparr>errno_var := z\<rparr>) xs \<longleftrightarrow> proc_rep s xs"
  "proc_rep (s\<lparr>kernel_vm := v\<rparr>) xs \<longleftrightarrow> proc_rep s xs"
  "proc_rep (s\<lparr>fs_mem := m\<rparr>) xs \<longleftrightarrow> proc_rep s xs"
  "proc_rep (s\<lparr>klog_calls := l\<rparr>) xs \<longleftrightarrow> proc_rep s xs"
  by (simp_all add: proc_rep_def)

lemma keeps_wf_simps [simp]:
  "keeps_wf (\<lambda>p. p\<lparr>p_status := st\<rparr>)" "keeps_wf (\<lambda>p. p\<lparr>p_fpu := fr\<rparr>)"
  "keeps_wf (\<lambda>p. p\<lparr>p_regs := g p\<rparr>)"
  "keeps_wf (\<lambda>p. p\<lparr>p_issignaling := b, p_signum := n\<rparr>)"
  by (simp_all add: keeps_wf_def proc_wf_def)

subsection \<open>Round robin\<close>

lemma process_next_nth:
  assumes "proc_rep s xs" "i < length xs" "curr_pid s = p_id (snd (xs ! i))"
  shows "process_next s = Some (fst (xs ! (Suc i mod length xs)))"
proof -
  have wf: "proc_wf (snd (xs ! i))" using assms(1,2) by (simp add: proc_rep_def)
  then have "curr_pid s \<noteq> 0" using assms(3) by (simp add: proc_wf_def)
  moreover have nz: "fst (xs ! j) \<noteq> 0" if "j < length xs" for j
    using proc_rep_nonzero [OF assms(1)] that by (metis imageI nth_mem)
  moreover have "processes s = fst (xs ! 0)"
    using slist_head_nth [OF proc_rep_list [OF assms(1)]] assms(2) by auto
  moreover have "Suc i mod length xs = (if Suc i < length xs then Suc i else 0)"
  proof (cases "Suc i < length xs")
    case False
    then have "Suc i = length xs" using assms(2) by simp
    then show ?thesis by simp
  qed simp
  ultimately show ?thesis
    using proc_count_pos [OF assms(1,2)] process_frompid_nth [OF assms(1,2)]
      SLIST_NEXT_nth [OF proc_rep_list [OF assms(1)] assms(2)] assms(2,3) nz [of "Suc i"]
    by (simp add: process_next_def)
qed

lemma fpu_savectx_rep:
  assumes "proc_rep s xs" "e \<in> addrs xs"
  obtains h where "fpu_savectx e s = Some (s\<lparr>fpu_regs := fpu_hw s, proc_heap := h\<rparr>)"
    "proc_rep (s\<lparr>fpu_regs := fpu_hw s, proc_heap := h\<rparr>) (slist_upd e (\<lambda>p. p\<lparr>p_fpu := fpu_hw s\<rparr>) xs)"
proof -
  have "proc_rep (s\<lparr>fpu_regs := fpu_hw s\<rparr>) xs" using assms(1) by simp
  then obtain h where "upd_proc e (\<lambda>p. p\<lparr>p_fpu := fpu_hw s\<rparr>) (s\<lparr>fpu_regs := fpu_hw s\<rparr>) =
      Some (s\<lparr>fpu_regs := fpu_hw s, proc_heap := h\<rparr>)"
    "proc_rep (s\<lparr>fpu_regs := fpu_hw s, proc_heap := h\<rparr>) (slist_upd e (\<lambda>p. p\<lparr>p_fpu := fpu_hw s\<rparr>) xs)"
    using upd_proc_rep [OF _ assms(2) keeps_wf_simps(2)] by blast
  then show ?thesis using that by (simp add: fpu_savectx_def)
qed

lemma deref_nth: "proc_rep s xs \<Longrightarrow> i < length xs \<Longrightarrow> deref (proc_heap s) (fst (xs ! i)) = Some (snd (xs ! i))"
  by (erule proc_rep_deref) (metis nth_mem prod.collapse)

lemma fpu_loadctx_nth:
  "proc_rep s xs \<Longrightarrow> i < length xs \<Longrightarrow>
   fpu_loadctx (fst (xs ! i)) s = Some (s\<lparr>fpu_regs := p_fpu (snd (xs ! i)), fpu_hw := p_fpu (snd (xs ! i))\<rparr>)"
  by (simp add: fpu_loadctx_def deref_nth)

text \<open>What one tick makes of the table: the current process is saved and set ready, the next runs.\<close>

definition after_tick :: "u8 list \<Rightarrow> ptr \<Rightarrow> ptr \<Rightarrow> (ptr \<times> proc) list \<Rightarrow> (ptr \<times> proc) list" where
  "after_tick hw a b xs =
     slist_upd b (\<lambda>p. p\<lparr>p_status := PROC_RUNNING\<rparr>)
      (slist_upd a (\<lambda>p. p\<lparr>p_status := PROC_READY\<rparr>) (slist_upd a (\<lambda>p. p\<lparr>p_fpu := hw\<rparr>) xs))"

lemma length_after_tick [simp]: "length (after_tick hw a b xs) = length xs"
  by (simp add: after_tick_def)

lemma nth_after_tick:
  assumes "i < length xs"
  shows "fst (after_tick hw a b xs ! i) = fst (xs ! i)"
    and "p_id (snd (after_tick hw a b xs ! i)) = p_id (snd (xs ! i))"
    and "p_status (snd (after_tick hw a b xs ! i)) =
      (if fst (xs ! i) = b then PROC_RUNNING else if fst (xs ! i) = a then PROC_READY else p_status (snd (xs ! i)))"
    and "p_fpu (snd (after_tick hw a b xs ! i)) = (if fst (xs ! i) = a then hw else p_fpu (snd (xs ! i)))"
  using assms by (simp_all add: after_tick_def nth_slist_upd)

lemma schedule_step:
  assumes rep: "proc_rep s xs" and i: "i < length xs" and cur: "curr_pid s = p_id (snd (xs ! i))"
    and a: "a = fst (xs ! i)" and j: "j = Suc i mod length xs" and b: "b = fst (xs ! j)"
  obtains t where "schedule regswitch s = Some (regswitch a b t)"
    "proc_rep t (after_tick (fpu_hw s) a b xs)" "curr_pid t = p_id (snd (xs ! j))"
    "ticks t = ticks s + 1"
    "sched_rec t = (sched_rec s)[unat (ticks s) mod SCHED_RECCOUNT := curr_pid s]"
    "fpu_hw t = p_fpu (snd (after_tick (fpu_hw s) a b xs ! j))"
proof -
  have jl: "j < length xs" unfolding j using i by (intro mod_less_divisor) linarith
  have mem: "a \<in> addrs xs" "b \<in> addrs xs" using i jl a b by simp_all
  obtain h1 where s1: "fpu_savectx a s = Some (s\<lparr>fpu_regs := fpu_hw s, proc_heap := h1\<rparr>)"
    "proc_rep (s\<lparr>fpu_regs := fpu_hw s, proc_heap := h1\<rparr>) (slist_upd a (\<lambda>p. p\<lparr>p_fpu := fpu_hw s\<rparr>) xs)"
    by (rule fpu_savectx_rep [OF rep mem(1)])
  define s2 where "s2 = s\<lparr>fpu_regs := fpu_hw s, proc_heap := h1,
    sched_rec := (sched_rec s)[unat (ticks s) mod SCHED_RECCOUNT := curr_pid s], ticks := ticks s + 1\<rparr>"
  let ?ys = "slist_upd a (\<lambda>p. p\<lparr>p_fpu := fpu_hw s\<rparr>) xs"
  have r2: "proc_rep s2 ?ys" using s1(2) by (simp add: s2_def proc_rep_def)
  obtain h3 where s3: "upd_proc a (\<lambda>p. p\<lparr>p_status := PROC_READY\<rparr>) s2 = Some (s2\<lparr>proc_heap := h3\<rparr>)"
    "proc_rep (s2\<lparr>proc_heap := h3\<rparr>) (slist_upd a (\<lambda>p. p\<lparr>p_status := PROC_READY\<rparr>) ?ys)"
    by (rule upd_proc_rep [OF r2 _ keeps_wf_simps(1)]) (use mem in simp_all)
  let ?zs = "slist_upd a (\<lambda>p. p\<lparr>p_status := PROC_READY\<rparr>) ?ys"
  have zj: "fst (?zs ! j) = b" "p_id (snd (?zs ! j)) = p_id (snd (xs ! j))"
    using jl b by (simp_all add: nth_slist_upd)
  have np: "deref h3 b = Some (snd (?zs ! j))"
    using deref_nth [OF s3(2), of j] jl unfolding zj(1) by simp
  define s4 where "s4 = s2\<lparr>proc_heap := h3, curr_pid := p_id (snd (xs ! j))\<rparr>"
  have r4: "proc_rep s4 ?zs" using s3(2) by (simp add: s4_def)
  have bz: "b \<in> addrs ?zs" using mem(2) by simp
  obtain h5 where s5: "upd_proc b (\<lambda>p. p\<lparr>p_status := PROC_RUNNING\<rparr>) s4 = Some (s4\<lparr>proc_heap := h5\<rparr>)"
    "proc_rep (s4\<lparr>proc_heap := h5\<rparr>) (after_tick (fpu_hw s) a b xs)"
    unfolding after_tick_def by (rule upd_proc_rep [OF r4 bz keeps_wf_simps(1)])
  let ?ws = "after_tick (fpu_hw s) a b xs"
  have s6: "fpu_loadctx b (s4\<lparr>proc_heap := h5\<rparr>) =
    Some (s4\<lparr>proc_heap := h5, fpu_regs := p_fpu (snd (?ws ! j)), fpu_hw := p_fpu (snd (?ws ! j))\<rparr>)"
    using fpu_loadctx_nth [OF s5(2), of j] jl b by (simp add: nth_after_tick)
  define t where "t = printk_s (KLOG_INFO @ ''proc: switching context %d'' @ [CHR 0x0A]) (sdec (p_id (snd (?zs ! j))))
    (s4\<lparr>proc_heap := h5, fpu_regs := p_fpu (snd (?ws ! j)), fpu_hw := p_fpu (snd (?ws ! j))\<rparr>)"
  have a0: "a \<noteq> 0" using proc_rep_nonzero [OF rep] mem(1) by metis
  have "schedule regswitch s = Some (regswitch a b t)"
    using a0 proc_count_pos [OF rep i] process_frompid_nth [OF rep i] process_next_nth [OF rep i cur]
      s1(1) s3(1) s5(1) s6 np zj cur
    by (simp add: schedule_def a [symmetric] j [symmetric] b [symmetric] t_def s4_def s2_def Let_def)
  moreover have "proc_rep t ?ws" using s5(2) by (simp add: t_def printk_s_def)
  ultimately show ?thesis
    by (rule that) (simp_all add: t_def printk_s_def s4_def s2_def)
qed

text \<open>Successive ticks; the register switch may change a process's saved registers only.\<close>

fun run_ticks ::
  "(ptr \<Rightarrow> ptr \<Rightarrow> 'z proc_state_scheme \<Rightarrow> 'z proc_state_scheme) \<Rightarrow> nat \<Rightarrow> 'z proc_state_scheme \<Rightarrow>
   'z proc_state_scheme option" where
  "run_ticks regswitch 0 s = Some s"
| "run_ticks regswitch (Suc k) s = (case schedule regswitch s of
      None \<Rightarrow> None
    | Some t \<Rightarrow> run_ticks regswitch k t)"

definition pids :: "(ptr \<times> proc) list \<Rightarrow> u32 list" where
  "pids xs = map (p_id \<circ> snd) xs"

definition regswitch_ok :: "(ptr \<Rightarrow> ptr \<Rightarrow> 'z proc_state_scheme \<Rightarrow> 'z proc_state_scheme) \<Rightarrow> bool" where
  "regswitch_ok rs \<longleftrightarrow> (\<forall>a b s xs. proc_rep s xs \<longrightarrow>
     curr_pid (rs a b s) = curr_pid s \<and> (\<exists>ys. proc_rep (rs a b s) ys \<and> pids ys = pids xs))"

lemma regswitch_okD:
  assumes "regswitch_ok rs" "proc_rep s xs"
  obtains ys where "curr_pid (rs a b s) = curr_pid s" "proc_rep (rs a b s) ys" "pids ys = pids xs"
  using assms unfolding regswitch_ok_def by blast

lemma pids_after_tick: "pids (after_tick hw a b xs) = pids xs"
  by (simp add: pids_def after_tick_def slist_upd_def)

lemma pids_nth: "i < length xs \<Longrightarrow> pids xs ! i = p_id (snd (xs ! i))"
  by (simp add: pids_def)

lemma pids_mem: "k \<in> set (pids xs) \<longleftrightarrow> (\<exists>x \<in> set xs. p_id (snd x) = k)"
  by (auto simp: pids_def image_iff)

lemma length_pids [simp]: "length (pids xs) = length xs"
  by (simp add: pids_def)

lemma run_ticks_round_robin:
  assumes ok: "regswitch_ok rs"
  shows "proc_rep s xs \<Longrightarrow> i < length xs \<Longrightarrow> curr_pid s = pids xs ! i \<Longrightarrow>
    \<exists>t ys. run_ticks rs k s = Some t \<and> proc_rep t ys \<and> pids ys = pids xs \<and>
      curr_pid t = pids xs ! ((i + k) mod length xs)"
proof (induction k arbitrary: s xs i)
  case 0
  then show ?case by auto
next
  case (Suc k)
  let ?j = "Suc i mod length xs"
  let ?a = "fst (xs ! i)" and ?b = "fst (xs ! ?j)"
  have cur: "curr_pid s = p_id (snd (xs ! i))" using Suc.prems(2,3) by (simp add: pids_nth)
  obtain t where t: "schedule rs s = Some (rs ?a ?b t)" "proc_rep t (after_tick (fpu_hw s) ?a ?b xs)"
    "curr_pid t = p_id (snd (xs ! ?j))"
    by (rule schedule_step [OF Suc.prems(1,2) cur refl refl refl])
  obtain ys where ys: "curr_pid (rs ?a ?b t) = curr_pid t" "proc_rep (rs ?a ?b t) ys"
    "pids ys = pids (after_tick (fpu_hw s) ?a ?b xs)"
    by (rule regswitch_okD [OF ok t(2)])
  have p: "pids ys = pids xs" and l: "length ys = length xs"
    using ys(3) by (simp add: pids_after_tick, metis pids_after_tick length_pids)
  have jl: "?j < length xs" using Suc.prems(2) by (intro mod_less_divisor) linarith
  have "curr_pid (rs ?a ?b t) = pids ys ! ?j" using ys(1) t(3) jl p by (simp add: pids_nth)
  from Suc.IH [OF ys(2) _ this] jl l p
  have "\<exists>u zs. run_ticks rs k (rs ?a ?b t) = Some u \<and> proc_rep u zs \<and> pids zs = pids xs \<and>
      curr_pid u = pids xs ! ((?j + k) mod length xs)" by simp
  moreover have "(?j + k) mod length xs = (i + Suc k) mod length xs"
    by (metis add_Suc_shift mod_add_left_eq)
  ultimately show ?case using t(1) by simp
qed

text \<open>The share of a process in the record of the last ticks.\<close>

lemma sched_getusage_fold:
  "fold (\<lambda>i count. if P i then count + 1 else count) is (c :: u32) = c + of_nat (length (filter P is))"
  by (induction "is" arbitrary: c) (simp_all add: algebra_simps)

lemma sched_getusage_count:
  "sched_getusage s pid = of_nat (length (filter (\<lambda>i. sched_rec s ! i = pid) [0..<SCHED_RECCOUNT]))"
  by (simp add: sched_getusage_def sched_getusage_fold)

subsection \<open>Creation\<close>

lemma link_proc_rep:
  assumes rep: "proc_rep s xs" and fresh: "proc \<noteq> 0" "proc \<notin> addrs xs"
    and wf: "proc_wf p" and pid: "p_id p \<notin> set (pids xs)"
  obtains t where "link_proc proc p s = Some t" "proc_rep t ((proc, p\<lparr>p_fpu := fpu_hw s\<rparr>) # xs)"
    "curr_pid t = (if xs = [] \<and> curr_pid s = 0 then p_id p else curr_pid s)"
    "next_pid t = next_pid s" "kernel_vm t = kernel_vm s" "errno_var t = errno_var s"
proof -
  let ?p = "p\<lparr>p_fpu := fpu_hw s\<rparr>"
  define h where "h = (proc_heap s)(proc \<mapsto> Cell ?p (processes s))"
  define s2 where "s2 = s\<lparr>fpu_regs := fpu_hw s, proc_heap := h, processes := proc, proc_count := proc_count s + 1\<rparr>"
  have ls: "slist_rep h proc ((proc, ?p) # xs)"
    unfolding h_def by (rule SLIST_INSERT_HEAD_rep(2) [OF proc_rep_list [OF rep] fresh])
  have len: "Suc (length xs) < 4294967296" using slist_rep_length [OF ls] by simp
  have c1: "proc_count s + 1 = 1 \<longleftrightarrow> xs = []"
    using rep len of_nat_u32_inj [of "Suc (length xs)" 1] by (auto simp: proc_rep_def)
  define t where "t = (if proc_count s + 1 = 1 \<and> curr_pid s = 0 then s2\<lparr>curr_pid := p_id p\<rparr> else s2)"
  have "link_proc proc p s = Some t"
    using SLIST_INSERT_HEAD_rep(1) [OF proc_rep_list [OF rep] fresh, of ?p 0]
    by (simp add: link_proc_def fpu_savectx_def upd_proc_def set_val_def t_def s2_def h_def Let_def)
  moreover have "proc_rep s2 ((proc, ?p) # xs)"
    using ls rep wf pid by (auto simp: proc_rep_def s2_def proc_wf_def pids_def)
  then have "proc_rep t ((proc, ?p) # xs)" by (simp add: t_def)
  ultimately show ?thesis
    by (rule that) (use c1 in \<open>simp_all add: t_def s2_def\<close>)
qed

lemma init_proc_simps [simp]:
  "p_id (init_proc par tty0 name isuser pid) = pid"
  "p_status (init_proc par tty0 name isuser pid) = PROC_READY"
  "p_isuser (init_proc par tty0 name isuser pid) = odd isuser"
  "p_child_count (init_proc par tty0 name isuser pid) = 0"
  "p_child (init_proc par tty0 name isuser pid) = replicate CHILD_MAX 0"
  "p_fd (init_proc par tty0 name isuser pid) = replicate OPEN_MAX zero_fd"
  "p_parent (init_proc None tty0 name isuser pid) = 0"
  "p_parent (init_proc (Some pp) tty0 name isuser pid) = p_id pp"
  "p_uid (init_proc (Some pp) tty0 name isuser pid) = p_uid pp"
  "p_gid (init_proc (Some pp) tty0 name isuser pid) = p_gid pp"
  "p_cwd (init_proc (Some pp) tty0 name isuser pid) = strncpy_field PATH_MAX (p_cwd pp)"
  by (simp_all add: init_proc_def zero_proc_def Let_def split: option.splits)

lemma proc_wf_init: "pid \<noteq> 0 \<Longrightarrow> proc_wf ((init_proc par tty0 name isuser pid)\<lparr>p_regs := r\<rparr>)"
  by (simp add: proc_wf_def)

text \<open>The new process as it stands in the table.\<close>

definition new_proc :: "ptr \<Rightarrow> u8 list \<Rightarrow> ptr \<Rightarrow> proc \<Rightarrow> proc" where
  "new_proc proc hw cr3 p =
     p\<lparr>p_regs := (p_regs p)\<lparr>r_esp := stack_of proc + PROC_STACKSIZE, r_cr3 := cr3\<rparr>, p_fpu := hw\<rparr>"

lemma new_proc_simps [simp]:
  "p_id (new_proc proc hw cr3 p) = p_id p" "p_status (new_proc proc hw cr3 p) = p_status p"
  "p_parent (new_proc proc hw cr3 p) = p_parent p" "p_fpu (new_proc proc hw cr3 p) = hw"
  "r_cr3 (p_regs (new_proc proc hw cr3 p)) = cr3"
  "p_cwd (new_proc proc hw cr3 p) = p_cwd p" "p_uid (new_proc proc hw cr3 p) = p_uid p"
  by (simp_all add: new_proc_def)

definition pgdir_for :: "u32 \<Rightarrow> vm \<Rightarrow> (ptr \<times> vm) option" where
  "pgdir_for isuser v = (if odd isuser then mem_alloc_pgdir pgdir_fuel v else Some (get_krnlpgdir v, v))"

lemma proc_create_root:
  assumes rep: "proc_rep s xs" and fresh: "proc \<noteq> 0" "proc \<notin> addrs xs"
    and pid: "next_pid s \<noteq> 0" "next_pid s \<notin> set (pids xs)"
    and tty: "first_tty_name s = Some tt" and dir: "pgdir_for isuser (kernel_vm s) = Some (cr3, vm)"
  obtains t where "proc_create s proc 0 name isuser = Some (proc, t)"
    "proc_rep t ((proc, new_proc proc (fpu_hw s) cr3 (init_proc None tt name isuser (next_pid s))) # xs)"
    "curr_pid t = (if xs = [] \<and> curr_pid s = 0 then next_pid s else curr_pid s)"
    "next_pid t = next_pid s + 1" "kernel_vm t = vm"
proof -
  let ?p = "init_proc None tt name isuser (next_pid s)"
  let ?q = "?p\<lparr>p_regs := (p_regs ?p)\<lparr>r_esp := stack_of proc + PROC_STACKSIZE, r_cr3 := cr3\<rparr>\<rparr>"
  let ?s = "s\<lparr>next_pid := next_pid s + 1, kernel_vm := vm\<rparr>"
  have r1: "proc_rep ?s xs" using rep by simp
  have i1: "p_id ?q \<notin> set (pids xs)" using pid(2) by simp
  obtain t where t: "link_proc proc ?q ?s = Some t" "proc_rep t ((proc, ?q\<lparr>p_fpu := fpu_hw ?s\<rparr>) # xs)"
    "curr_pid t = (if xs = [] \<and> curr_pid ?s = 0 then p_id ?q else curr_pid ?s)"
    "next_pid t = next_pid ?s" "kernel_vm t = kernel_vm ?s" "errno_var t = errno_var ?s"
    by (rule link_proc_rep [OF r1 fresh proc_wf_init [OF pid(1)] i1])
  have "proc_create s proc 0 name isuser = Some (proc, t)"
    using fresh(1) tty dir t(1) by (auto simp: proc_create_def pgdir_for_def Let_def)
  then show ?thesis by (rule that) (use t(2-5) in \<open>simp_all add: new_proc_def\<close>)
qed

text \<open>The slot a parent hands out.\<close>

lemma free_child_slot_SomeD:
  "free_child_slot p = Some i \<Longrightarrow> i < unat (p_child_count p) \<and> p_child p ! i = 0"
  by (auto simp: free_child_slot_def find_Some_iff)

lemma free_child_slot_None:
  "free_child_slot p = None \<longleftrightarrow> (\<forall>i < unat (p_child_count p). p_child p ! i \<noteq> 0)"
  by (auto simp: free_child_slot_def find_None_iff)

lemma child_count_Suc:
  assumes "proc_wf p"
  shows "unat (p_child_count p + 1) = Suc (unat (p_child_count p))"
    and "p_child_count p + 1 > of_nat CHILD_MAX \<longleftrightarrow> unat (p_child_count p) = CHILD_MAX"
proof -
  have le: "unat (p_child_count p) \<le> 25" using assms by (simp add: proc_wf_def CHILD_MAX_def)
  have "unat (p_child_count p + 1) = (unat (p_child_count p) + 1) mod 4294967296"
    by (simp add: unat_word_ariths(1))
  then show 1: "unat (p_child_count p + 1) = Suc (unat (p_child_count p))" using le by simp
  show "p_child_count p + 1 > of_nat CHILD_MAX \<longleftrightarrow> unat (p_child_count p) = CHILD_MAX"
    using le 1 by (auto simp: word_less_nat_alt CHILD_MAX_def)
qed

lemma child_slot_bounds:
  assumes wf: "proc_wf p" and slot: "child_slot p = Some (i, c)"
  shows "i < CHILD_MAX" "i < unat c" "unat c \<le> CHILD_MAX"
proof -
  have le: "unat (p_child_count p) \<le> CHILD_MAX" using wf by (simp add: proc_wf_def)
  have "i < CHILD_MAX \<and> i < unat c \<and> unat c \<le> CHILD_MAX"
  proof (cases "free_child_slot p")
    case None
    then have "unat (p_child_count p) \<noteq> CHILD_MAX" "i = unat (p_child_count p)" "c = p_child_count p + 1"
      using slot child_count_Suc(2) [OF wf] by (auto simp: child_slot_def split: if_splits)
    then show ?thesis using le child_count_Suc(1) [OF wf] by simp
  next
    case (Some k)
    then show ?thesis using slot free_child_slot_SomeD [OF Some] le by (auto simp: child_slot_def)
  qed
  then show "i < CHILD_MAX" "i < unat c" "unat c \<le> CHILD_MAX" by simp_all
qed

lemma child_slot_full:
  "proc_wf p \<Longrightarrow> child_slot p = None \<longleftrightarrow>
     unat (p_child_count p) = CHILD_MAX \<and> (\<forall>i < CHILD_MAX. p_child p ! i \<noteq> 0)"
  using child_count_Suc(2) [of p] free_child_slot_None [of p]
  by (cases "free_child_slot p") (auto simp: child_slot_def)

lemma add_child_keeps: "p_id (add_child i c pid p) = p_id p" "p_status (add_child i c pid p) = p_status p"
  by (simp_all add: add_child_def)

lemma add_child_wf: "proc_wf p \<Longrightarrow> unat c \<le> CHILD_MAX \<Longrightarrow> proc_wf (add_child i c pid p)"
  by (simp add: proc_wf_def add_child_def)

lemma upd_proc_nth_rep:
  assumes rep: "proc_rep s xs" and k: "k < length xs"
    and f: "p_id (f (snd (xs ! k))) = p_id (snd (xs ! k))" "proc_wf (f (snd (xs ! k)))"
  obtains h where "upd_proc (fst (xs ! k)) f s = Some (s\<lparr>proc_heap := h\<rparr>)"
    "proc_rep (s\<lparr>proc_heap := h\<rparr>) (slist_upd (fst (xs ! k)) f xs)"
proof -
  let ?e = "fst (xs ! k)"
  have mem: "?e \<in> addrs xs" using k by simp
  obtain h where h: "set_val (proc_heap s) ?e f = Some h" "slist_rep h (processes s) (slist_upd ?e f xs)"
    using set_val_rep [OF proc_rep_list [OF rep] mem, of f] by metis
  have d: "distinct (map fst xs)" using slist_rep_distinct [OF proc_rep_list [OF rep]] .
  have same: "slist_upd ?e f xs ! j = (if j = k then (?e, f (snd (xs ! k))) else xs ! j)" if "j < length xs" for j
    using that nth_eq_iff_index_eq [OF d, of j k] k by (simp add: nth_slist_upd)
  have "map (p_id \<circ> snd) (slist_upd ?e f xs) = map (p_id \<circ> snd) xs"
    by (rule nth_equalityI) (simp_all add: same f(1))
  moreover have "\<forall>x \<in> set (slist_upd ?e f xs). proc_wf (snd x)"
    using rep f(2) by (simp add: all_set_conv_all_nth same proc_rep_def)
  ultimately have "proc_rep (s\<lparr>proc_heap := h\<rparr>) (slist_upd ?e f xs)"
    using h(2) rep by (simp add: proc_rep_def)
  then show ?thesis using that h(1) by (simp add: upd_proc_def)
qed

lemma proc_create_child:
  assumes rep: "proc_rep s xs" and k: "k < length xs" and pp: "xs ! k = (parent, pp)"
    and fresh: "proc \<noteq> 0" "proc \<notin> addrs xs"
    and pid: "next_pid s \<noteq> 0" "next_pid s \<notin> set (pids xs)"
    and slot: "child_slot pp = Some (i, c)" and dir: "pgdir_for isuser (kernel_vm s) = Some (cr3, vm)"
  obtains t where "proc_create s proc parent name isuser = Some (proc, t)"
    "proc_rep t ((proc, new_proc proc (fpu_hw s) cr3 (init_proc (Some pp) [] name isuser (next_pid s))) #
       slist_upd parent (add_child i c (next_pid s)) xs)"
    "curr_pid t = curr_pid s" "next_pid t = next_pid s + 1" "kernel_vm t = vm"
proof -
  let ?p = "init_proc (Some pp) [] name isuser (next_pid s)"
  let ?q = "?p\<lparr>p_regs := (p_regs ?p)\<lparr>r_esp := stack_of proc + PROC_STACKSIZE, r_cr3 := cr3\<rparr>\<rparr>"
  have wf: "proc_wf pp" using rep nth_mem [OF k] pp by (auto simp: proc_rep_def)
  have nz: "parent \<noteq> 0" using proc_rep_nonzero [OF rep] nth_mem [OF k] pp by force
  have dr: "deref (proc_heap s) parent = Some pp" using deref_nth [OF rep k] pp by simp
  define s1 where "s1 = s\<lparr>next_pid := next_pid s + 1\<rparr>"
  have r1: "proc_rep s1 xs" using rep by (simp add: s1_def)
  obtain h where h: "upd_proc parent (add_child i c (next_pid s)) s1 = Some (s1\<lparr>proc_heap := h\<rparr>)"
    "proc_rep (s1\<lparr>proc_heap := h\<rparr>) (slist_upd parent (add_child i c (next_pid s)) xs)"
    using upd_proc_nth_rep [OF r1 k, of "add_child i c (next_pid s)"] pp
      add_child_wf [OF wf child_slot_bounds(3) [OF wf slot]] by (auto simp: add_child_keeps)
  let ?ys = "slist_upd parent (add_child i c (next_pid s)) xs"
  let ?s = "s1\<lparr>proc_heap := h, kernel_vm := vm\<rparr>"
  have r2: "proc_rep ?s ?ys" using h(2) by simp
  have ids: "pids ?ys = pids xs"
    unfolding pids_def by (rule map_snd_slist_upd) (rule add_child_keeps)
  have i1: "p_id ?q \<notin> set (pids ?ys)" using pid(2) ids by simp
  have fr: "proc \<notin> addrs ?ys" using fresh(2) by simp
  have ne: "?ys \<noteq> []" using k by (auto simp: slist_upd_def)
  obtain t where t: "link_proc proc ?q ?s = Some t" "proc_rep t ((proc, ?q\<lparr>p_fpu := fpu_hw ?s\<rparr>) # ?ys)"
    "curr_pid t = (if ?ys = [] \<and> curr_pid ?s = 0 then p_id ?q else curr_pid ?s)"
    "next_pid t = next_pid ?s" "kernel_vm t = kernel_vm ?s" "errno_var t = errno_var ?s"
    by (rule link_proc_rep [OF r2 fresh(1) fr proc_wf_init [OF pid(1)] i1])
  have "proc_create s proc parent name isuser = Some (proc, t)"
    using fresh(1) nz dr slot h(1) dir t(1)
    by (auto simp: proc_create_def pgdir_for_def Let_def s1_def)
  then show ?thesis by (rule that) (use t(2-5) ne in \<open>simp_all add: new_proc_def s1_def\<close>)
qed

lemma proc_create_full:
  assumes rep: "proc_rep s xs" and k: "k < length xs" and pp: "xs ! k = (parent, pp)"
    and full: "unat (p_child_count pp) = CHILD_MAX" "\<forall>i < CHILD_MAX. p_child pp ! i \<noteq> 0" and "proc \<noteq> 0"
  shows "proc_create s proc parent name isuser = Some (0, s\<lparr>errno_var := err ECHILD\<rparr>)"
proof -
  have wf: "proc_wf pp" using rep nth_mem [OF k] pp by (auto simp: proc_rep_def)
  have nz: "parent \<noteq> 0" using proc_rep_nonzero [OF rep] nth_mem [OF k] pp by force
  have dr: "deref (proc_heap s) parent = Some pp" using deref_nth [OF rep k] pp by simp
  have "child_slot pp = None" using child_slot_full [OF wf] full by simp
  then show ?thesis using assms(6) nz dr by (simp add: proc_create_def)
qed

text \<open>
  Destroying the child in the first slot of a parent with \<open>n\<close> live children and creating two
  more: the second creation is given the slot of the \<open>n\<close>-th child, which is still alive.
\<close>

definition create_in_slot :: "u32 \<Rightarrow> proc \<Rightarrow> proc" where
  "create_in_slot pid p = (case child_slot p of None \<Rightarrow> p | Some (i, c) \<Rightarrow> add_child i c pid p)"

lemma find_upto_first: "n > 0 \<Longrightarrow> P 0 \<Longrightarrow> find P [0..<n] = Some 0"
  by (simp add: upt_conv_Cons)

lemma remove_child_first:
  assumes "p_child_count p \<noteq> 0"
  shows "remove_child (p_child p ! 0) p = p\<lparr>p_child := (p_child p)[0 := 0], p_child_count := p_child_count p - 1\<rparr>"
proof -
  have "0 < unat (p_child_count p)" using assms by (simp add: unat_gt_0)
  then show ?thesis by (simp add: remove_child_def find_upto_first)
qed

lemma child_slot_reuse:
  assumes wf: "proc_wf p" and n: "2 \<le> unat (p_child_count p)"
    and live: "\<forall>k < unat (p_child_count p). p_child p ! k \<noteq> 0" and pid: "pid \<noteq> 0"
  defines "q \<equiv> create_in_slot pid (remove_child (p_child p ! 0) p)"
  shows "child_slot q = Some (unat (p_child_count p) - 1, p_child_count p)"
    and "p_child q ! (unat (p_child_count p) - 1) = p_child p ! (unat (p_child_count p) - 1)"
proof -
  let ?c = "p_child_count p"
  define r where "r = p\<lparr>p_child := (p_child p)[0 := 0], p_child_count := ?c - 1\<rparr>"
  have c: "?c \<noteq> 0" using n by auto
  have c1: "unat (?c - 1) = unat ?c - 1" using c by (simp add: unat_minus_one)
  have len: "length (p_child p) = CHILD_MAX" "unat ?c \<le> CHILD_MAX" using wf by (simp_all add: proc_wf_def)
  have nth: "p_child r ! k = (if k = 0 then 0 else p_child p ! k)" if "k < CHILD_MAX" for k
    using that len by (simp add: r_def nth_list_update)
  have "free_child_slot r = Some 0"
    using n c1 nth [of 0] by (simp add: free_child_slot_def r_def find_upto_first CHILD_MAX_def)
  then have q: "q = r\<lparr>p_child := (p_child r)[0 := pid]\<rparr>"
    using remove_child_first [OF c]
    by (simp add: q_def create_in_slot_def child_slot_def r_def add_child_def)
  have qn: "p_child q ! k = (if k = 0 then pid else p_child p ! k)" if "k < CHILD_MAX" for k
    using that nth [OF that] len by (simp add: q r_def nth_list_update)
  have qc: "p_child_count q = ?c - 1" by (simp add: q r_def)
  have "\<forall>k < unat ?c - 1. p_child q ! k \<noteq> 0" using qn live pid len(2) by auto
  then have "free_child_slot q = None" by (simp add: free_child_slot_None qc c1)
  moreover have "\<not> ?c - 1 + 1 > of_nat CHILD_MAX"
    using len(2) by (simp add: word_less_nat_alt CHILD_MAX_def)
  ultimately show "child_slot q = Some (unat ?c - 1, ?c)" by (simp add: child_slot_def qc c1)
  show "p_child q ! (unat ?c - 1) = p_child p ! (unat ?c - 1)"
    using qn [of "unat ?c - 1"] n len(2) by simp
qed

subsection \<open>Destruction\<close>

definition no_open_fds :: "proc \<Rightarrow> bool" where
  "no_open_fds p \<longleftrightarrow> p_fd p = replicate OPEN_MAX zero_fd"

lemma close_fd_none:
  assumes "deref (proc_heap s) proc = Some p" "no_open_fds p" "i < OPEN_MAX"
  shows "close_fd env proc i s = Some s"
  using assms by (simp add: close_fd_def no_open_fds_def zero_fd_def)

lemma foldM_id: "(\<And>i. i \<in> set xs \<Longrightarrow> f i s = Some s) \<Longrightarrow> foldM f xs s = Some s"
  by (induction xs) simp_all

lemma close_fds_none:
  assumes "deref (proc_heap s) proc = Some p" "no_open_fds p"
  shows "foldM (close_fd env proc) [0..<OPEN_MAX] s = Some s"
  by (rule foldM_id) (simp add: close_fd_none [OF assms])

text \<open>
  What \<open>kfree\<close> leaves of the freed structure: \<open>kfree_keeps\<close> leaves it readable until its next
  use, \<open>heap_free\<close> makes every later access fault.
\<close>

definition kfree_keeps :: "proc heap \<Rightarrow> ptr \<Rightarrow> proc heap" where
  "kfree_keeps h p = h"

lemma proc_rep_del:
  assumes rep: "proc_rep s xs" and mem: "e \<in> addrs xs"
  obtains h head where "SLIST_REMOVE (proc_heap s) (processes s) e = Some (h, head)"
    "proc_rep (s\<lparr>proc_heap := h, processes := head, proc_count := proc_count s - 1\<rparr>) (slist_del e xs)"
    "h e = proc_heap s e"
proof -
  obtain h head where h: "SLIST_REMOVE (proc_heap s) (processes s) e = Some (h, head)"
    "slist_rep h head (slist_del e xs)" "h e = proc_heap s e"
    by (rule SLIST_REMOVE_rep [OF proc_rep_list [OF rep] mem])
  have d: "distinct (map fst xs)" using slist_rep_distinct [OF proc_rep_list [OF rep]] .
  have "xs \<noteq> []" using mem by auto
  then have "(of_nat (length xs) :: u32) - 1 = of_nat (length xs - 1)" by (cases xs) simp_all
  then have "proc_rep (s\<lparr>proc_heap := h, processes := head, proc_count := proc_count s - 1\<rparr>) (slist_del e xs)"
    using rep h(2) length_slist_del [OF d mem]
    by (simp add: proc_rep_def set_slist_del distinct_map_slist_del)
  then show ?thesis using that h(1,3) by blast
qed

lemma remove_child_wf:
  assumes "proc_wf p"
  shows "proc_wf (remove_child pid p)"
proof -
  have "unat (p_child_count p - 1) \<le> CHILD_MAX" if "i < unat (p_child_count p)" for i
    using assms that unat_minus_one [of "p_child_count p"] by (cases "p_child_count p = 0") (auto simp: proc_wf_def)
  then show "proc_wf (remove_child pid p)"
    using assms by (auto simp: remove_child_def proc_wf_def find_Some_iff split: option.splits)
qed

lemma remove_child_id: "p_id (remove_child pid p) = p_id p"
  by (simp add: remove_child_def split: option.splits)

text \<open>The table once the parent, if any, has dropped its child.\<close>

definition parent_told :: "(ptr \<times> proc) list \<Rightarrow> proc \<Rightarrow> (ptr \<times> proc) list" where
  "parent_told xs p = (if p_parent p = 0 then xs
     else slist_upd (find_ptr (\<lambda>q. p_id q = p_parent p) xs) (remove_child (p_id p)) xs)"

lemma pid_listed_nth:
  assumes "proc_rep s xs" "k \<in> set (pids xs)"
  obtains j where "j < length xs" "p_id (snd (xs ! j)) = k" "find_ptr (\<lambda>q. p_id q = k) xs = fst (xs ! j)"
proof -
  obtain j where j: "j < length xs" "p_id (snd (xs ! j)) = k"
    using assms(2) by (auto simp: pids_def in_set_conv_nth)
  then have "find_ptr (\<lambda>q. p_id q = k) xs = fst (xs ! j)"
    using process_frompid_nth [OF assms(1) j(1)] process_frompid_rep [OF assms(1)] by simp
  then show ?thesis using that j by blast
qed

lemma tell_parent:
  assumes rep: "proc_rep s xs" and listed: "p_parent p = 0 \<or> p_parent p \<in> set (pids xs)"
  obtains h where
    "(if p_parent p \<noteq> 0 then Option.bind (process_frompid s (p_parent p))
        (\<lambda>parent. upd_proc parent (remove_child (p_id p)) s) else Some s) = Some (s\<lparr>proc_heap := h\<rparr>)"
    "proc_rep (s\<lparr>proc_heap := h\<rparr>) (parent_told xs p)" "p_parent p = 0 \<longrightarrow> h = proc_heap s"
proof (cases "p_parent p = 0")
  case True
  have "s\<lparr>proc_heap := proc_heap s\<rparr> = s" by simp
  then show ?thesis by (intro that [of "proc_heap s"]) (use True rep in \<open>simp_all add: parent_told_def\<close>)
next
  case False
  then have "p_parent p \<in> set (pids xs)" using listed by simp
  then obtain j where j: "j < length xs" "p_id (snd (xs ! j)) = p_parent p"
    "find_ptr (\<lambda>q. p_id q = p_parent p) xs = fst (xs ! j)" by (rule pid_listed_nth [OF rep])
  have wf: "proc_wf (snd (xs ! j))" using rep j(1) by (simp add: proc_rep_def)
  obtain h where h: "upd_proc (fst (xs ! j)) (remove_child (p_id p)) s = Some (s\<lparr>proc_heap := h\<rparr>)"
    "proc_rep (s\<lparr>proc_heap := h\<rparr>) (slist_upd (fst (xs ! j)) (remove_child (p_id p)) xs)"
    by (rule upd_proc_nth_rep [where f = "remove_child (p_id p)", OF rep j(1) remove_child_id remove_child_wf [OF wf]])
  show ?thesis
    by (rule that) (use False h j process_frompid_rep [OF rep] in \<open>simp_all add: parent_told_def\<close>)
qed

definition freed_dir :: "proc \<Rightarrow> vm \<Rightarrow> vm" where
  "freed_dir p v = (if r_cr3 (p_regs p) \<noteq> get_krnlpgdir v then mem_free_pgdir v (r_cr3 (p_regs p)) else v)"

lemma proc_destroy_kept:
  assumes rep: "proc_rep s xs" and k: "(proc, p) \<in> set xs" and fds: "no_open_fds p"
    and listed: "p_parent p = 0 \<or> p_parent p \<in> set (pids xs)"
  obtains t where "proc_destroy kfree_keeps env s proc = Some (0, t)"
    "proc_rep t (slist_del proc (parent_told xs p))" "kernel_vm t = freed_dir p (kernel_vm s)"
    "curr_pid t = curr_pid s" "p_parent p = 0 \<longrightarrow> proc_heap t proc = proc_heap s proc" "next_pid t = next_pid s"
proof -
  have d: "deref (proc_heap s) proc = Some p" by (rule proc_rep_deref [OF rep k])
  define s2 where "s2 = s\<lparr>kernel_vm := freed_dir p (kernel_vm s)\<rparr>"
  have r2: "proc_rep s2 xs" using rep by (simp add: s2_def)
  have s2: "(if r_cr3 (p_regs p) \<noteq> get_krnlpgdir (kernel_vm s)
       then s\<lparr>kernel_vm := mem_free_pgdir (kernel_vm s) (r_cr3 (p_regs p))\<rparr> else s) = s2"
    by (simp add: s2_def freed_dir_def)
  obtain h where h: "(if p_parent p \<noteq> 0 then Option.bind (process_frompid s2 (p_parent p))
        (\<lambda>parent. upd_proc parent (remove_child (p_id p)) s2) else Some s2) = Some (s2\<lparr>proc_heap := h\<rparr>)"
    "proc_rep (s2\<lparr>proc_heap := h\<rparr>) (parent_told xs p)" "p_parent p = 0 \<longrightarrow> h = proc_heap s2"
    by (rule tell_parent [OF r2 listed])
  have "proc \<in> addrs (parent_told xs p)" using k by (force simp: parent_told_def)
  then obtain h' head where h': "SLIST_REMOVE h (processes s2) proc = Some (h', head)"
    "proc_rep (s2\<lparr>proc_heap := h', processes := head, proc_count := proc_count s2 - 1\<rparr>)
      (slist_del proc (parent_told xs p))" "h' proc = h proc"
    using proc_rep_del [OF h(2), of proc] by auto
  have "proc_destroy kfree_keeps env s proc =
      Some (0, s2\<lparr>proc_heap := h', processes := head, proc_count := proc_count s2 - 1\<rparr>)"
    using close_fds_none [OF d fds] d h(1) h'(1)
    by (simp add: proc_destroy_def s2 kfree_keeps_def Let_def cong: if_cong)
  then show ?thesis by (rule that) (use h'(2,3) h(3) in \<open>simp_all add: s2_def\<close>)
qed

lemma tell_parent_missing:
  assumes rep: "proc_rep s xs" and gone: "p_parent p \<noteq> 0" "p_parent p \<notin> set (pids xs)" and null: "proc_heap s 0 = None"
  shows "Option.bind (process_frompid s (p_parent p)) (\<lambda>parent. upd_proc parent (remove_child (p_id p)) s) = None"
proof -
  have "find_ptr (\<lambda>q. p_id q = p_parent p) xs = 0"
    by (rule find_ptr_eq_0 [OF proc_rep_nonzero [OF rep]]) (use gone(2) in \<open>simp add: pids_mem\<close>)
  then show ?thesis
    using null by (simp add: process_frompid_rep [OF rep] upd_proc_def set_val_def)
qed

lemma proc_destroy_parent_gone:
  assumes rep: "proc_rep s xs" and k: "(proc, p) \<in> set xs" and fds: "no_open_fds p"
    and gone: "p_parent p \<noteq> 0" "p_parent p \<notin> set (pids xs)" and null: "proc_heap s 0 = None"
  shows "proc_destroy kfree env s proc = None"
proof -
  have d: "deref (proc_heap s) proc = Some p" by (rule proc_rep_deref [OF rep k])
  define s2 where "s2 = (if r_cr3 (p_regs p) \<noteq> get_krnlpgdir (kernel_vm s)
       then s\<lparr>kernel_vm := mem_free_pgdir (kernel_vm s) (r_cr3 (p_regs p))\<rparr> else s)"
  have "proc_rep s2 xs" "proc_heap s2 0 = None" using rep null by (simp_all add: s2_def)
  from tell_parent_missing [OF this(1) gone this(2)]
  show ?thesis using close_fds_none [OF d fds] d gone(1)
    by (simp add: proc_destroy_def s2_def [symmetric] Let_def cong: if_cong)
qed

lemma proc_destroy_freed:
  assumes rep: "proc_rep s xs" and k: "(proc, p) \<in> set xs" and fds: "no_open_fds p"
    and listed: "p_parent p = 0 \<or> p_parent p \<in> set (pids xs)"
  shows "proc_destroy heap_free env s proc = None"
proof -
  have d: "deref (proc_heap s) proc = Some p" by (rule proc_rep_deref [OF rep k])
  define s2 where "s2 = (if r_cr3 (p_regs p) \<noteq> get_krnlpgdir (kernel_vm s)
       then s\<lparr>kernel_vm := mem_free_pgdir (kernel_vm s) (r_cr3 (p_regs p))\<rparr> else s)"
  have r2: "proc_rep s2 xs" using rep by (simp add: s2_def)
  obtain h where h: "(if p_parent p \<noteq> 0 then Option.bind (process_frompid s2 (p_parent p))
        (\<lambda>parent. upd_proc parent (remove_child (p_id p)) s2) else Some s2) = Some (s2\<lparr>proc_heap := h\<rparr>)"
    using tell_parent [OF r2 listed] by blast
  have "SLIST_REMOVE (heap_free h proc) q proc = None" for q
    by (rule SLIST_REMOVE_freed) (simp add: heap_free_def)
  then show ?thesis using close_fds_none [OF d fds] d h
    by (simp add: proc_destroy_def s2_def [symmetric] Let_def cong: if_cong)
qed

text \<open>Once the current process is destroyed the scheduler finds no current process any more.\<close>

lemma schedule_stuck:
  assumes "proc_rep s xs" "curr_pid s \<noteq> 0" "curr_pid s \<notin> set (pids xs)"
  shows "schedule rs s = Some s"
proof -
  have z: "find_ptr (\<lambda>q. p_id q = curr_pid s) xs = 0"
    by (rule find_ptr_eq_0 [OF proc_rep_nonzero [OF assms(1)]]) (use assms(3) in \<open>simp add: pids_mem\<close>)
  then have "process_next s = Some (processes s) \<or> proc_count s = 0"
    using assms(2) by (simp add: process_next_def process_frompid_rep [OF assms(1)])
  then show ?thesis
    using z by (auto simp: schedule_def process_frompid_rep [OF assms(1)])
qed

definition reapable :: "proc \<Rightarrow> bool" where
  "reapable p \<longleftrightarrow> (p_status p = PROC_ZOMBIE \<longrightarrow> p_parent p = 0 \<and> no_open_fds p)"

definition alive :: "(ptr \<times> proc) list \<Rightarrow> (ptr \<times> proc) list" where
  "alive xs = filter (\<lambda>x. p_status (snd x) \<noteq> PROC_ZOMBIE) xs"

lemma next_ptr: "proc_rep s (xs @ y # ys) \<Longrightarrow> SLIST_NEXT (proc_heap s) (fst y) = Some (first_ptr ys)"
  using SLIST_NEXT_nth [OF proc_rep_list, of s "xs @ y # ys" "length xs"]
  by (cases ys) (simp_all add: first_ptr_def nth_append)

lemma cleanup_loop_keeps:
  "proc_rep s (xs @ ys) \<Longrightarrow> \<forall>y \<in> set ys. reapable (snd y) \<Longrightarrow>
   \<exists>t. cleanup_loop kfree_keeps env (first_ptr ys) s = Some t \<and> proc_rep t (xs @ alive ys) \<and> curr_pid t = curr_pid s \<and>
     next_pid t = next_pid s"
proof (induction ys arbitrary: xs s)
  case Nil
  then show ?case by (auto simp: cleanup_loop.simps first_ptr_def alive_def)
next
  case (Cons y ys)
  obtain a p where y: "y = (a, p)" by (cases y)
  have nz: "a \<noteq> 0" using proc_rep_nonzero [OF Cons.prems(1)] y by auto
  have d: "deref (proc_heap s) a = Some p" by (rule proc_rep_deref [OF Cons.prems(1)]) (simp add: y)
  have nx: "SLIST_NEXT (proc_heap s) a = Some (first_ptr ys)" using next_ptr [OF Cons.prems(1)] y by simp
  show ?case
  proof (cases "p_status p = PROC_ZOMBIE")
    case False
    have "proc_rep s ((xs @ [y]) @ ys)" using Cons.prems(1) by simp
    from Cons.IH [OF this] Cons.prems(2) show ?thesis
      using False nz d nx by (subst cleanup_loop.simps) (simp add: y first_ptr_def alive_def)
  next
    case True
    then have r: "p_parent p = 0" "no_open_fds p" using Cons.prems(2) y by (auto simp: reapable_def)
    have mem: "(a, p) \<in> set (xs @ y # ys)" using y by simp
    obtain t where t: "proc_destroy kfree_keeps env s a = Some (0, t)"
      "proc_rep t (slist_del a (parent_told (xs @ y # ys) p))" "kernel_vm t = freed_dir p (kernel_vm s)"
      "curr_pid t = curr_pid s" "p_parent p = 0 \<longrightarrow> proc_heap t a = proc_heap s a" "next_pid t = next_pid s"
      by (rule proc_destroy_kept [OF Cons.prems(1) mem r(2) disjI1 [OF r(1)]])
    have dist: "distinct (map fst (xs @ (a, p) # ys))"
      using slist_rep_distinct [OF proc_rep_list [OF Cons.prems(1)]] y by simp
    have "proc_rep t (xs @ ys)" using t(2) slist_del_split [OF dist] by (simp add: parent_told_def r(1) y)
    from Cons.IH [OF this] Cons.prems(2) obtain u where u: "cleanup_loop kfree_keeps env (first_ptr ys) t = Some u"
      "proc_rep u (xs @ alive ys)" "curr_pid u = curr_pid t" "next_pid u = next_pid t" by auto
    have "SLIST_NEXT (proc_heap t) a = Some (first_ptr ys)" using nx t(5) r(1) by (simp add: SLIST_NEXT_def)
    then have "cleanup_loop kfree_keeps env a s = Some u"
      using nz d t(1) u(1) True by (subst cleanup_loop.simps) simp
    then show ?thesis using u t(4,6) True y by (auto simp: first_ptr_def alive_def)
  qed
qed

lemma processes_cleanup_keeps:
  assumes "proc_rep s xs" "\<forall>x \<in> set xs. reapable (snd x)"
  obtains t where "processes_cleanup kfree_keeps env s = Some t" "proc_rep t (alive xs)" "curr_pid t = curr_pid s"
    "next_pid t = next_pid s"
proof -
  have "processes s = first_ptr xs"
    using slist_head_nth [OF proc_rep_list [OF assms(1)]] by (cases xs) (simp_all add: first_ptr_def)
  then show ?thesis
    using cleanup_loop_keeps [of s "[]" xs] assms that by (auto simp: processes_cleanup_def)
qed

subsection \<open>Signals and exceptions\<close>

definition deadly :: "u8 \<Rightarrow> bool" where
  "deadly signum \<longleftrightarrow> signum \<in> {SIGKILL, SIGSEGV, SIGSTKFLT, SIGILL}"

lemma sigenter_nested:
  assumes "deref (proc_heap s) proc = Some p" "p_issignaling p"
  shows "proc_sigenter s proc signum data n = Some (err EINPROGRESS, s)"
  using assms by (simp add: proc_sigenter_def)

lemma sigenter_unhandled:
  assumes rep: "proc_rep s xs" and k: "k < length xs" and p: "xs ! k = (proc, p)"
    and st: "\<not> p_issignaling p" "p_signal_handler p = 0"
  shows "\<exists>t. proc_sigenter s proc signum data n = Some (if deadly signum then 0 else err ENOSYS, t) \<and>
     proc_rep t (if deadly signum then slist_upd proc (\<lambda>p. p\<lparr>p_status := PROC_ZOMBIE\<rparr>) xs else xs)"
proof -
  have d: "deref (proc_heap s) proc = Some p" using deref_nth [OF rep k] p by simp
  have mem: "proc \<in> addrs xs" using nth_mem [OF k] p by force
  obtain h where "upd_proc proc (\<lambda>p. p\<lparr>p_status := PROC_ZOMBIE\<rparr>) s = Some (s\<lparr>proc_heap := h\<rparr>)"
    "proc_rep (s\<lparr>proc_heap := h\<rparr>) (slist_upd proc (\<lambda>p. p\<lparr>p_status := PROC_ZOMBIE\<rparr>) xs)"
    by (rule upd_proc_rep [OF rep mem keeps_wf_simps(1)])
  then show ?thesis using d st rep by (auto simp: proc_sigenter_def deadly_def)
qed

lemma sigenter_leave:
  assumes rep: "proc_rep s xs" and k: "k < length xs" and p: "xs ! k = (proc, p)"
    and st: "\<not> p_issignaling p" "p_signal_handler p \<noteq> 0"
  obtains t u where "proc_sigenter s proc signum 0 n = Some (0, t)"
    "proc_rep t (slist_upd proc (\<lambda>p. p\<lparr>p_issignaling := True, p_signum := signum\<rparr>) xs)"
    "proc_sigleave t proc = Some (0, u)"
    "proc_rep u (slist_upd proc (\<lambda>p. p\<lparr>p_signum := 0\<rparr>) xs)"
proof -
  have d: "deref (proc_heap s) proc = Some p" using deref_nth [OF rep k] p by simp
  have mem: "proc \<in> addrs xs" using nth_mem [OF k] p by force
  let ?in = "\<lambda>p. p\<lparr>p_issignaling := True, p_signum := signum\<rparr>"
  let ?out = "\<lambda>p. p\<lparr>p_issignaling := False, p_signum := 0\<rparr>"
  let ?ys = "slist_upd proc ?in xs"
  obtain h where h: "upd_proc proc ?in s = Some (s\<lparr>proc_heap := h\<rparr>)" "proc_rep (s\<lparr>proc_heap := h\<rparr>) ?ys"
    by (rule upd_proc_rep [OF rep mem keeps_wf_simps(4)])
  have mem2: "proc \<in> addrs ?ys" using mem by simp
  obtain h2 where h2: "upd_proc proc ?out (s\<lparr>proc_heap := h\<rparr>) = Some (s\<lparr>proc_heap := h\<rparr>\<lparr>proc_heap := h2\<rparr>)"
    "proc_rep (s\<lparr>proc_heap := h\<rparr>\<lparr>proc_heap := h2\<rparr>) (slist_upd proc ?out ?ys)"
    by (rule upd_proc_rep [OF h(2) mem2 keeps_wf_simps(4)])
  have d2: "deref h proc = Some (?in p)"
    using deref_nth [OF h(2), of k] k p by (simp add: nth_slist_upd)
  have eq: "slist_upd proc ?out ?ys = slist_upd proc (\<lambda>p. p\<lparr>p_signum := 0\<rparr>) xs"
  proof (rule nth_equalityI)
    fix j assume "j < length (slist_upd proc ?out ?ys)"
    then have j: "j < length xs" by simp
    have "j = k" if "fst (xs ! j) = proc"
      using that j k p slist_rep_distinct [OF proc_rep_list [OF rep]] nth_eq_iff_index_eq [of "map fst xs" j k] by simp
    moreover have "p\<lparr>p_issignaling := False, p_signum := 0\<rparr> = p\<lparr>p_signum := 0\<rparr>"
      using st(1) by (cases p) simp
    moreover have "fst (xs ! k) = proc" "snd (xs ! k) = p" using p by simp_all
    ultimately show "slist_upd proc ?out ?ys ! j = slist_upd proc (\<lambda>p. p\<lparr>p_signum := 0\<rparr>) xs ! j"
      using j by (cases "j = k") (auto simp: nth_slist_upd)
  qed simp
  show ?thesis
  proof (rule that)
    show "proc_sigenter s proc signum 0 n = Some (0, s\<lparr>proc_heap := h\<rparr>)"
      using d st h(1) by (simp add: proc_sigenter_def)
    show "proc_rep (s\<lparr>proc_heap := h\<rparr>) ?ys" by (rule h(2))
    show "proc_sigleave (s\<lparr>proc_heap := h\<rparr>) proc = Some (0, s\<lparr>proc_heap := h\<rparr>\<lparr>proc_heap := h2\<rparr>)"
      using d2 h2(1) by (simp add: proc_sigleave_def)
    show "proc_rep (s\<lparr>proc_heap := h\<rparr>\<lparr>proc_heap := h2\<rparr>) (slist_upd proc (\<lambda>p. p\<lparr>p_signum := 0\<rparr>) xs)"
      using h2(2) unfolding eq .
  qed
qed

subsection \<open>A small process table\<close>

text \<open>
  A kernel state that holds a given process table and nothing else; \<open>sample_proc\<close> is a process
  without open descriptors. The witnesses of the properties below are evaluated on these.
\<close>

definition empty_vm :: vm where
  "empty_vm = \<lparr>used_mem = 0, total_mem = 0, mem_bits = (\<lambda>_. 0), vmem = (\<lambda>_. 0), krnl_pgdir = 0x100000,
     krnl_pgtbl = 0x101000, page_dir_reg = 0x100000, paging_on = True\<rparr>"

definition table_state :: "(ptr \<times> proc) list \<Rightarrow> u32 \<Rightarrow> proc_state" where
  "table_state xs cur = \<lparr>klog_calls = [], dev_heap = Map.empty, devices = 0, dev_count = 0,
     blk_heap = Map.empty, block_devices = 0, block_device_count = 0, tty_heap = Map.empty, ttys = 0,
     tty_cnt = 0, fs_mem = Map.empty, node_heap = Map.empty, next_inode = 0, fs_heap = Map.empty,
     filesystems = 0, filesystem_count = 0, mp_heap = Map.empty, mountpoints = 0, mp_count = 0,
     devfs_nodes = no_list, initrds = Map.empty, initrd_nodes = Map.empty, proc_heap = heap_of xs, processes = first_ptr xs, next_pid = 9, curr_pid = cur,
     proc_count = of_nat (length xs), ticks = 0, sched_rec = replicate SCHED_RECCOUNT 0, errno_var = 0,
     fpu_regs = replicate 512 0, fpu_hw = replicate 512 0, kernel_vm = empty_vm\<rparr>"

lemma table_state_simps [simp]:
  "proc_heap (table_state xs cur) = heap_of xs" "curr_pid (table_state xs cur) = cur"
  "next_pid (table_state xs cur) = 9" "kernel_vm (table_state xs cur) = empty_vm"
  "ticks (table_state xs cur) = 0" "node_heap (table_state xs cur) = Map.empty"
  "fpu_hw (table_state xs cur) = replicate 512 0"
  by (simp_all add: table_state_def)

definition sample_proc :: "u32 \<Rightarrow> u32 \<Rightarrow> proc" where
  "sample_proc pid st = zero_proc\<lparr>p_id := pid, p_status := st\<rparr>"

lemma sample_proc_simps [simp]:
  "p_id (sample_proc pid st) = pid" "p_status (sample_proc pid st) = st" "p_parent (sample_proc pid st) = 0"
  "no_open_fds (sample_proc pid st)" "p_issignaling (sample_proc pid st) = False"
  "p_signal_handler (sample_proc pid st) = 0" "p_child_count (sample_proc pid st) = 0"
  "p_child (sample_proc pid st) = replicate CHILD_MAX 0" "p_fd (sample_proc pid st) = replicate OPEN_MAX zero_fd"
  by (simp_all add: sample_proc_def zero_proc_def no_open_fds_def)

lemma sample_proc_wf [simp]: "proc_wf (sample_proc pid st) \<longleftrightarrow> pid \<noteq> 0"
  by (simp add: proc_wf_def)

lemma table_state_rep:
  "distinct (map fst xs) \<Longrightarrow> 0 \<notin> addrs xs \<Longrightarrow> distinct (pids xs) \<Longrightarrow> \<forall>x \<in> set xs. proc_wf (snd x) \<Longrightarrow>
   proc_rep (table_state xs cur) xs"
  by (simp add: proc_rep_def table_state_def slist_rep_heap_of pids_def)

abbreviation sample_table :: "(ptr \<times> proc) list" where
  "sample_table \<equiv> [(0x1000, sample_proc 1 PROC_RUNNING), (0x2000, sample_proc 2 PROC_READY),
     (0x3000, sample_proc 3 PROC_ZOMBIE)]"

lemma sample_table_rep: "proc_rep (table_state sample_table cur) sample_table"
  by (rule table_state_rep) (simp_all add: pids_def)

subsection \<open>Properties\<close>

text \<open>C1: round-robin scheduling is fair: \<open>k\<close> timer ticks after a tick at which the process at position
  \<open>i\<close> of the table of \<open>n\<close> processes is current, \<open>schedule\<close> has returned every time, the table holds the
  same processes in the same order, and the current process is the one at position \<open>(i + k) mod n\<close>.\<close>

theorem round_robin:
  assumes "regswitch_ok rs" "proc_rep s xs" "i < length xs" "curr_pid s = pids xs ! i"
  shows "\<exists>t ys. run_ticks rs k s = Some t \<and> proc_rep t ys \<and> pids ys = pids xs \<and>
    curr_pid t = pids xs ! ((i + k) mod length xs)"
  by (rule run_ticks_round_robin [OF assms])

lemma regswitch_ok_none: "regswitch_ok (\<lambda>a b s. s)"
  by (auto simp: regswitch_ok_def)

theorem round_robin_witness:
  "\<exists>t ys. run_ticks (\<lambda>a b s. s) 5 (table_state sample_table 2) = Some t \<and> proc_rep t ys \<and>
    pids ys = [1, 2, 3] \<and> curr_pid t = 1"
  using round_robin [OF regswitch_ok_none sample_table_rep, of 1 2 5] by (simp add: pids_def)

text \<open>C2: one tick of \<open>schedule\<close> is a context switch from the current process to its successor in the
  table (from the last to the first): the FPU registers are saved in the old process and loaded from the
  new one, the old process becomes ready and the new one running, no other process is touched, the tick is
  counted and charged to the old process, and the register switch is called on exactly these two.\<close>

theorem schedule_switches:
  assumes "proc_rep s xs" "i < length xs" "curr_pid s = p_id (snd (xs ! i))"
  defines "j \<equiv> Suc i mod length xs"
  defines "ys \<equiv> after_tick (fpu_hw s) (fst (xs ! i)) (fst (xs ! j)) xs"
  shows "\<exists>t. schedule rs s = Some (rs (fst (xs ! i)) (fst (xs ! j)) t) \<and> proc_rep t ys \<and>
    curr_pid t = p_id (snd (xs ! j)) \<and> fpu_hw t = p_fpu (snd (ys ! j)) \<and> ticks t = ticks s + 1 \<and>
    sched_rec t = (sched_rec s)[unat (ticks s) mod SCHED_RECCOUNT := curr_pid s]"
  unfolding ys_def j_def
  by (rule schedule_step [OF assms(1-3) refl refl refl, where regswitch = rs]) blast

theorem schedule_switches_witness:
  "\<exists>t. schedule (\<lambda>a b s. s) (table_state sample_table 3) = Some t \<and> curr_pid t = 1 \<and> ticks t = 1 \<and>
    proc_rep t [(0x1000, sample_proc 1 PROC_RUNNING), (0x2000, sample_proc 2 PROC_READY),
      (0x3000, sample_proc 3 PROC_READY)]"
  using schedule_switches [OF sample_table_rep, of 2 3 "\<lambda>a b s. s"]
  by (auto simp: after_tick_def slist_upd_def sample_proc_def zero_proc_def)

text \<open>C7: \<open>proc_create\<close> with a parent that has room for one more child returns the new structure,
  which enters the table at its head with the next free pid, the state ready, the parent's pid, user,
  group, working directory and terminal, the saved FPU registers and its page directory (a fresh one for a
  user process, the kernel's otherwise); the parent's child array gets the pid in a cleared slot or at its
  end, and nothing else of the table changes.\<close>

theorem proc_create_links_child:
  assumes "proc_rep s xs" "k < length xs" "xs ! k = (parent, pp)" "proc \<noteq> 0" "proc \<notin> addrs xs"
    and "next_pid s \<noteq> 0" "next_pid s \<notin> set (pids xs)"
    and "child_slot pp = Some (i, c)" "pgdir_for isuser (kernel_vm s) = Some (cr3, vm)"
  shows "\<exists>t. proc_create s proc parent name isuser = Some (proc, t) \<and>
    proc_rep t ((proc, new_proc proc (fpu_hw s) cr3 (init_proc (Some pp) [] name isuser (next_pid s))) #
      slist_upd parent (add_child i c (next_pid s)) xs) \<and>
    i < CHILD_MAX \<and> i < unat c \<and> unat c \<le> CHILD_MAX \<and>
    curr_pid t = curr_pid s \<and> next_pid t = next_pid s + 1 \<and> kernel_vm t = vm"
proof -
  have "proc_wf pp" using assms(1-3) by (metis nth_mem proc_rep_def snd_conv)
  note child_slot_bounds [OF this assms(8)]
  then show ?thesis
    using proc_create_child [OF assms, of name] by metis
qed

theorem proc_create_links_child_witness:
  "\<exists>t. proc_create (table_state sample_table 1) 0x4000 0x2000 ''sh'' 0 = Some (0x4000, t) \<and>
    proc_rep t ((0x4000, new_proc 0x4000 (replicate 512 0) 0x100000 (init_proc (Some (sample_proc 2 PROC_READY)) [] ''sh'' 0 9)) #
      slist_upd 0x2000 (add_child 0 1 9) sample_table) \<and> next_pid t = 10"
proof -
  have "child_slot (sample_proc 2 PROC_READY) = Some (0, 1)"
    by (simp add: child_slot_def free_child_slot_def CHILD_MAX_def)
  then show ?thesis
    using proc_create_links_child [OF sample_table_rep [of 1], where k = 1 and proc = "0x4000" and name = "''sh''"
        and isuser = 0 and vm = empty_vm and i = 0 and c = 1]
    by (auto simp: pids_def pgdir_for_def get_krnlpgdir_def empty_vm_def)
qed

text \<open>\<open>proc_create\<close> refuses a 26th child: when every slot of the parent's child array is taken it
  returns \<open>NULL\<close>, sets \<open>errno\<close> to \<open>-NEWLAND_ECHILD\<close> and changes nothing else.\<close>

theorem proc_create_refuses:
  assumes "proc_rep s xs" "k < length xs" "xs ! k = (parent, pp)" "proc \<noteq> 0"
    and "unat (p_child_count pp) = CHILD_MAX" "\<forall>i < CHILD_MAX. p_child pp ! i \<noteq> 0"
  shows "proc_create s proc parent name isuser = Some (0, s\<lparr>errno_var := err ECHILD\<rparr>)"
  by (rule proc_create_full [OF assms(1-3,5,6,4)])

definition full_parent :: proc where
  "full_parent = (sample_proc 2 PROC_READY)\<lparr>p_child := replicate CHILD_MAX 7, p_child_count := 25\<rparr>"

theorem proc_create_refuses_witness:
  "proc_create (table_state [(0x2000, full_parent)] 2) 0x4000 0x2000 ''sh'' 0 =
    Some (0, (table_state [(0x2000, full_parent)] 2)\<lparr>errno_var := err ECHILD\<rparr>)"
proof -
  have wf: "proc_wf full_parent" "p_id full_parent = 2"
    by (simp_all add: full_parent_def proc_wf_def CHILD_MAX_def)
  have "proc_rep (table_state [(0x2000, full_parent)] 2) [(0x2000, full_parent)]"
    by (rule table_state_rep) (simp_all add: pids_def wf)
  from proc_create_refuses [OF this, where k = 0 and proc = "0x4000" and isuser = 0 and name = "''sh''"]
  show ?thesis by (simp add: full_parent_def CHILD_MAX_def)
qed

text \<open>C15: \<open>proc_destroy\<close> of a listed process without open descriptors returns 0 when the block it has
  freed stays readable: the process leaves the table and no other does, its parent, if any, forgets its
  pid in the child array, a page directory of its own is released, and the current pid stays what it was.\<close>

theorem proc_destroy_removes:
  assumes "proc_rep s xs" "(proc, p) \<in> set xs" "no_open_fds p" "p_parent p = 0 \<or> p_parent p \<in> set (pids xs)"
  shows "\<exists>t. proc_destroy kfree_keeps env s proc = Some (0, t) \<and>
    proc_rep t (slist_del proc (parent_told xs p)) \<and> kernel_vm t = freed_dir p (kernel_vm s) \<and>
    curr_pid t = curr_pid s"
  using proc_destroy_kept [OF assms, of env] by metis

theorem proc_destroy_removes_witness:
  "\<exists>t. proc_destroy kfree_keeps no_drivers (table_state sample_table 1) 0x3000 = Some (0, t) \<and>
    proc_rep t [(0x1000, sample_proc 1 PROC_RUNNING), (0x2000, sample_proc 2 PROC_READY)]"
  using proc_destroy_removes [OF sample_table_rep [of 1], of "0x3000" "sample_proc 3 PROC_ZOMBIE" no_drivers]
  by (auto simp: parent_told_def slist_del_def)

text \<open>\<open>proc_destroy\<close> never works with an allocator that takes the block back at once: it removes the
  structure from the table only after \<open>kfree\<close>, so that the unlinking reads freed memory. Every call on a
  listed process without open descriptors whose parent is alive faults.\<close>

theorem proc_destroy_reads_freed:
  assumes "proc_rep s xs" "(proc, p) \<in> set xs" "no_open_fds p" "p_parent p = 0 \<or> p_parent p \<in> set (pids xs)"
  shows "proc_destroy heap_free env s proc = None"
  by (rule proc_destroy_freed [OF assms])

theorem proc_destroy_reads_freed_witness:
  "proc_destroy heap_free no_drivers (table_state sample_table 1) 0x3000 = None"
  by (rule proc_destroy_reads_freed [OF sample_table_rep, where p = "sample_proc 3 PROC_ZOMBIE"]) simp_all

text \<open>Destroying a process whose parent has been destroyed before faults, whatever the allocator does:
  \<open>proc_destroy\<close> looks the parent up by pid and writes through the \<open>NULL\<close> it gets.\<close>

theorem proc_destroy_orphan:
  assumes "proc_rep s xs" "(proc, p) \<in> set xs" "no_open_fds p"
    and "p_parent p \<noteq> 0" "p_parent p \<notin> set (pids xs)" "proc_heap s 0 = None"
  shows "proc_destroy kfree env s proc = None"
  by (rule proc_destroy_parent_gone [OF assms])

theorem proc_destroy_orphan_witness:
  "proc_destroy kfree_keeps no_drivers (table_state [(0x2000, (sample_proc 2 PROC_READY)\<lparr>p_parent := 1\<rparr>)] 2) 0x2000 = None"
  by (rule proc_destroy_orphan [OF table_state_rep, where p = "(sample_proc 2 PROC_READY)\<lparr>p_parent := 1\<rparr>"])
    (simp_all add: pids_def proc_wf_def CHILD_MAX_def no_open_fds_def)

text \<open>A parent forgets live children. \<open>proc_destroy\<close> clears the slot of the child that died and also
  decrements \<open>child_count\<close>, the bound up to which slots are searched. After the first of \<open>n\<close> children dies
  and one more is created, the next one is given slot \<open>n - 1\<close>, which still holds the pid of a living child
  and is overwritten.\<close>

theorem child_slot_overwritten:
  assumes "proc_wf p" "2 \<le> unat (p_child_count p)" "\<forall>k < unat (p_child_count p). p_child p ! k \<noteq> 0" "pid \<noteq> 0"
  shows "child_slot (create_in_slot pid (remove_child (p_child p ! 0) p)) =
      Some (unat (p_child_count p) - 1, p_child_count p) \<and>
    p_child (create_in_slot pid (remove_child (p_child p ! 0) p)) ! (unat (p_child_count p) - 1) =
      p_child p ! (unat (p_child_count p) - 1)"
  using child_slot_reuse [OF assms] by blast

theorem child_slot_overwritten_witness:
  "child_slot (create_in_slot 9 (remove_child 7 full_parent)) = Some (24, 25)"
  using child_slot_overwritten [of full_parent 9]
  by (simp add: full_parent_def proc_wf_def CHILD_MAX_def)

text \<open>C16: \<open>processes_cleanup\<close> reaps the zombies and no one else, in one pass, with an allocator that keeps
  freed blocks readable, when the zombies have no parent and no open descriptors.\<close>

theorem cleanup_reaps_zombies:
  assumes "proc_rep s xs" "\<forall>x \<in> set xs. reapable (snd x)"
  shows "\<exists>t. processes_cleanup kfree_keeps env s = Some t \<and>
    proc_rep t (filter (\<lambda>x. p_status (snd x) \<noteq> PROC_ZOMBIE) xs) \<and> curr_pid t = curr_pid s"
  using processes_cleanup_keeps [OF assms, of env] unfolding alive_def by metis

theorem cleanup_reaps_zombies_witness:
  "\<exists>t. processes_cleanup kfree_keeps no_drivers (table_state sample_table 1) = Some t \<and>
    proc_rep t [(0x1000, sample_proc 1 PROC_RUNNING), (0x2000, sample_proc 2 PROC_READY)]"
  using cleanup_reaps_zombies [OF sample_table_rep [of 1], of no_drivers]
  by (auto simp: reapable_def PROC_status_defs)

text \<open>When the current process is no longer in the table, as after \<open>proc_destroy\<close> of the running
  process, \<open>schedule\<close> does nothing, so that no later tick ever picks another process.\<close>

theorem schedule_stops:
  assumes "proc_rep s xs" "curr_pid s \<noteq> 0" "curr_pid s \<notin> set (pids xs)"
  shows "run_ticks rs k s = Some s"
  by (induction k) (simp_all add: schedule_stuck [OF assms])

theorem schedule_stops_witness:
  "run_ticks (\<lambda>a b s. s) 4 (table_state sample_table 8) = Some (table_state sample_table 8)"
  by (rule schedule_stops [OF sample_table_rep]) (simp_all add: pids_def)

text \<open>Entering and leaving a signal. A process with a handler that is not in a signal enters it
  (\<open>issignaling\<close> and the number are set) and \<open>proc_sigleave\<close> brings its flags back to where they were, with
  the signal number cleared; no other process changes.\<close>

theorem signal_enter_leave:
  assumes "proc_rep s xs" "k < length xs" "xs ! k = (proc, p)" "\<not> p_issignaling p" "p_signal_handler p \<noteq> 0"
  shows "\<exists>t u. proc_sigenter s proc signum 0 n = Some (0, t) \<and>
    proc_rep t (slist_upd proc (\<lambda>p. p\<lparr>p_issignaling := True, p_signum := signum\<rparr>) xs) \<and>
    proc_sigleave t proc = Some (0, u) \<and> proc_rep u (slist_upd proc (\<lambda>p. p\<lparr>p_signum := 0\<rparr>) xs)"
  using sigenter_leave [OF assms, of signum n] by metis

theorem signal_enter_leave_witness:
  "\<exists>t u. proc_sigenter (table_state [(0x2000, (sample_proc 2 PROC_READY)\<lparr>p_signal_handler := 77\<rparr>)] 2) 0x2000 SIGFPE 0 0 = Some (0, t) \<and>
    proc_sigleave t 0x2000 = Some (0, u)"
  using signal_enter_leave [OF table_state_rep, of "[(0x2000, (sample_proc 2 PROC_READY)\<lparr>p_signal_handler := 77\<rparr>)]"
      0 "0x2000" "(sample_proc 2 PROC_READY)\<lparr>p_signal_handler := 77\<rparr>" 2 SIGFPE 0]
  by (auto simp: pids_def proc_wf_def CHILD_MAX_def)

end
