(* ===== verification/Printf.thy ===== *)
theory Printf
  imports Prelude
begin

text \<open>
  Formatted output of the C library: \<^verbatim>\<open>libraries/libc/src/stdio/vsnprintf.c\<close>,
  \<^verbatim>\<open>libraries/libc/src/string/itoa.c\<close> and \<^verbatim>\<open>libraries/libc/src/stdlib/ultoa.c\<close>.

  The buffer is the list of its characters: storing past its end is a fault (\<open>None\<close>). The
  variable arguments are a list in call order; an argument of the wrong kind, or none, is a
  fault. A \<open>%f\<close> argument is given as the characters that are copied for it, as many of the text of
  \<open>ftoa\<close> as it counts, the terminator included (theory \<open>Ftoa\<close>). The count \<open>wrote\<close> is a natural number; it stays far below
  \<open>2\<^sup>3\<^sup>1\<close> for any buffer of the program.
\<close>

definition digits16 :: string where
  "digits16 = ''0123456789ABCDEF''"

text \<open>The loop of \<open>convert\<close>, which fills a buffer from its end.\<close>

function convert_loop :: "nat \<Rightarrow> nat \<Rightarrow> string \<Rightarrow> string" where
  "convert_loop num base acc =
     (let acc' = digits16 ! (num mod base) # acc; num' = num div base
      in if num' = 0 \<or> base < 2 then acc' else convert_loop num' base acc')"
  by pat_completeness auto

termination
proof (relation "measure (\<lambda>(num, base, acc). num)")
  fix num base :: nat and acc acc' :: string and num'
  assume n: "num' = num div base" "\<not> (num' = 0 \<or> base < 2)"
  then have "0 < num" by (cases num) simp_all
  then show "((num', base, acc'), (num, base, acc)) \<in> measure (\<lambda>(num, base, acc). num)"
    using n by (simp add: div_less_dividend)
qed simp

declare convert_loop.simps [simp del]

definition convert :: "u32 \<Rightarrow> nat \<Rightarrow> string" where
  "convert num base = convert_loop (unat num) base []"

datatype arg = AInt u32 | AStr "string option" | AFlt string

definition put :: "char list \<Rightarrow> nat \<Rightarrow> char \<Rightarrow> char list option" where
  "put buf i c = (if i < length buf then Some (buf[i := c]) else None)"

text \<open>\<open>if (wrote < size) str[wrote] = c\<close>, and the same guard before a \<open>strncpy\<close> of all of \<open>s\<close>.\<close>

definition emit :: "nat \<Rightarrow> char \<Rightarrow> nat \<times> char list \<Rightarrow> (nat \<times> char list) option" where
  "emit sz c wb = (case wb of (wrote, buf) \<Rightarrow>
     if wrote < sz then map_option (Pair (wrote + 1)) (put buf wrote c) else Some (wrote + 1, buf))"

definition emits :: "nat \<Rightarrow> string \<Rightarrow> nat \<times> char list \<Rightarrow> (nat \<times> char list) option" where
  "emits sz s wb = (case wb of (wrote, buf) \<Rightarrow>
     if wrote < sz
     then if s = [] then Some (wrote, buf)
          else if wrote + length s \<le> length buf
          then Some (wrote + length s, take wrote buf @ s @ drop (wrote + length s) buf)
          else None
     else Some (wrote + length s, buf))"

text \<open>One conversion, after the percent sign; an unknown letter prints nothing.\<close>

definition conv :: "nat \<Rightarrow> char \<Rightarrow> arg list \<Rightarrow> nat \<times> char list \<Rightarrow> (arg list \<times> nat \<times> char list) option" where
  "conv sz c args wb =
     (if c = CHR ''c'' then (case args of AInt i # rest \<Rightarrow> map_option (Pair rest) (emit sz c wb) | _ \<Rightarrow> None)
      else if c = CHR ''d'' then (case args of
          AInt i # rest \<Rightarrow>
            if sint i < 0 then do { wb1 \<leftarrow> emit sz CHR 0x2D wb; wb2 \<leftarrow> emits sz (convert (- i) 10) wb1; Some (rest, wb2) }
            else map_option (Pair rest) (emits sz (convert i 10) wb)
        | _ \<Rightarrow> None)
      else if c = CHR ''o'' \<or> c = CHR ''x'' \<or> c = CHR ''l'' then (case args of
          AInt i # rest \<Rightarrow> map_option (Pair rest) (emits sz (convert i 10) wb) | _ \<Rightarrow> None)
      else if c = CHR ''s'' then (case args of
          AStr t # rest \<Rightarrow> map_option (Pair rest) (emits sz (case t of None \<Rightarrow> ''(null)'' | Some t \<Rightarrow> t) wb)
        | _ \<Rightarrow> None)
      else if c = CHR ''f'' then (case args of
          AFlt t # rest \<Rightarrow> map_option (Pair rest) (emits sz t wb) | _ \<Rightarrow> None)
      else if c = CHR 0x25 then map_option (Pair args) (emit sz CHR 0x25 wb)
      else Some (args, wb))"

text \<open>The scan of the format; a format that ends after a percent sign is read past its end.\<close>

fun scan_fmt :: "nat \<Rightarrow> string \<Rightarrow> arg list \<Rightarrow> nat \<times> char list \<Rightarrow> (nat \<times> char list) option" where
  "scan_fmt sz [] args wb = Some wb"
| "scan_fmt sz (c # cs) args wb =
     (if c \<noteq> CHR 0x25 then Option.bind (emit sz c wb) (scan_fmt sz cs args)
      else case cs of
        [] \<Rightarrow> None
      | d # ds \<Rightarrow> Option.bind (conv sz d args wb) (\<lambda>(rest, wb1). scan_fmt sz ds rest wb1))"

definition vsnprintf :: "char list \<Rightarrow> nat \<Rightarrow> string \<Rightarrow> arg list \<Rightarrow> (int \<times> char list) option" where
  "vsnprintf str sz format ap = do {
     (wrote, buf) \<leftarrow> scan_fmt sz format ap (0, str);
     buf' \<leftarrow> put buf wrote CHR 0x00;
     Some (int wrote - 1, buf')
   }"

subsection \<open>itoa and ultoa\<close>

text \<open>The digits as they are produced, lowest first, and the loop that reverses them in place.\<close>

definition itoa_char :: "nat \<Rightarrow> char" where
  "itoa_char r = (if r < 10 then digit_char r else char_of (r + 97 - 10))"

fun itoa_digits :: "nat \<Rightarrow> bool \<Rightarrow> string" where
  "itoa_digits ud hex =
     (let divisor = (if hex then 16 else 10)
      in itoa_char (ud mod divisor) # (if ud div divisor = 0 then [] else itoa_digits (ud div divisor) hex))"

declare itoa_digits.simps [simp del]

function swap_loop :: "nat \<Rightarrow> nat \<Rightarrow> nat \<Rightarrow> 'a list \<Rightarrow> nat \<times> 'a list" where
  "swap_loop p1 p2 wrote xs =
     (if p1 < p2 then swap_loop (p1 + 1) (p2 - 1) (wrote + 1) (xs[p1 := xs ! p2, p2 := xs ! p1]) else (wrote, xs))"
  by pat_completeness auto

termination
  by (relation "measure (\<lambda>(p1, p2, wrote, xs). p2 - p1)") auto

declare swap_loop.simps [simp del]

definition itoa :: "u32 \<Rightarrow> u32 \<Rightarrow> nat \<times> string" where
  "itoa base d =
     (let neg = (base = 0x64 \<and> sint d < 0);
          ds = itoa_digits (unat (if neg then - d else d)) (\<not> neg \<and> base = 0x78);
          (wrote, s) = swap_loop 0 (length ds - 1) (if neg then 1 else 0) ds
      in (wrote, if neg then CHR 0x2D # s else s))"

text \<open>\<open>ultoa\<close> counts the digits, then stores them downwards; the result starts where it stops.\<close>

function count_digits :: "nat \<Rightarrow> nat \<Rightarrow> nat" where
  "count_digits tmp base = (if tmp > 0 \<and> base \<ge> 2 then Suc (count_digits (tmp div base) base) else 0)"
  by pat_completeness auto

termination
  by (relation "measure fst") auto

declare count_digits.simps [simp del]

text \<open>Digits from sixteen up are not stored at all.\<close>

function ultoa_loop :: "nat \<Rightarrow> nat \<Rightarrow> string \<Rightarrow> string" where
  "ultoa_loop value base acc =
     (let t = value div base; res = value - base * t;
          acc' = (if res < 10 then digit_char res # acc
                  else if res < 16 then char_of (65 - 10 + res) # acc else acc)
      in if t = 0 \<or> base < 2 then acc' else ultoa_loop t base acc')"
  by pat_completeness auto

termination
proof (relation "measure fst")
  fix num base t res :: nat and acc acc' :: string
  assume n: "t = num div base" "\<not> (t = 0 \<or> base < 2)"
  then have "0 < num" by (cases num) simp_all
  then show "((t, base, acc'), (num, base, acc)) \<in> measure fst"
    using n by (simp add: div_less_dividend)
qed simp

declare ultoa_loop.simps [simp del]

text \<open>
  The result is the offset of the returned pointer from \<open>ptr\<close> and the text there. Bases 0 and 1
  divide by zero or do not end.
\<close>

definition ultoa :: "u32 \<Rightarrow> nat \<Rightarrow> (int \<times> string) option" where
  "ultoa value base =
     (if base < 2 then None
      else let count = (if value = 0 then 1 else count_digits (unat value) base);
               s = ultoa_loop (unat value) base []
        in Some (int count - int (length s), s))"

subsection \<open>Numbers\<close>

lemma nth_digits16: "d < 10 \<Longrightarrow> digits16 ! d = digit_char d"
proof -
  assume "d < 10"
  then have "d \<in> set [0..<10]" by simp
  moreover have "\<forall>d \<in> set [0..<10]. digits16 ! d = digit_char d" by code_simp
  ultimately show ?thesis by blast
qed

lemma convert_loop_dec: "convert_loop n 10 acc = dec_digits n @ acc"
proof (induction n arbitrary: acc rule: dec_digits.induct)
  case (1 n)
  show ?case
  proof (cases "n < 10")
    case True
    then show ?thesis by (subst convert_loop.simps, subst dec_digits.simps) (simp add: nth_digits16 Let_def)
  next
    case False
    then have "n div 10 \<noteq> 0" by (simp add: div_eq_0_iff)
    then show ?thesis using 1 False
      by (subst convert_loop.simps, subst dec_digits.simps) (simp add: nth_digits16 Let_def)
  qed
qed

lemma convert_dec: "convert n 10 = dec_digits (unat n)"
  by (simp add: convert_def convert_loop_dec)

definition read_dec :: "string \<Rightarrow> nat" where
  "read_dec s = fold (\<lambda>c v. 10 * v + (of_char c - 48)) s 0"

lemma read_dec_snoc: "read_dec (s @ [c]) = 10 * read_dec s + (of_char c - 48)"
  by (simp add: read_dec_def)

lemma of_char_digit: "d < 10 \<Longrightarrow> of_char (digit_char d) - 48 = (d :: nat)"
  by (simp add: digit_char_def of_char_of)

lemma read_dec_digits: "read_dec (dec_digits n) = n"
proof (induction n rule: dec_digits.induct)
  case (1 n)
  show ?case
  proof (cases "n < 10")
    case True
    then show ?thesis by (subst dec_digits.simps) (simp add: read_dec_def of_char_digit)
  next
    case False
    then show ?thesis using 1 by (subst dec_digits.simps) (simp add: read_dec_snoc of_char_digit)
  qed
qed

lemma dec_digits_not_Nil [simp]: "dec_digits n \<noteq> []"
  by (subst dec_digits.simps) simp

subsection \<open>What is printed\<close>

text \<open>
  The text a format stands for, as this implementation reads it: \<open>%c\<close> prints the letter c, \<open>%o\<close>
  and \<open>%x\<close> print in base ten, \<open>%l\<close> prints a number and leaves the next letter to be printed.
\<close>

definition text_conv :: "char \<Rightarrow> arg list \<Rightarrow> (arg list \<times> string) option" where
  "text_conv c args =
     (if c = CHR ''c'' then (case args of AInt i # rest \<Rightarrow> Some (rest, ''c'') | _ \<Rightarrow> None)
      else if c = CHR ''d'' then (case args of AInt i # rest \<Rightarrow> Some (rest, sdec i) | _ \<Rightarrow> None)
      else if c = CHR ''o'' \<or> c = CHR ''x'' \<or> c = CHR ''l''
      then (case args of AInt i # rest \<Rightarrow> Some (rest, dec_digits (unat i)) | _ \<Rightarrow> None)
      else if c = CHR ''s''
      then (case args of AStr t # rest \<Rightarrow> Some (rest, case t of None \<Rightarrow> ''(null)'' | Some t \<Rightarrow> t) | _ \<Rightarrow> None)
      else if c = CHR ''f'' then (case args of AFlt t # rest \<Rightarrow> Some (rest, t) | _ \<Rightarrow> None)
      else if c = CHR 0x25 then Some (args, [CHR 0x25])
      else Some (args, []))"

fun text_of :: "string \<Rightarrow> arg list \<Rightarrow> string option" where
  "text_of [] args = Some []"
| "text_of (c # cs) args =
     (if c \<noteq> CHR 0x25 then map_option (Cons c) (text_of cs args)
      else case cs of
        [] \<Rightarrow> None
      | d # ds \<Rightarrow> Option.bind (text_conv d args) (\<lambda>(rest, t). map_option (append t) (text_of ds rest)))"

text \<open>The state of the scan after printing \<open>out\<close> into the buffer \<open>str\<close> of \<open>sz\<close> characters.\<close>

definition printed :: "nat \<Rightarrow> string \<Rightarrow> string \<Rightarrow> nat \<times> char list \<Rightarrow> bool" where
  "printed sz str out wb \<longleftrightarrow> fst wb = length out \<and> length (snd wb) = sz \<and>
     (length out \<le> sz \<longrightarrow> snd wb = out @ drop (length out) str)"

definition outcome :: "nat \<Rightarrow> string \<Rightarrow> string \<Rightarrow> (nat \<times> char list) option \<Rightarrow> bool" where
  "outcome sz str out r \<longleftrightarrow> (case r of None \<Rightarrow> sz < length out | Some wb \<Rightarrow> printed sz str out wb)"

lemma outcome_bind:
  assumes "outcome sz str out r" "\<And>wb. r = Some wb \<Longrightarrow> printed sz str out wb \<Longrightarrow> outcome sz str (out @ t) (f wb)"
  shows "outcome sz str (out @ t) (Option.bind r f)"
  using assms by (cases r) (auto simp: outcome_def)

lemma emit_printed:
  assumes "length str = sz" "printed sz str out wb"
  shows "outcome sz str (out @ [c]) (emit sz c wb)"
proof (cases "length out < sz")
  case True
  then have w: "wb = (length out, out @ drop (length out) str)" using assms(2) by (cases wb) (simp add: printed_def)
  have d: "drop (length out) str = str ! length out # drop (Suc (length out)) str"
    using True assms(1) by (simp add: Cons_nth_drop_Suc)
  show ?thesis using True assms(1) w by (simp add: emit_def put_def outcome_def printed_def d)
next
  case False
  then show ?thesis using assms by (cases wb) (auto simp: emit_def outcome_def printed_def)
qed

lemma emits_printed:
  assumes "length str = sz" "printed sz str out wb"
  shows "outcome sz str (out @ t) (emits sz t wb)"
proof (cases "length out < sz")
  case True
  then have w: "wb = (length out, out @ drop (length out) str)" using assms(2) by (cases wb) (simp add: printed_def)
  then show ?thesis using True assms(1) by (auto simp: emits_def outcome_def printed_def add.commute)
next
  case False
  then show ?thesis using assms by (cases wb) (auto simp: emits_def outcome_def printed_def)
qed

lemma unat_uminus_sint:
  fixes i :: u32
  assumes "sint i < 0"
  shows "unat (- i) = nat (- sint i)"
proof -
  have "- (2 ^ 31) \<le> sint i" using sint_ge [of i] by simp
  then have b: "0 \<le> - sint i" "- sint i < 2 ^ 32" using assms by simp_all
  have "- i = word_of_int (- sint i)" by simp
  then have "uint (- i) = take_bit 32 (- sint i)" by (simp only: uint_word_of_int) (simp add: take_bit_eq_mod)
  also have "\<dots> = - sint i" by (rule take_bit_int_eq_self) (use b in simp_all)
  finally show ?thesis by (metis unat_eq_nat_uint)
qed

lemma sdec_neg: "sint i < 0 \<Longrightarrow> sdec i = CHR 0x2D # dec_digits (unat (- i))"
  by (simp add: sdec_def unat_uminus_sint)

lemma conv_printed:
  assumes sz: "length str = sz" and wb: "printed sz str out wb" and t: "text_conv c args = Some (rest, t)"
  shows "(case conv sz c args wb of None \<Rightarrow> sz < length (out @ t) | Some (rest', wb') \<Rightarrow>
    rest' = rest \<and> printed sz str (out @ t) wb')"
proof -
  have lift: "(case map_option (Pair rest) r of None \<Rightarrow> sz < length (out @ u) | Some (rest', wb') \<Rightarrow>
      rest' = rest \<and> printed sz str (out @ u) wb')" if "outcome sz str (out @ u) r" for r u
    using that by (cases r) (auto simp: outcome_def)
  note em = lift [OF emit_printed [OF sz wb]] and ems = lift [OF emits_printed [OF sz wb]]
  show ?thesis
  proof (cases "c = CHR ''d''")
    case True
    then obtain i where i: "args = AInt i # rest" "t = sdec i"
      using t by (auto simp: text_conv_def split: list.splits arg.splits)
    show ?thesis
    proof (cases "sint i < 0")
      case True
      have "outcome sz str ((out @ [CHR 0x2D]) @ dec_digits (unat (- i)))
          (Option.bind (emit sz CHR 0x2D wb) (emits sz (convert (- i) 10)))"
        unfolding convert_dec by (rule outcome_bind [OF emit_printed [OF sz wb]]) (rule emits_printed [OF sz])
      then have o: "outcome sz str (out @ t) (Option.bind (emit sz CHR 0x2D wb) (emits sz (convert (- i) 10)))"
        using i(2) sdec_neg [OF True] by simp
      have "conv sz c args wb = map_option (Pair rest) (Option.bind (emit sz CHR 0x2D wb) (emits sz (convert (- i) 10)))"
        using \<open>c = CHR ''d''\<close> i(1) True by (cases "emit sz CHR 0x2D wb") (simp_all add: conv_def map_option_case Option.bind_def split: option.splits)
      then show ?thesis using lift [OF o] by simp
    next
      case False
      then show ?thesis using \<open>c = CHR ''d''\<close> i ems [of t] by (simp add: conv_def convert_dec sdec_def)
    qed
  next
    case False
    consider "c = CHR ''c''" | "c = CHR ''o'' \<or> c = CHR ''x'' \<or> c = CHR ''l''" | "c = CHR ''s''" | "c = CHR ''f''"
      | "c = CHR 0x25" | "c \<notin> {CHR ''c'', CHR ''o'', CHR ''x'', CHR ''l'', CHR ''s'', CHR ''f'', CHR 0x25}" by blast
    then show ?thesis
    proof cases
      case 1
      then obtain i where "args = AInt i # rest" and c: "t = [c]"
        using t by (simp add: text_conv_def split: list.splits arg.splits)
      then show ?thesis using 1 em [of c] unfolding c by (simp add: conv_def)
    next
      case 2
      then have "text_conv c args = (case args of AInt i # rest \<Rightarrow> Some (rest, dec_digits (unat i)) | _ \<Rightarrow> None)"
        unfolding text_conv_def by (elim disjE) simp_all
      then obtain i where "args = AInt i # rest" "t = dec_digits (unat i)"
        using t by (simp split: list.splits arg.splits)
      moreover have "c \<noteq> CHR ''c''" using 2 by auto
      ultimately show ?thesis using False 2 ems [of t] by (simp add: conv_def convert_dec)
    next
      case 3
      then obtain u where "args = AStr u # rest" "t = (case u of None \<Rightarrow> ''(null)'' | Some t \<Rightarrow> t)"
        using t by (simp add: text_conv_def split: list.splits arg.splits)
      then show ?thesis using 3 ems [of t] by (simp add: conv_def)
    next
      case 4
      then obtain u where "args = AFlt u # rest" "t = u"
        using t by (simp add: text_conv_def split: list.splits arg.splits)
      then show ?thesis using 4 ems [of t] by (simp add: conv_def)
    next
      case 5
      then have "args = rest" and c: "t = [c]" using t by (simp_all add: text_conv_def)
      then show ?thesis using 5 em [of c] unfolding c by (simp add: conv_def)
    next
      case 6
      then have "args = rest" "t = []" using False t by (simp_all add: text_conv_def)
      then show ?thesis using 6 False wb by (simp add: conv_def)
    qed
  qed
qed

lemma scan_fmt_printed:
  "length str = sz \<Longrightarrow> printed sz str out wb \<Longrightarrow> text_of fmt args = Some t \<Longrightarrow>
   outcome sz str (out @ t) (scan_fmt sz fmt args wb)"
proof (induction sz fmt args wb arbitrary: out t rule: scan_fmt.induct)
  case (1 sz args wb)
  then show ?case by (simp add: outcome_def)
next
  case (2 sz c cs args wb)
  show ?case
  proof (cases "c = CHR 0x25")
    case False
    then obtain u where u: "text_of cs args = Some u" "t = c # u" using 2(5) by auto
    have "outcome sz str ((out @ [c]) @ u) (Option.bind (emit sz c wb) (scan_fmt sz cs args))"
    proof (rule outcome_bind [OF emit_printed [OF 2(3,4)]])
      fix wb' assume wb': "emit sz c wb = Some wb'" "printed sz str (out @ [c]) wb'"
      show "outcome sz str ((out @ [c]) @ u) (scan_fmt sz cs args wb')"
        by (rule 2(1) [OF False wb'(1) 2(3) wb'(2) u(1)])
    qed
    then show ?thesis using False u(2) by simp
  next
    case True
    show ?thesis
    proof (cases cs)
      case Nil
      then show ?thesis using True 2(5) by simp
    next
      case (Cons d ds)
      then obtain rest u v where u: "text_conv d args = Some (rest, u)" "text_of ds rest = Some v" "t = u @ v"
        using True 2(5) by (auto split: Option.bind_splits)
      show ?thesis
      proof (cases "conv sz d args wb")
        case None
        then show ?thesis using conv_printed [OF 2(3,4) u(1)] True Cons u(3) by (simp add: outcome_def)
      next
        case (Some rw)
        then obtain wb' where w: "conv sz d args wb = Some (rest, wb')" "printed sz str (out @ u) wb'"
          using conv_printed [OF 2(3,4) u(1)] by (cases rw) simp
        have "outcome sz str ((out @ u) @ v) (scan_fmt sz ds rest wb')"
          using 2(2) [of d ds "(rest, wb')" rest wb' "out @ u" v] True Cons 2(3) w u(2) by simp
        then show ?thesis using True Cons w(1) u(3) by simp
      qed
    qed
  qed
qed

lemma vsnprintf_exact:
  assumes "length str = sz" "text_of fmt args = Some t"
  shows "vsnprintf str sz fmt args =
    (if length t < sz then Some (int (length t) - 1, t @ CHR 0x00 # drop (Suc (length t)) str) else None)"
proof -
  have "printed sz str [] (0, str)" using assms(1) by (simp add: printed_def)
  from scan_fmt_printed [OF assms(1) this assms(2)]
  have o: "outcome sz str t (scan_fmt sz fmt args (0, str))" by simp
  show ?thesis
  proof (cases "scan_fmt sz fmt args (0, str)")
    case None
    then show ?thesis using o by (simp add: outcome_def vsnprintf_def)
  next
    case (Some wb)
    then have p: "printed sz str t wb" using o by (simp add: outcome_def)
    show ?thesis
    proof (cases "length t < sz")
      case True
      then have w: "wb = (length t, t @ drop (length t) str)" using p by (cases wb) (simp add: printed_def)
      have "drop (length t) str = str ! length t # drop (Suc (length t)) str"
        using True assms(1) by (simp add: Cons_nth_drop_Suc)
      then show ?thesis using True assms(1) Some w by (simp add: vsnprintf_def put_def)
    next
      case False
      then show ?thesis using Some p by (cases wb) (simp add: vsnprintf_def put_def printed_def)
    qed
  qed
qed

subsection \<open>itoa and ultoa print the same digits\<close>

lemma swap_loop_rev:
  "xs = us @ vs @ ws \<Longrightarrow> p1 = length us \<Longrightarrow> p2 = length us + length vs - 1 \<Longrightarrow> vs \<noteq> [] \<Longrightarrow>
   swap_loop p1 p2 w xs = (w + length vs div 2, us @ rev vs @ ws)"
proof (induction "length vs" arbitrary: xs us vs ws p1 p2 w rule: less_induct)
  case less
  show ?case
  proof (cases "length vs \<le> 1")
    case True
    then obtain v where "vs = [v]" using less.prems(4) by (cases vs) auto
    then show ?thesis using less.prems by (subst swap_loop.simps) simp
  next
    case False
    then obtain a zs b where v: "vs = a # zs @ [b]"
      by (metis One_nat_def append_butlast_last_id append_eq_Cons_conv length_append_singleton length_0_conv
        le_simps(1) lessI neq_Nil_conv less_Suc0 linorder_not_less list.size(4) plus_1_eq_Suc list.distinct(1))
    have step: "xs[p1 := xs ! p2, p2 := xs ! p1] = us @ b # zs @ a # ws"
      using less.prems(1-3) v by (simp add: nth_append list_update_append)
    have go: "p1 < p2" using less.prems(2,3) v by simp
    show ?thesis
    proof (cases "zs = []")
      case True
      then show ?thesis using go step less.prems(2,3) v
        by (subst swap_loop.simps, simp, subst swap_loop.simps, simp)
    next
      case zs: False
      have "swap_loop (p1 + 1) (p2 - 1) (w + 1) (us @ b # zs @ a # ws) =
          (w + 1 + length zs div 2, (us @ [b]) @ rev zs @ a # ws)"
        by (rule less.hyps) (use zs v less.prems(2,3) in auto)
      then show ?thesis using go step v by (subst swap_loop.simps) simp
    qed
  qed
qed

lemma itoa_digits_not_Nil [simp]: "itoa_digits n b \<noteq> []"
  by (subst itoa_digits.simps) (simp add: Let_def)

lemma rev_itoa_digits: "rev (itoa_digits n False) = dec_digits n"
proof (induction n rule: dec_digits.induct)
  case (1 n)
  have "n div 10 = 0 \<longleftrightarrow> \<not> 10 \<le> n" by (simp add: div_eq_0_iff not_le)
  then show ?case using 1
    by (subst itoa_digits.simps, subst dec_digits.simps) (simp add: itoa_char_def Let_def)
qed

lemma length_itoa_digits: "length (itoa_digits n False) = length (dec_digits n)"
  using arg_cong [OF rev_itoa_digits [of n], of length] by simp

lemma itoa_dec:
  assumes "base \<noteq> 0x78"
  shows "snd (itoa base d) = (if base = 0x64 then sdec d else dec_digits (unat d))"
    and "fst (itoa base d) = (if base = 0x64 \<and> sint d < 0 then 1 + length (dec_digits (unat (- d))) div 2
      else length (dec_digits (unat d)) div 2)"
proof -
  have sw: "swap_loop 0 (length (itoa_digits n False) - 1) w (itoa_digits n False) =
      (w + length (dec_digits n) div 2, dec_digits n)" for n w
    using swap_loop_rev [of "itoa_digits n False" "[]" "itoa_digits n False" "[]" 0 _ w]
    by (simp add: rev_itoa_digits length_itoa_digits)
  have "itoa base d = (if base = 0x64 \<and> sint d < 0
      then (1 + length (dec_digits (unat (- d))) div 2, CHR 0x2D # dec_digits (unat (- d)))
      else (length (dec_digits (unat d)) div 2, dec_digits (unat d)))"
    using assms sw [of "unat (- d)" 1] sw [of "unat d" 0] by (auto simp: itoa_def Let_def)
  then show "snd (itoa base d) = (if base = 0x64 then sdec d else dec_digits (unat d))"
    "fst (itoa base d) = (if base = 0x64 \<and> sint d < 0 then 1 + length (dec_digits (unat (- d))) div 2
      else length (dec_digits (unat d)) div 2)"
    using sdec_neg [of d] by (auto simp: sdec_def)
qed

lemma ultoa_loop_length:
  "2 \<le> base \<Longrightarrow> base \<le> 16 \<Longrightarrow> length (ultoa_loop n base acc) = max 1 (count_digits n base) + length acc"
proof (induction n base acc rule: ultoa_loop.induct)
  case (1 n base acc)
  have res: "n - base * (n div base) < 16"
  proof -
    have "n mod base < base" using 1(2) by simp
    then have "n mod base < 16" using 1(3) by linarith
    then show ?thesis by (simp add: minus_mult_div_eq_mod)
  qed
  show ?case
  proof (cases "n div base = 0")
    case True
    then have "n < base" using 1(2) by (simp add: div_eq_0_iff)
    then have "count_digits n base \<le> 1"
      by (subst count_digits.simps, subst count_digits.simps) simp
    then show ?thesis using True res by (subst ultoa_loop.simps) (simp add: Let_def)
  next
    case False
    then have "n > 0" by (cases n) simp_all
    then have c: "count_digits n base = Suc (count_digits (n div base) base)"
      using 1(2) by (subst count_digits.simps) simp
    have "0 < count_digits (n div base) base" using False 1(2) by (subst count_digits.simps) simp
    then show ?thesis using 1(1) [OF refl refl refl] False 1(2,3) res c
      by (subst ultoa_loop.simps) (auto simp: Let_def)
  qed
qed

lemma ultoa_loop_convert:
  "2 \<le> base \<Longrightarrow> base \<le> 16 \<Longrightarrow> ultoa_loop n base acc = convert_loop n base acc"
proof (induction n base acc rule: ultoa_loop.induct)
  case (1 n base acc)
  let ?r = "n mod base"
  have "?r < base" using 1(2) by simp
  then have r: "?r < 16" using 1(3) by linarith
  then have "?r \<in> set [0..<16]" by simp
  moreover have "\<forall>d \<in> set [0..<16]. digits16 ! d = (if d < 10 then digit_char d else char_of (65 - 10 + d))"
    by code_simp
  ultimately have d: "digits16 ! ?r = (if ?r < 10 then digit_char ?r else char_of (65 - 10 + ?r))" by blast
  have m: "n - base * (n div base) = ?r" by (simp add: minus_mult_div_eq_mod)
  show ?case
  proof (cases "n div base = 0")
    case True
    then show ?thesis using r d m by (subst ultoa_loop.simps, subst convert_loop.simps) (simp only: Let_def, simp)
  next
    case False
    have b: "\<not> (n div base = 0 \<or> base < 2)" using False 1(2) by simp
    from 1(1) [OF refl refl refl b 1(2,3)] show ?thesis using b r d m
      by (subst ultoa_loop.simps, subst convert_loop.simps) (simp only: Let_def, simp)
  qed
qed

lemma ultoa_convert:
  assumes "2 \<le> base" "base \<le> 16"
  shows "ultoa v base = Some (0, convert v base)"
proof -
  have "count_digits 0 base = 0" by (subst count_digits.simps) simp
  moreover have "count_digits (unat v) base \<noteq> 0" if "v \<noteq> 0"
    using that assms by (subst count_digits.simps) (simp add: unat_gt_0)
  ultimately have "max 1 (count_digits (unat v) base) = (if v = 0 then 1 else count_digits (unat v) base)"
    by auto
  then show ?thesis
    using assms ultoa_loop_length [OF assms, of "unat v" "[]"]
    by (simp add: ultoa_def convert_def ultoa_loop_convert [OF assms] Let_def)
qed

subsection \<open>Properties\<close>

text \<open>C36: \<open>vsnprintf\<close> writes the text the format describes, followed by the terminator, exactly when text and
  terminator fit the buffer, and leaves the rest of the buffer alone; it returns one less than the length of the
  text. A text that does not fit is not cut: the call writes behind the buffer, a fault.\<close>

theorem vsnprintf_writes_text:
  assumes "length str = sz" "text_of fmt args = Some t"
  shows "vsnprintf str sz fmt args =
    (if length t < sz then Some (int (length t) - 1, t @ CHR 0x00 # drop (Suc (length t)) str) else None)"
  by (rule vsnprintf_exact [OF assms])

theorem vsnprintf_writes_text_witness:
  "vsnprintf ''0123456789'' 10 ''a=%s!'' [AStr (Some ''xy'')] = Some (4, ''a=xy!'' @ CHR 0x00 # ''6789'') \<and>
    vsnprintf ''01234'' 5 ''a=%s!'' [AStr (Some ''xy'')] = None"
proof -
  have t: "text_of ''a=%s!'' [AStr (Some ''xy'')] = Some ''a=xy!''" by (simp add: text_conv_def)
  show ?thesis
    using vsnprintf_writes_text [OF _ t, of "''0123456789''" 10] vsnprintf_writes_text [OF _ t, of "''01234''" 5] by simp
qed

text \<open>\<open>convert\<close> to base 10 is read back: the decimal digits of a number denote that number, with no
  leading zero except for 0 itself.\<close>

theorem convert_reads_back:
  "read_dec (convert n 10) = unat n \<and> convert n 10 \<noteq> [] \<and> (\<forall>c \<in> set (convert n 10). c \<in> set ''0123456789'')"
proof -
  have "\<forall>c \<in> set (dec_digits k). c \<in> set ''0123456789''" for k
  proof (induction k rule: dec_digits.induct)
    case (1 k)
    have "digit_char (k mod 10) \<in> set ''0123456789''"
      using nth_mem [of "k mod 10" digits16] nth_digits16 [of "k mod 10"]
      by (auto simp: digit_char_def digits16_def nth_Cons' split: if_splits)
    with 1 show ?case by (subst dec_digits.simps) (auto simp: Let_def)
  qed
  then show ?thesis by (simp add: convert_dec read_dec_digits)
qed

text \<open>\<open>itoa\<close> prints a number in decimal correctly, but does not return the length of the text: what it
  counts is the swaps of the final reversal, so the number returned is half the number of digits, plus one for a minus
  sign.\<close>

theorem itoa_text_and_count:
  assumes "base \<noteq> 0x78"
  shows "snd (itoa base d) = (if base = 0x64 then sdec d else dec_digits (unat d)) \<and>
    fst (itoa base d) = (if base = 0x64 \<and> sint d < 0 then 1 + length (dec_digits (unat (- d))) div 2
      else length (dec_digits (unat d)) div 2)"
  using itoa_dec [OF assms] by blast

theorem itoa_text_and_count_witness: "itoa 0x75 1234 = (2, ''1234'')"
proof -
  have "dec_digits 1234 = ''1234''" by code_simp
  then have "dec_digits (unat (1234 :: u32)) = ''1234''" by simp
  then show ?thesis using itoa_text_and_count [of "0x75" 1234] by (simp add: prod_eq_iff)
qed

text \<open>C40: the two number printers of the C library agree: \<open>ultoa\<close>, which first counts the digits, and
  \<open>convert\<close>, which fills a buffer from its end, give the same text in every base from 2 to 16.\<close>

theorem ultoa_is_convert:
  assumes "2 \<le> base" "base \<le> 16"
  shows "ultoa v base = Some (0, convert v base)"
  by (rule ultoa_convert [OF assms])

theorem ultoa_is_convert_witness: "ultoa 255 16 = Some (0, convert 255 16)"
  by (rule ultoa_is_convert) simp_all

end
