(* ===== verification/Charbuf.thy ===== *)
theory Charbuf
  imports Printf
begin

text \<open>
  Character arrays on the stack in which drivers build a name: \<open>strcpy\<close> and \<open>itoa\<close> at an index
  of the array, the name read back up to the first NUL. Writing past the array is a fault.
\<close>

definition poke :: "nat \<Rightarrow> string \<Rightarrow> string \<Rightarrow> string option" where
  "poke i xs buf =
     (if i + length xs \<le> length buf then Some (take i buf @ xs @ drop (i + length xs) buf) else None)"

definition strcpy_at :: "nat \<Rightarrow> string \<Rightarrow> string \<Rightarrow> string option" where
  "strcpy_at i s buf = poke i (s @ [CHR 0x00]) buf"

definition itoa_at :: "nat \<Rightarrow> u32 \<Rightarrow> u32 \<Rightarrow> string \<Rightarrow> string option" where
  "itoa_at i base d buf = poke i (snd (itoa base d) @ [CHR 0x00]) buf"

definition text_at :: "nat \<Rightarrow> string \<Rightarrow> string" where
  "text_at i buf = takeWhile (\<lambda>c. c \<noteq> CHR 0x00) (drop i buf)"

text \<open>\<open>if (name[i] == 0) name[i] = '0';\<close>\<close>

definition pad_zero :: "nat \<Rightarrow> string \<Rightarrow> string" where
  "pad_zero i buf = (if buf ! i = CHR 0x00 then buf[i := CHR ''0''] else buf)"

lemma poke_length: "poke i xs buf = Some buf' \<Longrightarrow> length buf' = length buf"
  by (auto simp: poke_def split: if_splits)

lemma poke_fits [simp]:
  "i + length xs \<le> length buf \<Longrightarrow> poke i xs buf = Some (take i buf @ xs @ drop (i + length xs) buf)"
  by (simp add: poke_def)

lemma poke_overrun: "length buf < i + length xs \<Longrightarrow> poke i xs buf = None"
  by (simp add: poke_def)

text \<open>A base other than those of \<open>%d\<close> and \<open>%x\<close> prints the number in decimal, unsigned.\<close>

lemma itoa_at_dec:
  "base \<noteq> 0x78 \<Longrightarrow> base \<noteq> 0x64 \<Longrightarrow> itoa_at i base d buf = poke i (dec_digits (unat d) @ [CHR 0x00]) buf"
  by (simp add: itoa_at_def itoa_dec)

lemma dec_digits_small: "n < 10 \<Longrightarrow> dec_digits n = [digit_char n]"
  by (simp add: dec_digits.simps)

lemma dec_digits_two: "10 \<le> n \<Longrightarrow> n < 100 \<Longrightarrow> dec_digits n = [digit_char (n div 10), digit_char (n mod 10)]"
  by (simp add: dec_digits.simps [of n] dec_digits_small)

lemma dec_digits_three:
  "100 \<le> n \<Longrightarrow> n < 1000 \<Longrightarrow> dec_digits n = [digit_char (n div 100), digit_char (n div 10 mod 10), digit_char (n mod 10)]"
  by (simp add: dec_digits.simps [of n] dec_digits_two div_mult2_eq [symmetric])

lemma digit_char_not_NUL [simp]: "n < 10 \<Longrightarrow> digit_char n \<noteq> CHR 0x00"
proof
  assume "n < 10" "digit_char n = CHR 0x00"
  then have "of_char (digit_char n) = (of_char (CHR 0x00) :: nat)" by simp
  then show False using \<open>n < 10\<close> by (simp add: digit_char_def of_char_of)
qed

lemmas digit_char_not_NUL' [simp] = digit_char_not_NUL [THEN not_sym]

lemma digit_char_inj [simp]: "m < 10 \<Longrightarrow> n < 10 \<Longrightarrow> digit_char m = digit_char n \<longleftrightarrow> m = n"
proof
  assume "m < 10" "n < 10" "digit_char m = digit_char n"
  then have "of_char (digit_char m) = (of_char (digit_char n) :: nat)" by simp
  then show "m = n" using \<open>m < 10\<close> \<open>n < 10\<close> by (simp add: digit_char_def of_char_of)
qed simp

lemma digit_char_0: "digit_char 0 = CHR ''0''"
  by code_simp

lemma digit_char_1: "digit_char (Suc 0) = CHR ''1''"
  by code_simp


lemma set_dec_digits: "c \<in> set (dec_digits n) \<Longrightarrow> \<exists>d < 10. c = digit_char d"
proof (induction n rule: dec_digits.induct)
  case (1 n)
  then have "c = digit_char (n mod 10) \<or> 10 \<le> n \<and> c \<in> set (dec_digits (n div 10))"
    by (subst (asm) (2) dec_digits.simps) (auto split: if_splits)
  moreover have "n mod 10 < 10" by simp
  ultimately show ?case using 1(1) by blast
qed

lemma dec_digits_no_NUL [simp]: "CHR 0x00 \<notin> set (dec_digits n)"
  using set_dec_digits [of "CHR 0x00" n] by auto

lemma length_dec_digits: "n < 10 ^ k \<Longrightarrow> 0 < k \<Longrightarrow> length (dec_digits n) \<le> k"
proof (induction k arbitrary: n)
  case (Suc k)
  show ?case
  proof (cases "n < 10")
    case False
    then have "0 < k" using Suc.prems(1) by (cases k) simp_all
    moreover have "n div 10 < 10 ^ k" using Suc.prems(1) by (simp add: less_mult_imp_div_less mult.commute)
    ultimately show ?thesis using Suc.IH [of "n div 10"] False by (subst dec_digits.simps) simp
  qed (simp add: dec_digits_small)
qed simp

lemma length_dec_digits_u32: "length (dec_digits (unat (v :: u32))) \<le> 10"
proof -
  have "unat v < 4294967296" using unsigned_less [of v, where ?'a = nat] by simp
  also have "(4294967296 :: nat) < 10 ^ 10" by simp
  finally have "unat v < 10 ^ 10" .
  then show ?thesis by (rule length_dec_digits) simp
qed

lemma dec_digits_inj [simp]: "dec_digits m = dec_digits n \<longleftrightarrow> m = n"
  by (metis read_dec_digits)

end
