(* ===== verification/Procfs.thy ===== *)
theory Procfs
  imports Proc Liblist Charbuf
begin

text \<open>
  The process filesystem, \<^verbatim>\<open>newland/src/fs/procfs.c\<close>: a directory with one node per process, cached in a
  \<open>list_t\<close>. A lookup first drops cached nodes whose name is not the id of the process at their position.

  \<open>p\<close> and \<open>q\<close> are the answers of the \<open>kmalloc\<close> calls for a node and for its entry in the list, \<open>g\<close> and \<open>b\<close>
  what the memory of the node and the buffer of the name held.
\<close>

record procfs_state = proc_state +
  procs :: list_t

text \<open>\<open>snprintf(name, NAME_MAX, "%lu", v)\<close>, and the string in the buffer then.\<close>

definition lu_name :: "string \<Rightarrow> u32 \<Rightarrow> string option" where
  "lu_name b v = map_option (\<lambda>(r, buf). text_at 0 buf) (vsnprintf b NAME_MAX ''%lu'' [AInt v])"

text \<open>The loop reads the length of the list in each round; removing a node frees it.\<close>

partial_function (option) cleanup_nodes :: "string \<Rightarrow> u32 \<Rightarrow> 'z procfs_state_scheme \<Rightarrow> 'z procfs_state_scheme option" where
  "cleanup_nodes b i s = do {
     n \<leftarrow> liblist_length (procs s);
     if \<not> i < n then Some s
     else do {
       node \<leftarrow> liblist_get (procs s) i;
       proc \<leftarrow> process_get s i;
       p \<leftarrow> deref (proc_heap s) proc;
       name \<leftarrow> lu_name b (p_id p);
       v \<leftarrow> node_heap s node;
       if node_impl v = 0 \<or> strcmp name (node_name v) \<noteq> 0 then do {
         l \<leftarrow> liblist_remove (procs s) node;
         cleanup_nodes b (i + 1) (s\<lparr>procs := l, node_heap := (node_heap s)(node := None)\<rparr>)
       }
       else cleanup_nodes b (i + 1) s
     }
   }"

definition procfs_cleanup :: "string \<Rightarrow> 'z procfs_state_scheme \<Rightarrow> 'z procfs_state_scheme option" where
  "procfs_cleanup b s = do {
     n \<leftarrow> liblist_length (procs s);
     if n \<noteq> process_count s then cleanup_nodes b 0 s else Some s
   }"

text \<open>The result, what was stored through \<open>childptr\<close> (which held \<open>tmp\<close>), and the state.\<close>

definition procfs_get_child ::
  "'z procfs_state_scheme \<Rightarrow> string \<Rightarrow> ptr \<Rightarrow> fs_node \<Rightarrow> ptr \<Rightarrow> ptr \<Rightarrow> ptr \<Rightarrow> u32 \<Rightarrow>
   (u32 \<times> ptr \<times> 'z procfs_state_scheme) option" where
  "procfs_get_child s b p g q node tmp index = do {
     s1 \<leftarrow> procfs_cleanup b s;
     at \<leftarrow> liblist_indexof (procs s1) node;
     if at \<noteq> - 1 then Some (err ENOENT, tmp, s1)
     else if index \<ge> process_count s1 then Some (err ENOENT, tmp, s1)
     else do {
       cached \<leftarrow> liblist_get (procs s1) index;
       if cached \<noteq> 0 then Some (0, cached, s1)
       else do {
         name \<leftarrow> lu_name b index;
         (r, created, s2) \<leftarrow> fs_node_create s1 p g name (push_bit (unat FS_NODE_DIR) 6);
         let child = (case created of None \<Rightarrow> tmp | Some c \<Rightarrow> c);
         if sint r < 0 then Some (r, child, s2)
         else do {
           proc \<leftarrow> process_get s2 index;
           v \<leftarrow> node_heap s2 child;
           let s3 = s2\<lparr>node_heap := (node_heap s2)(child \<mapsto> v\<lparr>node_impl := proc\<rparr>)\<rparr>;
           (r, l) \<leftarrow> liblist_add (procs s3) child q;
           if sint r < 0 then Some (r, child, s3\<lparr>procs := l, node_heap := (node_heap s3)(child := None)\<rparr>)
           else Some (0, child, s3\<lparr>procs := l\<rparr>)
         }
       }
     }
   }"

text \<open>\<open>get_child\<close> is the code address of \<open>procfs_get_child\<close>; the target held \<open>tmp\<close>.\<close>

definition procfs_mount ::
  "u32 \<Rightarrow> 'z procfs_state_scheme \<Rightarrow> ptr \<Rightarrow> fs_node \<Rightarrow> ptr \<Rightarrow> (u32 \<times> ptr \<times> 'z procfs_state_scheme) option" where
  "procfs_mount get_child s p g tmp = do {
     (r, created, s1) \<leftarrow> fs_node_create s p g ''/'' (push_bit (unat FS_NODE_DIR) 6);
     let target = (case created of None \<Rightarrow> tmp | Some c \<Rightarrow> c);
     if sint r < 0 then Some (r, target, s1)
     else do {
       v \<leftarrow> node_heap s1 target;
       Some (0, target, s1\<lparr>node_heap := (node_heap s1)(target \<mapsto> v\<lparr>node_opts := (node_opts v)\<lparr>op_get_child := get_child\<rparr>\<rparr>)\<rparr>)
     }
   }"

definition procfs_umount :: "'z procfs_state_scheme \<Rightarrow> ptr \<Rightarrow> u32 \<times> ptr \<times> 'z procfs_state_scheme" where
  "procfs_umount s target = (0, 0, s\<lparr>node_heap := (node_heap s)(target := None)\<rparr>)"

definition procfs_init ::
  "'z fs_state_scheme \<Rightarrow> ptr \<Rightarrow> fs_opts \<Rightarrow> (u32 \<times> 'z fs_state_scheme) option" where
  "procfs_init s p procfs_opts = register_fs s p ''procfs'' FS_PSEUDO procfs_opts"

subsection \<open>Names\<close>

lemma lu_name_text:
  assumes "length b = NAME_MAX"
  shows "lu_name b v = Some (dec_digits (unat v) @ ''u'')"
proof -
  have t: "text_of ''%lu'' [AInt v] = Some (dec_digits (unat v) @ ''u'')" by (simp add: text_conv_def)
  have len: "length (dec_digits (unat v) @ ''u'') < NAME_MAX" using length_dec_digits_u32 [of v] by (simp add: NAME_MAX_def)
  have tw: "takeWhile (\<lambda>c. c \<noteq> CHR 0x00) (dec_digits (unat v) @ ys) = dec_digits (unat v) @ takeWhile (\<lambda>c. c \<noteq> CHR 0x00) ys" for ys
    by (rule takeWhile_append2) (use dec_digits_no_NUL in metis)
  show ?thesis
    using vsnprintf_exact [OF assms t] len by (simp add: lu_name_def text_at_def tw)
qed

subsection \<open>Lookups\<close>

lemma SLIST_REMOVE_unused: "SLIST_REMOVE h head e = Some (h', head') \<Longrightarrow> h a = None \<Longrightarrow> h' a = None"
  by (auto simp: SLIST_REMOVE_def SLIST_REMOVE_HEAD_def SLIST_SET_NEXT_def bind_eq_Some_conv split: if_splits option.splits)

lemma liblist_remove_unused: "liblist_remove l v = Some l' \<Longrightarrow> list_nodes l a = None \<Longrightarrow> list_nodes l' a = None"
  by (auto simp: liblist_remove_def heap_free_def bind_eq_Some_conv dest: SLIST_REMOVE_unused split: if_splits)

text \<open>A cached node that is not named after the process at its position is removed and freed.\<close>

lemma cleanup_drops_one:
  assumes rep: "proc_rep s xs" "xs \<noteq> []" and cache: "liblist_rep (procs s) [a]" and b: "length b = NAME_MAX"
    and v: "node_heap s a = Some v" "node_name v = dec_digits i @ ''u''" "i \<noteq> unat (p_id (snd (hd xs)))"
  shows "\<exists>l. cleanup_nodes b 0 s = Some (s\<lparr>procs := l, node_heap := (node_heap s)(a := None)\<rparr>) \<and> liblist_rep l [] \<and>
    (\<forall>q. list_nodes (procs s) q = None \<longrightarrow> list_nodes l q = None)"
proof -
  obtain l where l: "liblist_remove (procs s) a = Some l" "liblist_rep l []"
    using liblist_remove_rep [OF cache, of a] by auto
  have p: "process_get s 0 = Some (fst (hd xs))" "deref (proc_heap s) (fst (hd xs)) = Some (snd (hd xs))"
    using rep(2) proc_rep_deref [OF rep(1), of "fst (hd xs)" "snd (hd xs)"]
    by (simp_all add: process_get_def slist_get_rep [OF proc_rep_list [OF rep(1)]] hd_conv_nth)
  have 1: "\<exists>n. liblist_length (procs s) = Some n \<and> 0 < n" using liblist.len_rep [OF cache] by simp
  have 2: "cleanup_nodes b (0 + 1) (s\<lparr>procs := l, node_heap := (node_heap s)(a := None)\<rparr>) =
      Some (s\<lparr>procs := l, node_heap := (node_heap s)(a := None)\<rparr>)"
    using liblist.len_rep [OF l(2)] by (subst cleanup_nodes.simps) simp
  have 3: "strcmp (dec_digits (unat (p_id (snd (hd xs)))) @ ''u'') (node_name v) \<noteq> 0"
    using v(2,3) by simp
  show ?thesis
    using 1 2 3 l p v(1) liblist_get_rep [OF cache, of 0] liblist_remove_unused [OF l(1)]
    by (subst cleanup_nodes.simps) (auto simp: lu_name_text [OF b])
qed

lemma get_child_new:
  assumes rep: "proc_rep s xs" and idx: "unat index < length xs" and cache: "liblist_rep (procs s) []" and b: "length b = NAME_MAX"
    and p: "p \<noteq> 0" and q: "liblist_fresh (procs s) q" and ino: "0 \<le> sint (next_inode s)"
    and clean: "procfs_cleanup b s0 = Some s"
  shows "\<exists>t. procfs_get_child s0 b p g q node tmp index = Some (0, p, t) \<and> proc_rep t xs \<and> liblist_rep (procs t) [p] \<and>
    list_nodes (procs t) = (list_nodes (procs s))(q \<mapsto> Cell p (slh_first (procs s))) \<and> next_inode t = next_inode s + 1 \<and>
    (\<exists>v. node_heap t = (node_heap s)(p \<mapsto> v) \<and> node_name v = dec_digits (unat index) @ ''u'' \<and> node_impl v = fst (xs ! unat index))"
proof -
  obtain l where l: "liblist_add (procs s) p q = Some (0, l)" "liblist_rep l [p]"
    using liblist_add_new [OF cache _ q, of p] by auto
  have nodes: "list_nodes l = (list_nodes (procs s))(q \<mapsto> Cell p (slh_first (procs s)))"
    using l(1) q by (auto simp: liblist_add_rep [OF cache] liblist_fresh_def)
  have n: "\<not> process_count s \<le> index"
    using idx slist_rep_length [OF proc_rep_list [OF rep(1)]] rep
    by (simp add: word_le_nat_alt process_count_def proc_rep_def unat_of_nat_small)
  have proc: "process_get t index = Some (fst (xs ! unat index))" if "proc_heap t = proc_heap s" "processes t = processes s" for t :: "'a procfs_state_scheme"
    using idx by (simp add: process_get_def slist_get_rep [OF proc_rep_list [OF rep(1)]] that)
  have len: "length (dec_digits (unat index) @ ''u'') < NAME_MAX" using length_dec_digits_u32 [of index] by (simp add: NAME_MAX_def)
  have ino': "\<not> sint (next_inode s) < 0" using ino by simp
  show ?thesis
    using clean liblist_indexof_rep [OF cache, of node] n liblist_get_rep [OF cache, of index] len p ino' l nodes rep
    by (simp add: procfs_get_child_def lu_name_text [OF b] fs_node_create_def proc proc_rep_def)
      (rule exI [of _ "g\<lparr>node_name := dec_digits (unat index) @ ''u'', node_mode := push_bit (unat FS_NODE_DIR) 6,
         node_ino := next_inode s, node_impl := fst (xs ! unat index)\<rparr>"], simp)
qed

lemma cleanup_no_nodes:
  assumes "liblist_rep (procs s) []"
  shows "procfs_cleanup b s = Some s"
  using liblist.len_rep [OF assms] by (simp add: procfs_cleanup_def cleanup_nodes.simps)

subsection \<open>Properties\<close>

text \<open>C25: With two or more processes a node handed out by a lookup is freed by the next lookup: the cache of one node is
  not as long as the process table, the name of the node is made of the index and the letter u, and it is compared with the
  id of the newest process. The node is freed although the caller of the first lookup still holds it.\<close>

theorem procfs_lookup_frees:
  fixes s :: "'z procfs_state_scheme"
  assumes rep: "proc_rep s xs" "2 \<le> length xs" and cache: "liblist_rep (procs s) []" and b: "length b = NAME_MAX"
    and i: "unat i < length xs" "unat i \<noteq> unat (p_id (snd (hd xs)))" and j: "unat j < length xs"
    and p: "p0 \<noteq> 0" "p1 \<noteq> 0" "p1 \<noteq> p0" and q: "liblist_fresh (procs s) q0" "liblist_fresh (procs s) q1" "q1 \<noteq> q0"
    and ino: "0 \<le> sint (next_inode s)" "0 \<le> sint (next_inode s + 1)"
  shows "\<exists>t u v. procfs_get_child s b p0 g0 q0 node tmp i = Some (0, p0, t) \<and> node_heap t p0 = Some v \<and>
    node_impl v = fst (xs ! unat i) \<and>
    procfs_get_child t b p1 g1 q1 node tmp j = Some (0, p1, u) \<and> node_heap u p0 = None"
proof -
  obtain t v where t: "procfs_get_child s b p0 g0 q0 node tmp i = Some (0, p0, t)" "proc_rep t xs" "liblist_rep (procs t) [p0]"
    "list_nodes (procs t) = (list_nodes (procs s))(q0 \<mapsto> Cell p0 (slh_first (procs s)))" "next_inode t = next_inode s + 1"
    "node_heap t = (node_heap s)(p0 \<mapsto> v)" "node_name v = dec_digits (unat i) @ ''u''" "node_impl v = fst (xs ! unat i)"
    using get_child_new [OF rep(1) i(1) cache b p(1) q(1) ino(1) cleanup_no_nodes [OF cache]] by blast
  have ne: "xs \<noteq> []" using rep(2) by auto
  have v: "node_heap t p0 = Some v" by (simp add: t(6))
  obtain l where l: "cleanup_nodes b 0 t = Some (t\<lparr>procs := l, node_heap := (node_heap t)(p0 := None)\<rparr>)" "liblist_rep l []"
    "\<forall>q. list_nodes (procs t) q = None \<longrightarrow> list_nodes l q = None"
    using cleanup_drops_one [OF t(2) ne t(3) b v t(7) i(2)] by blast
  let ?t = "t\<lparr>procs := l, node_heap := (node_heap t)(p0 := None)\<rparr>"
  have "process_count t \<noteq> 1"
  proof -
    have "process_count t = of_nat (length xs)" "length xs < 4294967296"
      using t(2) slist_rep_length [OF proc_rep_list [OF t(2)]] by (simp_all add: process_count_def proc_rep_def)
    then show ?thesis using rep(2) by (auto simp: word_unat_eq_iff unat_of_nat_small)
  qed
  then have clean: "procfs_cleanup b t = Some ?t"
    using liblist.len_rep [OF t(3)] l(1) by (auto simp: procfs_cleanup_def)
  have rep': "proc_rep ?t xs" using t(2) by (simp add: proc_rep_def)
  have fresh: "liblist_fresh (procs ?t) q1" using l(3) t(4) q by (auto simp: liblist_fresh_def)
  have cache': "liblist_rep (procs ?t) []" and ino': "0 \<le> sint (next_inode ?t)" using l(2) ino(2) t(5) by simp_all
  obtain u w where u: "procfs_get_child t b p1 g1 q1 node tmp j = Some (0, p1, u)" "node_heap u = (node_heap ?t)(p1 \<mapsto> w)"
    using get_child_new [OF rep' j cache' b p(2) fresh ino' clean] by blast
  show ?thesis using t(1) v t(8) u p(3) by auto
qed


definition procfs_sample :: procfs_state where
  "procfs_sample = proc_state.extend (table_state sample_table 1) \<lparr>procs = \<lparr>slh_first = 0, list_nodes = Map.empty\<rparr>\<rparr>"

lemma procfs_sample_rep:
  "proc_rep procfs_sample sample_table" "procs procfs_sample = \<lparr>slh_first = 0, list_nodes = Map.empty\<rparr>" "next_inode procfs_sample = 0"
  using sample_table_rep [of 1] by (simp_all add: procfs_sample_def proc_rep_def proc_state.defs table_state_def)

theorem procfs_lookup_frees_witness:
  "\<exists>t u v. procfs_get_child procfs_sample (replicate 128 (CHR ''x'')) 0x10 (sample_node [] 0 no_opts) 0x20 0x5000 0 0 = Some (0, 0x10, t) \<and>
    node_heap t 0x10 = Some v \<and> node_impl v = 0x1000 \<and>
    procfs_get_child t (replicate 128 (CHR ''x'')) 0x30 (sample_node [] 0 no_opts) 0x40 0x5000 0 2 = Some (0, 0x30, u) \<and> node_heap u 0x10 = None"
  using procfs_lookup_frees [where i = 0 and j = 2 and tmp = 0 and node = "0x5000" and ?g0.0 = "sample_node [] 0 no_opts" and ?g1.0 = "sample_node [] 0 no_opts",
      OF procfs_sample_rep(1), of "replicate 128 (CHR ''x'')" "0x10" "0x30" "0x20" "0x40"]
  by (simp add: procfs_sample_rep(2,3) liblist_rep_def liblist_fresh_def NAME_MAX_def)

end
