(* ===== verification/Elf.thy ===== *)
theory Elf
  imports LibcString
begin

text \<open>
  ELF files, \<^verbatim>\<open>libraries/libfile/include/libfile/elf.h\<close> and \<^verbatim>\<open>libraries/libfile/src/elf.c\<close>: the header, the program header, the section
  and the symbol as they lie in memory (little endian, without padding), and the check of the header. The members of a section
  are single bytes in the source, where the file format has words of four.
\<close>

definition ELF_NIDENT :: nat where "ELF_NIDENT = 16"
definition ELFMAG0 :: u8 where "ELFMAG0 = 0x7F"
definition ELFMAG1 :: u8 where "ELFMAG1 = byte (CHR ''E'')"
definition ELFMAG2 :: u8 where "ELFMAG2 = byte (CHR ''L'')"
definition ELFMAG3 :: u8 where "ELFMAG3 = byte (CHR ''F'')"

definition ELF_NONE :: u16 where "ELF_NONE = 0"
definition ELF_REL :: u16 where "ELF_REL = 1"
definition ELF_EXEC :: u16 where "ELF_EXEC = 2"
definition ELF_SHAR :: u16 where "ELF_SHAR = 3"

lemmas ELFMAG_defs = ELFMAG0_def ELFMAG1_def ELFMAG2_def ELFMAG3_def
lemmas elf_type_defs = ELF_NONE_def ELF_REL_def ELF_EXEC_def ELF_SHAR_def

record elf_header =
  eh_ident :: "u8 list"
  eh_type :: u16
  eh_machine :: u16
  eh_version :: u32
  eh_entry :: u32
  eh_phoff :: u32
  eh_shoff :: u32
  eh_flags :: u32
  eh_ehsize :: u16
  eh_phentsize :: u16
  eh_phnum :: u16
  eh_shentsize :: u16
  eh_shnum :: u16
  eh_shstrndx :: u16

record elf_program =
  ep_type :: u32
  ep_offset :: u32
  ep_vaddr :: u32
  ep_paddr :: u32
  ep_filesz :: u32
  ep_memsz :: u32
  ep_flags :: u32
  ep_align :: u32

definition ELFS_NULL :: u8 where "ELFS_NULL = 0"
definition ELFS_PROGBITS :: u8 where "ELFS_PROGBITS = 1"
definition ELFS_SYMTAB :: u8 where "ELFS_SYMTAB = 2"
definition ELFS_STRTAB :: u8 where "ELFS_STRTAB = 3"
definition ELFS_RELA :: u8 where "ELFS_RELA = 4"
definition ELFS_NOBITS :: u8 where "ELFS_NOBITS = 8"
definition ELFS_REL :: u8 where "ELFS_REL = 9"

definition ELF_PROG_EXEC :: u32 where "ELF_PROG_EXEC = 1"
definition ELF_PROG_WRITE :: u32 where "ELF_PROG_WRITE = 2"
definition ELF_PROG_READ :: u32 where "ELF_PROG_READ = 4"

record elf_section =
  es_name :: u8
  es_type :: u8
  es_flags :: u8
  es_addr :: u8
  es_offset :: u8
  es_size :: u8
  es_link :: u8
  es_info :: u8
  es_addralign :: u8
  es_entsize :: u8

record elf_sym =
  sy_name :: u32
  sy_value :: u32
  sy_size :: u32
  sy_info :: u8
  sy_other :: u8
  sy_shndx :: u16

definition elf_isvalid :: "elf_header \<Rightarrow> bool" where
  "elf_isvalid hdr \<longleftrightarrow> eh_ident hdr ! 0 = ELFMAG0 \<and> eh_ident hdr ! 1 = ELFMAG1 \<and> eh_ident hdr ! 2 = ELFMAG2 \<and>
     eh_ident hdr ! 3 = ELFMAG3 \<and> eh_ident hdr ! 4 = 1 \<and> eh_ident hdr ! 5 = 1 \<and>
     (eh_type hdr = ELF_REL \<or> eh_type hdr = ELF_EXEC \<or> eh_type hdr = ELF_SHAR) \<and> eh_version hdr = 1"

subsection \<open>The structures in memory\<close>

primrec load_bytes :: "mem \<Rightarrow> ptr \<Rightarrow> nat \<Rightarrow> u8 list option" where
  "load_bytes m p 0 = Some []"
| "load_bytes m p (Suc n) = do {
     b \<leftarrow> m p;
     bs \<leftarrow> load_bytes m (p + 1) n;
     Some (b # bs)
   }"

text \<open>The value of bytes, the lowest first, at any width.\<close>

fun le :: "u8 list \<Rightarrow> 'a :: len word" where
  "le [] = 0"
| "le (b # bs) = ucast b + 256 * le bs"

definition le_bytes :: "nat \<Rightarrow> 'a :: len word \<Rightarrow> u8 list" where
  "le_bytes n w = map (\<lambda>i. ucast (drop_bit (8 * i) w)) [0..<n]"

definition load32 :: "mem \<Rightarrow> ptr \<Rightarrow> u32 option" where
  "load32 m p = map_option le (load_bytes m p 4)"

definition store32 :: "mem \<Rightarrow> ptr \<Rightarrow> u32 \<Rightarrow> mem option" where
  "store32 m p v = foldM (\<lambda>i m. store m (p + of_nat i) (le_bytes 4 v ! i)) [0..<4] m"

definition elf_header_at :: "mem \<Rightarrow> ptr \<Rightarrow> elf_header option" where
  "elf_header_at m p = map_option (\<lambda>bs.
     \<lparr>eh_ident = take 16 bs, eh_type = le (take 2 (drop 16 bs)), eh_machine = le (take 2 (drop 18 bs)),
      eh_version = le (take 4 (drop 20 bs)), eh_entry = le (take 4 (drop 24 bs)), eh_phoff = le (take 4 (drop 28 bs)),
      eh_shoff = le (take 4 (drop 32 bs)), eh_flags = le (take 4 (drop 36 bs)), eh_ehsize = le (take 2 (drop 40 bs)),
      eh_phentsize = le (take 2 (drop 42 bs)), eh_phnum = le (take 2 (drop 44 bs)), eh_shentsize = le (take 2 (drop 46 bs)),
      eh_shnum = le (take 2 (drop 48 bs)), eh_shstrndx = le (take 2 (drop 50 bs))\<rparr>) (load_bytes m p 52)"

definition elf_program_at :: "mem \<Rightarrow> ptr \<Rightarrow> elf_program option" where
  "elf_program_at m p = map_option (\<lambda>bs.
     \<lparr>ep_type = le (take 4 bs), ep_offset = le (take 4 (drop 4 bs)), ep_vaddr = le (take 4 (drop 8 bs)),
      ep_paddr = le (take 4 (drop 12 bs)), ep_filesz = le (take 4 (drop 16 bs)), ep_memsz = le (take 4 (drop 20 bs)),
      ep_flags = le (take 4 (drop 24 bs)), ep_align = le (take 4 (drop 28 bs))\<rparr>) (load_bytes m p 32)"

definition elf_section_at :: "mem \<Rightarrow> ptr \<Rightarrow> elf_section option" where
  "elf_section_at m p = map_option (\<lambda>bs.
     \<lparr>es_name = bs ! 0, es_type = bs ! 1, es_flags = bs ! 2, es_addr = bs ! 3, es_offset = bs ! 4, es_size = bs ! 5,
      es_link = bs ! 6, es_info = bs ! 7, es_addralign = bs ! 8, es_entsize = bs ! 9\<rparr>) (load_bytes m p 10)"

definition elf_sym_at :: "mem \<Rightarrow> ptr \<Rightarrow> elf_sym option" where
  "elf_sym_at m p = map_option (\<lambda>bs.
     \<lparr>sy_name = le (take 4 bs), sy_value = le (take 4 (drop 4 bs)), sy_size = le (take 4 (drop 8 bs)),
      sy_info = bs ! 12, sy_other = bs ! 13, sy_shndx = le (take 2 (drop 14 bs))\<rparr>) (load_bytes m p 16)"

text \<open>The image of a structure, member by member.\<close>

definition header_bytes :: "elf_header \<Rightarrow> u8 list" where
  "header_bytes h = eh_ident h @ le_bytes 2 (eh_type h) @ le_bytes 2 (eh_machine h) @ le_bytes 4 (eh_version h) @
     le_bytes 4 (eh_entry h) @ le_bytes 4 (eh_phoff h) @ le_bytes 4 (eh_shoff h) @ le_bytes 4 (eh_flags h) @
     le_bytes 2 (eh_ehsize h) @ le_bytes 2 (eh_phentsize h) @ le_bytes 2 (eh_phnum h) @ le_bytes 2 (eh_shentsize h) @
     le_bytes 2 (eh_shnum h) @ le_bytes 2 (eh_shstrndx h)"

definition program_bytes :: "elf_program \<Rightarrow> u8 list" where
  "program_bytes p = le_bytes 4 (ep_type p) @ le_bytes 4 (ep_offset p) @ le_bytes 4 (ep_vaddr p) @ le_bytes 4 (ep_paddr p) @
     le_bytes 4 (ep_filesz p) @ le_bytes 4 (ep_memsz p) @ le_bytes 4 (ep_flags p) @ le_bytes 4 (ep_align p)"

lemma length_le_bytes [simp]: "length (le_bytes n w) = n"
  by (simp add: le_bytes_def)

lemma load_bytes_at: "bytes_at m p bs \<Longrightarrow> load_bytes m p (length bs) = Some bs"
  by (induction bs arbitrary: p) auto

lemma le_le_bytes_drop:
  fixes w :: "'a :: len word"
  shows "le (le_bytes n w) = take_bit (8 * n) w"
proof (induction n arbitrary: w)
  case (Suc n)
  have split: "le_bytes (Suc n) w = ucast w # le_bytes n (drop_bit 8 w)"
    by (simp add: le_bytes_def upt_conv_Cons map_Suc_upt [symmetric] comp_def drop_bit_drop_bit add.commute del: upt_Suc)
  have "(ucast (ucast w :: u8) :: 'a word) + 256 * take_bit (8 * n) (drop_bit 8 w) = take_bit (8 * Suc n) w"
  proof -
    have 1: "(ucast (ucast w :: u8) :: 'a word) = take_bit 8 w"
      by (rule bit_word_eqI) (auto simp: bit_simps)
    have "take_bit 8 w + push_bit 8 (take_bit (8 * n) (drop_bit 8 w)) = take_bit 8 w OR push_bit 8 (take_bit (8 * n) (drop_bit 8 w))"
      by (rule disjunctive_add) (auto simp: bit_simps)
    also have "\<dots> = take_bit (8 * Suc n) w"
      by (rule bit_word_eqI) (auto simp: bit_simps)
    finally show ?thesis by (simp add: 1 push_bit_eq_mult mult.commute)
  qed
  then show ?case by (simp add: split Suc.IH)
qed (simp add: le_bytes_def)

lemma le_bytes_word [simp]: "le (le_bytes 4 (w :: u32)) = w" "le (le_bytes 2 (v :: u16)) = v"
  by (simp_all add: le_le_bytes_drop take_bit_word_eq_self)

lemma store32_word:
  assumes "mapped m p 4"
  shows "store32 m p v = Some (write_bytes m p (le_bytes 4 v))"
proof -
  obtain b0 b1 b2 b3 where v: "le_bytes 4 v = [b0, b1, b2, b3]"
    by (simp add: le_bytes_def upt_rec)
  have four: "off p p < 4" "off (p + 1) p < 4" "off (p + 2) p < 4" "off (p + 3) p < 4" by simp_all
  then have "m p \<noteq> None" "m (p + 1) \<noteq> None" "m (p + 2) \<noteq> None" "m (p + 3) \<noteq> None"
    using assms unfolding mapped_def by blast+
  then obtain c0 c1 c2 c3 where "m p = Some c0" "m (p + 1) = Some c1" "m (p + 2) = Some c2" "m (p + 3) = Some c3" by blast
  moreover have "[0..<4] = [0, 1, 2, 3 :: nat]" by (simp add: upt_rec)
  ultimately show ?thesis by (simp add: store32_def v store_def add.commute [of _ p])
qed

lemma elf_structures_image:
  assumes "length (eh_ident h) = 16"
  shows "bytes_at m p (header_bytes h) \<Longrightarrow> elf_header_at m p = Some h"
    and "bytes_at m p (program_bytes g) \<Longrightarrow> elf_program_at m p = Some g"
proof -
  have "length (header_bytes h) = 52" "length (program_bytes g) = 32"
    using assms by (simp_all add: header_bytes_def program_bytes_def)
  then have *: "bytes_at m p (header_bytes h) \<Longrightarrow> load_bytes m p 52 = Some (header_bytes h)"
    "bytes_at m p (program_bytes g) \<Longrightarrow> load_bytes m p 32 = Some (program_bytes g)"
    using load_bytes_at [of m p "header_bytes h"] load_bytes_at [of m p "program_bytes g"] by simp_all
  show "bytes_at m p (header_bytes h) \<Longrightarrow> elf_header_at m p = Some h"
    using assms by (simp add: elf_header_at_def * header_bytes_def)
  show "bytes_at m p (program_bytes g) \<Longrightarrow> elf_program_at m p = Some g"
    by (simp add: elf_program_at_def * program_bytes_def)
qed

subsection \<open>Properties\<close>

text \<open>Reading a header or a program header from memory that holds its image gives back the structure, member by member,
  at the offsets of the file format.\<close>

theorem elf_structures_read:
  assumes "length (eh_ident h) = 16"
  shows "(bytes_at m p (header_bytes h) \<longrightarrow> elf_header_at m p = Some h) \<and>
    (bytes_at m p (program_bytes g) \<longrightarrow> elf_program_at m p = Some g)"
  using elf_structures_image [OF assms] by blast

definition sample_header :: elf_header where
  "sample_header = \<lparr>eh_ident = [0x7F, 0x45, 0x4C, 0x46, 1, 1, 1, 0, 0, 0, 0, 0, 0, 0, 0, 0], eh_type = ELF_EXEC, eh_machine = 3,
     eh_version = 1, eh_entry = 0x200000, eh_phoff = 52, eh_shoff = 0, eh_flags = 0, eh_ehsize = 52, eh_phentsize = 32, eh_phnum = 0,
     eh_shentsize = 40, eh_shnum = 0, eh_shstrndx = 0\<rparr>"

lemma sample_header_valid: "elf_isvalid sample_header" "eh_machine sample_header = 3" "length (eh_ident sample_header) = 16"
  by (simp_all add: elf_isvalid_def sample_header_def ELFMAG_defs elf_type_defs byte_def)

theorem elf_structures_read_witness:
  "elf_header_at (write_bytes Map.empty 0x100 (header_bytes sample_header)) 0x100 = Some sample_header"
proof -
  have "length (header_bytes sample_header) = 52" by (simp add: header_bytes_def sample_header_def)
  then have "bytes_at (write_bytes Map.empty 0x100 (header_bytes sample_header)) 0x100 (header_bytes sample_header)"
    by (intro bytes_at_write_bytes) simp
  then show ?thesis using elf_structures_read [OF sample_header_valid(3)] by blast
qed

end
