(* ===== verification/Interrupts.thy ===== *)
theory Interrupts
  imports Dev
begin

text \<open>
  Segments, interrupts and the timer: \<^verbatim>\<open>newland/arch/x86/src/gdt.c\<close>, \<^verbatim>\<open>idt.c\<close>, \<^verbatim>\<open>irq.c\<close>
  and \<^verbatim>\<open>timer.c\<close> with their headers.

  Writes to I/O ports are recorded in order. Handlers are code addresses, 0 for none; \<open>call\<close> is
  the effect of calling one. The addresses of the assembly entry points \<open>isr0 \<dots> isr31\<close> and
  \<open>irq0 \<dots> irq15\<close> are the parameters \<open>isr\<close> and \<open>irq\<close>. Using a handler array outside its bounds
  is a fault.
\<close>

record gdt_entry =
  g_limit_low :: u16
  g_base_low :: u16
  g_base_middle :: u8
  g_access :: u8
  g_granularity :: u8
  g_base_high :: u8

record idt_entry =
  i_base_low :: u16
  i_selector :: u16
  i_always0 :: u8
  i_flags :: u8
  i_base_high :: u16

record regs =
  rg_ds :: u32
  rg_edi :: u32
  rg_esi :: u32
  rg_ebp :: u32
  rg_esp :: u32
  rg_ebx :: u32
  rg_edx :: u32
  rg_ecx :: u32
  rg_eax :: u32
  rg_int_no :: u32
  rg_err_code :: u32
  rg_eip :: u32
  rg_cs :: u32
  rg_eflags :: u32
  rg_useresp :: u32
  rg_ss :: u32

record int_state = klog_state +
  ports :: "(u16 \<times> u8) list"
  gdt_entries :: "gdt_entry list"
  gdt_limit :: u16
  idt_entries :: "idt_entry list"
  idt_limit :: u16
  idt_handlers :: "u32 list"
  irq_handlers :: "u32 list"

definition outb :: "u16 \<Rightarrow> u8 \<Rightarrow> 'z int_state_scheme \<Rightarrow> 'z int_state_scheme" where
  "outb port v s = s\<lparr>ports := ports s @ [(port, v)]\<rparr>"

subsection \<open>The global descriptor table\<close>

definition gdt_gate :: "u32 \<Rightarrow> u32 \<Rightarrow> u8 \<Rightarrow> u8 \<Rightarrow> gdt_entry" where
  "gdt_gate base limit access gran =
     \<lparr>g_limit_low = ucast (limit AND 0xFFFF), g_base_low = ucast (base AND 0xFFFF),
      g_base_middle = ucast (drop_bit 16 base AND 0xFF), g_access = access,
      g_granularity = ucast (drop_bit 16 limit AND 0x0F) OR (gran AND 0xF0),
      g_base_high = ucast (drop_bit 24 base AND 0xFF)\<rparr>"

definition gdt_set_gate ::
  "nat \<Rightarrow> u32 \<Rightarrow> u32 \<Rightarrow> u8 \<Rightarrow> u8 \<Rightarrow> 'z int_state_scheme \<Rightarrow> 'z int_state_scheme" where
  "gdt_set_gate num base limit access gran s =
     s\<lparr>gdt_entries := (gdt_entries s)[num := gdt_gate base limit access gran]\<rparr>"

definition TSS_SIZE :: u32 where "TSS_SIZE = 104"

definition gdt_init :: "ptr \<Rightarrow> 'z int_state_scheme \<Rightarrow> 'z int_state_scheme" where
  "gdt_init tss s =
     gdt_set_gate 5 tss TSS_SIZE 0xE9 0
      (gdt_set_gate 4 0 0xFFFFFFFF 0xF2 0xCF
        (gdt_set_gate 3 0 0xFFFFFFFF 0xFA 0xCF
          (gdt_set_gate 2 0 0xFFFFFFFF 0x92 0xCF
            (gdt_set_gate 1 0 0xFFFFFFFF 0x9A 0xCF
              (gdt_set_gate 0 0 0 0 0 (s\<lparr>gdt_limit := 8 * 6 - 1\<rparr>))))))"

subsection \<open>The interrupt descriptor table\<close>

definition idt_gate :: "u32 \<Rightarrow> u16 \<Rightarrow> u8 \<Rightarrow> idt_entry" where
  "idt_gate base selector flags =
     \<lparr>i_base_low = ucast (base AND 0xFFFF), i_selector = selector, i_always0 = 0,
      i_flags = flags OR 0x60, i_base_high = ucast (drop_bit 16 base AND 0xFFFF)\<rparr>"

definition idt_set_gate :: "u8 \<Rightarrow> u32 \<Rightarrow> u16 \<Rightarrow> u8 \<Rightarrow> 'z int_state_scheme \<Rightarrow> 'z int_state_scheme" where
  "idt_set_gate num base selector flags s =
     s\<lparr>idt_entries := (idt_entries s)[unat num := idt_gate base selector flags]\<rparr>"

definition zero_gate :: idt_entry where
  "zero_gate = \<lparr>i_base_low = 0, i_selector = 0, i_always0 = 0, i_flags = 0, i_base_high = 0\<rparr>"

definition pic_setup :: "(u16 \<times> u8) list" where
  "pic_setup = [(0x20, 0x11), (0xA0, 0x11), (0x21, 0x20), (0xA1, 0x28), (0x21, 0x04), (0xA1, 0x02),
     (0x21, 0x01), (0xA1, 0x01), (0x21, 0x0), (0xA1, 0x0)]"

definition idt_init :: "(nat \<Rightarrow> u32) \<Rightarrow> (nat \<Rightarrow> u32) \<Rightarrow> 'z int_state_scheme \<Rightarrow> 'z int_state_scheme" where
  "idt_init isr irq s =
     (let s1 = fold (\<lambda>(port, v). outb port v) pic_setup s;
          s2 = s1\<lparr>idt_limit := 8 * 256 - 1, idt_entries := replicate 256 zero_gate\<rparr>;
          s3 = fold (\<lambda>i. idt_set_gate (of_nat i) (isr i) 0x08 0x8E) [0..<32] s2
      in fold (\<lambda>i. idt_set_gate (of_nat (32 + i)) (irq i) 0x08 0x8E) [0..<16] s3)"

definition register_int_handler :: "u8 \<Rightarrow> u32 \<Rightarrow> 'z int_state_scheme \<Rightarrow> 'z int_state_scheme" where
  "register_int_handler i handler s = s\<lparr>idt_handlers := (idt_handlers s)[unat i := handler]\<rparr>"

definition isr_handler ::
  "(u32 \<Rightarrow> regs \<Rightarrow> 'z int_state_scheme \<Rightarrow> 'z int_state_scheme option) \<Rightarrow> regs \<Rightarrow>
   'z int_state_scheme \<Rightarrow> 'z int_state_scheme option" where
  "isr_handler call r s = do {
     guard (unat (rg_int_no r) < length (idt_handlers s));
     let h = idt_handlers s ! unat (rg_int_no r);
     s1 \<leftarrow> (if h \<noteq> 0 then call h r s
           else Some (printk_s (KLOG_SOH @ ''2'' @ ''idt: received unhandled interrupt (%d)'') (sdec (rg_int_no r)) s));
     Some (outb 0x20 0x20 s1)
   }"

subsection \<open>Interrupt requests\<close>

text \<open>A handler index outside the array of sixteen overwrites other memory: a fault.\<close>

definition register_irq_handler :: "u8 \<Rightarrow> u32 \<Rightarrow> 'z int_state_scheme \<Rightarrow> 'z int_state_scheme option" where
  "register_irq_handler i handler s =
     (if unat i < length (irq_handlers s) then Some (s\<lparr>irq_handlers := (irq_handlers s)[unat i := handler]\<rparr>) else None)"

definition irq_handler ::
  "(u32 \<Rightarrow> regs \<Rightarrow> 'z int_state_scheme \<Rightarrow> 'z int_state_scheme option) \<Rightarrow> regs \<Rightarrow>
   'z int_state_scheme \<Rightarrow> 'z int_state_scheme option" where
  "irq_handler call r s = do {
     let s1 = (if rg_int_no r \<ge> 40 then outb 0xA0 0x20 s else s);
     let s2 = outb 0x20 0x20 s1;
     guard (unat (rg_int_no r - 32) < length (irq_handlers s2));
     let h = irq_handlers s2 ! unat (rg_int_no r - 32);
     if h \<noteq> 0 then call h r s2 else Some s2
   }"

subsection \<open>The timer\<close>

text \<open>Dividing by a zero frequency is a fault.\<close>

definition timer_setfreq :: "u32 \<Rightarrow> 'z int_state_scheme \<Rightarrow> 'z int_state_scheme option" where
  "timer_setfreq freq s =
     (if freq = 0 then None
      else let d = 1193180 div freq
        in Some (outb 0x40 (ucast (drop_bit 8 d AND 0xFF)) (outb 0x40 (ucast (d AND 0xFF)) (outb 0x43 0x36 s))))"

definition timer_init :: "u32 \<Rightarrow> 'z int_state_scheme \<Rightarrow> 'z int_state_scheme option" where
  "timer_init freq s = timer_setfreq freq s"

subsection \<open>What the hardware reads from the entries\<close>

definition gdt_base :: "gdt_entry \<Rightarrow> u32" where
  "gdt_base e = ucast (g_base_low e) OR push_bit 16 (ucast (g_base_middle e)) OR push_bit 24 (ucast (g_base_high e))"

text \<open>The limit has twenty bits; bit 23 of the second word scales it by 4 KiB.\<close>

definition gdt_limit20 :: "gdt_entry \<Rightarrow> u32" where
  "gdt_limit20 e = ucast (g_limit_low e) OR push_bit 16 (ucast (g_granularity e AND 0x0F))"

definition gdt_flags :: "gdt_entry \<Rightarrow> u8" where
  "gdt_flags e = g_granularity e AND 0xF0"

definition idt_base :: "idt_entry \<Rightarrow> u32" where
  "idt_base e = ucast (i_base_low e) OR push_bit 16 (ucast (i_base_high e))"

definition idt_dpl :: "idt_entry \<Rightarrow> u8" where
  "idt_dpl e = drop_bit 5 (i_flags e) AND 3"

lemma masks:
  "(0xFFFF :: u32) = mask 16" "(0xFF :: u32) = mask 8" "(0x0F :: u32) = mask 4" "(0x0F :: u8) = mask 4"
  "(0xFFFFF :: u32) = mask 20" "(0xF0 :: u8) = push_bit 4 (mask 4)"
  by (simp_all add: mask_eq_exp_minus_1)

lemma gdt_base_gate: "gdt_base (gdt_gate base limit access gran) = base"
proof (rule bit_word_eqI)
  fix n assume "n < LENGTH(32)"
  then consider "n < 16" | "16 \<le> n" "n < 24" | "24 \<le> n" "n < 32" by fastforce
  then show "bit (gdt_base (gdt_gate base limit access gran)) n = bit base n"
    by cases (auto simp: gdt_base_def gdt_gate_def masks bit_simps)
qed

lemma gdt_limit20_gate: "gdt_limit20 (gdt_gate base limit access gran) = limit AND 0xFFFFF"
proof (rule bit_word_eqI)
  fix n assume "n < LENGTH(32)"
  then consider "n < 16" | "16 \<le> n" "n < 20" | "20 \<le> n" "n < 32" by fastforce
  then show "bit (gdt_limit20 (gdt_gate base limit access gran)) n = bit (limit AND 0xFFFFF) n"
    by cases (auto simp: gdt_limit20_def gdt_gate_def masks bit_simps)
qed

lemma idt_base_gate: "idt_base (idt_gate base selector flags) = base"
proof (rule bit_word_eqI)
  fix n assume "n < LENGTH(32)"
  then consider "n < 16" | "16 \<le> n" "n < 32" by fastforce
  then show "bit (idt_base (idt_gate base selector flags)) n = bit base n"
    by cases (auto simp: idt_base_def idt_gate_def masks bit_simps)
qed

lemma gdt_entries_init:
  assumes "length (gdt_entries s) = 6"
  shows "gdt_entries (gdt_init tss s) =
    [gdt_gate 0 0 0 0, gdt_gate 0 0xFFFFFFFF 0x9A 0xCF, gdt_gate 0 0xFFFFFFFF 0x92 0xCF,
     gdt_gate 0 0xFFFFFFFF 0xFA 0xCF, gdt_gate 0 0xFFFFFFFF 0xF2 0xCF, gdt_gate tss TSS_SIZE 0xE9 0]"
  using assms by (auto simp: gdt_init_def gdt_set_gate_def length_Suc_conv eval_nat_numeral)

text \<open>Setting a run of gates leaves each with its entry point and the rest as they were.\<close>

lemma set_gates:
  assumes "k + n \<le> 256" "length (idt_entries s) = 256"
  shows "length (idt_entries (fold (\<lambda>i. idt_set_gate (of_nat (k + i)) (f i) sel fl) [0..<n] s)) = 256 \<and>
    (\<forall>j < 256. idt_entries (fold (\<lambda>i. idt_set_gate (of_nat (k + i)) (f i) sel fl) [0..<n] s) ! j =
      (if k \<le> j \<and> j < k + n then idt_gate (f (j - k)) sel fl else idt_entries s ! j))"
  using assms(1)
proof (induction n)
  case 0
  then show ?case using assms(2) by auto
next
  case (Suc n)
  have "unat (of_nat (k + n) :: u8) = k + n"
    using Suc.prems by (simp add: unat_of_nat take_bit_nat_eq_self del: of_nat_add)
  then show ?case using Suc by (auto simp: idt_set_gate_def nth_list_update)
qed

lemma idt_entries_ports: "idt_entries (fold (\<lambda>(port, v). outb port v) ps s) = idt_entries s"
  by (induction ps arbitrary: s) (auto simp: outb_def)

lemma idt_entries_init:
  assumes "j < 256"
  shows "idt_entries (idt_init isr irq s) ! j =
    (if j < 32 then idt_gate (isr j) 0x08 0x8E else if j < 48 then idt_gate (irq (j - 32)) 0x08 0x8E else zero_gate)"
proof -
  define s2 where "s2 = (fold (\<lambda>(port, v). outb port v) pic_setup s)\<lparr>idt_limit := 8 * 256 - 1, idt_entries := replicate 256 zero_gate\<rparr>"
  have l2: "length (idt_entries s2) = 256" by (simp add: s2_def)
  define s3 where "s3 = fold (\<lambda>i. idt_set_gate (of_nat (0 + i)) (isr i) 0x08 0x8E) [0..<32] s2"
  have s3: "length (idt_entries s3) = 256"
    "\<forall>j < 256. idt_entries s3 ! j = (if 0 \<le> j \<and> j < 0 + 32 then idt_gate (isr (j - 0)) 0x08 0x8E else idt_entries s2 ! j)"
    unfolding s3_def using set_gates [of 0 32 s2 isr "0x08" "0x8E"] l2 by auto
  have "idt_init isr irq s = fold (\<lambda>i. idt_set_gate (of_nat (32 + i)) (irq i) 0x08 0x8E) [0..<16] s3"
    by (simp add: idt_init_def s3_def s2_def Let_def)
  moreover have "idt_entries (fold (\<lambda>i. idt_set_gate (of_nat (32 + i)) (irq i) 0x08 0x8E) [0..<16] s3) ! j =
      (if 32 \<le> j \<and> j < 32 + 16 then idt_gate (irq (j - 32)) 0x08 0x8E else idt_entries s3 ! j)"
    using set_gates [of 32 16 s3 irq "0x08" "0x8E"] s3(1) assms by auto
  ultimately show ?thesis using s3(2) assms by (auto simp: s2_def)
qed

subsection \<open>Dispatch\<close>

text \<open>The end-of-interrupt commands: to both controllers for requests 8 to 15, to the first otherwise.\<close>

definition eoi :: "nat \<Rightarrow> (u16 \<times> u8) list" where
  "eoi n = (if 8 \<le> n then [(0xA0, 0x20)] else []) @ [(0x20, 0x20)]"

lemma irq_handler_dispatch:
  assumes "length (irq_handlers s) = 16" "n < 16" "rg_int_no r = 32 + of_nat n"
  shows "irq_handler call r s =
    (let t = s\<lparr>ports := ports s @ eoi n\<rparr>; h = irq_handlers s ! n in if h \<noteq> 0 then call h r t else Some t)"
proof -
  have n: "unat (of_nat n :: u32) = n" using assms(2) by (intro unat_of_nat_small) simp
  have "unat (32 + of_nat n :: u32) = 32 + n"
    using assms(2) n by (subst unat_plus_if_size) (simp add: word_size)
  then have "rg_int_no r \<ge> 40 \<longleftrightarrow> 8 \<le> n" using assms(3) by (simp add: word_le_nat_alt)
  moreover have "unat (rg_int_no r - 32) = n" using assms(3) n by simp
  ultimately show ?thesis
    using assms by (simp add: irq_handler_def outb_def eoi_def guard_def Let_def)
qed

lemma irq_registered:
  assumes "length (irq_handlers s) = 16" "unat i < 16"
  obtains t where "register_irq_handler i h s = Some t" "length (irq_handlers t) = 16"
    "irq_handlers t ! unat i = h" "\<And>j. j \<noteq> unat i \<Longrightarrow> irq_handlers t ! j = irq_handlers s ! j"
  using assms that [of "s\<lparr>irq_handlers := (irq_handlers s)[unat i := h]\<rparr>"] by (simp add: register_irq_handler_def)

lemma irq_outside:
  assumes "length (irq_handlers s) = 16" "16 \<le> unat i"
  shows "register_irq_handler i h s = None"
  using assms by (simp add: register_irq_handler_def)

lemma isr_handler_dispatch:
  assumes "length (idt_handlers s) = 256" "unat (rg_int_no r) < 256"
  shows "isr_handler call r (register_int_handler (ucast (rg_int_no r)) h s) =
    (if h \<noteq> 0 then map_option (outb 0x20 0x20) (call h r (register_int_handler (ucast (rg_int_no r)) h s))
     else Some (outb 0x20 0x20 (printk_s (KLOG_SOH @ ''2'' @ ''idt: received unhandled interrupt (%d)'')
       (sdec (rg_int_no r)) (register_int_handler (ucast (rg_int_no r)) h s))))"
proof -
  have "unat (ucast (rg_int_no r) :: u8) = unat (rg_int_no r)"
    using assms(2) by (simp add: unsigned_ucast_eq take_bit_nat_eq_self)
  then show ?thesis
    using assms by (simp add: isr_handler_def register_int_handler_def guard_def map_option_case split: option.splits)
qed

subsection \<open>The divisor the timer gets\<close>

lemma timer_setfreq_divisor:
  assumes "freq \<noteq> 0"
  obtains lo hi where "timer_setfreq freq s = Some (s\<lparr>ports := ports s @ [(0x43, 0x36), (0x40, lo), (0x40, hi)]\<rparr>)"
    "unat lo + 256 * unat hi = (1193180 div unat freq) mod 65536"
proof -
  let ?d = "1193180 div freq"
  have d: "unat ?d = 1193180 div unat freq" by (simp add: unat_div)
  have lo: "unat (ucast (?d AND 0xFF) :: u8) = unat ?d mod 256"
    by (simp add: masks take_bit_eq_mask [symmetric] unsigned_ucast_eq unsigned_take_bit_eq take_bit_nat_def)
  have hi: "unat (ucast (drop_bit 8 ?d AND 0xFF) :: u8) = unat ?d div 256 mod 256"
    by (simp add: masks take_bit_eq_mask [symmetric] unsigned_ucast_eq unsigned_take_bit_eq unsigned_drop_bit_eq take_bit_nat_def
      drop_bit_nat_def)
  have "unat ?d mod 256 + 256 * (unat ?d div 256 mod 256) = unat ?d mod 65536"
    using mod_mult2_eq [of "unat ?d" 256 256] by simp
  then show ?thesis using that assms lo hi d by (simp add: timer_setfreq_def outb_def Let_def)
qed

subsection \<open>Properties\<close>

text \<open>C38: descriptors are packed without loss: the base and the low 20 bits of the limit that the processor reads
  from a GDT entry written by \<open>gdt_set_gate\<close>, and the handler address it reads from an IDT entry written by
  \<open>idt_set_gate\<close>, are the ones that were given.\<close>

theorem descriptor_roundtrip:
  "gdt_base (gdt_gate base limit access gran) = base \<and>
    gdt_limit20 (gdt_gate base limit access gran) = limit AND 0xFFFFF \<and>
    idt_base (idt_gate handler selector flags) = handler"
  by (simp only: gdt_base_gate gdt_limit20_gate idt_base_gate)

text \<open>\<open>idt_init\<close> fills the whole interrupt table: vectors 0 to 31 go to the exception stubs, 32 to 47 to the
  interrupt request stubs, both as kernel interrupt gates with the code selector, and the other 208 entries are zero, that is
  not present.\<close>

theorem idt_table:
  assumes "j < 256"
  shows "idt_entries (idt_init isr irq s) ! j =
    (if j < 32 then idt_gate (isr j) 0x08 0x8E else if j < 48 then idt_gate (irq (j - 32)) 0x08 0x8E
     else \<lparr>i_base_low = 0, i_selector = 0, i_always0 = 0, i_flags = 0, i_base_high = 0\<rparr>)"
  using idt_entries_init [OF assms, of isr irq s] by (simp add: zero_gate_def)

definition blank_int :: int_state where
  "blank_int = \<lparr>klog_calls = [], ports = [], gdt_entries = [], gdt_limit = 0, idt_entries = [], idt_limit = 0,
     idt_handlers = replicate 256 0, irq_handlers = replicate 16 0\<rparr>"

theorem idt_table_witness:
  "idt_base (idt_entries (idt_init (\<lambda>i. 0x1000 + of_nat i) (\<lambda>i. 0x2000 + of_nat i) blank_int) ! 33) = 0x2001"
  by (subst idt_table) (simp_all add: idt_base_gate)

text \<open>An interrupt request is acknowledged and handed to its handler: \<open>register_irq_handler\<close> stores the handler of
  line \<open>n\<close> and no other; on that line's interrupt \<open>irq_handler\<close> first sends the end-of-interrupt commands (to the
  second controller only for lines 8 and up, always to the first) and then runs exactly the handler registered.\<close>

theorem irq_dispatch:
  assumes "length (irq_handlers s) = 16" "n < 16" "h \<noteq> 0" "rg_int_no r = 32 + of_nat n"
  shows "\<exists>t. register_irq_handler (of_nat n) h s = Some t \<and>
    (\<forall>j. j \<noteq> n \<longrightarrow> irq_handlers t ! j = irq_handlers s ! j) \<and>
    irq_handler call r t = call h r (t\<lparr>ports := ports t @ (if 8 \<le> n then [(0xA0, 0x20)] else []) @ [(0x20, 0x20)]\<rparr>)"
proof -
  have n: "unat (of_nat n :: u8) = n" using assms(2) by (intro of_nat_inverse [OF refl]) simp
  obtain t where t: "register_irq_handler (of_nat n) h s = Some t" "length (irq_handlers t) = 16"
    "irq_handlers t ! n = h" "\<And>j. j \<noteq> n \<Longrightarrow> irq_handlers t ! j = irq_handlers s ! j"
    using irq_registered [OF assms(1), of "of_nat n" h] assms(2) unfolding n by metis
  have "irq_handler call r t = call h r (t\<lparr>ports := ports t @ eoi n\<rparr>)"
    using irq_handler_dispatch [OF t(2) assms(2,4), of call] assms(3) t(3) by (simp add: Let_def)
  with t show ?thesis by (auto simp: eoi_def)
qed

definition irq_regs :: "u32 \<Rightarrow> regs" where
  "irq_regs n = \<lparr>rg_ds = 0, rg_edi = 0, rg_esi = 0, rg_ebp = 0, rg_esp = 0, rg_ebx = 0, rg_edx = 0, rg_ecx = 0, rg_eax = 0,
     rg_int_no = n, rg_err_code = 0, rg_eip = 0, rg_cs = 0, rg_eflags = 0, rg_useresp = 0, rg_ss = 0\<rparr>"

theorem irq_dispatch_witness:
  "\<exists>t. register_irq_handler 9 0x1234 blank_int = Some t \<and>
    irq_handler (\<lambda>h r s. Some s) (irq_regs 41) t = Some (t\<lparr>ports := ports t @ [(0xA0, 0x20), (0x20, 0x20)]\<rparr>)"
  using irq_dispatch [of blank_int 9 "0x1234" "irq_regs 41" "\<lambda>h r s. Some s"]
  by (auto simp: blank_int_def irq_regs_def)

text \<open>\<open>timer_setfreq\<close> programs channel 0 of the interval timer with the divisor \<open>1193180 / freq\<close> as a 16-bit
  number, low byte first: a frequency below 19 Hz, whose divisor does not fit 16 bits, silently sets a different one.\<close>

theorem timer_divisor:
  assumes "freq \<noteq> 0"
  shows "\<exists>lo hi. timer_setfreq freq s = Some (s\<lparr>ports := ports s @ [(0x43, 0x36), (0x40, lo), (0x40, hi)]\<rparr>) \<and>
    unat lo + 256 * unat hi = (1193180 div unat freq) mod 65536"
  by (rule timer_setfreq_divisor [OF assms, of s]) blast

theorem timer_divisor_witness:
  "\<exists>lo hi. timer_setfreq 18 blank_int = Some (blank_int\<lparr>ports := [(0x43, 0x36), (0x40, lo), (0x40, hi)]\<rparr>) \<and>
    unat lo + 256 * unat hi = 751"
  using timer_divisor [of 18 blank_int] by (simp add: blank_int_def)

end
