(* ===== verification/Exec.thy ===== *)
theory Exec
  imports Proc Elf Interrupts
begin

text \<open>
  Starting programs: \<open>proc_exec\<close> and \<open>sched_init\<close> of \<^verbatim>\<open>newland/arch/x86/src/proc.c\<close>.

  The header, a program header and \<open>argc\<close> are variables of the caller's stack, at the addresses of \<open>exec_vars\<close>.
  The segment is cleared through the page tables of the new process: a byte at a virtual address lies in the byte
  memory \<open>fs_mem\<close> at the physical address of its page, and a page that is not present faults. The driver that reads
  the segment gets the virtual address, with the page directory of the process loaded. Nothing else runs between the
  calls, so the masking of interrupts by \<open>irq_disable\<close> and \<open>irq_restore\<close> is left out.
\<close>

record exec_vars =
  ev_hdr :: ptr
  ev_argc :: ptr
  ev_prog :: ptr

definition PAGE_ALIGN_UP :: "u32 \<Rightarrow> u32" where
  "PAGE_ALIGN_UP x = x + PAGE_SIZE - x mod PAGE_SIZE"

text \<open>\<open>memset (vaddr, 0, n)\<close> through the directory \<open>dir\<close>.\<close>

definition clear_user :: "ptr \<Rightarrow> u32 \<Rightarrow> u32 \<Rightarrow> 'z proc_state_scheme \<Rightarrow> 'z proc_state_scheme option" where
  "clear_user dir vaddr n s = foldM (\<lambda>i s.
     if page_ispresent (kernel_vm s) dir (vaddr + i)
     then map_option (\<lambda>m. s\<lparr>fs_mem := m\<rparr>) (store (fs_mem s) (virt2phys (kernel_vm s) dir (vaddr + i)) 0)
     else None) (upto_u32 n) s"

text \<open>\<open>while (argv[argc] != NULL)\<close>\<close>

partial_function (option) push_args ::
  "ptr \<Rightarrow> ptr \<Rightarrow> u32 \<Rightarrow> 'z proc_state_scheme \<Rightarrow> (u32 \<times> 'z proc_state_scheme) option" where
  "push_args proc argv argc s = do {
     a \<leftarrow> load32 (fs_mem s) (argv + 4 * argc);
     if a = 0 then Some (argc, s)
     else do {
       n \<leftarrow> strlen (fs_mem s) a;
       (esp, t) \<leftarrow> proc_pushstack s proc a (n + 1);
       push_args proc argv (argc + 1) t
     }
   }"

text \<open>One round of the loop over the program headers.\<close>

definition exec_segment ::
  "'z proc_state_scheme drivers \<Rightarrow> (nat \<Rightarrow> ptr) \<Rightarrow> exec_vars \<Rightarrow> ptr \<Rightarrow> ptr \<Rightarrow> ptr \<Rightarrow> elf_header \<Rightarrow> u32 \<Rightarrow>
   'z proc_state_scheme \<Rightarrow> (u32 \<times> 'z proc_state_scheme) option" where
  "exec_segment env bufs ev proc cur node hdr i s = do {
     (r, s1) \<leftarrow> fs_node_read env bufs s node (eh_phoff hdr + ucast (eh_phentsize hdr) * i) (ev_prog ev) 32;
     if sint r < 0 then Some (r, s1)
     else do {
       prog \<leftarrow> elf_program_at (fs_mem s1) (ev_prog ev);
       if ep_vaddr prog \<ge> 0x100000 then do {
         q \<leftarrow> deref (proc_heap s1) proc;
         let cr3 = r_cr3 (p_regs q);
         (oldpgdir, s2) \<leftarrow> proc_switch_pgdir s1 cur cr3;
         let s2 = s2\<lparr>kernel_vm := (kernel_vm s2)\<lparr>page_dir_reg := cr3\<rparr>\<rparr>;
         (x, vm) \<leftarrow> mem_map pgdir_fuel (kernel_vm s2) cr3 (ep_vaddr prog) (PAGE_ALIGN_UP (ep_memsz prog) div PAGE_SIZE) 1 1;
         s3 \<leftarrow> clear_user cr3 (ep_vaddr prog) (ep_memsz prog) (s2\<lparr>kernel_vm := vm\<rparr>);
         (r, s4) \<leftarrow> fs_node_read env bufs s3 node (ep_offset prog) (ep_vaddr prog) (ep_filesz prog);
         if sint r < 0 then Some (r, s4)
         else do {
           (x, s5) \<leftarrow> proc_switch_pgdir s4 cur oldpgdir;
           Some (0, s5)
         }
       }
       else Some (0, s1)
     }
   }"

text \<open>The file is read and checked; \<open>Inl\<close> is the value \<open>proc_exec\<close> returns for a file it refuses.\<close>

definition exec_header ::
  "'z proc_state_scheme drivers \<Rightarrow> (nat \<Rightarrow> ptr) \<Rightarrow> exec_vars \<Rightarrow> ptr \<Rightarrow> 'z proc_state_scheme \<Rightarrow>
   ((u32 + ptr \<times> elf_header) \<times> 'z proc_state_scheme) option" where
  "exec_header env bufs ev path s = do {
     (r, found, s1) \<leftarrow> fs_resolve env s path;
     if sint r < 0 then Some (Inl r, s1)
     else do {
       node \<leftarrow> found;
       (r, s2) \<leftarrow> fs_node_read env bufs s1 node 0 (ev_hdr ev) 52;
       if sint r < 0 then Some (Inl r, s2)
       else do {
         hdr \<leftarrow> elf_header_at (fs_mem s2) (ev_hdr ev);
         if \<not> (elf_isvalid hdr \<and> eh_machine hdr = 3) then Some (Inl (err EINVAL), s2)
         else Some (Inr (node, hdr), s2)
       }
     }
   }"

text \<open>\<open>p\<close> is the answer of the \<open>kmalloc\<close> of \<open>proc_create\<close>.\<close>

definition proc_exec ::
  "(proc heap \<Rightarrow> ptr \<Rightarrow> proc heap) \<Rightarrow> 'z proc_state_scheme drivers \<Rightarrow> (nat \<Rightarrow> ptr) \<Rightarrow> exec_vars \<Rightarrow> ptr \<Rightarrow>
   'z proc_state_scheme \<Rightarrow> ptr \<Rightarrow> ptr \<Rightarrow> (u32 \<times> 'z proc_state_scheme) option" where
  "proc_exec kfree env bufs ev p s path argv = do {
     (file, s2) \<leftarrow> exec_header env bufs ev path s;
     (case file of
        Inl r \<Rightarrow> Some (r, s2)
      | Inr (node, hdr) \<Rightarrow> do {
          cur \<leftarrow> process_curr s2;
          name \<leftarrow> cstr_of (fs_mem s2) path;
          (proc, s3) \<leftarrow> proc_create s2 p cur name 1;
          if proc = 0 then Some (errno_var s3, s3)
          else do {
            s4 \<leftarrow> upd_proc proc (\<lambda>p. p\<lparr>p_regs := (p_regs p)\<lparr>r_eip := eh_entry hdr\<rparr>\<rparr>) s3;
            (argc, s5) \<leftarrow> (if argv \<noteq> 0 then push_args proc argv 0 s4 else Some (0, s4));
            m \<leftarrow> store32 (fs_mem s5) (ev_argc ev) argc;
            (esp, s6) \<leftarrow> proc_pushstack (s5\<lparr>fs_mem := m\<rparr>) proc (ev_argc ev) 4;
            (r, s7) \<leftarrow> for_r (exec_segment env bufs ev proc cur node hdr) (map of_nat [0..<unat (eh_phnum hdr)]) s6;
            if sint r < 0 then map_option (\<lambda>(x, t). (r, t)) (proc_destroy kfree env s7 proc)
            else do {
              q \<leftarrow> deref (proc_heap s7) proc;
              Some (p_id q, s7)
            }
          }
        })
   }"

text \<open>\<open>exc\<close> and \<open>sched\<close> are the code addresses of \<open>proc_handle_interrupt\<close> and \<open>schedule\<close>.\<close>

definition sched_init :: "u32 \<Rightarrow> u32 \<Rightarrow> 'z int_state_scheme \<Rightarrow> 'z int_state_scheme option" where
  "sched_init exc sched s =
     register_irq_handler 0 sched
       (register_int_handler 0x0E exc (register_int_handler 0x0C exc (register_int_handler 0x10 exc (register_int_handler 0x06 exc s))))"


subsection \<open>What the steps keep\<close>

text \<open>The memory and the nodes are the same, and address 0 holds no process if it held none.\<close>

definition same_files :: "'z proc_state_scheme \<Rightarrow> 'z proc_state_scheme \<Rightarrow> bool" where
  "same_files s t \<longleftrightarrow> fs_mem t = fs_mem s \<and> node_heap t = node_heap s \<and> (proc_heap s 0 = None \<longrightarrow> proc_heap t 0 = None)"

lemma upd_proc_frame: "upd_proc p f s = Some t \<Longrightarrow> same_files s t"
  by (auto simp: upd_proc_def set_val_def same_files_def split: option.splits)

lemma same_files_trans: "same_files s t \<Longrightarrow> same_files t u \<Longrightarrow> same_files s u"
  by (simp add: same_files_def)

lemma link_proc_frame:
  assumes "link_proc p v s = Some t" "p \<noteq> 0"
  shows "same_files s t"
proof -
  let ?s = "s\<lparr>proc_heap := (proc_heap s)(p \<mapsto> Cell v 0)\<rparr>"
  obtain s1 where s1: "fpu_savectx p ?s = Some s1"
    using assms(1) by (cases "fpu_savectx p ?s") (simp_all add: link_proc_def)
  obtain h head where h: "SLIST_INSERT_HEAD (proc_heap s1) (processes s1) p = Some (h, head)"
    using assms(1) s1 by (cases "SLIST_INSERT_HEAD (proc_heap s1) (processes s1) p") (auto simp: link_proc_def)
  have t: "fs_mem t = fs_mem s1" "node_heap t = node_heap s1" "proc_heap t = h"
    using assms(1) by (simp_all add: link_proc_def s1 h Let_def split: if_splits) auto
  have "same_files (?s\<lparr>fpu_regs := fpu_hw ?s\<rparr>) s1"
    using s1 unfolding fpu_savectx_def by (rule upd_proc_frame)
  moreover have "proc_heap s1 0 = None \<longrightarrow> h 0 = None"
    using h assms(2) by (auto simp: SLIST_INSERT_HEAD_def SLIST_SET_NEXT_def split: option.splits)
  ultimately show ?thesis using t assms(2) by (simp add: same_files_def)
qed

lemma proc_create_frame:
  assumes "proc_create s p parent name isuser = Some (proc, t)"
  shows "same_files s t"
proof -
  consider "t = s" | "t = s\<lparr>errno_var := err ECHILD\<rparr>"
    | s2 v vm where "p \<noteq> 0" "same_files s s2" "link_proc p v (s2\<lparr>kernel_vm := vm\<rparr>) = Some t"
  proof (cases "p = 0")
    case True
    then show ?thesis using assms that(1) by (simp add: proc_create_def)
  next
    case False
    obtain slot where slot: "(if parent = 0 then Some (Some (0, 0)) else map_option child_slot (deref (proc_heap s) parent)) = Some slot"
      using assms False by (cases "if parent = 0 then Some (Some (0, 0)) else map_option child_slot (deref (proc_heap s) parent)")
        (simp_all add: proc_create_def split del: if_split)
    show ?thesis
    proof (cases slot)
      case None
      then show ?thesis using assms False slot that(2) by (simp add: proc_create_def split del: if_split)
    next
      case (Some ic)
      obtain i c where ic: "ic = (i, c)" by (cases ic)
      let ?s1 = "s\<lparr>next_pid := next_pid s + 1\<rparr>"
      obtain s2 where s2: "(if parent = 0 then Some ?s1 else upd_proc parent (add_child i c (next_pid s)) ?s1) = Some s2"
        using assms False slot Some ic
        by (cases "if parent = 0 then Some ?s1 else upd_proc parent (add_child i c (next_pid s)) ?s1")
          (auto simp: proc_create_def bind_eq_Some_conv Let_def split del: if_split)
      have "same_files ?s1 s2" using s2 upd_proc_frame [of parent _ ?s1 s2] by (auto simp: same_files_def split: if_splits)
      then have "same_files s s2" by (simp add: same_files_def)
      moreover obtain v vm where "link_proc p v (s2\<lparr>kernel_vm := vm\<rparr>) = Some t"
        using assms False slot Some ic s2
        by (auto simp: proc_create_def bind_eq_Some_conv Let_def split del: if_split)
      ultimately show ?thesis using that(3) False by blast
    qed
  qed
  then show ?thesis
  proof cases
    case (3 s2 v vm)
    have "same_files (s2\<lparr>kernel_vm := vm\<rparr>) t" by (rule link_proc_frame [OF 3(3,1)])
    then show ?thesis using 3(2) by (simp add: same_files_def)
  qed (simp_all add: same_files_def)
qed

lemma slist_upd_head: "distinct (map fst ((p, v) # xs)) \<Longrightarrow> slist_upd p f ((p, v) # xs) = (p, f v) # xs"
  unfolding slist_upd_def by (simp, intro map_idI) force

lemma proc_rep_mem: "proc_rep (s\<lparr>fs_mem := m, proc_heap := h\<rparr>) xs \<longleftrightarrow> proc_rep (s\<lparr>proc_heap := h\<rparr>) xs"
  by (simp add: proc_rep_def)

lemma push_argc:
  assumes rep: "proc_rep s ((p, q) # xs)" and src: "mapped (fs_mem s) a 4" and dst: "mapped (fs_mem s) (r_esp (p_regs q) - 4) 4"
    and dis: "disjoint a 4 (r_esp (p_regs q) - 4) 4"
  shows "\<exists>m t. store32 (fs_mem s) a v = Some m \<and> proc_pushstack (s\<lparr>fs_mem := m\<rparr>) p a 4 = Some (r_esp (p_regs q) - 4, t) \<and>
    proc_rep t ((p, q\<lparr>p_regs := (p_regs q)\<lparr>r_esp := r_esp (p_regs q) - 4\<rparr>\<rparr>) # xs) \<and> node_heap t = node_heap s \<and>
    (proc_heap s 0 = None \<longrightarrow> proc_heap t 0 = None)"
proof -
  let ?m = "write_bytes (fs_mem s) a (le_bytes 4 v)" and ?f = "\<lambda>p. p\<lparr>p_regs := (p_regs p)\<lparr>r_esp := r_esp (p_regs p) - 4\<rparr>\<rparr>"
  have st: "store32 (fs_mem s) a v = Some ?m" by (rule store32_word [OF src])
  have rep': "proc_rep (s\<lparr>fs_mem := ?m\<rparr>) ((p, q) # xs)" using rep by simp
  obtain h where h: "upd_proc p ?f (s\<lparr>fs_mem := ?m\<rparr>) = Some (s\<lparr>fs_mem := ?m, proc_heap := h\<rparr>)"
    "proc_rep (s\<lparr>fs_mem := ?m, proc_heap := h\<rparr>) (slist_upd p ?f ((p, q) # xs))"
    by (rule upd_proc_rep [OF rep', of p ?f]) auto
  have "slist_upd p ?f ((p, q) # xs) = (p, ?f q) # xs"
    by (rule slist_upd_head [OF slist_rep_distinct [OF proc_rep_list [OF rep]]])
  then have h': "proc_rep (s\<lparr>fs_mem := ?m, proc_heap := h\<rparr>) ((p, ?f q) # xs)" using h(2) by simp
  have d: "deref h p = Some (?f q)" using proc_rep_deref [OF h', of p "?f q"] by simp
  have "mapped ?m (r_esp (p_regs q) - 4) (length (le_bytes 4 v))" using dst by (simp add: mapped_def write_bytes_nth)
  moreover have "bytes_at ?m a (le_bytes 4 v)" by (rule bytes_at_write_bytes) simp
  ultimately have cp: "memcpy ?m (r_esp (p_regs q) - 4) a 4 =
      Some (write_bytes ?m (r_esp (p_regs q) - 4) (le_bytes 4 v), r_esp (p_regs q) - 4)"
    using memcpy_correct [of ?m a "le_bytes 4 v" "r_esp (p_regs q) - 4"] dis by simp
  have heap: "proc_heap s 0 = None \<longrightarrow> h 0 = None"
    using upd_proc_frame [OF h(1)] by (simp add: same_files_def)
  show ?thesis using st h(1) h' d cp heap by (simp add: proc_pushstack_def proc_rep_mem)
qed


subsection \<open>Program headers\<close>

text \<open>A file whose driver answers every read of a program header, with a header whose address is on the side \<open>high\<close>.\<close>

definition headers_read :: "'z proc_state_scheme drivers \<Rightarrow> fs_node \<Rightarrow> ptr \<Rightarrow> ptr \<Rightarrow> bool \<Rightarrow> bool" where
  "headers_read env nd node prog high \<longleftrightarrow> op_read (node_opts nd) \<noteq> 0 \<and> FS_NODE_TYPE_GET (node_mode nd) \<noteq> FS_NODE_LINK \<and>
     FS_NODE_TYPE_GET (node_mode nd) \<noteq> FS_NODE_DIR \<and>
     (\<forall>ofs t. \<exists>r m pr. call_read env (op_read (node_opts nd)) node ofs prog 32 t = Some (r, t\<lparr>fs_mem := m\<rparr>) \<and> 0 \<le> sint r \<and>
       elf_program_at m prog = Some pr \<and> (ep_vaddr pr \<ge> 0x100000 \<longleftrightarrow> high))"

lemma headers_readE:
  assumes "headers_read env nd node prog high" "node_heap s node = Some nd"
  obtains r m pr where "fs_node_read env bufs s node ofs prog 32 = Some (r, s\<lparr>fs_mem := m\<rparr>)" "\<not> sint r < 0"
    "elf_program_at m prog = Some pr" "ep_vaddr pr \<ge> 0x100000 \<longleftrightarrow> high"
proof -
  obtain r m pr where c: "call_read env (op_read (node_opts nd)) node ofs prog 32 s = Some (r, s\<lparr>fs_mem := m\<rparr>)" "0 \<le> sint r"
    "elf_program_at m prog = Some pr" "ep_vaddr pr \<ge> 0x100000 \<longleftrightarrow> high"
    using assms(1) unfolding headers_read_def by blast
  have "fs_node_read env bufs s node ofs prog 32 = Some (r, s\<lparr>fs_mem := m\<rparr>)"
    using assms c(1) by (subst fs_node_read.simps) (simp add: headers_read_def)
  then show ?thesis using that c(2-4) by force
qed

lemma low_segment:
  assumes "headers_read env nd node (ev_prog ev) False" "node_heap s node = Some nd" "proc_rep s ys"
  shows "\<exists>t. exec_segment env bufs ev proc cur node hdr i s = Some (0, t) \<and> node_heap t node = Some nd \<and> proc_rep t ys"
proof -
  obtain r m pr where "fs_node_read env bufs s node (eh_phoff hdr + ucast (eh_phentsize hdr) * i) (ev_prog ev) 32 = Some (r, s\<lparr>fs_mem := m\<rparr>)"
    "\<not> sint r < 0" "elf_program_at m (ev_prog ev) = Some pr" "\<not> ep_vaddr pr \<ge> 0x100000"
    using headers_readE [OF assms(1,2)] by metis
  then show ?thesis using assms(2,3) by (simp add: exec_segment_def)
qed

lemma high_segment_null:
  assumes "headers_read env nd node (ev_prog ev) True" "node_heap s node = Some nd" "proc_heap s 0 = None"
  shows "exec_segment env bufs ev proc 0 node hdr i s = None"
proof -
  obtain r m pr where "fs_node_read env bufs s node (eh_phoff hdr + ucast (eh_phentsize hdr) * i) (ev_prog ev) 32 = Some (r, s\<lparr>fs_mem := m\<rparr>)"
    "\<not> sint r < 0" "elf_program_at m (ev_prog ev) = Some pr" "ep_vaddr pr \<ge> 0x100000"
    using headers_readE [OF assms(1,2)] by metis
  then show ?thesis using assms(3) by (simp add: exec_segment_def proc_switch_pgdir_def deref_def bind_eq_None_conv)
qed

text \<open>The prefix of \<open>proc_exec\<close> up to the program headers, for a file that is accepted and without arguments.\<close>

lemma exec_prefix:
  assumes hdr: "exec_header env bufs ev path s = Some (Inr (node, hdr), s2)" and name: "cstr_of (fs_mem s2) path = Some name"
    and cur: "process_curr s2 = Some cur" and create: "proc_create s2 p cur name 1 = Some (p, s3)" and p: "p \<noteq> 0"
    and rep: "proc_rep s3 ((p, q) # xs)" and esp: "r_esp (p_regs q) = stack_of p + PROC_STACKSIZE"
    and mem: "mapped (fs_mem s2) (ev_argc ev) 4" "mapped (fs_mem s2) (stack_of p + PROC_STACKSIZE - 4) 4"
      "disjoint (ev_argc ev) 4 (stack_of p + PROC_STACKSIZE - 4) 4"
  shows "\<exists>s6. proc_rep s6 ((p, q\<lparr>p_regs := (p_regs q)\<lparr>r_eip := eh_entry hdr, r_esp := stack_of p + PROC_STACKSIZE - 4\<rparr>\<rparr>) # xs) \<and>
    node_heap s6 = node_heap s2 \<and> (proc_heap s2 0 = None \<longrightarrow> proc_heap s6 0 = None) \<and>
    proc_exec kfree env bufs ev p s path 0 = do {
      (r, s7) \<leftarrow> for_r (exec_segment env bufs ev p cur node hdr) (map of_nat [0..<unat (eh_phnum hdr)]) s6;
      if sint r < 0 then map_option (\<lambda>(x, t). (r, t)) (proc_destroy kfree env s7 p)
      else do { q \<leftarrow> deref (proc_heap s7) p; Some (p_id q, s7) } }"
proof -
  let ?f = "\<lambda>p. p\<lparr>p_regs := (p_regs p)\<lparr>r_eip := eh_entry hdr\<rparr>\<rparr>"
  obtain h where h: "upd_proc p ?f s3 = Some (s3\<lparr>proc_heap := h\<rparr>)" "proc_rep (s3\<lparr>proc_heap := h\<rparr>) (slist_upd p ?f ((p, q) # xs))"
    by (rule upd_proc_rep [OF rep, of p ?f]) auto
  have upd: "slist_upd p ?f ((p, q) # xs) = (p, ?f q) # xs"
    by (rule slist_upd_head [OF slist_rep_distinct [OF proc_rep_list [OF rep]]])
  let ?s4 = "s3\<lparr>proc_heap := h\<rparr>"
  have same: "same_files s2 ?s4"
    using same_files_trans [OF proc_create_frame [OF create] upd_proc_frame [OF h(1)]] .
  have rep4: "proc_rep ?s4 ((p, ?f q) # xs)" using h(2) upd by simp
  have m4: "mapped (fs_mem ?s4) (ev_argc ev) 4" "mapped (fs_mem ?s4) (r_esp (p_regs (?f q)) - 4) 4"
    "disjoint (ev_argc ev) 4 (r_esp (p_regs (?f q)) - 4) 4"
    using mem same by (simp_all add: esp same_files_def)
  obtain m s6 where s6: "store32 (fs_mem ?s4) (ev_argc ev) 0 = Some m"
    "proc_pushstack (?s4\<lparr>fs_mem := m\<rparr>) p (ev_argc ev) 4 = Some (r_esp (p_regs (?f q)) - 4, s6)"
    "proc_rep s6 ((p, (?f q)\<lparr>p_regs := (p_regs (?f q))\<lparr>r_esp := r_esp (p_regs (?f q)) - 4\<rparr>\<rparr>) # xs)" "node_heap s6 = node_heap ?s4"
    "proc_heap ?s4 0 = None \<longrightarrow> proc_heap s6 0 = None"
    using push_argc [OF rep4 m4, of 0] by (elim exE conjE) (rule that)
  show ?thesis
    using s6 same h(1) hdr name cur create p esp
    by (intro exI [of _ s6]) (simp add: proc_exec_def same_files_def)
qed


lemma exec_headerI:
  assumes "fs_resolve env s path = Some (r0, Some node, s1)" "\<not> sint r0 < 0"
    and "fs_node_read env bufs s1 node 0 (ev_hdr ev) 52 = Some (r1, s2)" "\<not> sint r1 < 0"
    and "elf_header_at (fs_mem s2) (ev_hdr ev) = Some hdr" "elf_isvalid hdr" "eh_machine hdr = 3"
  shows "exec_header env bufs ev path s = Some (Inr (node, hdr), s2)"
  using assms by (simp add: exec_header_def)

lemma process_curr_nth:
  assumes "proc_rep s xs" "k < length xs" "xs ! k = (parent, pp)" "curr_pid s = p_id pp"
  shows "process_curr s = Some parent"
proof -
  have "proc_wf pp" using assms(1-3) nth_mem [OF assms(2)] by (force simp: proc_rep_def)
  then have "curr_pid s \<noteq> 0" by (simp add: assms(4) proc_wf_def)
  then show ?thesis
    using process_frompid_nth [OF assms(1,2)] proc_count_pos [OF assms(1,2)] assms(3,4) by (simp add: process_curr_def)
qed

lemma new_proc_esp: "r_esp (p_regs (new_proc p hw cr3 v)) = stack_of p + PROC_STACKSIZE"
  by (simp add: new_proc_def)

lemma init_proc_status: "p_status (init_proc par t name u pid) = PROC_READY" "p_id (init_proc par t name u pid) = pid"
  "p_parent (init_proc (Some pp) t name u pid) = p_id pp"
  by (simp_all add: init_proc_def Let_def split: option.splits)

subsection \<open>A file to execute\<close>

text \<open>
  The tree of \<open>with_tree\<close> over a process table, in a machine whose memory is all there and whose page tables are those of the boot:
  the read hook of the file \<open>hosts\<close> answers 52 bytes with a file header and fewer with a program header.
\<close>

definition exec_state :: "(ptr \<times> proc) list \<Rightarrow> u32 \<Rightarrow> proc_state" where
  "exec_state xs cur = (with_tree [] (table_state xs cur))
     \<lparr>fs_mem := write_bytes (\<lambda>_. Some 0) 0x100 (cstring ''hosts''), kernel_vm := kernel_vm_at_boot\<rparr>"

definition elf_drivers :: "elf_header \<Rightarrow> elf_program \<Rightarrow> proc_state drivers" where
  "elf_drivers h g = (dir_drivers sample_children)\<lparr>call_read := (\<lambda>_ _ _ buf n s.
     Some (0, s\<lparr>fs_mem := write_bytes (fs_mem s) buf (if n = 52 then header_bytes h else program_bytes g)\<rparr>))\<rparr>"

definition exec_program :: "u32 \<Rightarrow> elf_program" where
  "exec_program vaddr = \<lparr>ep_type = 1, ep_offset = 0, ep_vaddr = vaddr, ep_paddr = 0, ep_filesz = 0, ep_memsz = 0, ep_flags = 0, ep_align = 0\<rparr>"

abbreviation one_header :: elf_header where
  "one_header \<equiv> sample_header\<lparr>eh_phnum := 1\<rparr>"

abbreviation exec_at :: exec_vars where
  "exec_at \<equiv> \<lparr>ev_hdr = 0x1000, ev_argc = 0x3000, ev_prog = 0x2000\<rparr>"

abbreviation exec_read :: "proc_state \<Rightarrow> proc_state" where
  "exec_read s \<equiv> s\<lparr>fs_mem := write_bytes (fs_mem s) 0x1000 (header_bytes one_header)\<rparr>"

lemma header_length: "length (header_bytes one_header) = 52" "length (program_bytes g) = 32"
  by (simp_all add: header_bytes_def sample_header_def program_bytes_def)

lemma exec_state_rep: "proc_rep (table_state xs cur) xs \<Longrightarrow> proc_rep (exec_read (exec_state xs cur)) xs"
  by (simp add: proc_rep_def exec_state_def with_tree_def)

lemma exec_state_fields:
  "node_heap (exec_state xs cur) 0x30 = Some (sample_node ''hosts'' 0 (no_opts\<lparr>op_read := 3\<rparr>))"
  "curr_pid (exec_state xs cur) = cur" "next_pid (exec_state xs cur) = 9" "kernel_vm (exec_state xs cur) = kernel_vm_at_boot"
  "proc_heap (exec_state xs cur) = heap_of xs" "ttys (exec_state xs cur) = 0"
  "fs_mem (exec_state xs cur) = write_bytes (\<lambda>_. Some 0) 0x100 (cstring ''hosts'')"
  by (simp_all add: exec_state_def with_tree_def table_state_def sample_nodes_def)

lemma exec_path: "path_at (fs_mem (exec_state xs cur)) 0x100 ''hosts''"
  using bytes_at_write_bytes [of "cstring ''hosts''" "\<lambda>_. Some 0" "0x100"] by (simp add: exec_state_fields path_at_def str_at_bytes)

lemma exec_lists: "lists_dir (elf_drivers h g) (exec_state xs cur) 0x10 [0x20, 0x30, 0x38]"
  unfolding lists_dir_def
  by (auto simp: exec_state_def with_tree_def name_of_def elf_drivers_def dir_drivers_def sample_children_def
      sample_nodes_def sample_node_def no_opts_def)

lemma exec_resolve: "fs_resolve (elf_drivers h g) (exec_state xs cur) 0x100 = Some (0, Some 0x30, exec_state xs cur)"
proof -
  let ?s = "exec_state xs cur"
  have str: "str_at (fs_mem ?s) 0x100 ''hosts''" using exec_path [of xs cur] by (simp add: path_at_def)
  then have "fs_mem ?s 0x100 = Some (byte (CHR ''h''))" by (simp only: str_at.simps)
  then have skip: "skip_slash (fs_mem ?s) 0x100 = Some 0x100" by (simp only: skip_slash_def) simp
  have "mp_rep ?s sample_mount"
    using with_tree_mp_rep [of "[]" "table_state xs cur"] by (simp add: mp_rep_def exec_state_def)
  then have "fs_resolve (elf_drivers h g) ?s 0x100 = fs_node_resolve (elf_drivers h g) ?s 0x10 (0x100 + of_nat (length ([] :: string)))"
    using fs_resolve_mounted [of ?s sample_mount "0x100" "0x100" "''hosts''" "0x50" "snd (hd sample_mount)" "elf_drivers h g"] str skip
    by (simp add: sample_mount_def strncmp_def)
  also have "\<dots> = fs_node_resolve (elf_drivers h g) ?s 0x10 0x100" by simp
  also have "\<dots> = Some (0, Some 0x30, ?s)"
    using fs_node_resolve_single [OF exec_lists exec_path]
    by (simp add: name_of_def exec_state_def with_tree_def sample_nodes_def sample_node_def)
  finally show ?thesis .
qed

lemma exec_file:
  fixes xs cur defines "s \<equiv> exec_state xs cur"
  shows "fs_node_read (elf_drivers one_header g) bufs s 0x30 0 0x1000 52 = Some (0, exec_read s)"
    and "elf_header_at (fs_mem (exec_read s)) 0x1000 = Some one_header"
    and "cstr_of (fs_mem (exec_read s)) 0x100 = Some ''hosts''"
proof -
  show "fs_node_read (elf_drivers one_header g) bufs s 0x30 0 0x1000 52 = Some (0, exec_read s)"
    by (subst fs_node_read.simps) (simp add: s_def exec_state_fields sample_node_def no_opts_def elf_drivers_def FS_NODE_TYPE_GET_def FS_NODE_LINK_def FS_NODE_DIR_def)
  have "bytes_at (write_bytes (fs_mem s) 0x1000 (header_bytes one_header)) 0x1000 (header_bytes one_header)"
    by (rule bytes_at_write_bytes) (simp add: header_length)
  then show "elf_header_at (fs_mem (exec_read s)) 0x1000 = Some one_header"
    using elf_structures_image(1) [of one_header] sample_header_valid(3) by simp
  have "disjoint 0x100 6 0x1000 52" by (rule disjointI) simp_all
  then have "str_at (write_bytes (fs_mem s) 0x1000 (header_bytes one_header)) 0x100 ''hosts''"
    using exec_path [of xs cur] header_length
    by (simp add: path_at_def s_def str_at_bytes bytes_at_nth write_bytes_nth disjoint_def)
  then show "cstr_of (fs_mem (exec_read s)) 0x100 = Some ''hosts''" by (simp add: cstr_of_str)
qed

lemma exec_headers: "headers_read (elf_drivers h (exec_program v)) (sample_node nm 0 (no_opts\<lparr>op_read := 3\<rparr>)) node buf (v \<ge> 0x100000)"
proof -
  have "elf_program_at (write_bytes m buf (program_bytes (exec_program v))) buf = Some (exec_program v)" for m
    using bytes_at_write_bytes [of "program_bytes (exec_program v)" m buf] elf_structures_image(2) [OF sample_header_valid(3)]
    by (simp add: header_length)
  moreover have "ep_vaddr (exec_program v) = v" by (simp add: exec_program_def)
  ultimately have "\<exists>r m pr. call_read (elf_drivers h (exec_program v)) 3 node ofs buf 32 t = Some (r, t\<lparr>fs_mem := m\<rparr>) \<and> 0 \<le> sint r \<and>
      elf_program_at m buf = Some pr \<and> (ep_vaddr pr \<ge> 0x100000 \<longleftrightarrow> v \<ge> 0x100000)" for ofs t
    by (intro exI [of _ 0] exI [of _ "write_bytes (fs_mem t) buf (program_bytes (exec_program v))"] exI [of _ "exec_program v"])
      (simp add: elf_drivers_def)
  then show ?thesis
    by (simp add: headers_read_def sample_node_def no_opts_def FS_NODE_TYPE_GET_def FS_NODE_LINK_def FS_NODE_DIR_def)
qed

lemma exec_mem:
  "mapped (fs_mem (exec_read (exec_state xs cur))) a n" "disjoint 0x3000 4 (stack_of 0x4000 + PROC_STACKSIZE - 4) 4"
proof -
  have "mapped (\<lambda>_. Some (0 :: u8)) a n" by (simp add: mapped_def)
  then show "mapped (fs_mem (exec_read (exec_state xs cur))) a n" by (simp add: exec_state_fields)
  show "disjoint 0x3000 4 (stack_of 0x4000 + PROC_STACKSIZE - 4) 4"
    by (rule disjointI) (simp_all add: stack_of_def PROC_STACKSIZE_def)
qed

lemma exec_pgdir: obtains cr3 vm where "mem_alloc_pgdir pgdir_fuel kernel_vm_at_boot = Some (cr3, vm)"
proof -
  have "\<exists>a v. mem_allocident (Suc (Suc 2)) kernel_vm_at_boot 0x100000 1 1 0 = Some (a, v)"
    by (rule mem_allocident_kernel [OF boot_dir_ok boot_table_pages, of 1 2 1]) (use boot_tables in auto)
  moreover have "Suc (Suc 2) = pgdir_fuel" "krnl_pgdir kernel_vm_at_boot = 0x100000"
    by (simp_all add: pgdir_fuel_def kernel_vm_at_boot_def)
  ultimately obtain a v where "mem_allocident pgdir_fuel kernel_vm_at_boot (krnl_pgdir kernel_vm_at_boot) 1 1 0 = Some (a, v)"
    by metis
  then show ?thesis
    using that unfolding mem_alloc_pgdir_def by (cases "a = 0") (simp_all del: mem_allocident.simps)
qed

subsection \<open>Properties\<close>



text \<open>C24: The first program cannot be loaded: without any process there is no current one, and for a program header at or
  above one megabyte \<open>proc_exec\<close> switches the page directory of the current process through a null pointer.\<close>

theorem exec_first_faults:
  assumes elf: "fs_resolve env s path = Some (r0, Some node, s1)" "\<not> sint r0 < 0"
      "fs_node_read env bufs s1 node 0 (ev_hdr ev) 52 = Some (r1, s2)" "\<not> sint r1 < 0"
      "elf_header_at (fs_mem s2) (ev_hdr ev) = Some hdr" "elf_isvalid hdr" "eh_machine hdr = 3"
      "cstr_of (fs_mem s2) path = Some name" "node_heap s2 node = Some nd" "headers_read env nd node (ev_prog ev) True"
      "eh_phnum hdr \<noteq> 0"
    and procs: "proc_rep s2 []" "curr_pid s2 = 0" "proc_heap s2 0 = None" "p \<noteq> 0" "next_pid s2 \<noteq> 0"
      "first_tty_name s2 = Some tt" "mem_alloc_pgdir pgdir_fuel (kernel_vm s2) = Some (cr3, vm)"
    and mem: "mapped (fs_mem s2) (ev_argc ev) 4" "mapped (fs_mem s2) (stack_of p + PROC_STACKSIZE - 4) 4"
      "disjoint (ev_argc ev) 4 (stack_of p + PROC_STACKSIZE - 4) 4"
  shows "(\<exists>s3. proc_create s2 p 0 name 1 = Some (p, s3)) \<and> proc_exec kfree env bufs ev p s path 0 = None"
proof -
  let ?q = "new_proc p (fpu_hw s2) cr3 (init_proc None tt name 1 (next_pid s2))"
  have dir: "pgdir_for 1 (kernel_vm s2) = Some (cr3, vm)" using procs(7) by (simp add: pgdir_for_def)
  obtain s3 where s3: "proc_create s2 p 0 name 1 = Some (p, s3)" "proc_rep s3 ((p, ?q) # [])"
    by (rule proc_create_root [OF procs(1) procs(4) _ procs(5) _ procs(6) dir, of name]) (simp_all add: pids_def)
  have cur: "process_curr s2 = Some 0" using procs(1) by (simp add: process_curr_def proc_rep_def)
  obtain s6 where s6: "node_heap s6 = node_heap s2" "proc_heap s6 0 = None"
    and run: "proc_exec kfree env bufs ev p s path 0 = do {
      (r, s7) \<leftarrow> for_r (exec_segment env bufs ev p 0 node hdr) (map of_nat [0..<unat (eh_phnum hdr)]) s6;
      if sint r < 0 then map_option (\<lambda>(x, t). (r, t)) (proc_destroy kfree env s7 p)
      else do { q \<leftarrow> deref (proc_heap s7) p; Some (p_id q, s7) } }"
    using exec_prefix [OF exec_headerI [OF elf(1-7)] elf(8) cur s3(1) procs(4) s3(2) new_proc_esp mem, of kfree] procs(3) by blast
  have "0 < unat (eh_phnum hdr)" using elf(11) by (simp add: unat_gt_0)
  then have "for_r (exec_segment env bufs ev p 0 node hdr) (map of_nat [0..<unat (eh_phnum hdr)]) s6 = None"
    using high_segment_null [OF elf(10), of s6] s6 elf(9) by (simp add: upt_conv_Cons)
  then show ?thesis using run s3(1) by simp
qed


theorem exec_first_faults_witness:
  "proc_exec heap_free (elf_drivers one_header (exec_program 0x200000)) (\<lambda>_. 0x5000) exec_at 0x4000 (exec_state [] 0) 0x100 0 = None"
proof -
  let ?s = "exec_state [] 0" and ?nd = "sample_node ''hosts'' 0 (no_opts\<lparr>op_read := 3\<rparr>)"
  obtain cr3 vm where dir: "mem_alloc_pgdir pgdir_fuel (kernel_vm (exec_read ?s)) = Some (cr3, vm)"
    by (rule exec_pgdir) (simp add: exec_state_fields)
  have heads: "headers_read (elf_drivers one_header (exec_program 0x200000)) ?nd 0x30 (ev_prog exec_at) True"
    using exec_headers [of one_header "0x200000" "''hosts''" "0x30" "ev_prog exec_at"] by simp
  have hdr: "fs_node_read (elf_drivers one_header (exec_program 0x200000)) (\<lambda>_. 0x5000) ?s 0x30 0 (ev_hdr exec_at) 52 = Some (0, exec_read ?s)"
    "elf_header_at (fs_mem (exec_read ?s)) (ev_hdr exec_at) = Some one_header"
    using exec_file(1,2) by simp_all
  have valid: "elf_isvalid one_header" "eh_machine one_header = 3" using sample_header_valid by (simp_all add: elf_isvalid_def)
  have node: "node_heap (exec_read ?s) 0x30 = Some ?nd" by (simp add: exec_state_fields)
  have table: "eh_phnum one_header \<noteq> 0" "proc_rep (table_state [] 0) []" "curr_pid (exec_read ?s) = 0" "proc_heap (exec_read ?s) 0 = None"
      "0x4000 \<noteq> (0 :: ptr)" "next_pid (exec_read ?s) \<noteq> 0"
    using table_state_rep [of "[]" 0] by (simp_all add: exec_state_fields pids_def)
  have tty: "first_tty_name (exec_read ?s) = Some []" by (simp add: first_tty_name_def tty_get_def exec_state_fields slist_get.simps)
  have neg: "\<not> sint (0 :: u32) < 0" by simp
  have mem: "mapped (fs_mem (exec_read ?s)) (ev_argc exec_at) 4" "disjoint (ev_argc exec_at) 4 (stack_of 0x4000 + PROC_STACKSIZE - 4) 4"
    using exec_mem by simp_all
  show ?thesis
    using exec_first_faults [OF exec_resolve neg hdr(1) neg hdr(2) valid exec_file(3) node heads table(1) exec_state_rep [OF table(2)]
        table(3-6) tty dir mem(1) exec_mem(1) mem(2), of heap_free] by blast
qed

end
