(* ===== verification/Multiboot.thy ===== *)
theory Multiboot
  imports Dev PhysMem LibcString Charbuf
begin

text \<open>
  The devices of the boot modules, \<^verbatim>\<open>newland/arch/x86/src/multiboot.c\<close>.

  The descriptor found at an address is a parameter, as in \<open>mem_loadmmap\<close>; the address \<open>kmalloc\<close> gives for a
  device is a function of the state. A read copies from the byte memory the module lies in.
\<close>

record mbi =
  mods_count :: u32
  mods_addr :: ptr

text \<open>The number of a module as \<open>mb_read\<close> takes it from the name of its node.\<close>

definition mb_index :: "string \<Rightarrow> u8 option" where
  "mb_index name =
     (if 6 < length name then Some ((byte (name ! 6) - 0x30) * 10 + (byte (name ! 5) - 0x30)) else None)"

definition mb_read ::
  "mbi \<Rightarrow> (ptr \<Rightarrow> multiboot_module option) \<Rightarrow> fs_node \<Rightarrow> u32 \<Rightarrow> ptr \<Rightarrow> u32 \<Rightarrow> mem \<Rightarrow> (u32 \<times> mem) option" where
  "mb_read mbi mods node offset buff sz m = do {
     i \<leftarrow> mb_index (node_name node);
     if ucast i > mods_count mbi then Some (err EINVAL, m)
     else do {
       p \<leftarrow> mods_walk mods (ucast i) (mods_addr mbi);
       md \<leftarrow> mods p;
       if offset + sz \<ge> mod_end md then Some (err EINVAL, m)
       else
         (let n = (if offset > mod_end md - mod_start md then 0 else min (mod_end md - mod_start md - offset) sz)
          in map_option (\<lambda>(m', _). (n, m')) (memcpy m buff (mod_start md + offset) n))
     }
   }"

text \<open>The name as \<open>mbi_modules_init\<close> builds it in an array of eight characters that held \<open>g\<close>.\<close>

definition mb_name :: "string \<Rightarrow> u32 \<Rightarrow> string option" where
  "mb_name g i = do {
     b0 \<leftarrow> strcpy_at 0 ''mbmod'' g;
     b1 \<leftarrow> itoa_at 5 10 i b0;
     Some (text_at 0 ((pad_zero 6 b1)[7 := CHR 0x00]))
   }"

text \<open>One round of the loop; \<open>opts\<close> is \<open>mbimod_opts\<close>, with the code address of \<open>mb_read\<close>.\<close>

definition mb_register ::
  "('z dev_state_scheme \<Rightarrow> ptr) \<Rightarrow> fs_node_opts \<Rightarrow> string \<Rightarrow> (ptr \<Rightarrow> multiboot_module option) \<Rightarrow> u32 \<Rightarrow>
   ptr \<times> 'z dev_state_scheme \<Rightarrow> (u32 \<times> ptr \<times> 'z dev_state_scheme) option" where
  "mb_register alloc opts g mods i st = (case st of (p, s) \<Rightarrow> do {
     name \<leftarrow> mb_name g i;
     md \<leftarrow> mods p;
     (r, t) \<leftarrow> register_device s (alloc s) (MKDEV DEVMAJ_MBMOD i) name opts (mod_end md - mod_start md);
     if sint r < 0 then Some (r, p, t) else Some (0, mod_end md + 1, t)
   })"

definition mbi_modules_init ::
  "('z dev_state_scheme \<Rightarrow> ptr) \<Rightarrow> fs_node_opts \<Rightarrow> string \<Rightarrow> mbi \<Rightarrow> (ptr \<Rightarrow> multiboot_module option) \<Rightarrow>
   'z dev_state_scheme \<Rightarrow> (u32 \<times> 'z dev_state_scheme) option" where
  "mbi_modules_init alloc opts g mbi mods s =
     map_option (\<lambda>(r, p, t). (r, t)) (for_r (mb_register alloc opts g mods) (upto_u32 (mods_count mbi)) (mods_addr mbi, s))"

subsection \<open>Names\<close>

lemma mb_name_small:
  assumes "length g = 8" "unat i < 10"
  shows "mb_name g i = Some (''mbmod'' @ [digit_char (unat i), CHR ''0''])"
proof -
  obtain a b c d e f x y where g: "g = [a, b, c, d, e, f, x, y]"
    using assms(1) by (auto simp: length_Suc_conv eval_nat_numeral)
  show ?thesis
    using assms(2) by (simp add: mb_name_def strcpy_at_def g itoa_at_dec dec_digits_small pad_zero_def text_at_def)
qed

lemma mb_name_two:
  assumes "length g = 8" "10 \<le> unat i" "unat i < 100"
  shows "mb_name g i = Some (''mbmod'' @ [digit_char (unat i div 10), digit_char (unat i mod 10)])"
proof -
  obtain a b c d e f x y where g: "g = [a, b, c, d, e, f, x, y]"
    using assms(1) by (auto simp: length_Suc_conv eval_nat_numeral)
  show ?thesis
    using assms(2,3) by (simp add: mb_name_def strcpy_at_def g itoa_at_dec dec_digits_two pad_zero_def text_at_def)
qed

lemma byte_digit: "n < 10 \<Longrightarrow> byte (digit_char n) = 0x30 + of_nat n"
proof -
  assume n: "n < 10"
  have "byte (digit_char n) = of_nat (of_char (digit_char n))" by (simp add: byte_def of_nat_of_char)
  also have "(of_char (digit_char n) :: nat) = n + 48" using n by (simp add: digit_char_def)
  finally show ?thesis by simp
qed

lemma mb_index_name:
  assumes "length g = 8" "unat i < 100" "mb_name g i = Some name"
  shows "mb_index name = Some (of_nat (if unat i < 10 then unat i else 10 * (unat i mod 10) + unat i div 10))"
proof (cases "unat i < 10")
  case True
  then show ?thesis using assms(1,3) by (auto simp: mb_name_small mb_index_def byte_digit digit_char_0 [symmetric])
next
  case False
  then show ?thesis using assms by (auto simp: mb_name_two mb_index_def byte_digit less_mult_imp_div_less)
qed

subsection \<open>Registration\<close>

text \<open>The device of module \<open>k\<close>, and the descriptor of the module reached after \<open>k\<close> steps.\<close>

definition mb_device :: "fs_node_opts \<Rightarrow> (nat \<Rightarrow> multiboot_module) \<Rightarrow> nat \<Rightarrow> device" where
  "mb_device opts md k = \<lparr>device_dev = MKDEV DEVMAJ_MBMOD (of_nat k), device_size = mod_end (md k) - mod_start (md k),
     device_name = ''mbmod'' @ [digit_char k, CHR ''0''], device_opts = opts\<rparr>"

definition mod_addr :: "ptr \<Rightarrow> (nat \<Rightarrow> multiboot_module) \<Rightarrow> nat \<Rightarrow> ptr" where
  "mod_addr p md k = (if k = 0 then p else mod_end (md (k - 1)) + 1)"

lemma MKDEV_minor: "i < 256 \<Longrightarrow> j < 256 \<Longrightarrow> MKDEV ma (of_nat i) = MKDEV ma (of_nat j) \<longleftrightarrow> i = j"
proof -
  have m: "unat (DEV_MINOR (MKDEV ma (of_nat k))) = k" if "k < 256" for k
    using that by (subst DEV_MINOR_MKDEV) (simp_all add: word_less_nat_alt unat_of_nat take_bit_nat_eq_self_iff)
  assume "i < 256" "j < 256"
  then show ?thesis using m [of i] m [of j] by metis
qed

text \<open>The tables after the first \<open>k\<close> modules.\<close>

definition mb_tables ::
  "fs_node_opts \<Rightarrow> ptr \<Rightarrow> (nat \<Rightarrow> multiboot_module) \<Rightarrow> nat \<Rightarrow> nat \<Rightarrow> (ptr \<times> device) list \<Rightarrow> nat \<Rightarrow> ptr \<times> 'z dev_state_scheme \<Rightarrow> bool" where
  "mb_tables opts p md N n ds k st \<longleftrightarrow> (case st of (q, s) \<Rightarrow> q = mod_addr p md k \<and> card (dom (dev_heap s)) + n \<le> N + k \<and>
     (\<exists>xs. device_rep s (xs @ ds) \<and> map snd xs = rev (map (mb_device opts md) [0..<k])))"

lemma mb_register_step:
  assumes g: "length g = 8" and alloc: "\<And>s. card (dom (dev_heap s)) < N \<Longrightarrow> dev_fresh s (alloc s)"
    and md: "mods (mod_addr p md k) = Some (md k)" and k: "k < n" "k < 10"
    and free: "\<forall>x \<in> set ds. device_name (snd x) \<noteq> device_name (mb_device opts md k) \<and> device_dev (snd x) \<noteq> MKDEV DEVMAJ_MBMOD (of_nat k)"
    and tabs: "mb_tables opts p md N n ds k st"
  shows "\<exists>st'. mb_register alloc opts g mods (of_nat k) st = Some (0, st') \<and> mb_tables opts p md N n ds (Suc k) st'"
proof -
  obtain q s xs where st: "st = (q, s)" "q = mod_addr p md k" and room: "card (dom (dev_heap s)) + n \<le> N + k"
    and rep: "device_rep s (xs @ ds)" and xs: "map snd xs = rev (map (mb_device opts md) [0..<k])"
    using tabs by (cases st) (auto simp: mb_tables_def)
  have uk: "unat (of_nat k :: u32) = k" using k by (simp add: unat_of_nat take_bit_nat_eq_self_iff)
  have mem: "snd x \<in> mb_device opts md ` {0..<k}" if "x \<in> set xs" for x
    using arg_cong [OF xs, of set] that by (auto simp: image_iff)
  have new: "\<forall>x \<in> set (xs @ ds). device_name (snd x) \<noteq> device_name (mb_device opts md k) \<and> device_dev (snd x) \<noteq> MKDEV DEVMAJ_MBMOD (of_nat k)"
    using free k by (auto simp: mb_device_def MKDEV_minor dest!: mem)
  have fresh: "dev_fresh s (alloc s)" by (rule alloc) (use room k in simp)
  have len: "length (device_name (mb_device opts md k)) < NAME_MAX" by (simp add: mb_device_def NAME_MAX_def)
  let ?d = "mb_device opts md k"
  let ?s = "s\<lparr>dev_heap := (dev_heap s)(alloc s \<mapsto> Cell ?d (devices s)), devices := alloc s, dev_count := dev_count s + 1\<rparr>"
  have d: "\<lparr>device_dev = MKDEV DEVMAJ_MBMOD (of_nat k), device_size = mod_end (md k) - mod_start (md k),
      device_name = device_name ?d, device_opts = opts\<rparr> = ?d" by (simp add: mb_device_def)
  have r: "register_device s (alloc s) (MKDEV DEVMAJ_MBMOD (of_nat k)) (device_name ?d) opts (mod_end (md k) - mod_start (md k)) = Some (0, ?s)"
    "device_rep ?s ((alloc s, ?d) # xs @ ds)"
    using register_device_new [OF rep len fresh new, where opts = opts and sz = "mod_end (md k) - mod_start (md k)"] unfolding d by blast+
  have "mb_register alloc opts g mods (of_nat k) st = Some (0, mod_end (md k) + 1, ?s)"
    using k r(1) by (simp add: mb_register_def st mb_name_small [OF g] uk md) (simp add: mb_device_def)
  moreover have "mb_tables opts p md N n ds (Suc k) (mod_end (md k) + 1, ?s)"
    using room r(2) xs
    by (auto simp: mb_tables_def mod_addr_def card_insert_if intro!: exI [of _ "(alloc s, ?d) # xs"])
  ultimately show ?thesis by blast
qed

lemma mb_first_ten:
  fixes s :: "'z dev_state_scheme"
  assumes "length g = 8" "device_rep s ds"
    and "\<And>s. card (dom (dev_heap s)) < N \<Longrightarrow> dev_fresh s (alloc s)" "card (dom (dev_heap s)) + n \<le> N"
    and "\<And>k. k < n \<Longrightarrow> mods (mod_addr p md k) = Some (md k)"
    and "\<And>k x. k < n \<Longrightarrow> x \<in> set ds \<Longrightarrow> device_name (snd x) \<noteq> device_name (mb_device opts md k) \<and>
      device_dev (snd x) \<noteq> MKDEV DEVMAJ_MBMOD (of_nat k)"
  shows "\<exists>t xs. for_r (mb_register alloc opts g mods) (map of_nat [0..<min n 10]) (p, s) = Some (0, mod_addr p md (min n 10), t) \<and>
    device_rep t (xs @ ds) \<and> map snd xs = rev (map (mb_device opts md) [0..<min n 10])"
proof -
  let ?P = "mb_tables opts p md N n ds" and ?f = "mb_register alloc opts g mods"
  have "\<exists>st. for_r ?f (map of_nat [0..<min n 10]) (p, s) = Some (0, st) \<and> ?P (min n 10) st"
  proof (rule for_r_counted [where P = ?P])
    show "?P 0 (p, s)" using assms(2,4) by (simp add: mb_tables_def mod_addr_def)
    fix k and st :: "ptr \<times> 'z dev_state_scheme"
    assume k: "k < min n 10" and P: "?P k st"
    then have "k < n" "k < 10" by simp_all
    then show "\<exists>t. ?f (of_nat k) st = Some (0, t) \<and> ?P (Suc k) t"
      using assms(6) by (intro mb_register_step [where alloc = alloc and mods = mods and md = md, OF assms(1,3,5) _ _ _ P]) auto
  qed
  then show ?thesis by (auto simp: mb_tables_def)
qed

lemma mb_eleventh_refused:
  assumes g: "length g = 8" and rep: "device_rep t (xs @ ds)" and xs: "map snd xs = rev (map (mb_device opts md) [0..<10])"
    and md: "mods q = Some d"
  shows "mb_register alloc opts g mods 10 (q, t) = Some (err EEXIST, q, t)"
proof -
  have "set (map snd xs) = mb_device opts md ` {0..<10}" by (simp add: xs)
  then have "mb_device opts md 1 \<in> set (map snd xs)" by simp
  then obtain x where "x \<in> set xs" "snd x = mb_device opts md 1" unfolding set_map by force
  then have "x \<in> set (xs @ ds)" "device_name (snd x) = ''mbmod10''"
    by (simp_all add: mb_device_def digit_char_1)
  then have "\<exists>x \<in> set (xs @ ds). device_name (snd x) = ''mbmod10''" by blast
  then have "register_device t (alloc t) (MKDEV DEVMAJ_MBMOD 10) ''mbmod10'' opts sz = Some (err EEXIST, t)" for sz
    by (intro register_device_dup [OF rep]) (auto simp: NAME_MAX_def)
  moreover have "mb_name g 10 = Some ''mbmod10''"
    using mb_name_two [OF g, of 10] by (simp add: digit_char_0 digit_char_1)
  ultimately show ?thesis using md by (simp add: mb_register_def)
qed

subsection \<open>Properties\<close>

text \<open>The number that \<open>mb_read\<close> takes from the name given to a module is the number of the module up to 9, and
  has its two digits exchanged from 10 on.\<close>

theorem mb_index_swaps:
  assumes "length g = 8" "unat i < 100"
  shows "\<exists>name. mb_name g i = Some name \<and>
    mb_index name = Some (of_nat (if unat i < 10 then unat i else 10 * (unat i mod 10) + unat i div 10))"
proof -
  obtain name where name: "mb_name g i = Some name"
    using assms by (cases "unat i < 10") (simp_all add: mb_name_small mb_name_two)
  show ?thesis using name mb_index_name [OF assms name] by blast
qed

theorem mb_index_swaps_witness:
  "\<exists>name. mb_name (replicate 8 (CHR ''x'')) 12 = Some name \<and> mb_index name = Some 21"
  using mb_index_swaps [of "replicate 8 (CHR ''x'')" 12] by simp

text \<open>Up to ten modules are all registered, newest first, with the sizes of their descriptors, and the call returns 0;
  with more than ten, the name of module 10 being that of module 1 again, the call stops after ten devices with EEXIST.\<close>

theorem mbi_modules_ten:
  fixes s :: "'z dev_state_scheme"
  assumes "length g = 8" "device_rep s ds" "n = unat (mods_count mbi)"
    and "\<And>s. card (dom (dev_heap s)) < N \<Longrightarrow> dev_fresh s (alloc s)" "card (dom (dev_heap s)) + n \<le> N"
    and "\<And>k. k < n \<Longrightarrow> mods (mod_addr (mods_addr mbi) md k) = Some (md k)"
    and "\<And>k x. k < n \<Longrightarrow> x \<in> set ds \<Longrightarrow> device_name (snd x) \<noteq> device_name (mb_device opts md k) \<and>
      device_dev (snd x) \<noteq> MKDEV DEVMAJ_MBMOD (of_nat k)"
  shows "\<exists>t xs. mbi_modules_init alloc opts g mbi mods s = Some (if n \<le> 10 then 0 else err EEXIST, t) \<and>
    device_rep t (xs @ ds) \<and> map snd xs = rev (map (mb_device opts md) [0..<min n 10])"
proof -
  let ?f = "mb_register alloc opts g mods" and ?q = "mod_addr (mods_addr mbi) md (min n 10)"
  obtain t xs where run: "for_r ?f (map of_nat [0..<min n 10]) (mods_addr mbi, s) = Some (0, ?q, t)"
    and t: "device_rep t (xs @ ds)" "map snd xs = rev (map (mb_device opts md) [0..<min n 10])"
    using mb_first_ten [where alloc = alloc and mods = mods and md = md and opts = opts, OF assms(1,2,4,5,6,7)] by blast
  show ?thesis
  proof (cases "n \<le> 10")
    case True
    then have "mbi_modules_init alloc opts g mbi mods s = Some (0, t)"
      using run by (simp add: mbi_modules_init_def upto_u32_def assms(3) min_absorb1)
    then show ?thesis using t True by auto
  next
    case False
    then have n: "min n 10 = 10" "n = 10 + (n - 10)" "10 < n" by simp_all
    have step: "?f 10 (?q, t) = Some (err EEXIST, ?q, t)"
      by (rule mb_eleventh_refused [OF assms(1) t(1) t(2) [unfolded n(1)]]) (use assms(6) [OF n(3)] n(1) in simp)
    have split: "upto_u32 (mods_count mbi) = map of_nat [0..<min n 10] @ 10 # map of_nat [11..<n]"
      using n(3) upt_add_eq_append [of 0 10 "n - 10"] by (simp add: upto_u32_def assms(3) [symmetric] upt_conv_Cons n(1))
    have "for_r ?f (upto_u32 (mods_count mbi)) (mods_addr mbi, s) = Some (err EEXIST, ?q, t)"
      unfolding split by (simp add: for_r_append [OF run] step)
    then show ?thesis using t False by (auto simp: mbi_modules_init_def)
  qed
qed

definition sample_module :: "ptr \<Rightarrow> multiboot_module" where
  "sample_module p = \<lparr>mod_start = p, mod_end = p + 0xFFF, mod_cmdline = 0, mod_pad = 0\<rparr>"

theorem mbi_modules_ten_witness:
  "\<exists>t xs. mbi_modules_init (first_free \<circ> dev_heap) no_opts (replicate 8 (CHR ''x'')) \<lparr>mods_count = 11, mods_addr = 0x10000\<rparr>
      (\<lambda>q. Some (sample_module q)) empty_dev = Some (err EEXIST, t) \<and> device_rep t xs \<and> length xs = 10"
proof -
  let ?md = "\<lambda>k. sample_module (0x10000 + 0x1000 * of_nat k)"
  have "mod_addr 0x10000 ?md k = 0x10000 + 0x1000 * of_nat k" for k
    by (cases k) (simp_all add: mod_addr_def sample_module_def algebra_simps)
  then have mods: "(\<lambda>q. Some (sample_module q)) (mod_addr (mods_addr \<lparr>mods_count = 11, mods_addr = 0x10000\<rparr>) ?md k) = Some (?md k)"
    for k by simp
  have dom: "card (dom (dev_heap empty_dev)) = 0" by (simp add: empty_dev_def)
  obtain t xs where t: "mbi_modules_init (first_free \<circ> dev_heap) no_opts (replicate 8 (CHR ''x'')) \<lparr>mods_count = 11, mods_addr = 0x10000\<rparr>
      (\<lambda>q. Some (sample_module q)) empty_dev = Some (if (11 :: nat) \<le> 10 then 0 else err EEXIST, t)" "device_rep t (xs @ [])"
    "map snd xs = rev (map (mb_device no_opts ?md) [0..<min 11 10])"
    using mbi_modules_ten [where N = 11 and md = ?md and n = 11 and alloc = "first_free \<circ> dev_heap" and g = "replicate 8 (CHR ''x'')" and opts = no_opts,
        OF _ empty_dev_rep _ _ _ mods] dom by (auto simp: dev_fresh_def first_free_fresh)
  have "length xs = 10" using arg_cong [OF t(3), of length] by simp
  with t(1,2) show ?thesis by auto
qed

text \<open>A read inside a module copies the bytes from the offset, as many as were asked for or as the module still has,
  into the buffer and returns their number.\<close>

theorem mb_read_copies:
  assumes "mb_index (node_name node) = Some i" "ucast i \<le> mods_count mbi"
    and "mods_walk mods (ucast i) (mods_addr mbi) = Some p" "mods p = Some md" "offset + sz < mod_end md"
    and "offset \<le> mod_end md - mod_start md" "n = min (mod_end md - mod_start md - offset) sz"
    and "bytes_at m (mod_start md + offset) bs" "length bs = unat n" "mapped m buff (length bs)"
    and "disjoint (mod_start md + offset) (length bs) buff (length bs)"
  shows "mb_read mbi mods node offset buff sz m = Some (n, write_bytes m buff bs)"
proof -
  have "length bs < 4294967296" using unsigned_less [of n] by (simp add: assms(9))
  moreover have "of_nat (length bs) = n" by (simp add: assms(9))
  ultimately have "memcpy m buff (mod_start md + offset) n = Some (write_bytes m buff bs, buff)"
    using memcpy_correct [OF assms(8,10) _ assms(11)] by simp
  moreover have "\<not> ucast i > mods_count mbi" "\<not> offset + sz \<ge> mod_end md" "\<not> offset > mod_end md - mod_start md"
    using assms(2,5,6) by simp_all
  ultimately show ?thesis using assms(1,3,4,7) by (simp add: mb_read_def)
qed


definition boot_node :: fs_node where
  "boot_node = \<lparr>node_name = ''mbmod00'', node_dev = 0, node_ino = 0, node_mode = 0, node_nlink = 0, node_uid = 0, node_gid = 0,
     node_rdev = 0x300, node_size = 0xFFF, node_blksize = 0, node_blkcnt = 0, node_atime = 0, node_mtime = 0, node_ctime = 0,
     node_opts = no_opts\<lparr>op_read := 1\<rparr>, node_impl = 0\<rparr>"

theorem mb_read_copies_witness:
  "\<exists>m'. mb_read \<lparr>mods_count = 1, mods_addr = 0x10000\<rparr> (\<lambda>q. Some (sample_module q)) boot_node
      0x10 0x20000 3 (\<lambda>p. Some (ucast p)) = Some (3, m') \<and> m' 0x20002 = Some 0x12"
proof -
  let ?m = "\<lambda>p. Some (ucast p) :: u8 option"
  have off: "unat (a - 0x10010) = unat (a - 0x20000) + 0xFFF0" if "unat (a - 0x20000) < 3" for a :: u32
  proof -
    have "a - 0x10010 = (a - 0x20000) + 0xFFF0" by simp
    then show ?thesis using that by (simp only: unat_word_ariths) simp
  qed
  have three: "Suc (Suc (Suc 0)) = 3" by simp
  have "disjoint 0x10010 3 0x20000 3" unfolding disjoint_def using off by fastforce
  moreover have "bytes_at ?m 0x10010 [0x10, 0x11, 0x12]" "mapped ?m 0x20000 3" by (simp_all add: mapped_def)
  moreover have "mb_index (node_name boot_node) = Some 0" unfolding boot_node_def by code_simp
  ultimately show ?thesis
    using mb_read_copies [where i = 0 and p = "0x10000" and md = "sample_module 0x10000" and offset = "0x10" and sz = 3 and n = 3
        and bs = "[0x10, 0x11, 0x12]" and m = ?m and mbi = "\<lparr>mods_count = 1, mods_addr = 0x10000\<rparr>"
        and mods = "\<lambda>q. Some (sample_module q)" and buff = "0x20000" and node = boot_node]
    by (simp add: sample_module_def mods_walk_def three)
qed

end
