(* ===== verification/Module.thy ===== *)
theory Module
  imports Dev
begin

text \<open>
  Kernel modules, \<^verbatim>\<open>newland/src/module.c\<close> and \<^verbatim>\<open>newland/include/newland/module.h\<close>.

  A \<open>modinfo_t\<close> carries two list links. \<open>mod_heap\<close> holds the structures with the link of the
  list of installed modules; \<open>loaded_heap\<close> holds the link of the list of loaded modules at the
  same addresses. \<open>call\<close> is the effect of calling a module's \<open>init\<close> through its pointer.
  \<open>deps\<close>, a null-terminated array of names, is a list, \<open>None\<close> when the pointer is null.
\<close>

record modinfo =
  mod_id :: string
  mod_author :: string
  mod_license :: string
  mod_modver :: string
  mod_deps :: "string list option"
  mod_krnlver :: string
  mod_init :: u32
  mod_fini :: u32

text \<open>The macro \<open>MODULE\<close>; \<open>version\<close> is that of the generated configuration, and the functions are code addresses.\<close>

definition MODULE :: "string \<Rightarrow> string \<Rightarrow> string \<Rightarrow> string \<Rightarrow> string \<Rightarrow> u32 \<Rightarrow> u32 \<Rightarrow> modinfo" where
  "MODULE i author license modver version init fini = \<lparr>mod_id = i, mod_author = author, mod_license = license, mod_modver = modver,
     mod_deps = None, mod_krnlver = version, mod_init = init, mod_fini = fini\<rparr>"

definition kmod_example :: "string \<Rightarrow> u32 \<Rightarrow> u32 \<Rightarrow> modinfo" where
  "kmod_example = MODULE ''example'' ''Tristan Ross'' ''GPL'' ''0.1.0''"

definition kmod_example_init :: "'s \<Rightarrow> u32 \<times> 's" where
  "kmod_example_init s = (0, s)"

definition kmod_example_fini :: "'s \<Rightarrow> 's" where
  "kmod_example_fini s = s"

record mod_state = klog_state +
  mod_heap :: "modinfo heap"
  loaded_heap :: "unit heap"
  modules_installed :: ptr
  modules_loaded :: ptr

definition MODINFO_SIZE :: u32 where "MODINFO_SIZE = 219"

definition module_fromid :: "'z mod_state_scheme \<Rightarrow> string \<Rightarrow> ptr option" where
  "module_fromid s i = slist_find (mod_heap s) (\<lambda>m. mod_id m = i) (modules_installed s)"

definition module_install :: "'z mod_state_scheme \<Rightarrow> ptr \<Rightarrow> (u32 \<times> 'z mod_state_scheme) option" where
  "module_install s module = do {
     m \<leftarrow> deref (mod_heap s) module;
     old \<leftarrow> module_fromid s (mod_id m);
     if old \<noteq> 0 then Some (err EEXIST, s)
     else do {
       h1 \<leftarrow> SLIST_SET_NEXT (mod_heap s) module 0;
       (h, head) \<leftarrow> SLIST_INSERT_HEAD h1 (modules_installed s) module;
       Some (0, s\<lparr>mod_heap := h, loaded_heap := (loaded_heap s)(module \<mapsto> Cell () 0), modules_installed := head\<rparr>)
     }
   }"

text \<open>The end of \<open>module_init\<close>: call the module's own initialiser and link it.\<close>

definition init_self ::
  "(u32 \<Rightarrow> 'z mod_state_scheme \<Rightarrow> (u32 \<times> 'z mod_state_scheme) option) \<Rightarrow> ptr \<Rightarrow> modinfo \<Rightarrow>
   'z mod_state_scheme \<Rightarrow> (u32 \<times> 'z mod_state_scheme) option" where
  "init_self call module m s = do {
     (r, s1) \<leftarrow> call (mod_init m) s;
     if sint r < 0 then Some (r, s1)
     else do {
       (h, head) \<leftarrow> SLIST_INSERT_HEAD (loaded_heap s1) (modules_loaded s1) module;
       Some (r, s1\<lparr>loaded_heap := h, modules_loaded := head\<rparr>)
     }
   }"

text \<open>The function and its loop over the dependencies call each other: a task is one or the other.\<close>

datatype init_task = Init string | Deps "string list"

partial_function (option) run_init ::
  "(u32 \<Rightarrow> 'z mod_state_scheme \<Rightarrow> (u32 \<times> 'z mod_state_scheme) option) \<Rightarrow> init_task \<Rightarrow>
   'z mod_state_scheme \<Rightarrow> (u32 \<times> 'z mod_state_scheme) option" where
  "run_init call task s = (case task of
      Init i \<Rightarrow> (case module_fromid s i of
          None \<Rightarrow> None
        | Some module \<Rightarrow>
            if module = 0 then Some (err ENOENT, s)
            else (case deref (mod_heap s) module of
              None \<Rightarrow> None
            | Some m \<Rightarrow> (case SLIST_NEXT (loaded_heap s) module of
                None \<Rightarrow> None
              | Some n \<Rightarrow>
                  if n \<noteq> 0 then Some (0, s)
                  else (case mod_deps m of
                    None \<Rightarrow> init_self call module m s
                  | Some ds \<Rightarrow> Option.bind (run_init call (Deps ds) s)
                      (\<lambda>rs. if sint (fst rs) < 0 then Some rs else init_self call module m (snd rs))))))
    | Deps ds \<Rightarrow> (case ds of
        [] \<Rightarrow> Some (0, s)
      | d # rest \<Rightarrow> Option.bind (run_init call (Init d) s)
          (\<lambda>rs. if sint (fst rs) < 0 then Some rs else run_init call (Deps rest) (snd rs))))"

definition module_init ::
  "(u32 \<Rightarrow> 'z mod_state_scheme \<Rightarrow> (u32 \<times> 'z mod_state_scheme) option) \<Rightarrow> string \<Rightarrow>
   'z mod_state_scheme \<Rightarrow> (u32 \<times> 'z mod_state_scheme) option" where
  "module_init call i s = run_init call (Init i) s"

fun install_all :: "ptr list \<Rightarrow> 'z mod_state_scheme \<Rightarrow> (u32 \<times> 'z mod_state_scheme) option" where
  "install_all [] s = Some (0, s)"
| "install_all (m # ms) s = (case module_install s m of
      None \<Rightarrow> None
    | Some (r, s1) \<Rightarrow> if sint r < 0 then Some (r, s1) else install_all ms s1)"

partial_function (option) init_all ::
  "(u32 \<Rightarrow> 'z mod_state_scheme \<Rightarrow> (u32 \<times> 'z mod_state_scheme) option) \<Rightarrow> ptr \<Rightarrow>
   'z mod_state_scheme \<Rightarrow> (u32 \<times> 'z mod_state_scheme) option" where
  "init_all call module s =
     (if module = 0 then Some (0, s)
      else case deref (mod_heap s) module of
        None \<Rightarrow> None
      | Some m \<Rightarrow> (case module_init call (mod_id m) s of
          None \<Rightarrow> None
        | Some rs \<Rightarrow>
            if sint (fst rs) < 0 then Some rs
            else (case SLIST_NEXT (mod_heap (snd rs)) module of
              None \<Rightarrow> None
            | Some n \<Rightarrow> init_all call n (snd rs))))"

text \<open>The modules lie one after another between the linker's two symbols.\<close>

definition section_modules :: "ptr \<Rightarrow> ptr \<Rightarrow> ptr list" where
  "section_modules start stop =
     map (\<lambda>i. start + MODINFO_SIZE * of_nat i) [0..<unat ((stop - start) div MODINFO_SIZE)]"

definition modules_init ::
  "(u32 \<Rightarrow> 'z mod_state_scheme \<Rightarrow> (u32 \<times> 'z mod_state_scheme) option) \<Rightarrow> ptr \<Rightarrow> ptr \<Rightarrow>
   'z mod_state_scheme \<Rightarrow> (u32 \<times> 'z mod_state_scheme) option" where
  "modules_init call start stop s = do {
     let s0 = printk_s (KLOG_INFO @ ''modules: loading %d kernel modules'' @ [CHR 0x0A])
       (sdec ((stop - start) div MODINFO_SIZE)) s;
     (r, s1) \<leftarrow> install_all (section_modules start stop) s0;
     if sint r < 0 then Some (r, s1)
     else do {
       (r2, s2) \<leftarrow> init_all call (modules_installed s1) s1;
       if sint r2 < 0 then Some (r2, s2) else Some (0, s2)
     }
   }"

subsection \<open>Installing\<close>

definition mod_rep :: "'z mod_state_scheme \<Rightarrow> (ptr \<times> modinfo) list \<Rightarrow> bool" where
  "mod_rep s xs \<longleftrightarrow> slist_rep (mod_heap s) (modules_installed s) xs \<and>
     distinct (map (mod_id \<circ> snd) xs) \<and> (\<forall>x \<in> set xs. loaded_heap s (fst x) \<noteq> None)"

lemma mod_rep_list: "mod_rep s xs \<Longrightarrow> slist_rep (mod_heap s) (modules_installed s) xs"
  by (simp add: mod_rep_def)

lemma module_fromid_rep: "mod_rep s xs \<Longrightarrow> module_fromid s i = Some (find_ptr (\<lambda>m. mod_id m = i) xs)"
  by (simp add: module_fromid_def slist_find_rep [OF mod_rep_list])

lemma module_fromid_listed:
  assumes rep: "mod_rep s xs" and p: "(p, m) \<in> set xs"
  shows "module_fromid s (mod_id m) = Some p" "p \<noteq> 0" "deref (mod_heap s) p = Some m"
proof -
  have inj: "inj_on (mod_id \<circ> snd) (set xs)" using rep by (simp add: mod_rep_def distinct_map)
  have "find_ptr (\<lambda>e. mod_id e = mod_id m) xs = p"
  proof (rule find_ptr_unique [OF p refl])
    fix q w assume "(q, w) \<in> set xs" "mod_id w = mod_id m"
    then have "(q, w) = (p, m)" using p by (intro inj_onD [OF inj]) simp_all
    then show "q = p" by (rule Pair_inject)
  qed
  then show "module_fromid s (mod_id m) = Some p" by (simp add: module_fromid_rep [OF rep])
  have "p \<in> addrs xs" using p by force
  then show "p \<noteq> 0" using slist_rep_nonzero [OF mod_rep_list [OF rep]] by metis
  show "deref (mod_heap s) p = Some m" by (rule slist_rep_deref [OF mod_rep_list [OF rep] p])
qed

lemma module_install_new:
  assumes rep: "mod_rep s xs" and m: "deref (mod_heap s) p = Some m" "p \<noteq> 0" "p \<notin> addrs xs"
    and new: "mod_id m \<notin> mod_id ` snd ` set xs"
  obtains t where "module_install s p = Some (0, t)" "mod_rep t ((p, m) # xs)"
    "SLIST_NEXT (loaded_heap t) p = Some 0" "\<forall>q. q \<noteq> p \<longrightarrow> mod_heap t q = mod_heap s q"
proof -
  have nz: "0 \<notin> addrs xs" by (rule slist_rep_nonzero [OF mod_rep_list [OF rep]])
  have "find_ptr (\<lambda>e. mod_id e = mod_id m) xs = 0"
    by (rule find_ptr_eq_0 [OF nz]) (use new in \<open>auto simp: key_image\<close>)
  then have none: "module_fromid s (mod_id m) = Some 0" by (simp add: module_fromid_rep [OF rep])
  obtain n where n: "mod_heap s p = Some (Cell m n)" using m(1) by (auto simp: deref_def split: option.splits) (metis cell.exhaust cell.sel(1))
  note ins = SLIST_INSERT_HEAD_rep [OF mod_rep_list [OF rep] m(2,3), of m]
  let ?t = "s\<lparr>mod_heap := (mod_heap s)(p \<mapsto> Cell m (modules_installed s)),
    loaded_heap := (loaded_heap s)(p \<mapsto> Cell () 0), modules_installed := p\<rparr>"
  have "module_install s p = Some (0, ?t)"
    using m(1) none n ins(1) by (simp add: module_install_def SLIST_SET_NEXT_def)
  moreover have "mod_rep ?t ((p, m) # xs)"
    using ins(2) rep new by (auto simp: mod_rep_def key_image)
  ultimately show ?thesis by (rule that) (simp_all add: SLIST_NEXT_def)
qed

lemma module_install_dup:
  assumes rep: "mod_rep s xs" and m: "deref (mod_heap s) p = Some m" and dup: "mod_id m \<in> mod_id ` snd ` set xs"
  shows "module_install s p = Some (err EEXIST, s)"
proof -
  obtain x where x: "x \<in> set xs" "mod_id (snd x) = mod_id m" using dup by (auto simp: key_image)
  have "find_ptr (\<lambda>e. mod_id e = mod_id m) xs \<noteq> 0"
    by (rule find_ptr_neq_0 [OF slist_rep_nonzero [OF mod_rep_list [OF rep]] x(1)]) (rule x(2))
  then show ?thesis using m by (simp add: module_install_def module_fromid_rep [OF rep])
qed

text \<open>Installing the modules of the binary, in the order they lie there: the last ends up first.\<close>

lemma install_all_new:
  "mod_rep s xs \<Longrightarrow> list_all2 (\<lambda>p m. deref (mod_heap s) p = Some m) ps ms \<Longrightarrow> distinct ps \<Longrightarrow> 0 \<notin> set ps \<Longrightarrow>
   set ps \<inter> addrs xs = {} \<Longrightarrow> distinct (map mod_id ms) \<Longrightarrow> mod_id ` set ms \<inter> mod_id ` snd ` set xs = {} \<Longrightarrow>
   \<exists>t. install_all ps s = Some (0, t) \<and> mod_rep t (rev (zip ps ms) @ xs)"
proof (induction ps arbitrary: ms xs s)
  case Nil
  then show ?case by simp
next
  case (Cons p ps)
  from Cons.prems(2) obtain m ms' where ms: "ms = m # ms'" "deref (mod_heap s) p = Some m"
    "list_all2 (\<lambda>p m. deref (mod_heap s) p = Some m) ps ms'" by (auto simp: list_all2_Cons1)
  have side: "p \<noteq> 0" "p \<notin> addrs xs" "mod_id m \<notin> mod_id ` snd ` set xs" using Cons.prems ms(1) by auto
  obtain t where t: "module_install s p = Some (0, t)" "mod_rep t ((p, m) # xs)"
    "SLIST_NEXT (loaded_heap t) p = Some 0" "\<forall>q. q \<noteq> p \<longrightarrow> mod_heap t q = mod_heap s q"
    by (rule module_install_new [OF Cons.prems(1) ms(2) side])
  have "list_all2 (\<lambda>p m. deref (mod_heap t) p = Some m) ps ms'"
    using ms(3) Cons.prems(3) t(4) by (auto simp: deref_def list_all2_conv_all_nth in_set_conv_nth)
  then have "\<exists>u. install_all ps t = Some (0, u) \<and> mod_rep u (rev (zip ps ms') @ (p, m) # xs)"
    using Cons.prems ms(1) by (intro Cons.IH [OF t(2)]) auto
  then show ?case using t(1) ms(1) by auto
qed

subsection \<open>Initialising\<close>

text \<open>What is asked of the initialisers: they answer, and leave the module lists alone.\<close>

definition inits_ok :: "(u32 \<Rightarrow> 'z mod_state_scheme \<Rightarrow> (u32 \<times> 'z mod_state_scheme) option) \<Rightarrow> (ptr \<times> modinfo) list \<Rightarrow> bool" where
  "inits_ok call xs \<longleftrightarrow> (\<forall>x \<in> set xs. \<forall>s. mod_rep s xs \<longrightarrow>
     (\<exists>r t. call (mod_init (snd x)) s = Some (r, t) \<and> mod_rep t xs))"

text \<open>Every dependency is installed and of smaller rank: there is no cycle.\<close>

definition acyclic_deps :: "(string \<Rightarrow> nat) \<Rightarrow> (ptr \<times> modinfo) list \<Rightarrow> bool" where
  "acyclic_deps rank xs \<longleftrightarrow> (\<forall>x \<in> set xs. case mod_deps (snd x) of
      None \<Rightarrow> True
    | Some ds \<Rightarrow> \<forall>d \<in> set ds. d \<in> mod_id ` snd ` set xs \<and> rank d < rank (mod_id (snd x)))"

lemma init_self_total:
  assumes ok: "inits_ok call xs" and rep: "mod_rep s xs" and p: "(p, m) \<in> set xs"
  shows "\<exists>r t. init_self call p m s = Some (r, t) \<and> mod_rep t xs"
proof -
  obtain r t where t: "call (mod_init m) s = Some (r, t)" "mod_rep t xs"
    using ok rep p by (force simp: inits_ok_def)
  have "loaded_heap t p \<noteq> None" using t(2) p by (force simp: mod_rep_def)
  then obtain c where c: "loaded_heap t p = Some c" by blast
  then show ?thesis using t
    by (auto simp: init_self_def SLIST_INSERT_HEAD_def SLIST_SET_NEXT_def mod_rep_def)
qed

lemma run_init_total:
  assumes ok: "inits_ok call xs" and acyc: "acyclic_deps rank xs"
  shows "mod_rep s xs \<Longrightarrow> (case task of
      Init i \<Rightarrow> i \<in> mod_id ` snd ` set xs \<and> rank i < k
    | Deps ds \<Rightarrow> \<forall>d \<in> set ds. d \<in> mod_id ` snd ` set xs \<and> rank d < k) \<Longrightarrow>
    \<exists>r t. run_init call task s = Some (r, t) \<and> mod_rep t xs"
proof (induction k arbitrary: task s)
  case 0
  then show ?case
  proof (cases task)
    case (Deps ds)
    then have "ds = []" using 0 by (cases ds) auto
    then show ?thesis using 0 Deps by (subst run_init.simps) auto
  qed auto
next
  case (Suc k)
  have one: "\<exists>r t. run_init call (Init i) s = Some (r, t) \<and> mod_rep t xs"
    if rep: "mod_rep s xs" and i: "i \<in> mod_id ` snd ` set xs" "rank i < Suc k" for i s
  proof -
    obtain p m where p: "(p, m) \<in> set xs" "mod_id m = i" using i(1) by (auto simp: key_image)
    note found = module_fromid_listed [OF rep p(1)]
    obtain c where "loaded_heap s p = Some c" using rep p(1) by (force simp: mod_rep_def)
    then have nx: "SLIST_NEXT (loaded_heap s) p = Some (sle_next c)" by (simp add: SLIST_NEXT_def)
    show ?thesis
    proof (cases "mod_deps m")
      case None
      then show ?thesis using found p(2) nx init_self_total [OF ok rep p(1)] rep
        by (subst run_init.simps) auto
    next
      case (Some ds)
      have "\<forall>d \<in> set ds. d \<in> mod_id ` snd ` set xs \<and> rank d < k"
        using acyc p Some i(2) by (fastforce simp: acyclic_deps_def)
      then obtain r t where t: "run_init call (Deps ds) s = Some (r, t)" "mod_rep t xs"
        using Suc.IH [OF rep, of "Deps ds"] by auto
      then show ?thesis using found p(2) nx Some init_self_total [OF ok t(2) p(1)] rep
        by (subst run_init.simps) auto
    qed
  qed
  have many: "\<exists>r t. run_init call (Deps ds) s = Some (r, t) \<and> mod_rep t xs"
    if "mod_rep s xs" "\<forall>d \<in> set ds. d \<in> mod_id ` snd ` set xs \<and> rank d < Suc k" for ds s
    using that
  proof (induction ds arbitrary: s)
    case Nil
    then show ?case by (subst run_init.simps) simp
  next
    case (Cons d ds)
    obtain r t where "run_init call (Init d) s = Some (r, t)" "mod_rep t xs"
      using one [OF Cons.prems(1), of d] Cons.prems(2) by auto
    then show ?case using Cons.IH [of t] Cons.prems(2) by (subst run_init.simps) auto
  qed
  show ?case using one many Suc.prems by (cases task) auto
qed

lemma module_init_total:
  assumes "inits_ok call xs" "acyclic_deps rank xs" "mod_rep s xs" "i \<in> mod_id ` snd ` set xs"
  shows "\<exists>r t. module_init call i s = Some (r, t) \<and> mod_rep t xs"
  using run_init_total [OF assms(1-3), where task = "Init i" and k = "Suc (rank i)"] assms(4) by (simp add: module_init_def)

lemma init_all_total:
  assumes ok: "inits_ok call (xs @ ys)" and acyc: "acyclic_deps rank (xs @ ys)"
  shows "mod_rep s (xs @ ys) \<Longrightarrow>
    \<exists>r t. init_all call (case ys of [] \<Rightarrow> 0 | y # _ \<Rightarrow> fst y) s = Some (r, t) \<and> mod_rep t (xs @ ys)"
  using assms
proof (induction ys arbitrary: xs s)
  case Nil
  then show ?case by (auto simp: init_all.simps)
next
  case (Cons y ys)
  have y: "(fst y, snd y) \<in> set (xs @ y # ys)" by simp
  note found = module_fromid_listed [OF Cons.prems(1) y]
  obtain r t where t: "module_init call (mod_id (snd y)) s = Some (r, t)" "mod_rep t (xs @ y # ys)"
    using module_init_total [OF Cons.prems(2,3,1), of "mod_id (snd y)"] by auto
  have "SLIST_NEXT (mod_heap t) (fst y) = Some (case ys of [] \<Rightarrow> 0 | y # _ \<Rightarrow> fst y)"
    using SLIST_NEXT_nth [OF mod_rep_list [OF t(2)], of "length xs"] by (cases ys) (simp_all add: nth_append)
  moreover have "\<exists>r u. init_all call (case ys of [] \<Rightarrow> 0 | y # _ \<Rightarrow> fst y) t = Some (r, u) \<and> mod_rep u ((xs @ [y]) @ ys)"
    using Cons.IH [of t "xs @ [y]"] t(2) Cons.prems(2,3) by simp
  ultimately show ?case using found t by (subst init_all.simps) auto
qed

text \<open>
  The test for a loaded module looks at its link, which is null for the module that was loaded
  first: it is initialised once more each time another module depends on it, and linked again.
  While it is still the only one loaded it is linked to itself.
\<close>

lemma module_init_again:
  assumes rep: "mod_rep s xs" and p: "(p, m) \<in> set xs" "mod_deps m = None"
    and loaded: "modules_loaded s = p" "loaded_heap s p = Some (Cell () 0)"
    and call: "call (mod_init m) s = Some (0, s)"
  shows "module_init call (mod_id m) s = Some (0, s\<lparr>loaded_heap := (loaded_heap s)(p \<mapsto> Cell () p)\<rparr>)"
  using module_fromid_listed [OF rep p(1)] p(2) loaded call
  by (simp add: module_init_def run_init.simps SLIST_NEXT_def init_self_def SLIST_INSERT_HEAD_def SLIST_SET_NEXT_def)

subsection \<open>Properties\<close>


definition sample_mod :: "string \<Rightarrow> string list option \<Rightarrow> modinfo" where
  "sample_mod i ds = \<lparr>mod_id = i, mod_author = [], mod_license = [], mod_modver = [], mod_deps = ds, mod_krnlver = [],
     mod_init = 1, mod_fini = 2\<rparr>"

definition mod_state_of :: "(ptr \<times> modinfo) list \<Rightarrow> ptr \<Rightarrow> mod_state" where
  "mod_state_of xs loaded = \<lparr>klog_calls = [], mod_heap = heap_of xs, loaded_heap = (\<lambda>_. Some (Cell () 0)),
     modules_installed = first_ptr xs, modules_loaded = loaded\<rparr>"

abbreviation sample_mods :: "(ptr \<times> modinfo) list" where
  "sample_mods \<equiv> [(0x10, sample_mod ''pci'' None), (0x20, sample_mod ''net'' (Some [''pci'']))]"

lemma sample_mods_rep: "mod_rep (mod_state_of sample_mods loaded) sample_mods"
  using slist_rep_heap_of [of sample_mods] by (simp add: mod_rep_def mod_state_of_def sample_mod_def)


text \<open>The first module that was loaded is initialised again by every later \<open>module_init\<close> of it. "Loaded" is read from the link
  in the list of loaded modules, which is null for the last element: its init function runs a second time, and the
  module is then linked in front of itself, which makes the list of loaded modules cyclic.\<close>

theorem module_init_twice:
  assumes "mod_rep s xs" "(p, m) \<in> set xs" "mod_deps m = None"
    and "modules_loaded s = p" "loaded_heap s p = Some (Cell () 0)" "call (mod_init m) s = Some (0, s)"
  shows "\<exists>t. module_init call (mod_id m) s = Some (0, t) \<and> modules_loaded t = p \<and> SLIST_NEXT (loaded_heap t) p = Some p"
  using module_init_again [where call = call and s = s and p = p and m = m and xs = xs, OF assms] assms(4) by (simp add: SLIST_NEXT_def)

theorem module_init_twice_witness:
  "\<exists>t. module_init (\<lambda>_ s. Some (0, s)) ''pci'' (mod_state_of sample_mods 0x10) = Some (0, t) \<and>
    SLIST_NEXT (loaded_heap t) 0x10 = Some 0x10"
  using module_init_twice [OF sample_mods_rep [of "0x10"], of "0x10" "sample_mod ''pci'' None" "\<lambda>_ s. Some (0, s)"]
  by (auto simp: mod_state_of_def sample_mod_def)

end
