(* ===== verification/Time.thy ===== *)
theory Time
  imports Prelude
begin

text \<open>
  The clock: \<^verbatim>\<open>newland/src/time.c\<close>, \<^verbatim>\<open>newland/arch/x86/src/clock.c\<close> and
  \<^verbatim>\<open>newland/include/newland/time.h\<close>.

  The fields of \<open>datetime_t\<close> are C \<open>int\<close>s and stand as integers; \<open>time_t\<close> is a 32-bit
  \<open>long\<close>, and the sum of \<open>dt2t\<close> is kept at that width. Indexing the table of month lengths
  outside its twelve entries is a fault. The CMOS is a parameter: \<open>status k\<close> is the
  \<open>k\<close>-th answer of the status register, \<open>reg\<close> the contents of the clock registers.
\<close>

definition EPOCH_YEAR :: int where "EPOCH_YEAR = 1970"
definition SECONDS_PER_MINUTE :: int where "SECONDS_PER_MINUTE = 60"
definition SECONDS_PER_HOURS :: int where "SECONDS_PER_HOURS = SECONDS_PER_MINUTE * 60"
definition SECONDS_PER_DAY :: int where "SECONDS_PER_DAY = SECONDS_PER_HOURS * 24"
definition MONTH_PER_YEAR :: nat where "MONTH_PER_YEAR = 12"

lemmas SECONDS_defs = SECONDS_PER_DAY_def SECONDS_PER_HOURS_def SECONDS_PER_MINUTE_def

definition IS_LEAP_YEAR :: "int \<Rightarrow> bool" where
  "IS_LEAP_YEAR year \<longleftrightarrow> (4 dvd year \<and> \<not> 100 dvd year) \<or> 400 dvd year"

record datetime =
  dt_sec :: int
  dt_min :: int
  dt_hr :: int
  dt_day :: int
  dt_mon :: int
  dt_yr :: int

definition dpm :: "bool \<Rightarrow> int list" where
  "dpm leap = [31, if leap then 29 else 28, 31, 30, 31, 30, 31, 31, 30, 31, 30, 31]"

definition dpy :: "bool \<Rightarrow> int" where
  "dpy leap = (if leap then 366 else 365)"

definition add_time :: "u32 \<Rightarrow> int \<Rightarrow> u32" where
  "add_time t x = t + word_of_int x"

definition dt2t :: "datetime \<Rightarrow> u32 option" where
  "dt2t dt = do {
     let t1 = fold (\<lambda>year t. add_time t (dpy (IS_LEAP_YEAR year) * SECONDS_PER_DAY)) [EPOCH_YEAR..dt_yr dt - 1] 0;
     t2 \<leftarrow> foldM (\<lambda>month t.
         if nat month < MONTH_PER_YEAR
         then Some (add_time t (dpm (IS_LEAP_YEAR (dt_yr dt)) ! nat month * SECONDS_PER_DAY)) else None)
       [0..dt_mon dt - 2] t1;
     Some (add_time (add_time (add_time (add_time t2 ((dt_day dt - 1) * SECONDS_PER_DAY))
       (dt_hr dt * SECONDS_PER_HOURS)) (dt_min dt * SECONDS_PER_MINUTE)) (dt_sec dt))
   }"

subsection \<open>The CMOS clock\<close>

definition T_SECOND :: u8 where "T_SECOND = 0"
definition T_MINUTE :: u8 where "T_MINUTE = 2"
definition T_HOUR :: u8 where "T_HOUR = 4"
definition T_DAY :: u8 where "T_DAY = 7"
definition T_MONTH :: u8 where "T_MONTH = 8"
definition T_YEAR :: u8 where "T_YEAR = 9"

lemmas T_defs = T_SECOND_def T_MINUTE_def T_HOUR_def T_DAY_def T_MONTH_def T_YEAR_def

text \<open>The argument is a signed \<open>char\<close>; C division truncates towards zero.\<close>

definition from_bcd :: "int \<Rightarrow> int" where
  "from_bcd v = (if v < 0 then - (- v div 16) else v div 16) * 10 + v mod 16"

definition is_cmos_update :: "u8 \<Rightarrow> bool" where
  "is_cmos_update answer \<longleftrightarrow> answer AND 0x80 \<noteq> 0"

partial_function (option) cmos_wait :: "(nat \<Rightarrow> u8) \<Rightarrow> nat \<Rightarrow> nat option" where
  "cmos_wait status k = (if is_cmos_update (status k) then cmos_wait status (Suc k) else Some k)"

definition get_realtime_reg :: "(u8 \<Rightarrow> u8) \<Rightarrow> u8 \<Rightarrow> int" where
  "get_realtime_reg reg r = sint (reg r)"

definition arch_clock :: "(nat \<Rightarrow> u8) \<Rightarrow> (u8 \<Rightarrow> u8) \<Rightarrow> datetime option" where
  "arch_clock status reg = do {
     cmos_wait status 0;
     Some \<lparr>dt_sec = from_bcd (get_realtime_reg reg T_SECOND), dt_min = from_bcd (get_realtime_reg reg T_MINUTE),
       dt_hr = from_bcd (get_realtime_reg reg T_HOUR), dt_day = from_bcd (get_realtime_reg reg T_DAY),
       dt_mon = from_bcd (get_realtime_reg reg T_MONTH), dt_yr = from_bcd (get_realtime_reg reg T_YEAR)\<rparr>
   }"

definition time :: "(nat \<Rightarrow> u8) \<Rightarrow> (u8 \<Rightarrow> u8) \<Rightarrow> u32 option" where
  "time status reg = Option.bind (arch_clock status reg) dt2t"

definition boottime :: "u32 \<Rightarrow> (nat \<Rightarrow> u8) \<Rightarrow> (u8 \<Rightarrow> u8) \<Rightarrow> u32 option" where
  "boottime boot_time status reg = map_option (\<lambda>t. t - boot_time) (time status reg)"

subsection \<open>What dt2t computes\<close>

text \<open>Dates as the calendar has them, and the days since the first of January 1970 in closed form.\<close>

definition days_in_month :: "int \<Rightarrow> int \<Rightarrow> int" where
  "days_in_month y m = dpm (IS_LEAP_YEAR y) ! nat (m - 1)"

definition valid_date :: "datetime \<Rightarrow> bool" where
  "valid_date dt \<longleftrightarrow> 0 \<le> dt_sec dt \<and> dt_sec dt < 60 \<and> 0 \<le> dt_min dt \<and> dt_min dt < 60 \<and>
     0 \<le> dt_hr dt \<and> dt_hr dt < 24 \<and> 1 \<le> dt_mon dt \<and> dt_mon dt \<le> 12 \<and>
     1 \<le> dt_day dt \<and> dt_day dt \<le> days_in_month (dt_yr dt) (dt_mon dt)"

definition days_before_year :: "int \<Rightarrow> int" where
  "days_before_year y = 365 * (y - 1970) + ((y - 1) div 4 - (y - 1) div 100 + (y - 1) div 400 - 477)"

definition days_before_month :: "int \<Rightarrow> int \<Rightarrow> int" where
  "days_before_month y m =
     [0, 31, 59, 90, 120, 151, 181, 212, 243, 273, 304, 334] ! nat (m - 1) +
     (if IS_LEAP_YEAR y \<and> m > 2 then 1 else 0)"

definition epoch_days :: "datetime \<Rightarrow> int" where
  "epoch_days dt = days_before_year (dt_yr dt) + days_before_month (dt_yr dt) (dt_mon dt) + (dt_day dt - 1)"

definition epoch_seconds :: "datetime \<Rightarrow> int" where
  "epoch_seconds dt = ((epoch_days dt * 24 + dt_hr dt) * 60 + dt_min dt) * 60 + dt_sec dt"

lemma add_time_of_int: "add_time (word_of_int a) x = word_of_int (a + x)"
  by (simp add: add_time_def)

lemma div_pred:
  fixes y k :: int
  assumes "0 < k"
  shows "(y - 1) div k = y div k - (if k dvd y then 1 else 0)"
proof (cases "k dvd y")
  case True
  then have "y - 1 = k * (y div k - 1) + (k - 1)" by (simp add: right_diff_distrib)
  then have "(y - 1) div k = y div k - 1" by (rule int_div_pos_eq) (use assms in simp_all)
  then show ?thesis using True by simp
next
  case False
  then have "y mod k \<noteq> 0" by (simp add: dvd_eq_mod_eq_0)
  then have r: "0 \<le> y mod k - 1" "y mod k - 1 < k"
    using pos_mod_sign [OF assms, of y] pos_mod_bound [OF assms, of y] by simp_all
  have "y - 1 = k * (y div k) + (y mod k - 1)" by simp
  then have "(y - 1) div k = y div k" by (rule int_div_pos_eq) (use r in simp_all)
  then show ?thesis using False by simp
qed

lemma leap_count:
  fixes y p q r P Q R :: int
  assumes "c \<Longrightarrow> b" "b \<Longrightarrow> a" "p = P - (if a then 1 else 0)" "q = Q - (if b then 1 else 0)" "r = R - (if c then 1 else 0)"
  shows "365 * (y + 1 - 1970) + (P - Q + R - 477) =
    365 * (y - 1970) + (p - q + r - 477) + (if (a \<and> \<not> b) \<or> c then 366 else 365)"
  using assms by (cases a; cases b; cases c) simp_all

lemma days_before_year_step: "days_before_year (y + 1) = days_before_year y + dpy (IS_LEAP_YEAR y)"
proof -
  have y: "y + 1 - 1 = y" by simp
  have d: "4 dvd y" if "100 dvd y" by (rule dvd_trans [OF _ that]) simp
  have c: "100 dvd y" if "400 dvd y" by (rule dvd_trans [OF _ that]) simp
  show ?thesis
    unfolding days_before_year_def dpy_def IS_LEAP_YEAR_def y
    by (rule leap_count [OF c d div_pred div_pred div_pred]) (assumption | simp)+
qed

lemma years_fold:
  "fold (\<lambda>year t. add_time t (dpy (IS_LEAP_YEAR year) * SECONDS_PER_DAY)) [1970..1970 + int n - 1] 0 =
    word_of_int (days_before_year (1970 + int n) * SECONDS_PER_DAY)"
proof (induction n)
  case 0
  then show ?case by (simp add: days_before_year_def)
next
  case (Suc n)
  let ?y = "1970 + int n"
  have y: "1970 + int (Suc n) = ?y + 1" "?y + 1 - 1 = ?y" by simp_all
  have "[1970..?y] = [1970..?y - 1] @ [?y]" by (rule upto_rec2) simp
  then have "fold (\<lambda>year t. add_time t (dpy (IS_LEAP_YEAR year) * SECONDS_PER_DAY)) [1970..?y] 0 =
      add_time (word_of_int (days_before_year ?y * SECONDS_PER_DAY)) (dpy (IS_LEAP_YEAR ?y) * SECONDS_PER_DAY)"
    by (simp only: fold_append Suc.IH o_apply fold_simps)
  also have "\<dots> = word_of_int (days_before_year (?y + 1) * SECONDS_PER_DAY)"
    by (simp only: add_time_of_int days_before_year_step distrib_right)
  finally show ?case unfolding y .
qed

lemma months_cases: "1 \<le> m \<Longrightarrow> m \<le> 12 \<Longrightarrow>
    m \<in> {1, 2, 3, 4, 5, 6, 7, 8, 9, 10, 11, 12 :: int}"
  by (simp, presburger)

lemma months_foldM:
  assumes "1 \<le> m" "m \<le> 12"
  shows "foldM (\<lambda>month t. if nat month < MONTH_PER_YEAR
      then Some (add_time t (dpm (IS_LEAP_YEAR y) ! nat month * SECONDS_PER_DAY)) else None) [0..m - 2] (word_of_int a) =
    Some (word_of_int (a + days_before_month y m * SECONDS_PER_DAY))"
proof -
  have "m \<in> {1, 2, 3, 4, 5, 6, 7, 8, 9, 10, 11, 12}" by (rule months_cases [OF assms])
  then show ?thesis
    by (elim insertE emptyE; cases "IS_LEAP_YEAR y")
      (simp_all add: upto.simps MONTH_PER_YEAR_def add_time_def dpm_def days_before_month_def nth_Cons' SECONDS_defs algebra_simps)
qed

lemma dt2t_epoch_seconds:
  assumes "valid_date dt" "1970 \<le> dt_yr dt"
  shows "dt2t dt = Some (word_of_int (epoch_seconds dt))"
proof -
  have y: "dt_yr dt = 1970 + int (nat (dt_yr dt - 1970))" using assms(2) by simp
  have m: "1 \<le> dt_mon dt" "dt_mon dt \<le> 12" using assms(1) by (simp_all add: valid_date_def)
  have yrs: "fold (\<lambda>year t. add_time t (dpy (IS_LEAP_YEAR year) * SECONDS_PER_DAY)) [EPOCH_YEAR..dt_yr dt - 1] 0 =
      word_of_int (days_before_year (dt_yr dt) * SECONDS_PER_DAY)"
    using years_fold [of "nat (dt_yr dt - 1970)"] y by (simp add: EPOCH_YEAR_def)
  show ?thesis
    unfolding dt2t_def Let_def yrs months_foldM [OF m]
    by (simp add: add_time_def epoch_seconds_def epoch_days_def SECONDS_defs algebra_simps)
qed

subsection \<open>Order and range\<close>

lemma days_before_month_next:
  assumes "1 \<le> m" "m < 12"
  shows "days_before_month y (m + 1) = days_before_month y m + days_in_month y m"
proof -
  have "m \<in> {1, 2, 3, 4, 5, 6, 7, 8, 9, 10, 11, 12}" by (rule months_cases) (use assms in simp_all)
  then show ?thesis using assms(2)
    by (elim insertE emptyE; cases "IS_LEAP_YEAR y")
      (simp_all add: days_before_month_def days_in_month_def dpm_def nth_Cons')
qed

lemma days_in_month_pos:
  assumes "1 \<le> m" "m \<le> 12"
  shows "28 \<le> days_in_month y m"
  using months_cases [OF assms]
  by (elim insertE emptyE; simp add: days_in_month_def dpm_def nth_Cons')

lemma days_before_month_mono:
  assumes "1 \<le> m" "m < m'" "m' \<le> 12"
  shows "days_before_month y m + days_in_month y m \<le> days_before_month y m'"
proof -
  have "days_before_month y m + days_in_month y m \<le> days_before_month y (m + 1 + int k)" if "m + 1 + int k \<le> 12" for k
    using that
  proof (induction k)
    case 0
    then show ?case using days_before_month_next [of m y] assms(1) by simp
  next
    case (Suc k)
    have "days_before_month y (m + 1 + int k + 1) = days_before_month y (m + 1 + int k) + days_in_month y (m + 1 + int k)"
      using Suc.prems assms(1) by (intro days_before_month_next) simp_all
    moreover have "28 \<le> days_in_month y (m + 1 + int k)"
      using Suc.prems assms(1) by (intro days_in_month_pos) simp_all
    moreover have "m + 1 + int (Suc k) = m + 1 + int k + 1" by simp
    ultimately show ?case using Suc by simp
  qed
  from this [of "nat (m' - m - 1)"] assms show ?thesis by simp
qed

lemma days_before_year_mono:
  assumes "y < y'"
  shows "days_before_year y + dpy (IS_LEAP_YEAR y) \<le> days_before_year y'"
proof -
  have "days_before_year y + dpy (IS_LEAP_YEAR y) \<le> days_before_year (y + 1 + int k)" for k
  proof (induction k)
    case 0
    then show ?case by (simp add: days_before_year_step)
  next
    case (Suc k)
    have "days_before_year (y + 1 + int k + 1) = days_before_year (y + 1 + int k) + dpy (IS_LEAP_YEAR (y + 1 + int k))"
      by (rule days_before_year_step)
    moreover have "0 \<le> dpy (IS_LEAP_YEAR (y + 1 + int k))" by (simp add: dpy_def)
    moreover have "y + 1 + int (Suc k) = y + 1 + int k + 1" by simp
    ultimately show ?case using Suc by simp
  qed
  from this [of "nat (y' - y - 1)"] assms show ?thesis by simp
qed

definition day_of_year :: "datetime \<Rightarrow> int" where
  "day_of_year dt = days_before_month (dt_yr dt) (dt_mon dt) + (dt_day dt - 1)"

lemma day_of_year_bounds:
  assumes "valid_date dt"
  shows "0 \<le> day_of_year dt" "day_of_year dt < dpy (IS_LEAP_YEAR (dt_yr dt))"
proof -
  have m: "1 \<le> dt_mon dt" "dt_mon dt \<le> 12" and d: "1 \<le> dt_day dt" "dt_day dt \<le> days_in_month (dt_yr dt) (dt_mon dt)"
    using assms by (simp_all add: valid_date_def)
  have "days_before_month (dt_yr dt) (dt_mon dt) + days_in_month (dt_yr dt) (dt_mon dt) \<le>
      days_before_month (dt_yr dt) 12 + days_in_month (dt_yr dt) 12"
  proof (cases "dt_mon dt = 12")
    case False
    then show ?thesis using days_before_month_mono [of "dt_mon dt" 12 "dt_yr dt"] m
        days_in_month_pos [of 12 "dt_yr dt"] by simp
  qed simp
  moreover have "days_before_month (dt_yr dt) 12 + days_in_month (dt_yr dt) 12 = dpy (IS_LEAP_YEAR (dt_yr dt))"
    by (simp add: days_before_month_def days_in_month_def dpm_def dpy_def nth_Cons')
  ultimately show "day_of_year dt < dpy (IS_LEAP_YEAR (dt_yr dt))" using d by (simp add: day_of_year_def)
  have "days_before_month (dt_yr dt) 1 = 0" by (simp add: days_before_month_def)
  then have "0 \<le> days_before_month (dt_yr dt) (dt_mon dt)"
    using days_before_month_mono [of 1 "dt_mon dt" "dt_yr dt"] m days_in_month_pos [of 1 "dt_yr dt"]
    by (cases "dt_mon dt = 1") simp_all
  then show "0 \<le> day_of_year dt" using d by (simp add: day_of_year_def)
qed

definition second_of_day :: "datetime \<Rightarrow> int" where
  "second_of_day dt = (dt_hr dt * 60 + dt_min dt) * 60 + dt_sec dt"

lemma epoch_split: "epoch_seconds dt = (days_before_year (dt_yr dt) + day_of_year dt) * 86400 + second_of_day dt"
  by (simp add: epoch_seconds_def epoch_days_def day_of_year_def second_of_day_def)

lemma second_of_day_bounds: "valid_date dt \<Longrightarrow> 0 \<le> second_of_day dt \<and> second_of_day dt < 86400"
  by (simp add: valid_date_def second_of_day_def)

definition earlier :: "datetime \<Rightarrow> datetime \<Rightarrow> bool" where
  "earlier a b \<longleftrightarrow> dt_yr a < dt_yr b \<or> dt_yr a = dt_yr b \<and> (dt_mon a < dt_mon b \<or> dt_mon a = dt_mon b \<and>
     (dt_day a < dt_day b \<or> dt_day a = dt_day b \<and> (dt_hr a < dt_hr b \<or> dt_hr a = dt_hr b \<and>
     (dt_min a < dt_min b \<or> dt_min a = dt_min b \<and> dt_sec a < dt_sec b))))"

lemma earlier_less:
  assumes a: "valid_date a" and b: "valid_date b" and less: "earlier a b"
  shows "epoch_seconds a < epoch_seconds b"
proof -
  note sa = second_of_day_bounds [OF a] and sb = second_of_day_bounds [OF b]
  note da = day_of_year_bounds [OF a] and db = day_of_year_bounds [OF b]
  have step: "epoch_seconds a < epoch_seconds b"
    if "days_before_year (dt_yr a) + day_of_year a < days_before_year (dt_yr b) + day_of_year b"
    using that sa sb by (simp add: epoch_split)
  consider "dt_yr a < dt_yr b" | "dt_yr a = dt_yr b" "dt_mon a < dt_mon b"
    | "dt_yr a = dt_yr b" "dt_mon a = dt_mon b" "dt_day a < dt_day b"
    | "dt_yr a = dt_yr b" "dt_mon a = dt_mon b" "dt_day a = dt_day b" "second_of_day a < second_of_day b"
    using less a b by (auto simp: earlier_def second_of_day_def valid_date_def)
  then show ?thesis
  proof cases
    case 1
    then show ?thesis using days_before_year_mono [OF 1] da db by (intro step) simp
  next
    case 2
    have "1 \<le> dt_mon a" "dt_mon b \<le> 12" "dt_day a \<le> days_in_month (dt_yr a) (dt_mon a)" "1 \<le> dt_day b"
      using a b by (simp_all add: valid_date_def)
    then show ?thesis using 2 days_before_month_mono [of "dt_mon a" "dt_mon b" "dt_yr a"]
      by (intro step) (simp add: day_of_year_def)
  next
    case 3
    then show ?thesis by (intro step) (simp add: day_of_year_def)
  next
    case 4
    then show ?thesis by (simp add: epoch_split day_of_year_def)
  qed
qed

lemma earlier_linear:
  assumes "\<not> earlier a b" "\<not> earlier b a"
  shows "a = b"
proof -
  have yr: "dt_yr a = dt_yr b" using assms unfolding earlier_def by (intro order_antisym) (simp_all add: not_less)
  have mon: "dt_mon a = dt_mon b" using assms yr unfolding earlier_def by (intro order_antisym) (simp_all add: not_less)
  have day: "dt_day a = dt_day b" using assms yr mon unfolding earlier_def by (intro order_antisym) (simp_all add: not_less)
  have hr: "dt_hr a = dt_hr b" using assms yr mon day unfolding earlier_def by (intro order_antisym) (simp_all add: not_less)
  have mn: "dt_min a = dt_min b" using assms yr mon day hr unfolding earlier_def by (intro order_antisym) (simp_all add: not_less)
  have "dt_sec a = dt_sec b" using assms yr mon day hr mn unfolding earlier_def by (intro order_antisym) (simp_all add: not_less)
  then show ?thesis using yr mon day hr mn by simp
qed

lemma epoch_seconds_range:
  assumes "valid_date dt" "1970 \<le> dt_yr dt" "dt_yr dt \<le> 2037"
  shows "0 \<le> epoch_seconds dt" "epoch_seconds dt < 2 ^ 31"
proof -
  have lo: "days_before_year 1970 = 0" and hi: "days_before_year 2038 = 24837"
    by (simp_all add: days_before_year_def)
  have "0 \<le> days_before_year (dt_yr dt)"
  proof (cases "dt_yr dt = 1970")
    case False
    then have "days_before_year 1970 + dpy (IS_LEAP_YEAR 1970) \<le> days_before_year (dt_yr dt)"
      using assms(2) by (intro days_before_year_mono) simp
    moreover have "0 \<le> dpy (IS_LEAP_YEAR 1970)" by (simp add: dpy_def)
    ultimately show ?thesis using lo by linarith
  qed (simp add: lo)
  then have "0 \<le> (days_before_year (dt_yr dt) + day_of_year dt) * 86400"
    using day_of_year_bounds(1) [OF assms(1)] by simp
  then show "0 \<le> epoch_seconds dt"
    using second_of_day_bounds [OF assms(1)] unfolding epoch_split by linarith
  have "days_before_year (dt_yr dt) + dpy (IS_LEAP_YEAR (dt_yr dt)) \<le> 24837"
    using days_before_year_mono [of "dt_yr dt" 2038] hi assms(3) by linarith
  then have "(days_before_year (dt_yr dt) + day_of_year dt) * 86400 \<le> 24836 * 86400"
    using day_of_year_bounds(2) [OF assms(1)] by (intro mult_right_mono) simp_all
  then have "epoch_seconds dt < 24836 * 86400 + 86400"
    using second_of_day_bounds [OF assms(1)] unfolding epoch_split by linarith
  then show "epoch_seconds dt < 2 ^ 31" by simp
qed

lemma sint_word_of_int_small: "0 \<le> x \<Longrightarrow> x < 2 ^ 31 \<Longrightarrow> sint (word_of_int x :: u32) = x"
proof -
  assume x: "0 \<le> x" "x < 2 ^ 31"
  have "sint (word_of_int x :: u32) = signed_take_bit 31 x"
    by transfer (simp add: signed_take_bit_take_bit)
  also have "\<dots> = x" by (rule signed_take_bit_int_eq_self) (use x in simp_all)
  finally show ?thesis .
qed

lemma dt2t_range:
  assumes "valid_date dt" "1970 \<le> dt_yr dt" "dt_yr dt \<le> 2037"
  obtains t where "dt2t dt = Some t" "sint t = epoch_seconds dt"
  using dt2t_epoch_seconds [OF assms(1,2)] sint_word_of_int_small [OF epoch_seconds_range [OF assms]] by blast

subsection \<open>The clock chip\<close>

definition to_bcd :: "int \<Rightarrow> u8" where
  "to_bcd n = word_of_int (n div 10 * 16 + n mod 10)"

lemma from_to_bcd:
  assumes "0 \<le> n" "n < 100"
  shows "from_bcd (sint (to_bcd n)) = (if n < 80 then n else if 10 dvd n then n - 160 else n - 150)"
proof -
  have "n \<in> set [0..99]" using assms by simp
  moreover have "\<forall>n \<in> set [0..99]. from_bcd (sint (to_bcd n)) = (if n < 80 then n else if 10 dvd n then n - 160 else n - 150)"
    by code_simp
  ultimately show ?thesis by blast
qed

lemma cmos_wait_returns: "(\<exists>k. cmos_wait status n = Some k) \<longleftrightarrow> (\<exists>k \<ge> n. \<not> is_cmos_update (status k))"
proof
  assume "\<exists>k. cmos_wait status n = Some k"
  then obtain k where "cmos_wait status n = Some k" ..
  then have "n \<le> k \<and> \<not> is_cmos_update (status k)"
    by (rule cmos_wait.raw_induct [rotated]) (fastforce dest: Suc_leD split: if_splits)
  then show "\<exists>k \<ge> n. \<not> is_cmos_update (status k)" by blast
next
  assume "\<exists>k \<ge> n. \<not> is_cmos_update (status k)"
  then obtain d where "\<not> is_cmos_update (status (n + d))" by (metis le_Suc_ex)
  then show "\<exists>k. cmos_wait status n = Some k"
  proof (induction d arbitrary: n)
    case 0
    then show ?case by (subst cmos_wait.simps) simp
  next
    case (Suc d)
    then show ?case by (subst cmos_wait.simps) simp
  qed
qed

text \<open>The chip's year has two digits, so it never reaches the loop over the years.\<close>

lemma from_bcd_small: "v < 128 \<Longrightarrow> from_bcd v < 1970"
proof -
  assume v: "v < 128"
  have m: "v mod 16 < 16" by simp
  show ?thesis
  proof (cases "v < 0")
    case True
    then have "0 \<le> - v div 16" by (simp add: pos_imp_zdiv_nonneg_iff)
    then show ?thesis using True m by (simp only: from_bcd_def if_True)
  next
    case False
    have "v div 16 < 8" using v by (simp add: div_less_iff_less_mult)
    then show ?thesis using False m by (simp only: from_bcd_def if_False)
  qed
qed

lemma arch_clock_year:
  assumes "arch_clock status reg = Some dt"
  shows "dt_yr dt < 1970"
proof -
  have "sint (reg T_YEAR) < 128" using sint_lt [of "reg T_YEAR"] by simp
  then show ?thesis using assms from_bcd_small [of "sint (reg T_YEAR)"]
    by (auto simp: arch_clock_def get_realtime_reg_def split: Option.bind_splits)
qed

lemma dt2t_year_lost:
  assumes "dt_yr dt < 1970" "dt_yr dt' < 1970" "IS_LEAP_YEAR (dt_yr dt) = IS_LEAP_YEAR (dt_yr dt')"
    and "dt' = dt\<lparr>dt_yr := dt_yr dt'\<rparr>"
  shows "dt2t dt = dt2t dt'"
proof -
  have "[EPOCH_YEAR..dt_yr dt - 1] = []" "[EPOCH_YEAR..dt_yr dt' - 1] = []"
    using assms(1,2) by (simp_all add: EPOCH_YEAR_def)
  moreover have "dt_mon dt' = dt_mon dt" "dt_day dt' = dt_day dt" "dt_hr dt' = dt_hr dt" "dt_min dt' = dt_min dt"
    "dt_sec dt' = dt_sec dt" by (subst assms(4), simp)+
  ultimately show ?thesis using assms(3) by (simp add: dt2t_def cong: if_cong)
qed

subsection \<open>Properties\<close>

text \<open>C35: \<open>dt2t\<close> computes calendar time. For a valid date from 1970 to 2037 it returns the number of seconds since
  1970-01-01 00:00:00 in the Gregorian calendar, which fits a signed 32-bit integer.\<close>

theorem dt2t_calendar:
  assumes "valid_date dt" "1970 \<le> dt_yr dt" "dt_yr dt \<le> 2037"
  shows "\<exists>t. dt2t dt = Some t \<and> sint t = epoch_seconds dt \<and> 0 \<le> epoch_seconds dt \<and> epoch_seconds dt < 2 ^ 31"
  by (rule dt2t_range [OF assms]) (use epoch_seconds_range [OF assms] in blast)

theorem dt2t_calendar_witness:
  "dt2t \<lparr>dt_sec = 30, dt_min = 45, dt_hr = 12, dt_day = 29, dt_mon = 2, dt_yr = 2024\<rparr> = Some 1709210730"
proof -
  let ?d = "\<lparr>dt_sec = 30, dt_min = 45, dt_hr = 12, dt_day = 29, dt_mon = 2, dt_yr = 2024\<rparr>"
  have "IS_LEAP_YEAR 2024" unfolding IS_LEAP_YEAR_def by (rule disjI1) presburger
  then have v: "valid_date ?d" by (simp add: valid_date_def days_in_month_def dpm_def)
  have e: "epoch_seconds ?d = 1709210730"
    by (simp add: epoch_seconds_def epoch_days_def days_before_year_def days_before_month_def)
  from dt2t_calendar [OF v] e obtain t where t: "dt2t ?d = Some t" "sint t = 1709210730" by auto
  then have "t = word_of_int 1709210730" by (metis of_int_sint scast_id)
  with t(1) show ?thesis by simp
qed

text \<open>\<open>dt2t\<close> keeps the order of dates: of two valid dates from 1970 to 2037 the earlier one gets the smaller
  time, so equal times mean equal dates.\<close>

theorem dt2t_monotone:
  assumes "valid_date a" "1970 \<le> dt_yr a" "dt_yr a \<le> 2037" "valid_date b" "1970 \<le> dt_yr b" "dt_yr b \<le> 2037"
  shows "\<exists>s t. dt2t a = Some s \<and> dt2t b = Some t \<and> (sint s < sint t \<longleftrightarrow> earlier a b) \<and> (s = t \<longrightarrow> dt_sec a = dt_sec b \<and>
    dt_min a = dt_min b \<and> dt_hr a = dt_hr b \<and> dt_day a = dt_day b \<and> dt_mon a = dt_mon b \<and> dt_yr a = dt_yr b)"
proof -
  obtain s t where st: "dt2t a = Some s" "sint s = epoch_seconds a" "dt2t b = Some t" "sint t = epoch_seconds b"
    using dt2t_range [OF assms(1-3)] dt2t_range [OF assms(4-6)] by metis
  have ab: "earlier a b \<Longrightarrow> sint s < sint t" and ba: "earlier b a \<Longrightarrow> sint t < sint s"
    using earlier_less [OF assms(1,4)] earlier_less [OF assms(4,1)] st by simp_all
  have eq: "a = b" if "\<not> earlier a b" "\<not> earlier b a" by (rule earlier_linear [OF that])
  have "sint s < sint t \<longleftrightarrow> earlier a b" using ab ba eq st by fastforce
  moreover have "a = b" if "s = t" using that ab ba eq by auto
  ultimately show ?thesis using st by (intro exI [of _ s] exI [of _ t]) simp
qed

theorem dt2t_monotone_witness:
  "\<exists>s t. dt2t \<lparr>dt_sec = 59, dt_min = 59, dt_hr = 23, dt_day = 31, dt_mon = 12, dt_yr = 1999\<rparr> = Some s \<and>
    dt2t \<lparr>dt_sec = 0, dt_min = 0, dt_hr = 0, dt_day = 1, dt_mon = 1, dt_yr = 2000\<rparr> = Some t \<and> sint s < sint t"
  using dt2t_monotone [of "\<lparr>dt_sec = 59, dt_min = 59, dt_hr = 23, dt_day = 31, dt_mon = 12, dt_yr = 1999\<rparr>"
      "\<lparr>dt_sec = 0, dt_min = 0, dt_hr = 0, dt_day = 1, dt_mon = 1, dt_yr = 2000\<rparr>"]
  by (auto simp: valid_date_def days_in_month_def dpm_def earlier_def)

text \<open>The kernel's clock loses the year. The CMOS gives two decimal digits of the year, which \<open>arch_clock\<close> stores as
  the year: it is below 1970 whatever the chip answers, so that \<open>dt2t\<close> counts no years at all and
  \<open>time\<close> gives the same value for clocks that differ in the year alone, leap years aside.\<close>

theorem clock_loses_year:
  assumes "arch_clock status reg = Some dt" "arch_clock status' reg' = Some dt'"
    and "dt' = dt\<lparr>dt_yr := dt_yr dt'\<rparr>" "IS_LEAP_YEAR (dt_yr dt) = IS_LEAP_YEAR (dt_yr dt')"
  shows "dt_yr dt < 1970 \<and> time status reg = time status' reg'"
  using arch_clock_year [OF assms(1)] arch_clock_year [OF assms(2)]
    dt2t_year_lost [of dt dt'] assms by (simp add: time_def)

theorem clock_loses_year_witness:
  "time (\<lambda>_. 0) (\<lambda>r. if r = T_YEAR then 0x21 else 1) = time (\<lambda>_. 0) (\<lambda>r. if r = T_YEAR then 0x23 else 1)"
proof -
  have wait: "cmos_wait (\<lambda>_. 0) 0 = Some 0" by (subst cmos_wait.simps) (simp add: is_cmos_update_def)
  define c :: "int \<Rightarrow> datetime" where "c y = \<lparr>dt_sec = 1, dt_min = 1, dt_hr = 1, dt_day = 1, dt_mon = 1, dt_yr = y\<rparr>" for y
  have "arch_clock (\<lambda>_. 0) (\<lambda>r. if r = T_YEAR then 0x21 else 1) = Some (c 21)"
    "arch_clock (\<lambda>_. 0) (\<lambda>r. if r = T_YEAR then 0x23 else 1) = Some (c 23)"
    by (simp_all add: arch_clock_def wait T_defs get_realtime_reg_def from_bcd_def c_def)
  from clock_loses_year [OF this] show ?thesis by (simp add: c_def IS_LEAP_YEAR_def)
qed

end
