(* ===== verification/Log.thy ===== *)
theory Log
  imports Tty Time Charbuf
begin

text \<open>
  The kernel log, \<^verbatim>\<open>newland/src/log.c\<close> and \<^verbatim>\<open>newland/include/newland/log.h\<close>: a line with the time since
  the boot is written into a buffer that starts again at its beginning when the line does not fit, and to the first terminal
  that was registered.

  The buffer has the size \<open>NEWLAND_KLOG_SIZE\<close> of the configuration; writing past it is a fault. \<open>wr f tty line n\<close> is
  the call of the terminal's driver at the code address \<open>f\<close>; \<open>t\<close> is what \<open>boottime\<close> answers.
\<close>

definition KLOG_SOH_ASCII :: char where
  "KLOG_SOH_ASCII = CHR 0x01"

definition KLOG_DEBUG :: string where "KLOG_DEBUG = KLOG_SOH @ ''0''"
definition KLOG_ERR :: string where "KLOG_ERR = KLOG_SOH @ ''2''"
definition KLOG_WARN :: string where "KLOG_WARN = KLOG_SOH @ ''3''"
definition KLOG_FATAL :: string where "KLOG_FATAL = KLOG_SOH @ ''4''"
definition KLOG_NOTICE :: string where "KLOG_NOTICE = KLOG_SOH @ ''5''"

definition TIME_STRLEN :: nat where
  "TIME_STRLEN = 12"

record log_state = tty_state +
  klog_buffer :: string
  klog_pos :: u32

type_synonym 's tty_write = "u32 \<Rightarrow> ptr \<Rightarrow> string \<Rightarrow> u32 \<Rightarrow> 's \<Rightarrow> (u32 \<times> 's) option"

text \<open>The two characters of the level are skipped; a string that ends after the first is read past its end.\<close>

definition skip_level :: "string \<Rightarrow> u32 \<Rightarrow> (string \<times> u32) option" where
  "skip_level str len =
     (if str \<noteq> [] \<and> hd str = KLOG_SOH_ASCII
      then if length str < 2 then None else Some (drop 2 str, len - 2)
      else Some (str, len))"

text \<open>The time in brackets, at the position \<open>b\<close>: the brackets and blanks, and \<open>snprintf\<close> on the blanks.\<close>

definition time_prefix :: "u32 \<Rightarrow> nat \<Rightarrow> string \<Rightarrow> string option" where
  "time_prefix t b buf = do {
     buf1 \<leftarrow> poke b (CHR ''['' # replicate TIME_STRLEN (CHR '' '')) buf;
     (r, rest) \<leftarrow> vsnprintf (drop (b + 1) buf1) TIME_STRLEN ''%d'' [AInt t];
     poke (b + 1 + TIME_STRLEN) ''] '' (take (b + 1) buf1 @ rest)
   }"

text \<open>The end of \<open>print\<close>: \<open>len\<close> characters from \<open>b\<close> are given to the terminal, a carriage return after a newline.\<close>

definition print_tty :: "'z log_state_scheme tty_write \<Rightarrow> nat \<Rightarrow> u32 \<Rightarrow> 'z log_state_scheme \<Rightarrow> (u32 \<times> 'z log_state_scheme) option" where
  "print_tty wr b len s = do {
     tty \<leftarrow> tty_get s (tty_count s - 1);
     s1 \<leftarrow> (if tty = 0 then Some s
       else do {
         v \<leftarrow> deref (tty_heap s) tty;
         (r, s1) \<leftarrow> wr (tty_write (tty_opts v)) tty (take (unat len) (drop b (klog_buffer s))) len s;
         let last = b + unat len;
         if last = 0 \<or> length (klog_buffer s1) < last then None
         else if klog_buffer s1 ! (last - 1) = CHR 0x0A then do {
           v \<leftarrow> deref (tty_heap s1) tty;
           map_option snd (wr (tty_write (tty_opts v)) tty [CHR 0x0D] 1 s1)
         }
         else Some s1
       });
     Some (len, s1\<lparr>klog_pos := klog_pos s1 + len\<rparr>)
   }"

definition print :: "'z log_state_scheme tty_write \<Rightarrow> u32 \<Rightarrow> string \<Rightarrow> u32 \<Rightarrow> bool \<Rightarrow> 'z log_state_scheme \<Rightarrow>
   (u32 \<times> 'z log_state_scheme) option" where
  "print wr t str len inmsg s = do {
     (str, len) \<leftarrow> skip_level str len;
     let freesize = of_nat (length (klog_buffer s)) - klog_pos s;
     let len = (if inmsg then len else len + of_nat TIME_STRLEN + 3);
     let s = (if freesize < len then s\<lparr>klog_pos := 0\<rparr> else s);
     let b = unat (klog_pos s);
     buf1 \<leftarrow> (if inmsg then Some (klog_buffer s) else time_prefix t b (klog_buffer s));
     let b1 = (if inmsg then b + 1 else b + 1 + TIME_STRLEN + 2);
     buf2 \<leftarrow> strcpy_at b1 str buf1;
     buf3 \<leftarrow> put buf2 (b1 + unat len) (CHR 0x00);
     print_tty wr b len (s\<lparr>klog_buffer := buf3\<rparr>)
   }"

text \<open>\<open>g\<close> is what the buffer on the stack held.\<close>

definition printk :: "'z log_state_scheme tty_write \<Rightarrow> u32 \<Rightarrow> string \<Rightarrow> string \<Rightarrow> arg list \<Rightarrow> 'z log_state_scheme \<Rightarrow>
   (u32 \<times> 'z log_state_scheme) option" where
  "printk wr t g fmt args s = do {
     (wrote, buff) \<leftarrow> vsnprintf g 512 fmt args;
     if wrote < 0 then Some (word_of_int wrote, s)
     else print wr t (text_at 0 buff) (of_nat (length (text_at 0 buff))) False s
   }"


subsection \<open>The line\<close>

lemma length_sdec: "length (sdec t) < TIME_STRLEN"
  using length_dec_digits_u32 [of t] length_dec_digits_u32 [of "- t"]
  by (cases "sint t < 0") (simp_all add: sdec_neg TIME_STRLEN_def, simp add: sdec_def)

lemma drop_upd_head: "n < length xs \<Longrightarrow> (drop n xs)[0 := c] = c # drop (Suc n) xs"
  by (simp add: Cons_nth_drop_Suc [symmetric])

text \<open>\<open>snprintf\<close> of a number that is shorter than the size, into a buffer that may be longer.\<close>

lemma snprintf_number:
  assumes "length (sdec t) < sz" "sz \<le> length buf"
  shows "vsnprintf buf sz ''%d'' [AInt t] =
    Some (int (length (sdec t)) - 1, sdec t @ CHR 0x00 # drop (Suc (length (sdec t))) buf)"
proof (cases "sint t < 0")
  case True
  have buf: "buf \<noteq> []" using assms by auto
  have "take 1 (buf[0 := CHR 0x2D]) = [CHR 0x2D]" using buf by (cases buf) simp_all
  then show ?thesis
    using True assms sdec_neg [OF True] buf
    by (simp add: vsnprintf_def conv_def emit_def emits_def put_def convert_dec list_update_append drop_upd_head)
next
  case False
  then show ?thesis
    using assms by (simp add: sdec_def vsnprintf_def conv_def emit_def emits_def put_def convert_dec list_update_append drop_upd_head)
qed

text \<open>The time in brackets, as it lies in the buffer: \<open>snprintf\<close> leaves a NUL after the number and blanks after it.\<close>

definition stamp :: "u32 \<Rightarrow> string" where
  "stamp t = CHR ''['' # sdec t @ CHR 0x00 # replicate (TIME_STRLEN - 1 - length (sdec t)) (CHR '' '') @ ''] ''"

lemma length_stamp [simp]: "length (stamp t) = 15"
  using length_sdec [of t] by (simp add: stamp_def TIME_STRLEN_def)

text \<open>The buffer up to the end of the number.\<close>

lemma time_number:
  assumes "b + 13 \<le> length buf"
  shows "time_prefix t b buf = poke (b + 13) ''] '' (take b buf @ CHR ''['' # sdec t @ CHR 0x00 #
    replicate (11 - length (sdec t)) (CHR '' '') @ drop (b + 13) buf)"
proof -
  let ?buf = "take b buf @ CHR ''['' # replicate 12 (CHR '' '') @ drop (b + 13) buf" and ?k = "length (sdec t)"
  have k: "?k < 12" using length_sdec [of t] by (simp add: TIME_STRLEN_def)
  have 1: "poke b (CHR ''['' # replicate TIME_STRLEN (CHR '' '')) buf = Some ?buf"
    using assms by (simp add: TIME_STRLEN_def)
  have b: "length (take b buf) = b" using assms by simp
  then have 2: "drop (b + 1) ?buf = replicate 12 (CHR '' '') @ drop (b + 13) buf" "take (b + 1) ?buf = take b buf @ ''[''"
    by (simp_all del: length_take)
  have "drop (Suc ?k) (replicate 12 (CHR '' '') @ drop (b + 13) buf) = replicate (11 - ?k) (CHR '' '') @ drop (b + 13) buf"
    using k by simp
  then have 3: "vsnprintf (replicate 12 (CHR '' '') @ drop (b + 13) buf) TIME_STRLEN ''%d'' [AInt t] =
      Some (int ?k - 1, sdec t @ CHR 0x00 # replicate (11 - ?k) (CHR '' '') @ drop (b + 13) buf)"
    using snprintf_number [of t 12 "replicate 12 (CHR '' '') @ drop (b + 13) buf"] k by (simp add: TIME_STRLEN_def)
  show ?thesis unfolding time_prefix_def 1 bind.bind_lunit 2 3 by (simp add: TIME_STRLEN_def add.commute)
qed

lemma time_prefix_stamp:
  assumes "b + 15 \<le> length buf"
  shows "time_prefix t b buf = Some (take b buf @ stamp t @ drop (b + 15) buf)"
proof -
  let ?k = "length (sdec t)"
  let ?num = "take b buf @ CHR ''['' # sdec t @ CHR 0x00 # replicate (11 - ?k) (CHR '' '')"
  have k: "?k < 12" using length_sdec [of t] by (simp add: TIME_STRLEN_def)
  have "length ?num = b + 13" using k assms by simp
  then have "poke (b + 13) ''] '' (?num @ drop (b + 13) buf) = Some (?num @ ''] '' @ drop (b + 15) buf)"
    using assms unfolding poke_def by (simp add: add.commute del: append_assoc)
  then show ?thesis using time_number [of b buf t] assms by (simp add: stamp_def TIME_STRLEN_def)
qed

lemma time_prefix_short:
  assumes "length buf < b + 15"
  shows "time_prefix t b buf = None"
proof (cases "b + 13 \<le> length buf")
  case True
  have "length (sdec t) < 12" using length_sdec [of t] by (simp add: TIME_STRLEN_def)
  then show ?thesis using time_number [OF True, of t] True assms by (simp add: poke_def)
next
  case False
  then have "poke b (CHR ''['' # replicate TIME_STRLEN (CHR '' '')) buf = None" by (simp add: poke_def TIME_STRLEN_def)
  then show ?thesis by (simp add: time_prefix_def)
qed

text \<open>The position at which a line of \<open>n\<close> characters starts.\<close>

definition line_start :: "nat \<Rightarrow> 'z log_state_scheme \<Rightarrow> nat" where
  "line_start n s = (if length (klog_buffer s) - unat (klog_pos s) < n then 0 else unat (klog_pos s))"

text \<open>
  A line of the stamp and \<open>body\<close> is stored when its end lies fifteen characters before the end of the buffer: the NUL
  is written at a distance of the length of the line from the text, not from its start.
\<close>

lemma print_line:
  fixes s :: "'z log_state_scheme"
  assumes lvl: "skip_level str n = Some (body, of_nat (length body))" and pos: "unat (klog_pos s) \<le> length (klog_buffer s)"
    and small: "length body < 2000" "length (klog_buffer s) < 2147483648"
  defines "b \<equiv> line_start (length body + 15) s" and "L \<equiv> length body + 15"
  shows "print wr t str n False s = (if b + L + 15 < length (klog_buffer s)
     then print_tty wr b (of_nat L) (s\<lparr>klog_pos := of_nat b, klog_buffer := (take b (klog_buffer s) @ stamp t @ body @ CHR 0x00 #
       drop (Suc (b + L)) (klog_buffer s))[b + L + 15 := CHR 0x00]\<rparr>)
     else None)"
proof -
  let ?buf = "klog_buffer s"
  have b: "b \<le> length ?buf" using pos by (simp add: b_def line_start_def)
  have len: "of_nat (length body) + of_nat TIME_STRLEN + 3 = (of_nat L :: u32)" by (simp add: L_def TIME_STRLEN_def)
  have L: "unat (of_nat L :: u32) = L" by (rule unat_of_nat_small) (use small in \<open>simp add: L_def\<close>)
  have "unat (of_nat (length ?buf) - klog_pos s) = length ?buf - unat (klog_pos s)"
    using pos small by (simp add: unat_sub word_le_nat_alt unat_of_nat_small)
  then have free: "of_nat (length ?buf) - klog_pos s < of_nat L \<longleftrightarrow> length ?buf - unat (klog_pos s) < L"
    by (simp add: word_less_nat_alt L)
  have pos': "(if of_nat (length ?buf) - klog_pos s < of_nat L then s\<lparr>klog_pos := 0\<rparr> else s) = s\<lparr>klog_pos := of_nat b\<rparr>"
    by (simp only: free) (simp add: b_def line_start_def L_def)
  have ub: "unat (of_nat b :: u32) = b" using b small(2) by (simp add: unat_of_nat_small)
  have at: "b + 1 + TIME_STRLEN + 2 = b + 15" by (simp add: TIME_STRLEN_def)
  have sel: "klog_pos (s\<lparr>klog_pos := of_nat b\<rparr>) = of_nat b" "klog_buffer (s\<lparr>klog_pos := of_nat b\<rparr>) = ?buf" by simp_all
  have run: "print wr t str n False s = do {
      buf1 \<leftarrow> time_prefix t b ?buf; buf2 \<leftarrow> strcpy_at (b + 15) body buf1; buf3 \<leftarrow> put buf2 (b + 15 + L) (CHR 0x00);
      print_tty wr b (of_nat L) (s\<lparr>klog_pos := of_nat b, klog_buffer := buf3\<rparr>) }"
    by (simp only: print_def lvl Let_def bind.bind_lunit prod.case if_False len pos' sel ub L at)
  show ?thesis
  proof (cases "b + 15 \<le> length ?buf")
    case False
    then show ?thesis using time_prefix_short [of ?buf b t] by (simp add: run)
  next
    case True
    let ?new = "take b ?buf @ stamp t @ body @ CHR 0x00 # drop (Suc (b + L)) ?buf"
    have "strcpy_at (b + 15) body (take b ?buf @ stamp t @ drop (b + 15) ?buf) = (if b + L < length ?buf then Some ?new else None)"
      using True b by (auto simp: strcpy_at_def poke_def L_def add_ac)
    moreover have "put ?new (b + 15 + L) (CHR 0x00) =
        (if b + L + 15 < length ?buf then Some (?new[b + L + 15 := CHR 0x00]) else None)" if "b + L < length ?buf"
      using that b by (auto simp: put_def L_def add_ac)
    ultimately show ?thesis
      using time_prefix_stamp [OF True, of t] by (simp add: run)
  qed
qed


subsection \<open>The terminal\<close>

text \<open>A driver that appends what it is given to \<open>out\<close> and leaves the log and the terminals alone.\<close>

definition console_ok :: "('z log_state_scheme \<Rightarrow> string) \<Rightarrow> 'z log_state_scheme tty_write \<Rightarrow> u32 \<Rightarrow> ptr \<Rightarrow> bool" where
  "console_ok out wr f p \<longleftrightarrow>
     (\<forall>l n u. \<exists>r u'. wr f p l n u = Some (r, u') \<and> out u' = out u @ l \<and> klog_buffer u' = klog_buffer u \<and>
       klog_pos u' = klog_pos u \<and> tty_heap u' = tty_heap u) \<and>
     (\<forall>u b k. out (u\<lparr>klog_pos := k, klog_buffer := b\<rparr>) = out u)"

lemma tty_last:
  assumes "tty_rep s xs" "xs \<noteq> []" "last xs = (p, v)"
  shows "tty_get s (tty_count s - 1) = Some p" "deref (tty_heap s) p = Some v" "p \<noteq> 0"
proof -
  have len: "length xs < 4294967296" using assms(1) slist_rep_length by (auto simp: tty_rep_def)
  have "tty_count s - 1 = of_nat (length xs - 1)"
    using assms(1,2) by (simp add: tty_count_def tty_rep_def of_nat_diff Suc_leI)
  then have "unat (tty_count s - 1) = length xs - 1" using len by (simp add: unat_of_nat_small)
  then show "tty_get s (tty_count s - 1) = Some p" using assms by (simp add: tty_get_rep last_conv_nth)
  have mem: "(p, v) \<in> set xs" using assms(2,3) by (metis last_in_set)
  then show "deref (tty_heap s) p = Some v" by (rule tty_rep_deref [OF assms(1)])
  show "p \<noteq> 0" using tty_rep_nonzero [OF assms(1)] mem by force
qed

lemma print_tty_sends:
  assumes rep: "tty_rep s xs" "xs \<noteq> []" "last xs = (p, v)" and drv: "console_ok out wr (tty_write (tty_opts v)) p"
    and line: "take (unat len) (drop b (klog_buffer s)) = line" "length line = unat len" "line \<noteq> []" "b + unat len \<le> length (klog_buffer s)"
  shows "\<exists>t. print_tty wr b len s = Some (len, t) \<and>
    out t = out s @ line @ (if last line = CHR 0x0A then [CHR 0x0D] else []) \<and>
    klog_pos t = klog_pos s + len \<and> klog_buffer t = klog_buffer s"
proof -
  note tty = tty_last [OF rep]
  obtain r s1 where s1: "wr (tty_write (tty_opts v)) p line len s = Some (r, s1)" "out s1 = out s @ line"
    "klog_buffer s1 = klog_buffer s" "klog_pos s1 = klog_pos s" "tty_heap s1 = tty_heap s"
    using drv unfolding console_ok_def by metis
  obtain r' s2 where s2: "wr (tty_write (tty_opts v)) p [CHR 0x0D] 1 s1 = Some (r', s2)" "out s2 = out s1 @ [CHR 0x0D]"
    "klog_buffer s2 = klog_buffer s1" "klog_pos s2 = klog_pos s1"
    using drv unfolding console_ok_def by metis
  have keep: "out (u\<lparr>klog_pos := k\<rparr>) = out u" for u k
  proof -
    have "u\<lparr>klog_pos := k\<rparr> = u\<lparr>klog_pos := k, klog_buffer := klog_buffer u\<rparr>" by simp
    then show ?thesis using drv unfolding console_ok_def by metis
  qed
  have "klog_buffer s ! (b + unat len - 1) = last line"
  proof -
    have "last line = line ! (unat len - 1)" using line(2,3) by (simp add: last_conv_nth)
    also have "\<dots> = drop b (klog_buffer s) ! (unat len - 1)"
      using line(2,3) unfolding line(1) [symmetric] by (intro nth_take) (cases "unat len", simp_all)
    also have "\<dots> = klog_buffer s ! (b + (unat len - 1))" using line(4) by (intro nth_drop) simp
    moreover have "b + unat len - 1 = b + (unat len - 1)" using line(2,3) by (cases "unat len") simp_all
    ultimately show ?thesis by simp
  qed
  moreover have "b + unat len \<noteq> 0" using line(2,3) by auto
  ultimately show ?thesis
    using tty s1 s2 line by (simp add: print_tty_def keep)
qed

text \<open>What \<open>printk\<close> hands to \<open>print\<close>.\<close>

lemma printk_text:
  assumes "length g = 512" "text_of fmt args = Some msg" "length msg < 512" "msg \<noteq> []" "CHR 0x00 \<notin> set msg"
  shows "printk wr t g fmt args s = print wr t msg (of_nat (length msg)) False s"
proof -
  have "\<not> int (length msg) - 1 < 0" using assms(4) by (cases msg) simp_all
  moreover have "takeWhile (\<lambda>c. c \<noteq> CHR 0x00) (msg @ CHR 0x00 # ys) = msg" for ys
    using assms(5) by (subst takeWhile_append2) auto
  ultimately show ?thesis
    using vsnprintf_exact [OF assms(1,2)] assms(3) by (simp add: printk_def text_at_def)
qed

lemma skip_level_prefix:
  "skip_level (KLOG_SOH @ c # body) (of_nat (length (KLOG_SOH @ c # body))) = Some (body, of_nat (length body))"
  by (simp add: skip_level_def KLOG_SOH_def KLOG_SOH_ASCII_def)

text \<open>A log of \<open>n\<close> characters with one terminal, whose driver records what it is given.\<close>

definition console :: tty where
  "console = \<lparr>tty_name = ''tty0'', tty_opts = \<lparr>tty_read = 0, tty_write = 2, cursor_set = 0, cursor_move = 0, cursor_get = 0,
     win_get = 0, win_set = 0\<rparr>\<rparr>"

definition log_sample :: "nat \<Rightarrow> u32 \<Rightarrow> log_state" where
  "log_sample n pos = \<lparr>klog_calls = [], dev_heap = Map.empty, devices = 0, dev_count = 0, blk_heap = Map.empty, block_devices = 0,
     block_device_count = 0, tty_heap = heap_of [(0x10, console)], ttys = 0x10, tty_cnt = 1,
     klog_buffer = replicate n (CHR 0x00), klog_pos = pos\<rparr>"

definition recorder :: "log_state tty_write" where
  "recorder f p l n u = Some (n, u\<lparr>klog_calls := klog_calls u @ [([], l)]\<rparr>)"

definition recorded :: "log_state \<Rightarrow> string" where
  "recorded u = concat (map snd (klog_calls u))"

lemma recorder_ok: "console_ok recorded recorder f p"
  by (simp add: console_ok_def recorder_def recorded_def)

lemma log_sample_simps:
  "length (klog_buffer (log_sample n pos)) = n" "klog_pos (log_sample n pos) = pos" "recorded (log_sample n pos) = []"
  "tty_rep (log_sample n pos) [(0x10, console)]"
  using slist_rep_heap_of [of "[(0x10, console)]"] by (simp_all add: log_sample_def recorded_def tty_rep_def)

subsection \<open>Properties\<close>

text \<open>C21: A message with a level is written as one line of the time stamp and its text, into the buffer from the end of the last
  line or from the beginning when it does not fit in the rest, and to the terminal that was registered first, with a
  carriage return after a newline; the call returns the length of the line. This holds when sixteen more characters of the
  buffer lie behind the line.\<close>

theorem log_line_written:
  assumes "length g = 512" "text_of fmt args = Some (KLOG_SOH @ c # body)" "length body < 510" "CHR 0x00 \<notin> set (c # body)"
    and "unat (klog_pos s) \<le> length (klog_buffer s)" "length (klog_buffer s) < 2147483648"
    and "tty_rep s xs" "xs \<noteq> []" "last xs = (p, v)" "console_ok out wr (tty_write (tty_opts v)) p"
    and "b = line_start (length body + 15) s" "b + length body + 30 < length (klog_buffer s)"
  shows "\<exists>u. printk wr t g fmt args s = Some (of_nat (length body + 15), u) \<and>
    out u = out s @ stamp t @ body @ (if body \<noteq> [] \<and> last body = CHR 0x0A then [CHR 0x0D] else []) \<and>
    take (length body + 15) (drop b (klog_buffer u)) = stamp t @ body \<and>
    take b (klog_buffer u) = take b (klog_buffer s) \<and> unat (klog_pos u) = b + length body + 15"
proof -
  let ?new = "(take b (klog_buffer s) @ stamp t @ body @ CHR 0x00 # drop (Suc (b + (length body + 15))) (klog_buffer s))
    [b + (length body + 15) + 15 := CHR 0x00]"
  let ?s = "s\<lparr>klog_pos := of_nat b, klog_buffer := ?new\<rparr>"
  have "printk wr t g fmt args s = print wr t (KLOG_SOH @ c # body) (of_nat (length (KLOG_SOH @ c # body))) False s"
    using assms(1-4) by (intro printk_text) (auto simp: KLOG_SOH_def)
  also have "\<dots> = print_tty wr b (of_nat (length body + 15)) ?s"
    using print_line [OF skip_level_prefix [of c body] assms(5) _ assms(6), of wr t] assms(3,11,12)
    by (simp add: add_ac)
  finally have run: "printk wr t g fmt args s = print_tty wr b (of_nat (length body + 15)) ?s" .
  have len: "unat (of_nat (length body + 15) :: u32) = length body + 15" by (rule unat_of_nat_small) (use assms(3) in simp)
  have b: "length (take b (klog_buffer s)) = b" using assms(12) by simp
  have new: "take (length body + 15) (drop b ?new) = stamp t @ body" "take b ?new = take b (klog_buffer s)" "length ?new = length (klog_buffer s)"
    using b assms(12) by (simp_all add: list_update_append del: length_take)
  have rep: "tty_rep ?s xs" using assms(7) by (simp add: tty_rep_def)
  have last: "last (stamp t @ body) = (if body = [] then CHR '' '' else last body)" by (simp add: stamp_def)
  have "stamp t \<noteq> []" by (simp add: stamp_def)
  then obtain u where u: "print_tty wr b (of_nat (length body + 15)) ?s = Some (of_nat (length body + 15), u)"
    "out u = out ?s @ (stamp t @ body) @ (if last (stamp t @ body) = CHR 0x0A then [CHR 0x0D] else [])"
    "klog_pos u = klog_pos ?s + of_nat (length body + 15)" "klog_buffer u = klog_buffer ?s"
    using print_tty_sends [OF rep assms(8-10), of "of_nat (length body + 15)" b "stamp t @ body"] new assms(12)
    unfolding len by auto
  have "unat (klog_pos u) = b + length body + 15"
  proof -
    have "klog_pos u = of_nat (b + length body + 15)" using u(3) by simp
    then show ?thesis using assms(6,12) by (simp only:) (rule unat_of_nat_small, simp)
  qed
  moreover have "out ?s = out s" using assms(10) by (simp add: console_ok_def)
  ultimately show ?thesis using run u new by (auto simp: last)
qed

theorem log_line_written_witness:
  "\<exists>u. printk recorder 7 (replicate 512 (CHR ''x'')) (KLOG_SOH @ ''1up'' @ [CHR 0x0A]) [] (log_sample 1000 990) = Some (18, u) \<and>
    recorded u = stamp 7 @ ''up'' @ [CHR 0x0A, CHR 0x0D] \<and> klog_pos u = 18"
proof -
  have body: "text_of (KLOG_SOH @ ''1up'' @ [CHR 0x0A]) [] = Some (KLOG_SOH @ CHR ''1'' # ''up'' @ [CHR 0x0A])"
    by (simp add: KLOG_SOH_def)
  have start: "line_start (length (''up'' @ [CHR 0x0A]) + 15) (log_sample 1000 990) = 0"
    by (simp add: line_start_def log_sample_simps)
  obtain u where u: "printk recorder 7 (replicate 512 (CHR ''x'')) (KLOG_SOH @ ''1up'' @ [CHR 0x0A]) [] (log_sample 1000 990) =
      Some (of_nat (length (''up'' @ [CHR 0x0A]) + 15), u)" "recorded u = stamp 7 @ ''up'' @ [CHR 0x0A, CHR 0x0D]" "unat (klog_pos u) = 18"
    using log_line_written [OF _ body _ _ _ _ log_sample_simps(4) _ _ recorder_ok start [symmetric], of "replicate 512 (CHR ''x'')" "0x10" console 7]
    by (auto simp: log_sample_simps)
  have "klog_pos u = 18" using u(3) by (simp add: word_unat_eq_iff)
  then show ?thesis using u by simp
qed

text \<open>C22: The room for a line is not tested where it is written: a message whose line ends, by the test of \<open>print\<close>, in the last
  fifteen characters of the buffer or at its end writes a NUL past the buffer.\<close>

theorem log_line_overruns:
  assumes "length g = 512" "text_of fmt args = Some (KLOG_SOH @ c # body)" "length body < 510" "CHR 0x00 \<notin> set (c # body)"
    and "unat (klog_pos s) \<le> length (klog_buffer s)" "length (klog_buffer s) < 2147483648"
    and "length (klog_buffer s) \<le> line_start (length body + 15) s + length body + 30"
  shows "printk wr t g fmt args s = None"
proof -
  have "printk wr t g fmt args s = print wr t (KLOG_SOH @ c # body) (of_nat (length (KLOG_SOH @ c # body))) False s"
    using assms(1-4) by (intro printk_text) (auto simp: KLOG_SOH_def)
  then show ?thesis
    using print_line [OF skip_level_prefix [of c body] assms(5) _ assms(6), of wr t] assms(3,7)
    by (simp add: add_ac)
qed

theorem log_line_overruns_witness:
  "printk recorder 7 (replicate 512 (CHR ''x'')) (KLOG_SOH @ ''5mounting initrd'') [] (log_sample 1000 960) = None"
proof -
  have "text_of (KLOG_SOH @ ''5mounting initrd'') [] = Some (KLOG_SOH @ CHR ''5'' # ''mounting initrd'')" by (simp add: KLOG_SOH_def)
  then show ?thesis
    by (rule log_line_overruns [rotated]) (simp_all add: line_start_def log_sample_simps)
qed

end
