(* ===== verification/Boot.thy ===== *)
theory Boot
  imports Procfs Exec Multiboot Module Log
begin

text \<open>
  The boot sequence: \<^verbatim>\<open>bootstrap_main\<close> of \<^verbatim>\<open>newland/arch/x86/src/bootstrap.c\<close>, with \<open>panic\<close> and \<open>halt\<close> of \<^verbatim>\<open>misc.c\<close> and
  \<open>fpu_init\<close> of \<^verbatim>\<open>fpu.c\<close>.

  The states of the components form a chain of records, of which \<open>boot_state\<close> is the end; the tables of interrupts and
  of modules, which the rest of the chain does not use, are members of it, and their operations run on them together
  with the one log of the kernel. \<open>boot_env\<close> holds what the sequence depends on: the descriptors of the boot loader, the
  answers of the allocator, the drivers behind function pointers. A machine that has started ends in \<open>Idle\<close>, the
  endless loop of the boot processor, or in \<open>Panic\<close>, which halts it for good.
\<close>

definition MULTIBOOT_BOOTLOADER_MAGIC :: u32 where
  "MULTIBOOT_BOOTLOADER_MAGIC = 0x2BADB002"

record boot_state = procfs_state +
  boot_time :: u32
  boot_ints :: int_state
  boot_mods :: mod_state
  cr0 :: u32
  cr4 :: u32

record boot_env =
  be_drivers :: "boot_state drivers"
  be_status :: "nat \<Rightarrow> u8"
  be_cmos :: "u8 \<Rightarrow> u8"
  be_tss :: ptr
  be_isr :: "nat \<Rightarrow> u32"
  be_irq :: "nat \<Rightarrow> u32"
  be_exc :: u32
  be_sched :: u32
  be_mmaps :: "ptr \<Rightarrow> multiboot_mmap option"
  be_modules :: "ptr \<Rightarrow> multiboot_module option"
  be_kernel_end :: ptr
  be_mmap_addr :: ptr
  be_mmap_length :: u32
  be_mbi :: mbi
  be_dev_block :: "boot_state \<Rightarrow> ptr"
  be_name_garbage :: string
  be_mbmod_opts :: fs_node_opts
  be_procfs_block :: ptr
  be_procfs_opts :: fs_opts
  be_initrd_block :: ptr
  be_initrd_opts :: fs_opts
  be_call :: "u32 \<Rightarrow> boot_state mod_state_scheme \<Rightarrow> (u32 \<times> boot_state mod_state_scheme) option"
  be_mods_start :: ptr
  be_mods_stop :: ptr
  be_node_block :: ptr
  be_node_garbage :: fs_node
  be_cache_block :: ptr
  be_mp_block :: ptr
  be_mp_garbage :: mountpoint
  be_kfree :: "proc heap \<Rightarrow> ptr \<Rightarrow> proc heap"
  be_bufs :: "nat \<Rightarrow> ptr"
  be_vars :: exec_vars
  be_proc_block :: ptr
  be_init :: ptr

datatype boot_end = Panic string | Idle

definition panic :: "string \<Rightarrow> 'z klog_state_scheme \<Rightarrow> boot_end \<times> 'z klog_state_scheme" where
  "panic msg s = (Panic msg, printk_s (KLOG_FATAL @ ''panic: %s'' @ [CHR 0x0A]) msg s)"

subsection \<open>Operations on the members of the state\<close>

definition with_ints :: "(int_state \<Rightarrow> int_state option) \<Rightarrow> boot_state \<Rightarrow> boot_state option" where
  "with_ints f s = map_option (\<lambda>t. s\<lparr>boot_ints := t, klog_calls := klog_calls t\<rparr>)
     (f ((boot_ints s)\<lparr>klog_calls := klog_calls s\<rparr>))"

text \<open>The initialisers of modules work on the whole kernel, which they find behind the tables of modules.\<close>

definition with_mods ::
  "(boot_state mod_state_scheme \<Rightarrow> (u32 \<times> boot_state mod_state_scheme) option) \<Rightarrow> boot_state \<Rightarrow> (u32 \<times> boot_state) option" where
  "with_mods f s = map_option (\<lambda>(r, t). (r, (mod_state.more t)\<lparr>boot_mods := mod_state.truncate t, klog_calls := klog_calls t\<rparr>))
     (f (mod_state.extend ((boot_mods s)\<lparr>klog_calls := klog_calls s\<rparr>) s))"

subsection \<open>The sequence\<close>

text \<open>\<open>clts\<close> clears the task switched flag, bit 3; what \<open>fninit\<close> does to the registers of the unit is left out.\<close>

definition fpu_init :: "boot_state \<Rightarrow> boot_state" where
  "fpu_init s = s\<lparr>cr0 := ((cr0 s AND NOT 8) AND NOT (push_bit 2 1)) OR push_bit 1 1, cr4 := cr4 s OR push_bit 9 3\<rparr>"

definition boot_machine :: "boot_env \<Rightarrow> boot_state \<Rightarrow> boot_state option" where
  "boot_machine env s = do {
     s1 \<leftarrow> with_ints (\<lambda>t. timer_init 50 (idt_init (be_isr env) (be_irq env) (gdt_init (be_tss env) t))) s;
     let s2 = fpu_init s1;
     vm \<leftarrow> mem_init pgdir_fuel (be_mmaps env) (be_modules env) (be_kernel_end env) (be_mmap_addr env) (be_mmap_length env)
       (mods_addr (be_mbi env)) (mods_count (be_mbi env)) (kernel_vm s2);
     with_ints (sched_init (be_exc env) (be_sched env)) (s2\<lparr>kernel_vm := vm\<rparr>)
   }"

text \<open>\<open>if (r < 0) panic (msg)\<close> behind each call: \<open>Some msg\<close> when the sequence ends there.\<close>

definition must ::
  "string \<Rightarrow> ('s \<Rightarrow> (u32 \<times> 's) option) \<Rightarrow> ('s \<Rightarrow> (string option \<times> 's) option) \<Rightarrow> 's \<Rightarrow> (string option \<times> 's) option" where
  "must msg f g s = (case f s of None \<Rightarrow> None | Some (r, t) \<Rightarrow> if sint r < 0 then Some (Some msg, t) else g t)"

definition boot_tables :: "boot_env \<Rightarrow> boot_state \<Rightarrow> (string option \<times> boot_state) option" where
  "boot_tables env =
     must ''Failed to create devices for multiboot modules''
       (mbi_modules_init (be_dev_block env) (be_mbmod_opts env) (be_name_garbage env) (be_mbi env) (be_modules env)) (
     must ''Failed to initialize procfs'' (\<lambda>s. procfs_init s (be_procfs_block env) (be_procfs_opts env)) (
     must ''Failed to initialize initrd'' (\<lambda>s. initrd_init s (be_initrd_block env) (be_initrd_opts env)) (
     must ''Failed to load kernel modules'' (with_mods (modules_init (be_call env) (be_mods_start env) (be_mods_stop env))) (
     must ''Failed to load kernel modules'' (\<lambda>s. Some (devfs_init, s)) (\<lambda>s. Some (None, s))))))"

definition boot_mount :: "boot_env \<Rightarrow> boot_state \<Rightarrow> (string option \<times> boot_state) option" where
  "boot_mount env s = (let s1 = printk_s (KLOG_NOTICE @ ''mounting initrd'' @ [CHR 0x0A]) [] s in do {
     device \<leftarrow> device_fromname s1 ''mbmod00'';
     if device = 0 then Some (Some ''No initrd device was attached'', s1)
     else do {
       devi \<leftarrow> device_indexof s1 device;
       if devi = - 1 then Some (Some ''Failed to find the index of the initrd device'', s1)
       else do {
         (initrd, s2) \<leftarrow> devfs_get s1 (be_node_block env) (be_node_garbage env) (be_cache_block env) devi;
         if initrd = 0 then Some (Some ''Failed to get devfs initrd device node'', s2)
         else do {
           fs \<leftarrow> fs_fromname s2 ''initrd'';
           if fs = 0 then Some (Some ''Failed to find fs: initrd'', s2)
           else must ''Failed to mount initrd''
             (\<lambda>t. mountpoint_create_fromnode (be_drivers env) t (be_mp_block env) (be_mp_garbage env) fs initrd ''/'' 0 0)
             (\<lambda>t. Some (None, printk_s (KLOG_INFO @ ''mounted initrd'' @ [CHR 0x0A]) [] t)) s2
         }
       }
     }
   })"

text \<open>\<open>be_init\<close> is the address of the literal "/init"; the arguments are \<open>(const char**){ NULL }\<close>, a null pointer.\<close>

definition boot_init :: "boot_env \<Rightarrow> boot_state \<Rightarrow> (string option \<times> boot_state) option" where
  "boot_init env = must ''Failed to execute init program''
     (\<lambda>s. proc_exec (be_kfree env) (be_drivers env) (be_bufs env) (be_vars env) (be_proc_block env) s (be_init env) 0)
     (\<lambda>s. Some (None, s))"

text \<open>The stages of the sequence, up to the first that ends in a panic.\<close>

definition and_then ::
  "('s \<Rightarrow> (string option \<times> 's) option) \<Rightarrow> ('s \<Rightarrow> (string option \<times> 's) option) \<Rightarrow> 's \<Rightarrow> (string option \<times> 's) option" where
  "and_then f g s = (case f s of None \<Rightarrow> None | Some (None, t) \<Rightarrow> g t | Some (Some msg, t) \<Rightarrow> Some (Some msg, t))"

definition bootstrap_main :: "boot_env \<Rightarrow> u32 \<Rightarrow> boot_state \<Rightarrow> (boot_end \<times> boot_state) option" where
  "bootstrap_main env magic s = do {
     now \<leftarrow> time (be_status env) (be_cmos env);
     let s0 = s\<lparr>boot_time := now\<rparr>;
     if magic \<noteq> MULTIBOOT_BOOTLOADER_MAGIC then Some (panic ''Multiboot magic check failed!'' s0)
     else do {
       s1 \<leftarrow> boot_machine env s0;
       (r, s2) \<leftarrow> and_then (boot_tables env) (and_then (boot_mount env) (boot_init env)) s1;
       Some (case r of Some msg \<Rightarrow> panic msg s2 | None \<Rightarrow> (Idle, s2))
     }
   }"


subsection \<open>Mounting the root\<close>

lemma archive_ok_step:
  assumes "archive_ok e sz n st s" "unat (next_inode s) + n + 2 < 2147483648"
    and "next_inode t = next_inode s + 1" "fs_mem t = fs_mem s" "initrd_nodes t = initrd_nodes s"
  shows "archive_ok e sz n st t"
proof -
  have "unat (next_inode s + 1) = unat (next_inode s) + 1" using assms(2) by (simp add: unat_word_ariths)
  then show ?thesis using assms unfolding archive_ok_def by simp
qed

lemma device_position:
  assumes "device_rep s ds" "(p, d) \<in> set ds" "deref (dev_heap s) p = Some d"
  obtains i where "i < length ds" "ds ! i = (p, d)" "device_indexof s p = Some (of_nat i)" "i < 4294967296" "(of_nat i :: u32) \<noteq> - 1"
proof -
  let ?P = "\<lambda>e. device_name e = device_name d" let ?i = "first_index ?P ds"
  have rep: "slist_rep (dev_heap s) (devices s) ds" using assms(1) by (simp add: device_rep_def)
  have lt: "?i < length ds" by (rule first_index_listed [OF assms(2)]) simp
  obtain j where j: "j < length ds" "ds ! j = (p, d)" using assms(2) by (auto simp: in_set_conv_nth)
  have "distinct (map (device_name \<circ> snd) ds)" using assms(1) by (simp add: device_rep_def)
  moreover have "map (device_name \<circ> snd) ds ! ?i = map (device_name \<circ> snd) ds ! j"
    using first_index_nth [OF lt] lt j by simp
  ultimately have "?i = j" using nth_eq_iff_index_eq [of "map (device_name \<circ> snd) ds" ?i j] lt j(1) by (simp only: length_map)
  then show ?thesis
    using that [of j] j device_indexof_rep [OF assms(1,3)] lt slist_rep_length [OF rep] first_index_neq_minus_1 [OF rep lt] by simp
qed

lemma boot_mounted:
  assumes dev: "device_rep s ds" "(dp, d) \<in> set ds" "device_name d = ''mbmod00''"
    and blk: "blkdev_rep s bs"
    and cache: "liblist_rep (devfs_nodes s) []" "be_node_block env \<noteq> 0" "liblist_fresh (devfs_nodes s) (be_cache_block env)"
    and fs: "fs_rep s fss" "(fp, f) \<in> set fss" "fs_name f = ''initrd''" "op_mount (fs_opts f) = ie_mount e"
    and mp: "mp_rep s xs" "be_mp_block env \<noteq> 0" "mp_heap s (be_mp_block env) = None"
    and env: "be_drivers env = initrd_drivers e base"
    and ok: "archive_ok e (device_size d) n st s" "unat (next_inode s) + n + 2 < 2147483648"
  obtains t where "boot_mount env s = Some (None, t)"
    "\<And>k path. k < n \<Longrightarrow> path_at (fs_mem t) path (CHR ''/'' # st_filename (st k)) \<Longrightarrow>
      fs_resolve (be_drivers env) t path = Some (0, Some (mb_file (ie_blocks e (of_nat k))), t)"
proof -
  let ?s = "printk_s (KLOG_NOTICE @ ''mounting initrd'' @ [CHR 0x0A]) [] s"
  have rep: "slist_rep (dev_heap s) (devices s) ds" using dev(1) by (simp add: device_rep_def)
  have d: "deref (dev_heap s) dp = Some d" by (rule slist_rep_deref [OF rep dev(2)])
  have dp: "dp \<noteq> 0" using slist_rep_nonzero [OF rep] dev(2) by force
  have dev': "device_rep ?s ds" "deref (dev_heap ?s) dp = Some d" using dev(1) d by (simp_all add: printk_s_def)
  obtain i where i: "i < length ds" "ds ! i = (dp, d)" "device_indexof ?s dp = Some (of_nat i)" "i < 4294967296" "(of_nat i :: u32) \<noteq> - 1"
    by (rule device_position [OF dev'(1) dev(2) dev'(2)])
  have ui: "unat (of_nat i :: u32) = i" using i(4) by (simp add: unat_of_nat_small)
  have name: "device_fromname ?s ''mbmod00'' = Some dp" using dev_names.lookup_listed [OF dev'(1) dev(2)] dev(3) by simp
  have "0 \<le> sint (next_inode ?s)" using ino_nonneg [of "next_inode s" 0] ok(2) by (simp add: printk_s_def)
  moreover have "blkdev_rep ?s bs" using blk by (simp add: printk_s_def blkdev_rep_def)
  ultimately obtain t where t: "devfs_get ?s (be_node_block env) (be_node_garbage env) (be_cache_block env) (of_nat i) = Some (be_node_block env, t)"
    "t = ?s\<lparr>node_heap := node_heap t, next_inode := next_inode t, devfs_nodes := devfs_nodes t\<rparr>" "next_inode t = next_inode ?s + 1"
    "node_heap t (be_node_block env) = Some (device_node (be_node_garbage env) d (named_blkdev bs (device_name d)) (next_inode ?s))"
    using devfs_get_new [of ?s ds bs "[]" "of_nat i" "be_node_block env" "be_cache_block env" "be_node_garbage env"] dev'(1) cache i ui
    by (auto simp: printk_s_def)
  have rest: "mp_rep t xs" "mp_heap t = mp_heap s" "fs_rep t fss" "fs_heap t = fs_heap s" "fs_mem t = fs_mem s" "initrd_nodes t = initrd_nodes s"
      "next_inode t = next_inode s + 1"
    using mp(1) fs(1) t(3) by (subst t(2), simp add: printk_s_def mp_rep_def fs_rep_def)+
  have list: "slist_rep (fs_heap t) (filesystems t) fss" using rest(3) by (simp add: fs_rep_def)
  have fp: "fs_fromname t ''initrd'' = Some fp" "deref (fs_heap t) fp = Some f"
    using fs_names.lookup_listed [OF rest(3) fs(2)] fs(3) slist_rep_deref [OF list fs(2)] by simp_all
  have fp0: "fp \<noteq> 0" using fs_rep_nonzero [OF rest(3)] fs(2) by force
  have "archive_ok e (device_size d) n st t" by (rule archive_ok_step [OF ok rest(7,5,6)])
  moreover have "node_size (device_node (be_node_garbage env) d (named_blkdev bs (device_name d)) (next_inode ?s)) = device_size d"
    by (simp add: device_node_def Let_def)
  ultimately have arch: "archive_ok e (node_size (device_node (be_node_garbage env) d (named_blkdev bs (device_name d)) (next_inode ?s))) n st t"
    by simp
  have mp': "mp_heap t (be_mp_block env) = None" using mp(3) rest(2) by simp
  obtain u where u: "mountpoint_create_fromnode (be_drivers env) t (be_mp_block env) (be_mp_garbage env) fp (be_node_block env) ''/'' 0 0 = Some (0, u)"
    "\<And>k path c. k < n \<Longrightarrow> path_at (fs_mem u) path (CHR ''/'' # st_filename (st k)) \<Longrightarrow>
      fs_resolve (be_drivers env) (u\<lparr>klog_calls := c\<rparr>) path = Some (0, Some (mb_file (ie_blocks e (of_nat k))), u\<lparr>klog_calls := c\<rparr>)"
    unfolding env using archive_resolves [OF fp0 fp(2) fs(4) rest(1) mp(2) mp' t(4) arch, of base "be_mp_garbage env" 0] by blast
  have "boot_mount env s = Some (None, printk_s (KLOG_INFO @ ''mounted initrd'' @ [CHR 0x0A]) [] u)"
    using name dp i(3,5) t(1) cache(2) fp(1) fp0 u(1) by (simp add: boot_mount_def must_def Let_def)
  then show ?thesis by (rule that) (simp add: printk_s_def u(2))
qed


subsection \<open>Filling the tables\<close>

lemma register_fs_frame:
  "register_fs s p name typ opts = Some (r, t) \<Longrightarrow>
   t = s\<lparr>fs_heap := fs_heap t, filesystems := filesystems t, filesystem_count := filesystem_count t\<rparr>"
  by (auto simp: register_fs_def bind_eq_Some_conv split: if_splits)

lemma register_fs_other: "register_fs s p name typ opts = Some (r, t) \<Longrightarrow> q \<noteq> p \<Longrightarrow> fs_heap t q = fs_heap s q"
  by (auto simp: register_fs_def SLIST_INSERT_HEAD_def SLIST_SET_NEXT_def bind_eq_Some_conv split: if_splits)

lemma register_fs_free:
  assumes "fs_rep s xs" "fs_fresh s p" "length name < NAME_MAX" "name \<notin> fs_name ` snd ` set xs"
  obtains t where "register_fs s p name typ opts = Some (0, t)" "fs_rep t ((p, \<lparr>fs_name = name, fs_opts = opts, fs_type = typ\<rparr>) # xs)"
    "t = s\<lparr>fs_heap := fs_heap t, filesystems := filesystems t, filesystem_count := filesystem_count t\<rparr>"
proof -
  let ?f = "\<lparr>fs_name = name, fs_opts = opts, fs_type = typ\<rparr>"
  obtain t where t: "register_fs_entry s p ?f = Some (0, t)" "fs_rep t ((p, ?f) # xs)"
    using register_fs_new [OF assms(1), of ?f p] assms(2-4) by (auto simp: fs_adm_def)
  have r: "register_fs s p name typ opts = Some (0, t)" using t(1) by (simp add: register_fs_entry_def)
  show ?thesis by (rule that [OF r t(2) register_fs_frame [OF r]])
qed

lemma no_modules:
  assumes "be_mods_start env = be_mods_stop env" "modules_installed (boot_mods s) = 0"
  shows "\<exists>m c. with_mods (modules_init (be_call env) (be_mods_start env) (be_mods_stop env)) s =
    Some (0, s\<lparr>boot_mods := m, klog_calls := c\<rparr>)"
  using assms
  by (simp add: with_mods_def modules_init_def section_modules_def printk_s_def mod_state.defs init_all.simps) (intro exI, rule refl)

lemma one_boot_module:
  assumes dev: "device_rep s []" "dev_fresh s (be_dev_block env s)" "length (be_name_garbage env) = 8"
    and mbi: "mods_count (be_mbi env) = 1" "be_modules env (mods_addr (be_mbi env)) = Some md"
  obtains t where
    "mbi_modules_init (be_dev_block env) (be_mbmod_opts env) (be_name_garbage env) (be_mbi env) (be_modules env) s = Some (0, t)"
    "device_rep t [(be_dev_block env s, mb_device (be_mbmod_opts env) (\<lambda>k. md) 0)]"
    "t = s\<lparr>dev_heap := dev_heap t, devices := devices t, dev_count := dev_count t\<rparr>"
proof -
  let ?p = "be_dev_block env s"
  let ?name = "''mbmod'' @ [digit_char 0, CHR ''0'']"
  note new = register_device_new [OF dev(1) _ dev(2), where name = ?name and dev = "MKDEV DEVMAJ_MBMOD 0" and opts = "be_mbmod_opts env" and
      sz = "mod_end md - mod_start md"]
  have name: "mb_name (be_name_garbage env) 0 = Some ?name" using mb_name_small [OF dev(3), of 0] by simp
  let ?d = "mb_device (be_mbmod_opts env) (\<lambda>k. md) 0"
  let ?t = "s\<lparr>dev_heap := (dev_heap s)(?p \<mapsto> Cell ?d (devices s)), devices := ?p, dev_count := dev_count s + 1\<rparr>"
  have "mbi_modules_init (be_dev_block env) (be_mbmod_opts env) (be_name_garbage env) (be_mbi env) (be_modules env) s = Some (0, ?t)"
    using new(1) name mbi by (simp add: mbi_modules_init_def mb_register_def mb_device_def upto_u32_def NAME_MAX_def)
  moreover have "device_rep ?t [(?p, ?d)]" using new(2) by (simp add: mb_device_def NAME_MAX_def)
  moreover have "?t = s\<lparr>dev_heap := dev_heap ?t, devices := devices ?t, dev_count := dev_count ?t\<rparr>" by simp
  ultimately show ?thesis by (rule that)
qed

text \<open>The parts of the state that filling the tables leaves alone and mounting relies on.\<close>

definition same_nodes :: "boot_state \<Rightarrow> boot_state \<Rightarrow> bool" where
  "same_nodes s t \<longleftrightarrow> fs_mem t = fs_mem s \<and> next_inode t = next_inode s \<and> devfs_nodes t = devfs_nodes s \<and>
     initrd_nodes t = initrd_nodes s \<and> mp_heap t = mp_heap s \<and> mountpoints t = mountpoints s \<and> mp_count t = mp_count s \<and>
     blk_heap t = blk_heap s \<and> block_devices t = block_devices s \<and> block_device_count t = block_device_count s"

lemma boot_tables_filled:
  assumes dev: "device_rep s []" "dev_fresh s (be_dev_block env s)" "length (be_name_garbage env) = 8"
    and mbi: "mods_count (be_mbi env) = 1" "be_modules env (mods_addr (be_mbi env)) = Some md"
    and fs: "fs_rep s []" "fs_fresh s (be_procfs_block env)" "fs_fresh s (be_initrd_block env)" "be_procfs_block env \<noteq> be_initrd_block env"
    and mods: "be_mods_start env = be_mods_stop env" "modules_installed (boot_mods s) = 0"
  obtains t pf where "boot_tables env s = Some (None, t)"
    "device_rep t [(be_dev_block env s, mb_device (be_mbmod_opts env) (\<lambda>k. md) 0)]"
    "fs_rep t [(be_initrd_block env, \<lparr>fs_name = ''initrd'', fs_opts = be_initrd_opts env, fs_type = FS_VIRT\<rparr>), pf]"
    "same_nodes s t"
proof -
  obtain s1 where s1: "mbi_modules_init (be_dev_block env) (be_mbmod_opts env) (be_name_garbage env) (be_mbi env) (be_modules env) s = Some (0, s1)"
    "device_rep s1 [(be_dev_block env s, mb_device (be_mbmod_opts env) (\<lambda>k. md) 0)]"
    "s1 = s\<lparr>dev_heap := dev_heap s1, devices := devices s1, dev_count := dev_count s1\<rparr>"
    by (rule one_boot_module [OF dev mbi])
  have fs1: "fs_rep s1 []" "fs_fresh s1 (be_procfs_block env)" using fs(1,2) by (subst s1(3), simp add: fs_rep_def fs_fresh_def)+
  have len: "length ''procfs'' < NAME_MAX" "length ''initrd'' < NAME_MAX" by (simp_all add: NAME_MAX_def)
  obtain s2 where s2: "register_fs s1 (be_procfs_block env) ''procfs'' FS_PSEUDO (be_procfs_opts env) = Some (0, s2)"
    "fs_rep s2 [(be_procfs_block env, \<lparr>fs_name = ''procfs'', fs_opts = be_procfs_opts env, fs_type = FS_PSEUDO\<rparr>)]"
    "s2 = s1\<lparr>fs_heap := fs_heap s2, filesystems := filesystems s2, filesystem_count := filesystem_count s2\<rparr>"
    by (rule register_fs_free [OF fs1 len(1), of FS_PSEUDO "be_procfs_opts env"]) simp
  have heap1: "fs_heap s1 = fs_heap s" by (subst s1(3)) simp
  have fresh: "fs_fresh s2 (be_initrd_block env)"
    using fs(3,4) register_fs_other [OF s2(1), of "be_initrd_block env"] heap1 by (simp add: fs_fresh_def)
  obtain s3 where s3: "register_fs s2 (be_initrd_block env) ''initrd'' FS_VIRT (be_initrd_opts env) = Some (0, s3)"
    "fs_rep s3 [(be_initrd_block env, \<lparr>fs_name = ''initrd'', fs_opts = be_initrd_opts env, fs_type = FS_VIRT\<rparr>),
      (be_procfs_block env, \<lparr>fs_name = ''procfs'', fs_opts = be_procfs_opts env, fs_type = FS_PSEUDO\<rparr>)]"
    "s3 = s2\<lparr>fs_heap := fs_heap s3, filesystems := filesystems s3, filesystem_count := filesystem_count s3\<rparr>"
    by (rule register_fs_free [OF s2(2) fresh len(2), of FS_VIRT "be_initrd_opts env"]) simp
  have m3: "modules_installed (boot_mods s3) = 0" using mods(2) by (subst s3(3), subst s2(3), subst s1(3)) simp
  obtain m c where mc: "with_mods (modules_init (be_call env) (be_mods_start env) (be_mods_stop env)) s3 = Some (0, s3\<lparr>boot_mods := m, klog_calls := c\<rparr>)"
    using no_modules [OF mods(1) m3] by blast
  let ?t = "s3\<lparr>boot_mods := m, klog_calls := c\<rparr>"
  have "boot_tables env s = Some (None, ?t)"
    using s1(1) s2(1) s3(1) mc by (simp add: boot_tables_def must_def procfs_init_def initrd_init_def devfs_init_def)
  moreover have "device_rep ?t [(be_dev_block env s, mb_device (be_mbmod_opts env) (\<lambda>k. md) 0)]"
    using s1(2) by (subst s3(3), subst s2(3)) (simp add: device_rep_def)
  moreover have "fs_rep ?t [(be_initrd_block env, \<lparr>fs_name = ''initrd'', fs_opts = be_initrd_opts env, fs_type = FS_VIRT\<rparr>),
      (be_procfs_block env, \<lparr>fs_name = ''procfs'', fs_opts = be_procfs_opts env, fs_type = FS_PSEUDO\<rparr>)]"
    using s3(2) by (auto simp: fs_rep_def)
  moreover have "same_nodes s ?t"
  proof -
    have "same_nodes s s1" by (rule subst [OF s1(3) [symmetric]]) (simp add: same_nodes_def)
    moreover have "same_nodes s1 s2" by (rule subst [OF s2(3) [symmetric]]) (simp add: same_nodes_def)
    moreover have "same_nodes s2 s3" by (rule subst [OF s3(3) [symmetric]]) (simp add: same_nodes_def)
    ultimately show ?thesis by (simp add: same_nodes_def)
  qed
  ultimately show ?thesis
    using that [of ?t] by blast
qed


subsection \<open>Properties\<close>


text \<open>Without a boot module there is no root: \<open>boot_mount\<close> ends in the panic for a missing device, before it has touched
  anything but the log.\<close>

theorem boot_without_module:
  assumes "device_rep s ds" "''mbmod00'' \<notin> device_name ` snd ` set ds"
  shows "boot_mount env s = Some (Some ''No initrd device was attached'', printk_s (KLOG_NOTICE @ ''mounting initrd'' @ [CHR 0x0A]) [] s)"
proof -
  let ?s = "printk_s (KLOG_NOTICE @ ''mounting initrd'' @ [CHR 0x0A]) [] s"
  have "device_rep ?s ds" using assms(1) by (simp add: printk_s_def)
  then have "device_fromname ?s ''mbmod00'' = Some 0" by (rule dev_names.lookup_unlisted) (rule assms(2))
  then show ?thesis by (simp add: boot_mount_def Let_def)
qed


subsection \<open>A machine with one boot module\<close>

definition root_env :: "boot_state initrd_env" where
  "root_env = \<lparr>ie_zip = \<lparr>mz_init = (\<lambda>a n t. Some (True, t)), mz_total_files = (\<lambda>a t. 2),
       mz_file_stat = (\<lambda>a i t. if i < 2 then Some (zip_stat (unat i)) else None),
       mz_extract = (\<lambda>a i t. Some (0x900000, 4, t)), mz_end = (\<lambda>a. Some)\<rparr>,
     ie_blocks = zip_blocks, ie_garbage = ram_device, ie_block = 0x20, ie_list = no_list, ie_root = 0x30,
     ie_pun = (\<lambda>_. 1), ie_slash = 0x500, ie_kfree = (\<lambda>m p. m), ie_mount = 0x70, ie_get_child = 0x71, ie_read = 0x72\<rparr>"

definition pc_env :: boot_env where
  "pc_env = \<lparr>be_drivers = initrd_drivers root_env no_drivers, be_status = (\<lambda>_. 0), be_cmos = (\<lambda>_. 0), be_tss = 0, be_isr = (\<lambda>_. 0),
     be_irq = (\<lambda>_. 0), be_exc = 0, be_sched = 0, be_mmaps = Map.empty,
     be_modules = [0x9000 \<mapsto> \<lparr>mod_start = 0x200000, mod_end = 0x200400, mod_cmdline = 0, mod_pad = 0\<rparr>], be_kernel_end = 0x150000, be_mmap_addr = 0, be_mmap_length = 0,
     be_mbi = \<lparr>mods_count = 1, mods_addr = 0x9000\<rparr>, be_dev_block = (\<lambda>_. 0x600), be_name_garbage = ''????????'',
     be_mbmod_opts = no_opts\<lparr>op_read := 0x74\<rparr>, be_procfs_block = 0x610, be_procfs_opts = \<lparr>op_mount = 0x75, op_umount = 0x76\<rparr>,
     be_initrd_block = 0x620, be_initrd_opts = \<lparr>op_mount = 0x70, op_umount = 0x73\<rparr>, be_call = (\<lambda>_ _. None),
     be_mods_start = 0x8000, be_mods_stop = 0x8000, be_node_block = 0x630, be_node_garbage = ram_device, be_cache_block = 0x640,
     be_mp_block = 0x650, be_mp_garbage = \<lparr>mp_rootnode = 0, mp_fsname = [], mp_source = [], mp_target = [], mp_flags = 0\<rparr>,
     be_kfree = heap_free, be_bufs = (\<lambda>_. 0x5000), be_vars = \<lparr>ev_hdr = 0x1000, ev_argc = 0x1100, ev_prog = 0x1200\<rparr>,
     be_proc_block = 0x4000, be_init = 0x700\<rparr>"

definition pc_state :: boot_state where
  "pc_state = procfs_state.extend (proc_state.extend
     ((table_state [] 0)\<lparr>fs_mem := (\<lambda>a. if a = 0x500 then Some (byte (CHR ''/'')) else Some 0)\<rparr>) (procfs_state.fields no_list))
     (boot_state.fields 0
       \<lparr>klog_calls = [], ports = [], gdt_entries = [], gdt_limit = 0, idt_entries = [], idt_limit = 0, idt_handlers = [], irq_handlers = []\<rparr>
       \<lparr>klog_calls = [], mod_heap = Map.empty, loaded_heap = Map.empty, modules_installed = 0, modules_loaded = 0\<rparr> 0 0)"

lemmas pc_simps = pc_state_def table_state_def proc_state.defs procfs_state.defs boot_state.defs

lemma pc_archive: "archive_ok root_env 0x400 2 zip_stat pc_state"
proof -
  have free: "path_free zip_blocks 2 q" if "q = 0x500 \<or> q = 0x501" for q
    using that by (auto simp: path_free_def less_2_cases_iff zip_blocks_def node_path_def PATH_MAX_def)
  have "inj_on (\<lambda>k. st_filename (zip_stat k)) {..<2}" by (auto simp: inj_on_def less_2_cases_iff zip_stat_def)
  moreover have "\<forall>j < (2::nat). 0x20 \<noteq> mb_node (zip_blocks (of_nat j))" by (auto simp: less_2_cases_iff zip_blocks_def)
  moreover have "path_at (fs_mem pc_state) 0x500 ''/''" by (simp add: path_at_def pc_simps)
  moreover have "mount_ok (ie_zip root_env) zip_blocks 0x20 0x30 no_list 2 zip_stat"
    using zip_mount_ok by (simp add: mount_ok_def root_env_def zip_lib_def)
  ultimately show ?thesis
    using no_list_rep free by (simp add: archive_ok_def root_env_def pc_simps mapped_def)
qed


theorem boot_without_module_witness:
  "boot_mount pc_env pc_state = Some (Some ''No initrd device was attached'',
     printk_s (KLOG_NOTICE @ ''mounting initrd'' @ [CHR 0x0A]) [] pc_state)"
  by (rule boot_without_module [where ds = "[]"]) (simp_all add: pc_simps device_rep_def)

end
