(* ===== verification/Ftoa.thy ===== *)
theory Ftoa
  imports Complex_Main Printf "HOL-Library.Signed_Division"
begin

text \<open>
  Floating point in the C library: \<^verbatim>\<open>ftoa\<close> (\<^verbatim>\<open>stdlib/ftoa.c\<close>), \<^verbatim>\<open>pow\<close> and the division helpers of the compiler
  (\<^verbatim>\<open>math/pow.c\<close>, \<^verbatim>\<open>math/arithm.c\<close>).

  A finite number is its rational value. What an operation rounds its exact result to, the argument \<open>rnd\<close>, is the
  machine's choice: single precision, or the longer registers of the x87; \<open>rounding\<close> is what all of them promise.
  Infinities and NaN are left out. A conversion to \<^verbatim>\<open>long long\<close> out of range is undefined: \<open>None\<close>.

  On a 32-bit machine the compiler turns a division of \<^verbatim>\<open>long long\<close> into a call of \<^verbatim>\<open>__divdi3\<close> or \<^verbatim>\<open>__moddi3\<close>, which the
  libraries, linked without the compiler's own, define in \<^verbatim>\<open>arithm.c\<close>. The two functions that divide are arguments of
  the model: \<open>ll_div\<close> and \<open>ll_mod\<close> are division as the language has it, \<open>linked_div\<close> and \<open>linked_mod\<close> what the helpers
  make of it, with the arguments where the calling convention of the 80386 puts them.
\<close>

type_synonym i64 = "64 word"

subsection \<open>Division helpers\<close>

text \<open>The processor faults on a zero divisor and on a quotient out of range.\<close>

definition divdi3 :: "u32 \<Rightarrow> u32 \<Rightarrow> u32 option" where
  "divdi3 a b = (if b = 0 \<or> sint a = - 2147483648 \<and> sint b = - 1 then None else Some (word_of_int (sint a sdiv sint b)))"

definition moddi3 :: "u32 \<Rightarrow> u32 \<Rightarrow> u32 option" where
  "moddi3 a b = (if b = 0 \<or> sint a = - 2147483648 \<and> sint b = - 1 then None else Some (word_of_int (sint a smod sint b)))"

definition ll_div :: "i64 \<Rightarrow> i64 \<Rightarrow> i64 option" where
  "ll_div a b = (if b = 0 then None else Some (word_of_int (sint a sdiv sint b)))"

definition ll_mod :: "i64 \<Rightarrow> i64 \<Rightarrow> i64 option" where
  "ll_mod a b = (if b = 0 then None else Some (word_of_int (sint a smod sint b)))"

text \<open>
  The caller pushes two arguments of eight bytes and the helper takes two of four: both are halves of the dividend.
  Of the result, the low half is the helper's; the high half is whatever the second register of the pair holds.
\<close>

definition linked_div :: "(u32 \<Rightarrow> u32) \<Rightarrow> i64 \<Rightarrow> i64 \<Rightarrow> i64 option" where
  "linked_div edx a b = map_option (\<lambda>q. ucast (edx q) * 4294967296 + ucast q) (divdi3 (ucast a) (ucast (drop_bit 32 a)))"

definition linked_mod :: "(u32 \<Rightarrow> u32) \<Rightarrow> i64 \<Rightarrow> i64 \<Rightarrow> i64 option" where
  "linked_mod edx a b = map_option (\<lambda>q. ucast (edx q) * 4294967296 + ucast q) (moddi3 (ucast a) (ucast (drop_bit 32 a)))"

subsection \<open>Powers\<close>

text \<open>\<open>v\<close> starts as \<open>x\<close>; the exponent is counted down in the type of the base.\<close>

partial_function (option) pow_loop :: "(rat \<Rightarrow> rat) \<Rightarrow> rat \<Rightarrow> rat \<Rightarrow> rat \<Rightarrow> rat option" where
  "pow_loop rnd x y v = (if y > 0 then pow_loop rnd x (rnd (y - 1)) (rnd (v * x)) else Some v)"

definition c_pow :: "(rat \<Rightarrow> rat) \<Rightarrow> rat \<Rightarrow> rat \<Rightarrow> rat option" where
  "c_pow rnd x y = pow_loop rnd x y x"

subsection \<open>ftoa\<close>

fun ntu_loop :: "u32 \<Rightarrow> nat \<Rightarrow> u32 \<Rightarrow> u32" where
  "ntu_loop num 0 res = res"
| "ntu_loop num (Suc count) res = ntu_loop num count (res * num)"

definition ntu :: "u32 \<Rightarrow> u32 \<Rightarrow> u32" where
  "ntu num count = ntu_loop num (nat (sint count)) 1"

definition to_ll :: "rat \<Rightarrow> i64 option" where
  "to_ll x = (let k = (if x < 0 then - \<lfloor>- x\<rfloor> else \<lfloor>x\<rfloor>)
     in if - 9223372036854775808 \<le> k \<and> k < 9223372036854775808 then Some (word_of_int k) else None)"

definition of_ll :: "(rat \<Rightarrow> rat) \<Rightarrow> i64 \<Rightarrow> rat" where
  "of_ll rnd k = rnd (of_int (sint k))"

text \<open>The digits behind the point are counted by moving it to the right until nothing is left behind it.\<close>

partial_function (option) frac_loop :: "(rat \<Rightarrow> rat) \<Rightarrow> rat \<Rightarrow> rat \<Rightarrow> i64 \<Rightarrow> u32 \<Rightarrow> (rat \<times> u32) option" where
  "frac_loop rnd value num2 num len2 =
     (let d = rnd (num2 - of_ll rnd num)
      in if d \<noteq> 0 \<and> \<not> d < 0
         then let num2' = rnd (value * rnd (of_int (sint (ntu 10 (len2 + 1)))))
              in (case to_ll num2' of None \<Rightarrow> None | Some num' \<Rightarrow> frac_loop rnd value num2' num' (len2 + 1))
         else Some (num2, len2))"

partial_function (option) len_loop :: "(rat \<Rightarrow> rat) \<Rightarrow> rat \<Rightarrow> u32 \<Rightarrow> u32 option" where
  "len_loop rnd value len = (if value > 1 then len_loop rnd (rnd (value / 10)) (len + 1) else Some len)"

text \<open>One character is stored per round, from the terminator down to the first; \<open>dv\<close> and \<open>md\<close> divide.\<close>

function digit_loop ::
  "(i64 \<Rightarrow> i64 \<Rightarrow> i64 option) \<Rightarrow> (i64 \<Rightarrow> i64 \<Rightarrow> i64 option) \<Rightarrow> bool \<Rightarrow> nat \<Rightarrow> nat \<Rightarrow> int \<Rightarrow> i64 \<Rightarrow> nat \<Rightarrow> string \<Rightarrow>
   (nat \<times> string) option" where
  "digit_loop dv md neg len pos i num wl ptr =
     (if i < 0 then Some (wl, ptr)
      else if nat i = len then Option.bind (put ptr (nat i) CHR 0x00) (digit_loop dv md neg len pos (i - 1) num (Suc wl))
      else if nat i = pos then Option.bind (put ptr (nat i) CHR ''.'') (digit_loop dv md neg len pos (i - 1) num (Suc wl))
      else if neg \<and> i = 0 then Option.bind (put ptr (nat i) CHR ''-'') (digit_loop dv md neg len pos (i - 1) num (Suc wl))
      else Option.bind (md num 10) (\<lambda>r.
        Option.bind (put ptr (nat i) (char_of (nat (uint (r + 48))))) (\<lambda>ptr'.
          Option.bind (dv num 10) (\<lambda>num'. digit_loop dv md neg len pos (i - 1) num' (Suc wl) ptr'))))"
  by pat_completeness auto

termination
  by (relation "measure (\<lambda>(dv, md, neg, len, pos, i, num, wl, ptr). nat (i + 1))") auto

declare digit_loop.simps [simp del]

text \<open>The index of the last loop is a signed byte.\<close>

definition ftoa ::
  "(rat \<Rightarrow> rat) \<Rightarrow> (i64 \<Rightarrow> i64 \<Rightarrow> i64 option) \<Rightarrow> (i64 \<Rightarrow> i64 \<Rightarrow> i64 option) \<Rightarrow> rat \<Rightarrow> string option \<Rightarrow> (nat \<times> string option) option" where
  "ftoa rnd dv md value0 ptr = (case ptr of
      None \<Rightarrow> Some (0, None)
    | Some buf \<Rightarrow> do {
        let neg = (value0 < 0);
        let value = (if neg then - value0 else value0);
        num \<leftarrow> to_ll value;
        (num2, len2) \<leftarrow> frac_loop rnd value value num 0;
        len \<leftarrow> len_loop rnd value (if value > 1 then 0 else 1);
        let pos = (if neg then len + 1 else len);
        let len' = (if neg then len + 1 + len2 + 1 else len + 1 + len2);
        num' \<leftarrow> to_ll num2;
        (wl, out) \<leftarrow> digit_loop dv md neg (unat len') (unat pos) (sint (ucast len' :: u8)) num' 0 buf;
        Some (wl, Some out)
      })"

subsection \<open>Rounding\<close>

text \<open>
  What the formats share: a larger number is not rounded to a smaller one, whole numbers up to \<open>2\<^sup>2\<^sup>4\<close> are exact, and from one
  upwards the result falls short by at most one part in \<open>2\<^sup>2\<^sup>3\<close>.
\<close>

definition rounding :: "(rat \<Rightarrow> rat) \<Rightarrow> bool" where
  "rounding rnd \<longleftrightarrow> (\<forall>x y. x \<le> y \<longrightarrow> rnd x \<le> rnd y) \<and> (\<forall>k. \<bar>k\<bar> \<le> 16777216 \<longrightarrow> rnd (of_int k) = of_int k) \<and>
     (\<forall>x. 1 \<le> x \<longrightarrow> x - x / 8388608 \<le> rnd x)"

lemma rounding_nat: "rounding rnd \<Longrightarrow> n \<le> 16777216 \<Longrightarrow> rnd (of_nat n) = of_nat n"
  unfolding rounding_def using of_int_of_nat_eq [where 'a = rat, of n] by (metis abs_of_nat of_nat_le_iff of_nat_numeral)

lemma rounding_0 [simp]: "rounding rnd \<Longrightarrow> rnd 0 = 0"
  using rounding_nat [of rnd 0] by simp

lemma ten_powers: "k \<le> 7 \<Longrightarrow> (10 :: nat) ^ k \<le> 10000000"
  using power_increasing [of k 7 "10 :: nat"] by simp

lemma rounding_power: "rounding rnd \<Longrightarrow> k \<le> 7 \<Longrightarrow> rnd (10 ^ k) = 10 ^ k"
  using rounding_nat [of rnd "10 ^ k"] ten_powers [of k] by simp

lemma to_ll_nat: "n < 9223372036854775808 \<Longrightarrow> to_ll (of_nat n) = Some (of_nat n)"
  by (simp add: to_ll_def Let_def)

lemma sint_nat64: "n < 9223372036854775808 \<Longrightarrow> sint (of_nat n :: i64) = int n"
proof -
  assume n: "n < 9223372036854775808"
  then have "uint (of_nat n :: i64) = int n" by (simp add: uint_nat unat_of_nat take_bit_nat_eq_self)
  then show ?thesis using n by (simp add: sint_uint signed_take_bit_int_eq_self)
qed

subsection \<open>The number of digits\<close>

text \<open>How far below the exact quotient the value can be after \<open>j\<close> divisions, and why it has not passed one too early.\<close>

lemma quotient_above_one:
  assumes "10 ^ k < n" "j \<le> k" "k \<le> 6"
  shows "1 < of_nat n / 10 ^ j * (1 - of_nat j / (8388608 :: rat))"
proof -
  have n: "10 ^ k + 1 \<le> (of_nat n :: rat)" using assms(1) by (metis Suc_leI add.commute of_nat_Suc of_nat_le_iff of_nat_numeral of_nat_power)
  have t: "(10 :: rat) ^ k \<le> 1000000" using power_increasing [of k 6 "10 :: rat"] assms(3) by simp
  have "(10 :: rat) ^ j \<le> 10 ^ k" using assms(2) by (simp add: power_increasing)
  then have "of_nat n / 10 ^ k \<le> (of_nat n :: rat) / 10 ^ j" by (simp add: frac_le)
  moreover have "1 + 1 / 1000000 \<le> (of_nat n :: rat) / 10 ^ k"
  proof -
    have "(1 + 1 / 1000000) * (10 :: rat) ^ k \<le> of_nat n" using n t by (simp add: algebra_simps)
    then show ?thesis by (simp add: pos_le_divide_eq)
  qed
  ultimately have q: "1 + 1 / 1000000 \<le> (of_nat n :: rat) / 10 ^ j" by linarith
  have "of_nat j \<le> (6 :: rat)" using assms(2,3) by simp
  then have "1 - 6 / 8388608 \<le> 1 - of_nat j / (8388608 :: rat)" by simp
  then have "(1 + 1 / 1000000) * (1 - 6 / 8388608) \<le> of_nat n / 10 ^ j * (1 - of_nat j / (8388608 :: rat))"
    using q by (intro mult_mono) simp_all
  moreover have "1 < (1 + 1 / 1000000) * (1 - 6 / (8388608 :: rat))" by simp
  ultimately show ?thesis by (rule less_le_trans [rotated])
qed

lemma quotient_step:
  assumes rnd: "rounding rnd" and v: "of_nat n / 10 ^ j * (1 - of_nat j / 8388608) \<le> v"
    and one: "1 \<le> v / 10"
  shows "of_nat n / 10 ^ Suc j * (1 - of_nat (Suc j) / 8388608) \<le> rnd (v / 10)"
proof -
  let ?q = "of_nat n / 10 ^ Suc j :: rat" and ?e = "1 / 8388608 :: rat"
  have shrink: "1 - of_nat (Suc j) * e \<le> (1 - of_nat j * e) * (1 - e)" for e :: rat
    using mult_nonneg_nonneg [OF zero_le_square [of e], of "of_nat j"] by (simp add: algebra_simps)
  have v10: "?q * (1 - of_nat j * ?e) \<le> v / 10" using v by simp
  have "?q * (1 - of_nat (Suc j) * ?e) \<le> ?q * (1 - of_nat j * ?e) * (1 - ?e)"
    unfolding mult.assoc by (rule mult_left_mono [OF shrink]) simp_all
  also have "\<dots> \<le> v / 10 * (1 - ?e)" using v10 by (intro mult_right_mono) simp_all
  also have "\<dots> = v / 10 - v / 10 / 8388608" by (simp add: right_diff_distrib)
  also have "\<dots> \<le> rnd (v / 10)" using rnd one unfolding rounding_def by blast
  finally show ?thesis by simp
qed

lemma len_loop_counts:
  assumes rnd: "rounding rnd" and n: "10 ^ k < n" "k \<le> 6"
  shows "j + m = Suc k \<Longrightarrow> (0 < m \<Longrightarrow> of_nat n / 10 ^ j * (1 - of_nat j / 8388608) \<le> v) \<Longrightarrow> v \<le> 10 ^ m \<Longrightarrow>
    len_loop rnd v l = Some (l + of_nat m)"
proof (induction m arbitrary: j v l)
  case 0
  then show ?case by (subst len_loop.simps) simp
next
  case (Suc m)
  then have j: "j \<le> k" and lo: "of_nat n / 10 ^ j * (1 - of_nat j / 8388608) \<le> v" by simp_all
  have v: "1 < v" using quotient_above_one [OF n(1) j n(2)] lo by linarith
  have "rnd (v / 10) \<le> rnd (10 ^ m)" using rnd Suc.prems(3) by (simp add: rounding_def)
  then have up: "rnd (v / 10) \<le> 10 ^ m" using rounding_power [OF rnd, of m] Suc.prems(1) n(2) by simp
  have "of_nat n / 10 ^ Suc j * (1 - of_nat (Suc j) / 8388608) \<le> rnd (v / 10)" if m: "0 < m"
  proof (rule quotient_step [OF rnd lo])
    have "1 < of_nat n / 10 ^ Suc j * (1 - of_nat (Suc j) / (8388608 :: rat))"
      by (rule quotient_above_one [OF n(1) _ n(2)]) (use Suc.prems(1) m in simp)
    also have "\<dots> \<le> of_nat n / 10 ^ Suc j * (1 - of_nat j / (8388608 :: rat))"
      by (intro mult_left_mono) simp_all
    also have "\<dots> \<le> v / 10" using lo by simp
    finally show "1 \<le> v / 10" by simp
  qed
  then have "len_loop rnd (rnd (v / 10)) (l + 1) = Some (l + 1 + of_nat m)"
    using Suc.IH [of "Suc j"] Suc.prems(1) up by simp
  then show ?case using v by (subst len_loop.simps) (simp add: ac_simps)
qed

lemma len_loop_whole:
  assumes "rounding rnd" "10 ^ k < n" "n \<le> 10 ^ Suc k" "k \<le> 6"
  shows "len_loop rnd (of_nat n) 0 = Some (of_nat (Suc k))"
proof -
  have "(of_nat n :: rat) \<le> 10 ^ Suc k" using assms(3) by (metis of_nat_le_iff of_nat_numeral of_nat_power)
  then show ?thesis using len_loop_counts [OF assms(1,2,4), of 0 "Suc k" "of_nat n" 0] by simp
qed

subsection \<open>The digits\<close>

fun low_digits :: "nat \<Rightarrow> nat \<Rightarrow> string" where
  "low_digits 0 n = []"
| "low_digits (Suc k) n = low_digits k (n div 10) @ [digit_char (n mod 10)]"

lemma length_low_digits [simp]: "length (low_digits k n) = k"
  by (induction k arbitrary: n) simp_all

lemma low_digits_top: "low_digits (Suc k) n = digit_char (n div 10 ^ k mod 10) # low_digits k n"
  by (induction k arbitrary: n) (simp_all add: div_mult2_eq)

lemma low_digits_dec: "10 ^ k \<le> n \<Longrightarrow> n < 10 ^ Suc k \<Longrightarrow> low_digits (Suc k) n = dec_digits n"
proof (induction k arbitrary: n)
  case 0
  then show ?case by (subst dec_digits.simps) simp
next
  case (Suc k)
  have "10 ^ k \<le> n div 10" "n div 10 < 10 ^ Suc k" using Suc.prems by (simp_all add: less_mult_imp_div_less)
  then have "low_digits (Suc k) (n div 10) = dec_digits (n div 10)" by (rule Suc.IH)
  moreover have "10 \<le> n"
  proof -
    have "(1 :: nat) \<le> 10 ^ k" by simp
    then show ?thesis using Suc.prems(1) unfolding power_Suc by linarith
  qed
  ultimately show ?case by (subst dec_digits.simps) (simp add: Let_def)
qed

text \<open>The digits of a whole number, as \<open>ftoa\<close> prints them: those of a power of ten without the leading one.\<close>

definition whole_digits :: "nat \<Rightarrow> string" where
  "whole_digits n = (if n \<in> {10, 100, 1000, 10000, 100000, 1000000, 10000000} then tl (dec_digits n) else dec_digits n)"

definition whole_length :: "nat \<Rightarrow> nat" where
  "whole_length n = (if n \<le> 1 then 1 else Suc (LEAST k. n \<le> 10 ^ Suc k))"

lemma whole_length_bounds:
  assumes "1 < n" "n \<le> 10000000"
  obtains k where "whole_length n = Suc k" "10 ^ k < n" "n \<le> 10 ^ Suc k" "k \<le> 6"
proof -
  let ?k = "LEAST k. n \<le> 10 ^ Suc k"
  have six: "n \<le> 10 ^ Suc 6" using assms(2) by simp
  then have "n \<le> 10 ^ Suc ?k" "?k \<le> 6" by (rule LeastI, rule Least_le)
  moreover have "10 ^ ?k < n"
  proof (cases ?k)
    case 0
    then show ?thesis using assms(1) by simp
  next
    case (Suc j)
    then have "\<not> n \<le> 10 ^ Suc j" using not_less_Least [of j "\<lambda>k. n \<le> 10 ^ Suc k"] by simp
    then show ?thesis unfolding Suc by simp
  qed
  moreover have "whole_length n = Suc ?k" using assms(1) by (simp add: whole_length_def)
  ultimately show ?thesis using that by blast
qed

lemma power_of_ten: "k \<le> 6 \<Longrightarrow> (10 :: nat) ^ Suc k \<in> {10, 100, 1000, 10000, 100000, 1000000, 10000000}"
proof -
  assume "k \<le> 6"
  then consider "k = 0" | "k = 1" | "k = 2" | "k = 3" | "k = 4" | "k = 5" | "k = 6" by linarith
  then show ?thesis by cases simp_all
qed

lemma not_power_of_ten:
  assumes "10 ^ k < n" "n < (10 :: nat) ^ Suc k"
  shows "n \<notin> {10, 100, 1000, 10000, 100000, 1000000, 10000000}"
proof -
  have "n \<noteq> 10 ^ j" for j
  proof
    assume "n = 10 ^ j"
    then show False using assms power_less_imp_less_exp [of "10 :: nat" k j] power_less_imp_less_exp [of "10 :: nat" j "Suc k"] by simp
  qed
  from this [of 1] this [of 2] this [of 3] this [of 4] this [of 5] this [of 6] this [of 7] show ?thesis by simp
qed

lemma low_digits_whole: "n \<le> 10000000 \<Longrightarrow> low_digits (whole_length n) n = whole_digits n"
proof (cases "n \<le> 1")
  case True
  then have "n = 0 \<or> n = 1" by auto
  moreover have "dec_digits 0 = [digit_char 0]" "dec_digits 1 = [digit_char 1]" by (subst dec_digits.simps, simp)+
  ultimately show ?thesis by (auto simp: whole_length_def whole_digits_def)
next
  case False
  assume "n \<le> 10000000"
  then obtain k where k: "whole_length n = Suc k" "10 ^ k < n" "n \<le> 10 ^ Suc k" "k \<le> 6"
    using whole_length_bounds [of n] False by (metis not_le_imp_less)
  show ?thesis
  proof (cases "n = 10 ^ Suc k")
    case True
    have "low_digits (Suc (Suc k)) n = dec_digits n" by (rule low_digits_dec) (simp_all add: True)
    then have "low_digits (Suc k) n = tl (dec_digits n)" by (metis low_digits_top list.sel(3))
    then show ?thesis using power_of_ten [OF k(4)] True k(1) by (simp add: whole_digits_def)
  next
    case False
    then have "n < 10 ^ Suc k" using k(3) by simp
    then show ?thesis using low_digits_dec [of k n] k(1,2) not_power_of_ten [OF k(2)] by (simp add: whole_digits_def)
  qed
qed

lemma sdiv_ten: "int n sdiv 10 = int (n div 10)" "int n smod 10 = int (n mod 10)"
  by (simp_all add: signed_divide_int_def signed_modulo_int_def sgn_if zdiv_int minus_div_mult_eq_mod [symmetric] of_nat_mod of_nat_div)

lemma ll_ten:
  assumes "n < 9223372036854775808"
  shows "ll_div (of_nat n) 10 = Some (of_nat (n div 10))" "ll_mod (of_nat n) 10 = Some (of_nat (n mod 10))"
  using sint_nat64 [OF assms] by (simp_all add: ll_div_def ll_mod_def sdiv_ten)

lemma digit_stored: "d < 10 \<Longrightarrow> char_of (nat (uint ((of_nat d :: i64) + 48))) = digit_char d"
proof -
  assume "d < 10"
  have "(of_nat d :: i64) + 48 = of_nat (d + 48)" by simp
  moreover have "uint (of_nat (d + 48) :: i64) = int (d + 48)"
    using \<open>d < 10\<close> by (simp only: uint_nat unat_of_nat) (simp add: take_bit_nat_eq_self)
  ultimately have "uint ((of_nat d :: i64) + 48) = int d + 48" by simp
  then show ?thesis by (simp add: digit_char_def nat_add_distrib)
qed

text \<open>The first two rounds store the terminator and the point.\<close>

lemma digit_loop_end:
  "digit_loop dv md neg (Suc p) p (int (Suc p)) num wl ptr =
    Option.bind (put ptr (Suc p) CHR 0x00) (digit_loop dv md neg (Suc p) p (int p) num (Suc wl))"
proof -
  have "int (Suc p) - 1 = int p" "\<not> int (Suc p) < 0" by simp_all
  then show ?thesis by (subst digit_loop.simps) (simp only: nat_int if_True if_False refl)
qed

lemma digit_loop_point:
  "digit_loop dv md neg (Suc p) p (int p) num wl ptr =
    Option.bind (put ptr p CHR ''.'') (digit_loop dv md neg (Suc p) p (int p - 1) num (Suc wl))"
  by (subst digit_loop.simps) simp

lemma digits_down:
  fixes neg :: bool
  defines "s \<equiv> if neg then 1 else 0"
  assumes "pos < len"
  shows "n < 9223372036854775808 \<Longrightarrow> s + k \<le> length ptr \<Longrightarrow> s + k \<le> pos \<Longrightarrow>
    digit_loop ll_div ll_mod neg len pos (int (s + k) - 1) (of_nat n) wl ptr =
      Some (wl + k + s, (if neg then ''-'' else []) @ low_digits k n @ drop (s + k) ptr)"
proof (induction k arbitrary: n wl ptr)
  case 0
  show ?case
  proof (cases neg)
    case True
    then have "ptr \<noteq> []" "0 < pos" "0 < len" using 0 assms by (auto simp: s_def)
    then show ?thesis using True
      by (subst digit_loop.simps, simp add: s_def put_def digit_loop.simps [of _ _ _ _ _ "- 1"]) (cases ptr; simp)
  next
    case False
    then show ?thesis by (subst digit_loop.simps) (simp add: s_def)
  qed
next
  case (Suc k)
  let ?i = "s + k" and ?c = "digit_char (n mod 10)"
  have i: "\<not> int ?i < 0" "nat (int ?i) = ?i" "?i \<noteq> len" "?i \<noteq> pos" "\<not> (neg \<and> int ?i = 0)" "?i < length ptr"
    using Suc.prems assms by (simp_all add: s_def)
  have "digit_loop ll_div ll_mod neg len pos (int ?i) (of_nat n) wl ptr =
      digit_loop ll_div ll_mod neg len pos (int ?i - 1) (of_nat (n div 10)) (Suc wl) (ptr[?i := ?c])"
    using i ll_ten [OF Suc.prems(1)] digit_stored [of "n mod 10"] by (subst digit_loop.simps, cases neg) (simp_all add: put_def)
  also have "\<dots> = Some (Suc wl + k + s, (if neg then ''-'' else []) @ low_digits k (n div 10) @ drop ?i (ptr[?i := ?c]))"
    using Suc.prems by (intro Suc.IH) simp_all
  also have "drop ?i (ptr[?i := ?c]) = ?c # drop (Suc ?i) ptr"
    using i(6) by (simp add: drop_update_swap Cons_nth_drop_Suc [symmetric])
  finally show ?case by simp
qed

subsection \<open>Whole numbers\<close>

text \<open>What the loops leave for a whole number: no digits behind the point, and the length of \<open>whole_length\<close> before it.\<close>

lemma frac_loop_whole:
  assumes "rounding rnd" "n \<le> 16777216"
  shows "frac_loop rnd value (of_nat n) (of_nat n) len2 = Some (of_nat n, len2)"
proof -
  have "of_ll rnd (of_nat n) = of_nat n" using assms sint_nat64 [of n] rounding_nat [of rnd n] by (simp add: of_ll_def)
  then show ?thesis using assms(1) by (subst frac_loop.simps) (simp add: Let_def)
qed

lemma len_whole:
  assumes "rounding rnd" "n \<le> 10000000"
  shows "len_loop rnd (of_nat n) (if of_nat n > (1 :: rat) then 0 else 1) = Some (of_nat (whole_length n))"
proof (cases "n \<le> 1")
  case True
  then have "\<not> (1 :: rat) < of_nat n" by (metis not_le of_nat_1 of_nat_le_iff)
  then show ?thesis using True by (subst len_loop.simps) (simp add: whole_length_def)
next
  case False
  then obtain k where k: "whole_length n = Suc k" "10 ^ k < n" "n \<le> 10 ^ Suc k" "k \<le> 6"
    using whole_length_bounds [of n] assms(2) by (metis not_le_imp_less)
  have "(1 :: rat) < of_nat n" using False by simp
  then show ?thesis using len_loop_whole [OF assms(1) k(2-4)] k(1) by simp
qed

lemma whole_length_small: "n \<le> 10000000 \<Longrightarrow> 1 \<le> whole_length n \<and> whole_length n \<le> 7"
  by (cases "n \<le> 1") (simp add: whole_length_def, rule whole_length_bounds [of n], simp_all)

text \<open>All of \<open>ftoa\<close> but the last loop.\<close>

lemma ftoa_whole_loop:
  assumes rnd: "rounding rnd" and n: "n \<le> 10000000" "neg \<Longrightarrow> n \<noteq> 0"
  defines "p \<equiv> whole_length n + (if neg then 1 else 0)"
  shows "ftoa rnd dv md (if neg then - of_nat n else of_nat n) (Some buf) =
    map_option (\<lambda>(wl, out). (wl, Some out)) (digit_loop dv md neg (Suc p) p (int (Suc p)) (of_nat n) 0 buf)"
proof -
  let ?L = "whole_length n" and ?W = "of_nat (whole_length n) :: u32"
  have "?L \<in> set [0..<8]" using whole_length_small [OF n(1)] by auto
  moreover have "\<forall>k \<in> set [0..<8]. unat (of_nat k :: u32) = k \<and> unat (of_nat k + 1 :: u32) = k + 1 \<and> unat (2 + of_nat k :: u32) = k + 2 \<and>
      sint (ucast (of_nat k + 1 :: u32) :: u8) = int k + 1 \<and> sint (ucast (2 + of_nat k :: u32) :: u8) = int k + 2" by code_simp
  ultimately have w: "unat ?W = ?L" "unat (?W + 1) = ?L + 1" "unat (2 + ?W) = ?L + 2"
      "sint (ucast (?W + 1) :: u8) = int ?L + 1" "sint (ucast (2 + ?W) :: u8) = int ?L + 2" by blast+
  note loops = to_ll_nat [of n] frac_loop_whole [OF rnd, of n "of_nat n" 0] len_whole [OF rnd n(1)]
  show ?thesis
  proof (cases neg)
    case True
    then have "- of_nat n < (0 :: rat)" using n(2) by simp
    then show ?thesis using True loops w n(1)
      by (simp add: ftoa_def Let_def p_def ac_simps) (simp add: map_option_case split_beta split: option.splits)
  next
    case False
    then show ?thesis using loops w n(1)
      by (simp add: ftoa_def Let_def p_def ac_simps) (simp add: map_option_case split_beta split: option.splits)
  qed
qed

text \<open>With the division of the language the digits come out, the point and the terminator behind them.\<close>

lemma ftoa_whole_text:
  assumes rnd: "rounding rnd" and n: "n \<le> 10000000" "neg \<Longrightarrow> n \<noteq> 0"
    and t: "t = (if neg then ''-'' else []) @ whole_digits n @ ''.''" "length t < length buf"
  shows "ftoa rnd ll_div ll_mod (if neg then - of_nat n else of_nat n) (Some buf) =
    Some (length t + 1, Some (t @ CHR 0x00 # drop (length t + 1) buf))"
proof -
  define s where "s = (if neg then 1 else (0 :: nat))"
  let ?L = "whole_length n" and ?ds = "low_digits (whole_length n) n"
  let ?p = "?L + s" and ?buf = "buf[?L + s + 1 := CHR 0x00, ?L + s := CHR ''.'']"
  have ds: "whole_digits n = ?ds" using low_digits_whole [OF n(1)] by simp
  have len: "length t = ?p + 1" unfolding t(1) ds by (simp add: s_def)
  have "digit_loop ll_div ll_mod neg (Suc ?p) ?p (int (Suc ?p)) (of_nat n) 0 buf =
      digit_loop ll_div ll_mod neg (Suc ?p) ?p (int (s + ?L) - 1) (of_nat n) 2 ?buf"
    using t(2) len unfolding digit_loop_end digit_loop_point by (simp add: put_def digit_loop_point ac_simps numeral_2_eq_2)
  also have "\<dots> = Some (2 + ?L + s, (if neg then ''-'' else []) @ ?ds @ drop (s + ?L) ?buf)"
    unfolding s_def by (rule digits_down) (use n(1) t(2) len in \<open>simp_all add: s_def\<close>)
  also have "drop (s + ?L) ?buf = CHR ''.'' # CHR 0x00 # drop (length t + 1) buf"
  proof -
    have "?p < length buf" "Suc ?p < length buf" using t(2) len by simp_all
    then have "drop ?p ?buf = CHR ''.'' # drop (Suc ?p) (buf[Suc ?p := CHR 0x00])"
      by (simp add: drop_update_swap Cons_nth_drop_Suc [symmetric])
    also have "drop (Suc ?p) (buf[Suc ?p := CHR 0x00]) = CHR 0x00 # drop (Suc (Suc ?p)) buf"
      using \<open>Suc ?p < length buf\<close> by (simp add: drop_update_swap Cons_nth_drop_Suc [symmetric])
    finally show ?thesis using len by (simp add: ac_simps)
  qed
  finally show ?thesis
    using ftoa_whole_loop [OF rnd n, where dv = ll_div and md = ll_mod and buf = buf] len unfolding t(1) ds by (simp add: s_def)
qed

subsection \<open>The helpers of the library\<close>

text \<open>The divisor is the high half of the dividend.\<close>

lemma linked_faults:
  assumes "n < 4294967296"
  shows "linked_div edx (of_nat n) b = None" "linked_mod edx (of_nat n) b = None"
proof -
  have "unat (drop_bit 32 (of_nat n :: i64)) = 0"
    using assms by (simp only: unat_drop_bit_eq unat_of_nat) (simp add: take_bit_nat_eq_self drop_bit_eq_div)
  then have "drop_bit 32 (of_nat n :: i64) = 0" by (simp only: unat_eq_zero)
  then show "linked_div edx (of_nat n) b = None" "linked_mod edx (of_nat n) b = None"
    by (simp_all add: linked_div_def linked_mod_def divdi3_def moddi3_def)
qed

lemma digit_loop_faults:
  assumes "n < 4294967296" "s = (if neg then 1 else 0)" "0 < k" "pos = s + k" "len = Suc pos"
  shows "digit_loop (linked_div e) (linked_mod e') neg len pos (int len) (of_nat n) wl ptr = None"
proof -
  have "digit_loop (linked_div e) (linked_mod e') neg len pos (int pos - 1) (of_nat n) wl' ptr' = None" for wl' ptr'
    using assms linked_faults [OF assms(1)] by (subst digit_loop.simps) (auto simp: nat_diff_distrib)
  then show ?thesis unfolding assms(5) digit_loop_end by (simp add: put_def digit_loop_point)
qed

subsection \<open>Powers\<close>

lemma pow_loop_whole:
  assumes "\<And>k. 0 < k \<Longrightarrow> k \<le> m + n \<Longrightarrow> rnd (x ^ k) = x ^ k" "\<And>k. k \<le> n \<Longrightarrow> rnd (of_nat k) = of_nat k" "0 < m"
  shows "pow_loop rnd x (of_nat n) (x ^ m) = Some (x ^ (m + n))"
  using assms
proof (induction n arbitrary: m)
  case 0
  then show ?case by (subst pow_loop.simps) simp
next
  case (Suc n)
  have "rnd (of_nat (Suc n) - 1) = of_nat n" "rnd (x ^ m * x) = x ^ Suc m"
    using Suc.prems(2) [of n] Suc.prems(1) [of "Suc m"] by (simp_all add: ac_simps)
  moreover have "pow_loop rnd x (of_nat n) (x ^ Suc m) = Some (x ^ (Suc m + n))"
    by (rule Suc.IH) (use Suc.prems in auto)
  ultimately show ?case by (subst pow_loop.simps) simp
qed

subsection \<open>Properties\<close>

text \<open>A machine that keeps 23 bits behind the point and drops the rest.\<close>

definition fixed_point :: "rat \<Rightarrow> rat" where
  "fixed_point x = of_int \<lfloor>x * 8388608\<rfloor> / 8388608"

lemma fixed_point_rounding: "rounding fixed_point"
proof -
  have "fixed_point x \<le> fixed_point y" if "x \<le> y" for x y
    using that unfolding fixed_point_def by (intro divide_right_mono) (simp_all add: floor_mono)
  moreover have "fixed_point (of_int k) = of_int k" for k
  proof -
    have "(of_int k :: rat) * 8388608 = of_int (k * 8388608)" by simp
    then show ?thesis unfolding fixed_point_def by (simp only: floor_of_int)
  qed
  moreover have "x - x / 8388608 \<le> fixed_point x" if "1 \<le> x" for x
  proof -
    have "x * 8388608 - 1 \<le> of_int \<lfloor>x * 8388608\<rfloor>" by linarith
    then have "x - 1 / 8388608 \<le> fixed_point x" by (simp add: fixed_point_def field_simps)
    then show ?thesis using that by (simp add: field_simps)
  qed
  ultimately show ?thesis by (simp add: rounding_def)
qed



text \<open>Linked with the helpers of the library no such number is printed: the remainder of the first digit divides by
  the high half of the number, which is zero, whatever the buffer.\<close>

theorem ftoa_linked_faults:
  assumes "rounding rnd" "n \<le> 10000000" "neg \<Longrightarrow> n \<noteq> 0"
  shows "ftoa rnd (linked_div e) (linked_mod e') (if neg then - of_nat n else of_nat n) (Some buf) = None"
proof -
  have "0 < whole_length n" using whole_length_small [OF assms(2)] by simp
  then show ?thesis
    using ftoa_whole_loop [OF assms, where buf = buf] digit_loop_faults [of n "if neg then 1 else 0" neg "whole_length n"] assms(2)
    by (simp add: add.commute)
qed

theorem ftoa_linked_faults_witness:
  "ftoa fixed_point (linked_div (\<lambda>_. 0)) (linked_mod (\<lambda>_. 0)) 7 (Some ''????????'') = None"
  using ftoa_linked_faults [OF fixed_point_rounding, of 7 False "\<lambda>_. 0" "\<lambda>_. 0" "''????????''"] by simp

text \<open>\<open>pow\<close> multiplies once too often: with a whole exponent, and powers the machine holds exactly, the result is the next power.\<close>

theorem pow_one_too_many:
  assumes "\<And>k. 0 < k \<Longrightarrow> k \<le> Suc n \<Longrightarrow> rnd (x ^ k) = x ^ k" "\<And>k. k \<le> n \<Longrightarrow> rnd (of_nat k) = of_nat k"
  shows "c_pow rnd x (of_nat n) = Some (x ^ Suc n)"
  using pow_loop_whole [of 1 n rnd x] assms by (simp add: c_pow_def)

theorem pow_one_too_many_witness: "c_pow fixed_point 2 3 = Some 16"
proof -
  have "fixed_point (of_nat k) = of_nat k" if "k \<le> 16" for k
    using rounding_nat [OF fixed_point_rounding, of k] that by simp
  moreover have "(2 :: nat) ^ k \<le> 16" if "k \<le> Suc 3" for k using power_increasing [of k 4 "2 :: nat"] that by simp
  ultimately have "fixed_point (2 ^ k) = 2 ^ k" if "k \<le> Suc 3" for k
    using that by (metis of_nat_numeral of_nat_power)
  then show ?thesis
    using pow_one_too_many [of 3 fixed_point 2] rounding_nat [OF fixed_point_rounding] by simp
qed

text \<open>The count of \<open>ftoa\<close> includes its terminator, and \<open>vsnprintf\<close> copies as many characters: with the division of the
  language, what a format prints behind a whole number lies after a zero byte, where no reader of the string sees it.\<close>

theorem printf_float_cuts:
  assumes "rounding rnd" "n \<le> 10000000" "t = whole_digits n @ ''.''" "length t < length temp"
    and "ftoa rnd ll_div ll_mod (of_nat n) (Some temp) = Some (i, Some out)"
    and "text_of fmt args = Some u" "length str = sz" "length t + length u + 1 < sz"
  shows "vsnprintf str sz (CHR 0x25 # CHR ''f'' # fmt) (AFlt (take i out) # args) =
    Some (int (length t + length u), t @ CHR 0x00 # u @ CHR 0x00 # drop (length t + length u + 2) str)"
proof -
  have "ftoa rnd ll_div ll_mod (of_nat n) (Some temp) = Some (length t + 1, Some (t @ CHR 0x00 # drop (length t + 1) temp))"
    using ftoa_whole_text [OF assms(1,2), where neg = False and buf = temp and t = t] assms(3,4) by simp
  then have "take i out = t @ [CHR 0x00]" using assms(5) by simp
  then have "text_of (CHR 0x25 # CHR ''f'' # fmt) (AFlt (take i out) # args) = Some ((t @ [CHR 0x00]) @ u)"
    using assms(6) by (simp add: text_conv_def)
  from vsnprintf_exact [OF assms(7) this] show ?thesis using assms(8) by simp
qed

theorem printf_float_cuts_witness:
  "vsnprintf ''??????????'' 10 ''%f m'' [AFlt (take 3 (''5.'' @ CHR 0x00 # ''???''))] =
    Some (4, ''5.'' @ CHR 0x00 # '' m'' @ CHR 0x00 # ''????'')"
proof -
  have "dec_digits 5 = ''5''" by code_simp
  then have five: "whole_digits 5 = ''5''" by (simp add: whole_digits_def)
  have "ftoa fixed_point ll_div ll_mod (of_nat 5) (Some ''??????'') = Some (3, Some (''5.'' @ CHR 0x00 # ''???''))"
    using ftoa_whole_text [OF fixed_point_rounding, of 5 False "''5.''" "''??????''"] five by simp
  from printf_float_cuts [OF fixed_point_rounding _ _ _ this, of "''5.''" "'' m''" "[]" "'' m''" "''??????????''" 10]
  show ?thesis using five by simp
qed

end
