(* ===== verification/Rootfs.thy ===== *)
theory Rootfs
  imports Initrd
begin

text \<open>
  The host's files as the root of the virtual kernel, \<^verbatim>\<open>tools/nvk/src/fs/rootfs.c\<close>: a directory of the host is
  listed through a cache of the nodes made so far.

  The host is reached through the functions of \<open>host\<close>, which stand for the system calls the code makes; a stream of
  directory entries is a value of type \<open>'d\<close>. The strings that the code allocates with \<^verbatim>\<open>asprintf\<close> are values; the other
  structures lie in the heaps \<open>rootfses\<close> and \<open>rootfs_nodes\<close>, and the answers of \<open>malloc\<close> are arguments: for a new child, those of \<open>mount_blocks\<close>. The virtual
  kernel is a program of the host; sizes and offsets are taken at the width they have in the nodes of \<open>Fs\<close>.
\<close>

record rootfs =
  rf_path :: string
  rf_cache :: list_t

record rootfs_node =
  rn_rootfs :: ptr
  rn_path :: string

record rootfs_state = fs_state +
  rootfses :: "ptr \<Rightarrow> rootfs option"
  rootfs_nodes :: "ptr \<Rightarrow> rootfs_node option"

datatype file_kind = S_IFDIR | S_IFREG | S_OTHER

record ('d, 's) host =
  h_open :: "string \<Rightarrow> bool \<Rightarrow> 's \<Rightarrow> u32 \<times> 's"
  h_read :: "u32 \<Rightarrow> u32 \<Rightarrow> ptr \<Rightarrow> u32 \<Rightarrow> 's \<Rightarrow> (u32 \<times> 's) option"
  h_write :: "u32 \<Rightarrow> u32 \<Rightarrow> ptr \<Rightarrow> u32 \<Rightarrow> 's \<Rightarrow> (u32 \<times> 's) option"
  h_close :: "u32 \<Rightarrow> 's \<Rightarrow> 's"
  h_opendir :: "string \<Rightarrow> 's \<Rightarrow> 'd option"
  h_seekdir :: "u32 \<Rightarrow> 'd \<Rightarrow> 'd"
  h_readdir :: "'d \<Rightarrow> (string \<times> 'd) option"
  h_stat :: "string \<Rightarrow> 's \<Rightarrow> (file_kind \<times> u32) option"

subsection \<open>Reading and writing\<close>

text \<open>\<open>lseek\<close> and the call behind it are one function of the host, which takes the offset.\<close>

definition rootfs_read ::
  "('d, 'z rootfs_state_scheme) host \<Rightarrow> 'z rootfs_state_scheme \<Rightarrow> ptr \<Rightarrow> u32 \<Rightarrow> ptr \<Rightarrow> u32 \<Rightarrow> (u32 \<times> 'z rootfs_state_scheme) option" where
  "rootfs_read hs s node offset buff sz = do {
     n \<leftarrow> node_heap s node;
     rn \<leftarrow> rootfs_nodes s (node_impl n);
     let (fd, s1) = h_open hs (rn_path rn) False s;
     if sint fd < 0 then Some (err EINVAL, s1)
     else do {
       (r, s2) \<leftarrow> h_read hs fd offset buff sz s1;
       Some (r, h_close hs fd s2)
     }
   }"

definition rootfs_write ::
  "('d, 'z rootfs_state_scheme) host \<Rightarrow> 'z rootfs_state_scheme \<Rightarrow> ptr \<Rightarrow> u32 \<Rightarrow> ptr \<Rightarrow> u32 \<Rightarrow> (u32 \<times> 'z rootfs_state_scheme) option" where
  "rootfs_write hs s node offset buff sz = do {
     n \<leftarrow> node_heap s node;
     rn \<leftarrow> rootfs_nodes s (node_impl n);
     let (fd, s1) = h_open hs (rn_path rn) True s;
     if sint fd < 0 then Some (err EINVAL, s1)
     else do {
       (r, s2) \<leftarrow> h_write hs fd offset buff sz s1;
       Some (r, h_close hs fd s2)
     }
   }"

subsection \<open>Listing\<close>

partial_function (option) cached_loop :: "ptr heap \<Rightarrow> (ptr \<Rightarrow> fs_node option) \<Rightarrow> ptr \<Rightarrow> u32 \<Rightarrow> u32 \<Rightarrow> ptr option" where
  "cached_loop h nodes ln i index =
     (if ln = 0 then Some 0
      else case (deref h ln, SLIST_NEXT h ln) of
        (Some node, Some ln') \<Rightarrow>
          if nodes node = None then None
          else if i = index then Some node
          else cached_loop h nodes ln' (i + 1) index
      | _ \<Rightarrow> None)"

text \<open>The structure and the path of a directory: of the root, the structure is its own implementation.\<close>

definition rootfs_of :: "'z rootfs_state_scheme \<Rightarrow> fs_node \<Rightarrow> (ptr \<times> string) option" where
  "rootfs_of s n = (if strcmp (node_name n) ''/'' \<noteq> 0
     then map_option (\<lambda>v. (rn_rootfs v, rn_path v)) (rootfs_nodes s (node_impl n))
     else map_option (\<lambda>v. (node_impl n, rf_path v)) (rootfses s (node_impl n)))"

definition rootfs_get_cached_node_byindex :: "'z rootfs_state_scheme \<Rightarrow> fs_node \<Rightarrow> u32 \<Rightarrow> ptr option" where
  "rootfs_get_cached_node_byindex s n index = do {
     (rootfs, path) \<leftarrow> rootfs_of s n;
     rf \<leftarrow> rootfses s rootfs;
     cached_loop (list_nodes (rf_cache rf)) (node_heap s) (slh_first (rf_cache rf)) 0 index
   }"

text \<open>The loop over \<open>readdir\<close>, up to the entry of the index; \<open>Some None\<close> when there is none.\<close>

partial_function (option) next_entry :: "('d, 's) host \<Rightarrow> 'd \<Rightarrow> u32 \<Rightarrow> string option option" where
  "next_entry hs dir index = (case h_readdir hs dir of
      None \<Rightarrow> Some None
    | Some (name, dir') \<Rightarrow>
        if strcmp name ''.'' \<noteq> 0 \<and> strcmp name ''..'' \<noteq> 0 then
          if index = 0 then Some (Some name) else next_entry hs dir' (index - 1)
        else next_entry hs dir' index)"

text \<open>The node of an entry; \<open>gc\<close>, \<open>rd\<close> and \<open>wr\<close> are the code addresses of the operations of this file.\<close>

definition rootfs_make_child ::
  "('d, 'z rootfs_state_scheme) host \<Rightarrow> mount_blocks \<Rightarrow> fs_node \<Rightarrow> u32 \<Rightarrow> u32 \<Rightarrow> u32 \<Rightarrow> ptr \<Rightarrow> string \<Rightarrow> string \<Rightarrow>
   'z rootfs_state_scheme \<Rightarrow> (u32 \<times> ptr option \<times> 'z rootfs_state_scheme) option" where
  "rootfs_make_child hs bl g gc rd wr rootfs path name s = (let p = path @ CHR ''/'' # name in
     (case h_stat hs p s of
        None \<Rightarrow> Some (err ENOENT, None, s)
      | Some (kind, sz) \<Rightarrow>
          if kind = S_OTHER then Some (err EINVAL, None, s)
          else do {
            (r, created, s1) \<leftarrow> fs_node_create s (mb_file bl) g name
              (push_bit (unat (if kind = S_IFDIR then FS_NODE_DIR else FS_NODE_FILE)) 6);
            if sint r < 0 then Some (r, None, s1)
            else do {
              node \<leftarrow> created;
              n \<leftarrow> node_heap s1 node;
              guard (mb_node bl \<noteq> 0);
              rf \<leftarrow> rootfses s1 rootfs;
              let n1 = n\<lparr>node_size := sz, node_impl := mb_node bl,
                node_opts := (node_opts n)\<lparr>op_get_child := gc, op_read := rd, op_write := wr\<rparr>\<rparr>;
              (r2, l) \<leftarrow> liblist_add (rf_cache rf) node (mb_entry bl);
              Some (0, Some node, s1\<lparr>node_heap := (node_heap s1)(node \<mapsto> n1),
                rootfs_nodes := (rootfs_nodes s1)(mb_node bl \<mapsto> \<lparr>rn_rootfs = rootfs, rn_path = p\<rparr>),
                rootfses := (rootfses s1)(rootfs \<mapsto> rf\<lparr>rf_cache := l\<rparr>)\<rparr>)
            }
          }))"

definition rootfs_get_child ::
  "('d, 'z rootfs_state_scheme) host \<Rightarrow> mount_blocks \<Rightarrow> fs_node \<Rightarrow> u32 \<Rightarrow> u32 \<Rightarrow> u32 \<Rightarrow> 'z rootfs_state_scheme \<Rightarrow> ptr \<Rightarrow> u32 \<Rightarrow>
   (u32 \<times> ptr option \<times> 'z rootfs_state_scheme) option" where
  "rootfs_get_child hs bl g gc rd wr s node index = do {
     n \<leftarrow> node_heap s node;
     (rootfs, path) \<leftarrow> rootfs_of s n;
     cached \<leftarrow> rootfs_get_cached_node_byindex s n index;
     if cached \<noteq> 0 then Some (0, Some cached, s)
     else do {
       rf \<leftarrow> rootfses s rootfs;
       len \<leftarrow> liblist_length (rf_cache rf);
       let index1 = index - len;
       (case h_opendir hs path s of
          None \<Rightarrow> Some (err EINVAL, None, s)
        | Some dir \<Rightarrow> do {
            entry \<leftarrow> next_entry hs (h_seekdir hs index1 dir) index1;
            (case entry of
               None \<Rightarrow> Some (err ENOENT, None, s)
             | Some name \<Rightarrow> rootfs_make_child hs bl g gc rd wr rootfs path name s)
          })
     }
   }"

subsection \<open>Mounting\<close>

text \<open>\<open>a\<close> and \<open>p\<close> are the answers of \<open>malloc\<close> for the structure and the node; \<open>data\<close> is the path given by the user.\<close>

definition rootfs_mount ::
  "ptr \<Rightarrow> ptr \<Rightarrow> fs_node \<Rightarrow> u32 \<Rightarrow> string \<Rightarrow> 'z rootfs_state_scheme \<Rightarrow> (u32 \<times> ptr option \<times> 'z rootfs_state_scheme) option" where
  "rootfs_mount a p g gc data s =
     (if a = 0 then Some (err ENOMEM, None, s)
      else do {
        let s1 = s\<lparr>rootfses := (rootfses s)(a \<mapsto> \<lparr>rf_path = data, rf_cache = \<lparr>slh_first = 0, list_nodes = Map.empty\<rparr>\<rparr>)\<rparr>;
        (r, created, s2) \<leftarrow> fs_node_create s1 p g ''/'' (push_bit (unat FS_NODE_DIR) 6);
        if sint r < 0 then Some (r, created, s2\<lparr>rootfses := (rootfses s2)(a := None)\<rparr>)
        else do {
          target \<leftarrow> created;
          n \<leftarrow> node_heap s2 target;
          Some (0, created, s2\<lparr>node_heap := (node_heap s2)(target \<mapsto>
            n\<lparr>node_impl := a, node_opts := (node_opts n)\<lparr>op_get_child := gc\<rparr>\<rparr>)\<rparr>)
        }
      })"

definition rootfs_umount :: "'z rootfs_state_scheme \<Rightarrow> ptr \<Rightarrow> u32 \<times> ptr \<times> 'z rootfs_state_scheme" where
  "rootfs_umount s target = (0, 0, s\<lparr>node_heap := (node_heap s)(target := None)\<rparr>)"

definition rootfs_init :: "'z rootfs_state_scheme \<Rightarrow> ptr \<Rightarrow> fs_opts \<Rightarrow> (u32 \<times> 'z rootfs_state_scheme) option" where
  "rootfs_init s p rootfs_opts = register_fs s p ''rootfs'' FS_PSEUDO rootfs_opts"

subsection \<open>What listing finds\<close>

lemma cached_loop_rep:
  assumes "slist_rep h ln xs" "\<forall>x \<in> set xs. nodes (snd x) \<noteq> None" "a \<le> b" "b < 4294967296" "a + length xs \<le> 4294967295"
  shows "cached_loop h nodes ln (of_nat a) (of_nat b) = Some (if b < a + length xs then snd (xs ! (b - a)) else 0)"
  using assms
proof (induction xs arbitrary: ln a)
  case Nil
  then show ?case by (simp add: cached_loop.simps)
next
  case (Cons x xs)
  then obtain n where n: "h ln = Some (Cell (snd x) n)" "slist_rep h n xs" "ln \<noteq> 0" by auto
  have same: "(of_nat a :: u32) = of_nat b \<longleftrightarrow> a = b" using Cons.prems by (intro of_nat_u32_inj) simp_all
  have IH: "a \<noteq> b \<Longrightarrow> cached_loop h nodes n (of_nat (Suc a)) (of_nat b) = Some (if b < Suc a + length xs then snd (xs ! (b - Suc a)) else 0)"
    using Cons.prems n(2) by (intro Cons.IH) simp_all
  show ?case
  proof (cases "a = b")
    case True
    then show ?thesis using n Cons.prems(2) by (subst cached_loop.simps) (simp add: deref_def SLIST_NEXT_def)
  next
    case False
    then have "b - a = Suc (b - Suc a)" using Cons.prems(3) by linarith
    then show ?thesis using n Cons.prems(2) IH [OF False] same False
      by (subst cached_loop.simps) (simp add: deref_def SLIST_NEXT_def add.commute)
  qed
qed

text \<open>A client that asks for the first \<open>n\<close> children in turn, as \<open>fs_node_resolve\<close> does, with the blocks for each.\<close>

fun list_children ::
  "('d, 'z rootfs_state_scheme) host \<Rightarrow> (nat \<Rightarrow> mount_blocks) \<Rightarrow> fs_node \<Rightarrow> u32 \<Rightarrow> u32 \<Rightarrow> u32 \<Rightarrow> ptr \<Rightarrow> nat \<Rightarrow>
   'z rootfs_state_scheme \<Rightarrow> (ptr list \<times> 'z rootfs_state_scheme) option" where
  "list_children hs bl g gc rd wr node 0 s = Some ([], s)"
| "list_children hs bl g gc rd wr node (Suc k) s = (case list_children hs bl g gc rd wr node k s of
      None \<Rightarrow> None
    | Some (cs, t) \<Rightarrow> (case rootfs_get_child hs (bl k) g gc rd wr t node (of_nat k) of
        Some (r, Some c, u) \<Rightarrow> if r = 0 then Some (cs @ [c], u) else None
      | _ \<Rightarrow> None))"

definition listing ::
  "(nat \<Rightarrow> mount_blocks) \<Rightarrow> ptr \<Rightarrow> fs_node \<Rightarrow> string \<Rightarrow> list_t \<Rightarrow> string \<Rightarrow> u32 \<Rightarrow> nat \<Rightarrow> 'z rootfs_state_scheme \<Rightarrow> bool" where
  "listing bl root v path l0 name ino k s \<longleftrightarrow> node_heap s root = Some v \<and>
     (\<exists>l. rootfses s (node_impl v) = Some \<lparr>rf_path = path, rf_cache = l\<rparr> \<and> liblist_rep l (rev (map (\<lambda>j. mb_file (bl j)) [0..<k])) \<and>
       (\<forall>e. e \<notin> (\<lambda>j. mb_entry (bl j)) ` {..<k} \<longrightarrow> list_nodes l e = list_nodes l0 e)) \<and>
     (\<forall>j < k. map_option node_name (node_heap s (mb_file (bl j))) = Some name) \<and> next_inode s = ino + of_nat k"

text \<open>Blocks for \<open>n\<close> children that are free and all different.\<close>

definition child_blocks :: "(nat \<Rightarrow> mount_blocks) \<Rightarrow> ptr \<Rightarrow> list_t \<Rightarrow> nat \<Rightarrow> bool" where
  "child_blocks bl root l0 n \<longleftrightarrow> n < 2147483648 \<and> (\<forall>k < n. mb_node (bl k) \<noteq> 0 \<and> mb_file (bl k) \<noteq> 0 \<and> mb_file (bl k) \<noteq> root \<and>
     liblist_fresh l0 (mb_entry (bl k))) \<and> inj_on (\<lambda>k. mb_file (bl k)) {..<n} \<and> inj_on (\<lambda>k. mb_entry (bl k)) {..<n}"

lemma listing_step:
  assumes bl: "child_blocks bl root l0 n" "k < n" and v: "node_name v = ''/''"
    and dir: "\<And>s. h_opendir hs path s = Some d" "next_entry hs (h_seekdir hs 0 d) 0 = Some (Some name)"
    and stat: "\<And>s. h_stat hs (path @ CHR ''/'' # name) s = Some (kind, sz)" "kind \<noteq> S_OTHER" "length name < NAME_MAX"
    and inv: "listing bl root v path l0 name ino k s" and ino: "0 \<le> sint (ino + of_nat k)"
  shows "\<exists>t. rootfs_get_child hs (bl k) g gc rd wr s root (of_nat k) = Some (0, Some (mb_file (bl k)), t) \<and>
    listing bl root v path l0 name ino (Suc k) t"
proof -
  let ?F = "\<lambda>j. mb_file (bl j)" and ?E = "\<lambda>j. mb_entry (bl j)"
  have b: "mb_node (bl k) \<noteq> 0" "?F k \<noteq> 0" "?F k \<noteq> root" "liblist_fresh l0 (?E k)" "n < 2147483648"
    using bl unfolding child_blocks_def by blast+
  have inj: "inj_on ?F {..<n}" "inj_on ?E {..<n}" using bl(1) unfolding child_blocks_def by blast+
  have new: "?F j \<noteq> ?F k" "?E j \<noteq> ?E k" if "j < k" for j
    using that bl(2) inj [THEN inj_on_eq_iff, of j k] by auto
  obtain l where l: "rootfses s (node_impl v) = Some \<lparr>rf_path = path, rf_cache = l\<rparr>" "liblist_rep l (rev (map ?F [0..<k]))"
      "\<forall>e. e \<notin> ?E ` {..<k} \<longrightarrow> list_nodes l e = list_nodes l0 e"
    using inv unfolding listing_def by blast
  have s: "node_heap s root = Some v" "next_inode s = ino + of_nat k" "\<forall>j < k. map_option node_name (node_heap s (?F j)) = Some name"
    using inv unfolding listing_def by blast+
  obtain xs where xs: "slist_rep (list_nodes l) (slh_first l) xs" "rev (map ?F [0..<k]) = map snd xs" using l(2) by (auto simp: liblist_rep_def)
  have len: "length xs = k" using arg_cong [OF xs(2), of length] by simp
  have "\<forall>c \<in> set (map snd xs). node_heap s c \<noteq> None" using s(3) unfolding xs(2) [symmetric] by auto
  then have miss: "cached_loop (list_nodes l) (node_heap s) (slh_first l) (of_nat 0) (of_nat k) = Some 0"
    using cached_loop_rep [OF xs(1), of "node_heap s" 0 k] len bl(2) b(5) by simp
  have size: "liblist_length l = Some (of_nat k)" using slist_count_rep [OF xs(1)] len by (simp add: liblist_length_def)
  have root: "rootfs_of s v = Some (node_impl v, path)" using v l(1) by (simp add: rootfs_of_def)
  have fst: "?F k \<notin> set (rev (map ?F [0..<k]))" using new(1) by force
  have "?E k \<notin> ?E ` {..<k}" using new(2) by fastforce
  then have fresh: "liblist_fresh l (?E k)" using b(4) l(3) unfolding liblist_fresh_def by simp
  obtain l' where l': "liblist_add l (?F k) (?E k) = Some (0, l')" "liblist_rep l' (?F k # rev (map ?F [0..<k]))"
    using liblist_add_new [OF l(2) fst fresh] by blast
  have other: "\<forall>e. e \<noteq> ?E k \<longrightarrow> list_nodes l' e = list_nodes l e"
    using l'(1) fst fresh liblist_add_rep [OF l(2), of "?F k" "?E k"] by (auto simp: liblist_fresh_def)
  let ?n = "g\<lparr>node_name := name, node_mode := push_bit (unat (if kind = S_IFDIR then FS_NODE_DIR else FS_NODE_FILE)) 6, node_ino := next_inode s\<rparr>"
  let ?n1 = "?n\<lparr>node_size := sz, node_impl := mb_node (bl k), node_opts := (node_opts ?n)\<lparr>op_get_child := gc, op_read := rd, op_write := wr\<rparr>\<rparr>"
  let ?t = "s\<lparr>next_inode := next_inode s + 1, node_heap := (node_heap s)(?F k \<mapsto> ?n1),
    rootfs_nodes := (rootfs_nodes s)(mb_node (bl k) \<mapsto> \<lparr>rn_rootfs = node_impl v, rn_path = path @ CHR ''/'' # name\<rparr>),
    rootfses := (rootfses s)(node_impl v \<mapsto> \<lparr>rf_path = path, rf_cache = l'\<rparr>)\<rparr>"
  have neg: "\<not> sint (next_inode s) < 0" using ino s(2) by simp
  have "rootfs_make_child hs (bl k) g gc rd wr (node_impl v) path name s = Some (0, Some (?F k), ?t)"
    using stat b(1,2) neg l(1) l'(1) by (simp add: rootfs_make_child_def fs_node_create_def Let_def)
  then have "rootfs_get_child hs (bl k) g gc rd wr s root (of_nat k) = Some (0, Some (?F k), ?t)"
    using s(1) root l(1) miss size dir by (simp add: rootfs_get_child_def rootfs_get_cached_node_byindex_def)
  moreover have "listing bl root v path l0 name ino (Suc k) ?t"
  proof -
    have "\<forall>j < Suc k. map_option node_name (node_heap ?t (?F j)) = Some name" using s(3) new(1) by (simp add: less_Suc_eq)
    moreover have "liblist_rep l' (rev (map ?F [0..<Suc k]))" using l'(2) by simp
    moreover have "\<forall>e. e \<notin> ?E ` {..<Suc k} \<longrightarrow> list_nodes l' e = list_nodes l0 e" using other l(3) by (simp add: lessThan_Suc)
    ultimately show ?thesis using s b(3) unfolding listing_def by (simp add: add.assoc)
  qed
  ultimately show ?thesis by blast
qed


lemma list_children_repeat:
  assumes bl: "child_blocks bl root l0 n" and v: "node_name v = ''/''"
    and dir: "\<And>s. h_opendir hs path s = Some d" "next_entry hs (h_seekdir hs 0 d) 0 = Some (Some name)"
    and stat: "\<And>s. h_stat hs (path @ CHR ''/'' # name) s = Some (kind, sz)" "kind \<noteq> S_OTHER" "length name < NAME_MAX"
    and start: "listing bl root v path l0 name ino 0 s" and ino: "\<And>k. k < n \<Longrightarrow> 0 \<le> sint (ino + of_nat k)"
  shows "k \<le> n \<Longrightarrow> \<exists>t. list_children hs bl g gc rd wr root k s = Some (map (\<lambda>j. mb_file (bl j)) [0..<k], t) \<and>
    listing bl root v path l0 name ino k t"
proof (induction k)
  case 0
  then show ?case using start by simp
next
  case (Suc k)
  then obtain t where t: "list_children hs bl g gc rd wr root k s = Some (map (\<lambda>j. mb_file (bl j)) [0..<k], t)"
    "listing bl root v path l0 name ino k t" by auto
  have k: "k < n" using Suc.prems by simp
  obtain u where "rootfs_get_child hs (bl k) g gc rd wr t root (of_nat k) = Some (0, Some (mb_file (bl k)), u)"
    "listing bl root v path l0 name ino (Suc k) u"
    using listing_step [OF bl k v dir stat t(2) ino [OF k]] by blast
  then show ?case using t(1) by simp
qed

subsection \<open>Properties\<close>

text \<open>The root of the virtual kernel lists the first file of the host directory over and over: with an empty cache, every
  one of the children asked for in turn is a new node with the name of the first entry, however many entries the
  directory has, since the length of the cache is taken off the index before the directory is read from there.\<close>

theorem rootfs_repeats_first:
  assumes "node_heap s root = Some v" "node_name v = ''/''" "rootfses s (node_impl v) = Some \<lparr>rf_path = path, rf_cache = l0\<rparr>"
    and "liblist_rep l0 []" "child_blocks bl root l0 n" "unat (next_inode s) + n < 2147483648"
    and dir: "\<And>s. h_opendir hs path s = Some d" "next_entry hs (h_seekdir hs 0 d) 0 = Some (Some name)"
    and stat: "\<And>s. h_stat hs (path @ CHR ''/'' # name) s = Some (kind, sz)" "kind \<noteq> S_OTHER" "length name < NAME_MAX"
  shows "\<exists>cs t. list_children hs bl g gc rd wr root n s = Some (cs, t) \<and> length cs = n \<and> distinct cs \<and>
    (\<forall>c \<in> set cs. map_option node_name (node_heap t c) = Some name)"
proof -
  have "listing bl root v path l0 name (next_inode s) 0 s" using assms(1,3,4) by (simp add: listing_def)
  moreover have "0 \<le> sint (next_inode s + of_nat k)" if "k < n" for k using ino_nonneg [of "next_inode s" k] assms(6) that by simp
  ultimately obtain t where t: "list_children hs bl g gc rd wr root n s = Some (map (\<lambda>j. mb_file (bl j)) [0..<n], t)"
    "listing bl root v path l0 name (next_inode s) n t"
    using list_children_repeat [OF assms(5,2) dir stat, of "next_inode s" s n g gc rd wr] by blast
  have "inj_on (\<lambda>j. mb_file (bl j)) {..<n}" using assms(5) by (simp add: child_blocks_def)
  then have "distinct (map (\<lambda>j. mb_file (bl j)) [0..<n])" by (simp add: distinct_map atLeast0LessThan)
  moreover have "\<forall>j < n. map_option node_name (node_heap t (mb_file (bl j))) = Some name" using t(2) by (simp add: listing_def)
  ultimately show ?thesis using t(1) by (intro exI [of _ "map (\<lambda>j. mb_file (bl j)) [0..<n]"] exI [of _ t]) auto
qed

text \<open>A host directory with the entries ".", "..", "bin" and "init".\<close>

definition home_host :: "(string list, rootfs_state) host" where
  "home_host = \<lparr>h_open = (\<lambda>p w s. (3, s)), h_read = (\<lambda>fd ofs b n s. Some (n, s)), h_write = (\<lambda>fd ofs b n s. Some (n, s)),
     h_close = (\<lambda>fd s. s), h_opendir = (\<lambda>p s. Some [''.'', ''..'', ''bin'', ''init'']), h_seekdir = (\<lambda>k d. drop (unat k) d),
     h_readdir = (\<lambda>d. case d of [] \<Rightarrow> None | e # d' \<Rightarrow> Some (e, d')),
     h_stat = (\<lambda>p s. Some (if p = ''/home/bin'' then S_IFDIR else S_IFREG, 4))\<rparr>"

theorem rootfs_repeats_first_witness:
  "\<exists>cs t. list_children home_host (\<lambda>k. zip_blocks (of_nat k)) ram_device 0x71 0x72 0x73 0x30 2
      (fs_state.extend (empty_fs\<lparr>node_heap := [0x30 \<mapsto> ram_device\<lparr>node_name := ''/'', node_impl := 0x20\<rparr>]\<rparr>)
        (rootfs_state.fields [0x20 \<mapsto> \<lparr>rf_path = ''/home'', rf_cache = no_list\<rparr>] Map.empty)) = Some (cs, t) \<and>
    length cs = 2 \<and> distinct cs \<and> (\<forall>c \<in> set cs. map_option node_name (node_heap t c) = Some ''bin'')"
proof -
  have blocks: "child_blocks (\<lambda>k. zip_blocks (of_nat k)) 0x30 no_list 2"
    by (auto simp: child_blocks_def less_2_cases_iff inj_on_def zip_blocks_def liblist_fresh_def no_list_def)
  have readdir: "h_readdir home_host d = (case d of [] \<Rightarrow> None | e # d' \<Rightarrow> Some (e, d'))" for d
    by (simp add: home_host_def)
  have "next_entry home_host [''.'', ''..'', ''bin'', ''init''] 0 = Some (Some ''bin'')"
    by (simp add: next_entry.simps [of home_host] readdir del: strcmp.simps)
  then have "next_entry home_host (h_seekdir home_host 0 [''.'', ''..'', ''bin'', ''init'']) 0 = Some (Some ''bin'')"
    by (simp add: home_host_def)
  then show ?thesis
    by (intro rootfs_repeats_first [where v = "ram_device\<lparr>node_name := ''/'', node_impl := 0x20\<rparr>" and path = "''/home''" and
          d = "[''.'', ''..'', ''bin'', ''init'']" and kind = S_IFDIR and sz = 4 and ?l0.0 = no_list])
      (use blocks no_list_rep in \<open>simp_all add: fs_state.defs rootfs_state.defs empty_fs_def home_host_def NAME_MAX_def\<close>)
qed

end
