(* ===== verification/Nvk.thy ===== *)
theory Nvk
  imports Rootfs Elf Proc
begin

text \<open>
  The processes of the virtual kernel, \<^verbatim>\<open>tools/nvk/src/proc.c\<close>: a table like that of the kernel, in which a process is run
  to its end by a thread that the caller joins.

  \<open>emu\<close> stands for \<^verbatim>\<open>nvk_emu\<close>, which hands the program to the Unicorn engine, a library that is not in the repository,
  and \<open>entry\<close> for calling the entry of a process of the kernel; starting a thread and joining it runs \<open>nvk_proc_runner\<close>.
  The stack, the thread, the signal flag and the descriptors of a process, which this file does not touch after \<open>memset\<close>, are left
  out. \<open>kfree\<close> is the effect of \<open>free\<close> on the table, freeing the buffer of a program is not modelled, and sizes have the width they have in the nodes of \<open>Fs\<close>.
\<close>

definition NVK_CHILD_MAX :: nat where "NVK_CHILD_MAX = 128"

record nproc =
  np_name :: string
  np_tty :: string
  np_cwd :: string
  np_status :: u32
  np_exitval :: u32
  np_isuser :: bool
  np_id :: u32
  np_gid :: u32
  np_uid :: u32
  np_parent :: u32
  np_child :: "u32 list"
  np_child_count :: u32
  np_entry :: u32
  np_impl :: ptr
  np_prog :: ptr
  np_prgsize :: u32

record nvk_state = rootfs_state +
  nproc_heap :: "nproc heap"
  nprocs :: ptr
  nvk_next_pid :: u32
  nvk_curr_pid :: u32
  nvk_proc_count :: u32
  nvk_errno :: u32

definition zero_nproc :: nproc where
  "zero_nproc = \<lparr>np_name = [], np_tty = [], np_cwd = [], np_status = 0, np_exitval = 0, np_isuser = False, np_id = 0, np_gid = 0,
     np_uid = 0, np_parent = 0, np_child = replicate NVK_CHILD_MAX 0, np_child_count = 0, np_entry = 0, np_impl = 0,
     np_prog = 0, np_prgsize = 0\<rparr>"

definition upd_nproc :: "ptr \<Rightarrow> (nproc \<Rightarrow> nproc) \<Rightarrow> 'z nvk_state_scheme \<Rightarrow> 'z nvk_state_scheme option" where
  "upd_nproc p f s = map_option (\<lambda>h. s\<lparr>nproc_heap := h\<rparr>) (set_val (nproc_heap s) p f)"

subsection \<open>Looking processes up\<close>

definition nvk_process_count :: "'z nvk_state_scheme \<Rightarrow> u32" where
  "nvk_process_count s = nvk_proc_count s"

definition nvk_process_get :: "'z nvk_state_scheme \<Rightarrow> u32 \<Rightarrow> ptr option" where
  "nvk_process_get s i = slist_get (nproc_heap s) (nprocs s) 0 i"

definition nvk_process_frompid :: "'z nvk_state_scheme \<Rightarrow> u32 \<Rightarrow> ptr option" where
  "nvk_process_frompid s pid = slist_find (nproc_heap s) (\<lambda>p. np_id p = pid) (nprocs s)"

definition nvk_process_curr :: "'z nvk_state_scheme \<Rightarrow> ptr option" where
  "nvk_process_curr s =
     (if nvk_proc_count s = 0 then Some 0
      else if nvk_curr_pid s = 0 then Some 0
      else nvk_process_frompid s (nvk_curr_pid s))"

definition nvk_process_next :: "'z nvk_state_scheme \<Rightarrow> ptr option" where
  "nvk_process_next s =
     (if nvk_proc_count s = 0 then Some 0
      else if nvk_curr_pid s = 0 then Some 0
      else do {
        curr_proc \<leftarrow> nvk_process_frompid s (nvk_curr_pid s);
        if curr_proc = 0 then Some (nprocs s)
        else do {
          n \<leftarrow> SLIST_NEXT (nproc_heap s) curr_proc;
          if n \<noteq> 0 then Some n else Some (nprocs s)
        }
      })"

subsection \<open>Running\<close>

text \<open>The returned pointer of the thread is dropped by the caller.\<close>

definition nvk_proc_runner ::
  "(ptr \<Rightarrow> u32 \<Rightarrow> ptr \<Rightarrow> 'z nvk_state_scheme \<Rightarrow> (u32 \<times> 'z nvk_state_scheme) option) \<Rightarrow>
   (u32 \<Rightarrow> ptr \<Rightarrow> 'z nvk_state_scheme \<Rightarrow> (ptr \<times> 'z nvk_state_scheme) option) \<Rightarrow> ptr \<Rightarrow>
   'z nvk_state_scheme \<Rightarrow> (ptr \<times> 'z nvk_state_scheme) option" where
  "nvk_proc_runner emu entry proc s = do {
     s1 \<leftarrow> upd_nproc proc (\<lambda>p. p\<lparr>np_status := PROC_READY\<rparr>) s;
     p \<leftarrow> deref (nproc_heap s1) proc;
     let s2 = s1\<lparr>nvk_curr_pid := np_id p\<rparr>;
     (if np_isuser p then do {
        (e, s3) \<leftarrow> emu (np_prog p) (np_prgsize p) (np_impl p) s2;
        s4 \<leftarrow> upd_nproc proc (\<lambda>p. p\<lparr>np_status := PROC_ZOMBIE\<rparr>) s3;
        Some (0, s4)
      }
      else do {
        (ret, s3) \<leftarrow> (if np_entry p = 0 then Some (0, s2) else entry (np_entry p) (np_impl p) s2);
        s4 \<leftarrow> upd_nproc proc (\<lambda>p. p\<lparr>np_status := PROC_ZOMBIE\<rparr>) s3;
        Some (ret, s4)
      })
   }"

definition nvk_proc_go ::
  "(ptr \<Rightarrow> u32 \<Rightarrow> ptr \<Rightarrow> 'z nvk_state_scheme \<Rightarrow> (u32 \<times> 'z nvk_state_scheme) option) \<Rightarrow>
   (u32 \<Rightarrow> ptr \<Rightarrow> 'z nvk_state_scheme \<Rightarrow> (ptr \<times> 'z nvk_state_scheme) option) \<Rightarrow> ptr \<Rightarrow>
   'z nvk_state_scheme \<Rightarrow> 'z nvk_state_scheme option" where
  "nvk_proc_go emu entry proc s = map_option snd (nvk_proc_runner emu entry proc s)"

subsection \<open>Creating and destroying\<close>

definition nvk_child_slot :: "nproc \<Rightarrow> (nat \<times> u32) option" where
  "nvk_child_slot p = (case find (\<lambda>i. np_child p ! i = 0) [0..<unat (np_child_count p)] of
      Some i \<Rightarrow> Some (i, np_child_count p)
    | None \<Rightarrow> if np_child_count p + 1 > of_nat NVK_CHILD_MAX then None else Some (unat (np_child_count p), np_child_count p + 1))"

definition nvk_init_proc :: "nproc option \<Rightarrow> string \<Rightarrow> string \<Rightarrow> u32 \<Rightarrow> u32 \<Rightarrow> nproc" where
  "nvk_init_proc par tty0 name isuser pid =
     (let p = zero_nproc\<lparr>np_name := strncpy_field NAME_MAX name, np_id := pid, np_isuser := odd isuser, np_status := PROC_READY\<rparr>
      in case par of
        None \<Rightarrow> p\<lparr>np_cwd := ''/'', np_tty := strncpy_field NAME_MAX tty0\<rparr>
      | Some pp \<Rightarrow> p\<lparr>np_cwd := strncpy_field PATH_MAX (np_cwd pp), np_gid := np_gid pp, np_uid := np_uid pp, np_parent := np_id pp,
          np_tty := strncpy_field NAME_MAX (np_tty pp)\<rparr>)"

definition nvk_proc_create ::
  "'z nvk_state_scheme \<Rightarrow> ptr \<Rightarrow> ptr \<Rightarrow> string \<Rightarrow> u32 \<Rightarrow> (ptr \<times> 'z nvk_state_scheme) option" where
  "nvk_proc_create s proc parent name isuser =
     (if proc = 0 then Some (0, s)
      else do {
        par \<leftarrow> (if parent = 0 then Some None else map_option Some (deref (nproc_heap s) parent));
        (case (case par of None \<Rightarrow> Some (0, 0) | Some pp \<Rightarrow> nvk_child_slot pp) of
           None \<Rightarrow> Some (0, s\<lparr>nvk_errno := errno_code ECHILD\<rparr>)
         | Some (index, cnt) \<Rightarrow> do {
             tty \<leftarrow> (if parent = 0 then tty_get s 0 else Some 0);
             tty0 \<leftarrow> (if tty = 0 then Some [] else map_option tty_name (deref (tty_heap s) tty));
             let pid = nvk_next_pid s;
             let p = nvk_init_proc par tty0 name isuser pid;
             let s1 = s\<lparr>nvk_next_pid := nvk_next_pid s + 1\<rparr>;
             s2 \<leftarrow> (if parent = 0 then Some s1
               else upd_nproc parent (\<lambda>pp. pp\<lparr>np_child := (np_child pp)[index := pid], np_child_count := cnt\<rparr>) s1);
             (h, head) \<leftarrow> SLIST_INSERT_HEAD ((nproc_heap s2)(proc \<mapsto> Cell p 0)) (nprocs s2) proc;
             let s3 = s2\<lparr>nproc_heap := h, nprocs := head, nvk_proc_count := nvk_proc_count s2 + 1\<rparr>;
             Some (proc, if nvk_proc_count s3 = 1 \<and> nvk_curr_pid s3 = 0 then s3\<lparr>nvk_curr_pid := pid\<rparr> else s3)
           })
      })"

definition nvk_remove_child :: "u32 \<Rightarrow> nproc \<Rightarrow> nproc" where
  "nvk_remove_child pid p = (case find (\<lambda>i. np_child p ! i = pid) [0..<unat (np_child_count p)] of
      None \<Rightarrow> p
    | Some i \<Rightarrow> p\<lparr>np_child := (np_child p)[i := 0], np_child_count := np_child_count p - 1\<rparr>)"

definition nvk_proc_destroy ::
  "(nproc heap \<Rightarrow> ptr \<Rightarrow> nproc heap) \<Rightarrow> 'z nvk_state_scheme \<Rightarrow> ptr \<Rightarrow> (u32 \<times> 'z nvk_state_scheme) option" where
  "nvk_proc_destroy kfree s proc = do {
     p \<leftarrow> deref (nproc_heap s) proc;
     s1 \<leftarrow> (if np_parent p \<noteq> 0 then do {
        parent \<leftarrow> nvk_process_frompid s (np_parent p);
        upd_nproc parent (nvk_remove_child (np_id p)) s
      } else Some s);
     (h, head) \<leftarrow> SLIST_REMOVE (nproc_heap s1) (nprocs s1) proc;
     Some (0, s1\<lparr>nproc_heap := kfree h proc, nprocs := head, nvk_proc_count := nvk_proc_count s1 - 1\<rparr>)
   }"

subsection \<open>Starting a program\<close>

text \<open>Every round reads to the start of the buffer, and asks for the whole file from where the last one ended.\<close>

partial_function (option) nvk_read_loop ::
  "'z nvk_state_scheme drivers \<Rightarrow> (nat \<Rightarrow> ptr) \<Rightarrow> ptr \<Rightarrow> ptr \<Rightarrow> u32 \<Rightarrow> 'z nvk_state_scheme \<Rightarrow> (u32 \<times> 'z nvk_state_scheme) option" where
  "nvk_read_loop env bufs node prog sofar s = (case node_heap s node of
      None \<Rightarrow> None
    | Some n \<Rightarrow>
        if sofar < node_size n then
          (case fs_node_read env bufs s node sofar prog (node_size n) of
             None \<Rightarrow> None
           | Some (r, t) \<Rightarrow> if sint r < 0 then Some (r, t) else nvk_read_loop env bufs node prog (sofar + r) t)
        else Some (0, s))"

text \<open>\<open>prog\<close> and \<open>p\<close> are the answers of \<open>malloc\<close> for the program and for the process.\<close>

definition nvk_proc_exec ::
  "(ptr \<Rightarrow> u32 \<Rightarrow> ptr \<Rightarrow> 'z nvk_state_scheme \<Rightarrow> (u32 \<times> 'z nvk_state_scheme) option) \<Rightarrow>
   (u32 \<Rightarrow> ptr \<Rightarrow> 'z nvk_state_scheme \<Rightarrow> (ptr \<times> 'z nvk_state_scheme) option) \<Rightarrow>
   'z nvk_state_scheme drivers \<Rightarrow> (nat \<Rightarrow> ptr) \<Rightarrow> ptr \<Rightarrow> ptr \<Rightarrow> 'z nvk_state_scheme \<Rightarrow> ptr \<Rightarrow> (u32 \<times> 'z nvk_state_scheme) option" where
  "nvk_proc_exec emu entry env bufs prog p s path = do {
     (r, found, s1) \<leftarrow> fs_resolve env s path;
     if sint r < 0 then Some (r, s1)
     else do {
       node \<leftarrow> found;
       n \<leftarrow> node_heap s1 node;
       if prog = 0 then Some (err ENOMEM, s1)
       else do {
         (r1, s2) \<leftarrow> nvk_read_loop env bufs node prog 0 s1;
         if sint r1 < 0 then Some (r1, s2)
         else do {
           hdr \<leftarrow> elf_header_at (fs_mem s2) prog;
           if \<not> elf_isvalid hdr then Some (err EINVAL, s2)
           else do {
             cur \<leftarrow> nvk_process_curr s2;
             name \<leftarrow> cstr_of (fs_mem s2) path;
             (proc, s3) \<leftarrow> nvk_proc_create s2 p cur name 1;
             if proc = 0 then Some (err EINVAL, s3)
             else do {
               s4 \<leftarrow> upd_nproc proc (\<lambda>p. p\<lparr>np_prog := prog\<rparr>) s3;
               s5 \<leftarrow> nvk_proc_go emu entry proc s4;
               q \<leftarrow> deref (nproc_heap s5) proc;
               Some (np_id q, s5)
             }
           }
         }
       }
     }
   }"

text \<open>A virtual kernel at its start, with the tree of \<open>with_tree\<close> and an ELF file of the size of its header in it.\<close>

definition nvk_at_start :: nvk_state where
  "nvk_at_start = (with_tree [] (rootfs_state.extend (fs_state.extend empty_fs (rootfs_state.fields Map.empty Map.empty))
       (nvk_state.fields Map.empty 0 1 0 0 0)))
     \<lparr>fs_mem := write_bytes (\<lambda>_. Some 0) 0x100 (cstring ''hosts''),
      node_heap := sample_nodes(0x30 \<mapsto> (sample_node ''hosts'' 0 (no_opts\<lparr>op_read := 3\<rparr>))\<lparr>node_size := 52\<rparr>)\<rparr>"

definition nvk_drivers :: "'z fs_state_scheme drivers" where
  "nvk_drivers = (dir_drivers sample_children)\<lparr>call_read := (\<lambda>_ _ _ buf n s.
     Some (52, s\<lparr>fs_mem := write_bytes (fs_mem s) buf (header_bytes sample_header)\<rparr>))\<rparr>"

abbreviation nvk_loaded :: nvk_state where
  "nvk_loaded \<equiv> nvk_at_start\<lparr>fs_mem := write_bytes (fs_mem nvk_at_start) 0x1000 (header_bytes sample_header)\<rparr>"

lemma nvk_at_start_fields:
  "node_heap nvk_at_start = sample_nodes(0x30 \<mapsto> (sample_node ''hosts'' 0 (no_opts\<lparr>op_read := 3\<rparr>))\<lparr>node_size := 52\<rparr>)"
  "fs_mem nvk_at_start = write_bytes (\<lambda>_. Some 0) 0x100 (cstring ''hosts'')" "nproc_heap nvk_at_start = Map.empty" "nprocs nvk_at_start = 0"
  "nvk_proc_count nvk_at_start = 0" "nvk_next_pid nvk_at_start = 1" "ttys nvk_at_start = 0" "tty_heap nvk_at_start = Map.empty"
  by (simp_all add: nvk_at_start_def with_tree_def fs_state.defs rootfs_state.defs nvk_state.defs empty_fs_def)

lemma nvk_path: "path_at (fs_mem nvk_at_start) 0x100 ''hosts''"
  using bytes_at_write_bytes [of "cstring ''hosts''" "\<lambda>_. Some 0" "0x100"] by (simp add: nvk_at_start_fields path_at_def str_at_bytes)

lemma nvk_resolve: "fs_resolve nvk_drivers nvk_at_start 0x100 = Some (0, Some 0x30, nvk_at_start)"
proof -
  have str: "str_at (fs_mem nvk_at_start) 0x100 ''hosts''" using nvk_path by (simp add: path_at_def)
  then have "fs_mem nvk_at_start 0x100 = Some (byte (CHR ''h''))" by (simp only: str_at.simps)
  then have skip: "skip_slash (fs_mem nvk_at_start) 0x100 = Some 0x100" by (simp only: skip_slash_def) simp
  have lists: "lists_dir nvk_drivers nvk_at_start 0x10 [0x20, 0x30, 0x38]"
    unfolding lists_dir_def
    by (auto simp: nvk_at_start_fields name_of_def nvk_drivers_def dir_drivers_def sample_children_def
        sample_nodes_def sample_node_def no_opts_def)
  have "mp_rep nvk_at_start sample_mount"
    by (simp add: nvk_at_start_def with_tree_def mp_rep_def slist_rep_heap_of sample_mount_def)
  then have "fs_resolve nvk_drivers nvk_at_start 0x100 =
      fs_node_resolve nvk_drivers nvk_at_start 0x10 (0x100 + of_nat (length ([] :: string)))"
    using fs_resolve_mounted [of nvk_at_start sample_mount "0x100" "0x100" "''hosts''" "0x50" "snd (hd sample_mount)" nvk_drivers] str skip
    by (simp add: sample_mount_def strncmp_def)
  also have "\<dots> = fs_node_resolve nvk_drivers nvk_at_start 0x10 0x100" by simp
  also have "\<dots> = Some (0, Some 0x30, nvk_at_start)"
    using fs_node_resolve_single [OF lists nvk_path]
    by (simp add: name_of_def nvk_at_start_fields sample_nodes_def sample_node_def)
  finally show ?thesis .
qed

lemma nvk_load: "nvk_read_loop nvk_drivers bufs 0x30 0x1000 0 nvk_at_start = Some (0, nvk_loaded)"
proof -
  have rd: "fs_node_read nvk_drivers bufs nvk_at_start 0x30 0 0x1000 52 = Some (52, nvk_loaded)"
    by (subst fs_node_read.simps)
      (simp add: nvk_at_start_fields sample_node_def no_opts_def nvk_drivers_def FS_NODE_TYPE_GET_def FS_NODE_LINK_def FS_NODE_DIR_def)
  have "nvk_read_loop nvk_drivers bufs 0x30 0x1000 52 nvk_loaded = Some (0, nvk_loaded)"
    by (subst nvk_read_loop.simps) (simp add: nvk_at_start_fields)
  then show ?thesis
    by (subst nvk_read_loop.simps) (simp add: nvk_at_start_fields rd [simplified nvk_at_start_fields])
qed

lemma nvk_loaded_image:
  "elf_header_at (fs_mem nvk_loaded) 0x1000 = Some sample_header" "cstr_of (fs_mem nvk_loaded) 0x100 = Some ''hosts''"
proof -
  have len: "length (header_bytes sample_header) = 52" by (simp add: header_bytes_def sample_header_def)
  have "bytes_at (fs_mem nvk_loaded) 0x1000 (header_bytes sample_header)"
    using bytes_at_write_bytes [of "header_bytes sample_header" "fs_mem nvk_at_start" "0x1000"] len by simp
  then show "elf_header_at (fs_mem nvk_loaded) 0x1000 = Some sample_header"
    using elf_structures_image(1) sample_header_valid(3) by blast
  have "disjoint 0x100 6 0x1000 52" by (rule disjointI) simp_all
  then have "str_at (fs_mem nvk_loaded) 0x100 ''hosts''"
    using nvk_path len by (simp add: path_at_def str_at_bytes bytes_at_nth write_bytes_nth disjoint_def)
  then show "cstr_of (fs_mem nvk_loaded) 0x100 = Some ''hosts''" by (simp add: cstr_of_str)
qed

subsection \<open>Properties\<close>



text \<open>Loading ends only when the driver has delivered the length of the file: when a read from the start answers 0, as at the
  end of a file that has been cut, the loop of \<open>proc_exec\<close> asks again for ever.\<close>

lemma nvk_read_hangs:
  assumes "node_heap s node = Some n" "0 < node_size n" "fs_node_read env bufs s node 0 prog (node_size n) = Some (0, s)"
  shows "nvk_read_loop env bufs node prog 0 s = None"
proof -
  have "\<not> (env' = env \<and> bufs' = bufs \<and> node' = node \<and> prog' = prog \<and> sofar = 0 \<and> s' = s)"
    if "nvk_read_loop env' bufs' node' prog' sofar s' = Some y" for env' bufs' node' prog' sofar s' y
  proof (rule nvk_read_loop.raw_induct [of "\<lambda>e b d q k t y. \<not> (e = env \<and> b = bufs \<and> d = node \<and> q = prog \<and> k = 0 \<and> t = s)", OF _ that])
    fix f e b d q k t y
    assume IH: "\<And>e b d q k t y. f e b d q k t = Some y \<Longrightarrow> \<not> (e = env \<and> b = bufs \<and> d = node \<and> q = prog \<and> k = 0 \<and> t = s)"
      and step: "(case node_heap t d of None \<Rightarrow> None
        | Some n \<Rightarrow> if k < node_size n then (case fs_node_read e b t d k q (node_size n) of None \<Rightarrow> None
            | Some (r, u) \<Rightarrow> if sint r < 0 then Some (r, u) else f e b d q (k + r) u) else Some (0, t)) = Some y"
    show "\<not> (e = env \<and> b = bufs \<and> d = node \<and> q = prog \<and> k = 0 \<and> t = s)"
    proof
      assume here: "e = env \<and> b = bufs \<and> d = node \<and> q = prog \<and> k = 0 \<and> t = s"
      then have "f env bufs node prog 0 s = Some y" using step assms by simp
      then show False using IH by blast
    qed
  qed
  then show ?thesis by (cases "nvk_read_loop env bufs node prog 0 s") blast+
qed

end
