(* ===== verification/System.thy ===== *)
theory System
  imports Proc
begin

text \<open>
  The system calls of \<^verbatim>\<open>newland/src/system.c\<close> and their dispatch,
  \<^verbatim>\<open>newland/src/syscall.c\<close> with the table \<^verbatim>\<open>newland/include/newland/__syscall_handlers.h\<close>.
  The current process's descriptor table is the field \<open>p_fd\<close>; drivers get the address of a
  slot. \<open>size_t\<close> results are tested with \<open>r < 0\<close> as in the source, which is never true of an
  unsigned word.
\<close>

definition NL_PROP_ISNVK :: u32 where "NL_PROP_ISNVK = 1"

definition nl_getbuildprop :: "u32 \<Rightarrow> u32" where
  "nl_getbuildprop prop = (if prop = NL_PROP_ISNVK then 0 else err EINVAL)"

definition of_curr :: "(proc \<Rightarrow> u32) \<Rightarrow> 'z proc_state_scheme \<Rightarrow> u32 option" where
  "of_curr f s = do {
     proc \<leftarrow> process_curr s;
     if proc = 0 then Some 0 else map_option f (deref (proc_heap s) proc)
   }"

definition nl_getpid :: "'z proc_state_scheme \<Rightarrow> u32 option" where "nl_getpid s = of_curr p_id s"
definition nl_getuid :: "'z proc_state_scheme \<Rightarrow> u32 option" where "nl_getuid s = of_curr p_uid s"
definition nl_getgid :: "'z proc_state_scheme \<Rightarrow> u32 option" where "nl_getgid s = of_curr p_gid s"

subsection \<open>Descriptors\<close>

definition set_fd :: "nat \<Rightarrow> (fd \<Rightarrow> fd) \<Rightarrow> proc \<Rightarrow> proc" where
  "set_fd i f p = p\<lparr>p_fd := (p_fd p)[i := f (p_fd p ! i)]\<rparr>"

definition free_fd :: "proc \<Rightarrow> nat option" where
  "free_fd p = find (\<lambda>i. fd_node (p_fd p ! i) = 0) [0..<OPEN_MAX]"

definition get_fd :: "'z proc_state_scheme \<Rightarrow> ptr \<Rightarrow> nat \<Rightarrow> fd option" where
  "get_fd s proc i = map_option (\<lambda>p. p_fd p ! i) (deref (proc_heap s) proc)"

definition clear_fd :: "fd \<Rightarrow> fd" where
  "clear_fd f = f\<lparr>fd_node := 0, fd_mode := 0, fd_gid := 0, fd_uid := 0\<rparr>"

definition init_fd :: "u32 \<Rightarrow> proc \<Rightarrow> fd \<Rightarrow> fd" where
  "init_fd mode p f = f\<lparr>fd_mode := mode, fd_gid := p_gid p, fd_uid := p_uid p, fd_pid := p_id p, fd_offset := 0\<rparr>"

definition nl_open ::
  "'z proc_state_scheme drivers \<Rightarrow> 'z proc_state_scheme \<Rightarrow> ptr \<Rightarrow> u32 \<Rightarrow> (u32 \<times> 'z proc_state_scheme) option" where
  "nl_open env s path mode = do {
     proc \<leftarrow> process_curr s;
     if proc = 0 then Some (err EINVAL, s)
     else do {
       p \<leftarrow> deref (proc_heap s) proc;
       (case free_fd p of
          None \<Rightarrow> Some (err EMFILE, s)
        | Some fd \<Rightarrow> do {
            (r, found, s1) \<leftarrow> fs_resolve env s path;
            s2 \<leftarrow> (case found of
                None \<Rightarrow> Some s1
              | Some n \<Rightarrow> upd_proc proc (set_fd fd (\<lambda>f. f\<lparr>fd_node := n\<rparr>)) s1);
            if sint r < 0 then Some (r, s2)
            else do {
              s3 \<leftarrow> upd_proc proc (\<lambda>p. set_fd fd (init_fd mode p) p) s2;
              f \<leftarrow> get_fd s3 proc fd;
              (r2, s4) \<leftarrow> fs_node_open env s3 (fd_node f) (fd_slot proc fd);
              if sint r2 < 0 then map_option (Pair r2) (upd_proc proc (set_fd fd clear_fd) s4)
              else Some (of_nat fd, s4)
            }
          })
     }
   }"

definition fd_in_range :: "u32 \<Rightarrow> bool" where
  "fd_in_range fd \<longleftrightarrow> \<not> (sint fd < 0 \<or> sint fd \<ge> int OPEN_MAX)"

definition nl_close ::
  "'z proc_state_scheme drivers \<Rightarrow> 'z proc_state_scheme \<Rightarrow> u32 \<Rightarrow> (u32 \<times> 'z proc_state_scheme) option" where
  "nl_close env s fd = do {
     proc \<leftarrow> process_curr s;
     if proc = 0 then Some (err EINVAL, s)
     else if \<not> fd_in_range fd then Some (err EINVAL, s)
     else do {
       f \<leftarrow> get_fd s proc (unat fd);
       (r, s1) \<leftarrow> fs_node_close env s (fd_node f) (fd_slot proc (unat fd));
       if sint r < 0 then Some (r, s1)
       else map_option (Pair 0) (upd_proc proc (set_fd (unat fd) clear_fd) s1)
     }
   }"

definition nl_write ::
  "'z proc_state_scheme drivers \<Rightarrow> (nat \<Rightarrow> ptr) \<Rightarrow> 'z proc_state_scheme \<Rightarrow> u32 \<Rightarrow> ptr \<Rightarrow> u32 \<Rightarrow>
   (u32 \<times> 'z proc_state_scheme) option" where
  "nl_write env bufs s fd buff count = do {
     proc \<leftarrow> process_curr s;
     if proc = 0 then Some (err EINVAL, s)
     else if \<not> fd_in_range fd then Some (err EINVAL, s)
     else do {
       f \<leftarrow> get_fd s proc (unat fd);
       (r, s1) \<leftarrow> fs_node_write env bufs s (fd_node f) (fd_offset f) buff count;
       if r < 0 then Some (r, s1)
       else map_option (Pair r) (upd_proc proc (set_fd (unat fd) (\<lambda>f. f\<lparr>fd_offset := fd_offset f + r\<rparr>)) s1)
     }
   }"

definition nl_read ::
  "'z proc_state_scheme drivers \<Rightarrow> (nat \<Rightarrow> ptr) \<Rightarrow> 'z proc_state_scheme \<Rightarrow> u32 \<Rightarrow> ptr \<Rightarrow> u32 \<Rightarrow>
   (u32 \<times> 'z proc_state_scheme) option" where
  "nl_read env bufs s fd buff count = do {
     proc \<leftarrow> process_curr s;
     if proc = 0 then Some (err EINVAL, s)
     else if \<not> fd_in_range fd then Some (err EINVAL, s)
     else do {
       f \<leftarrow> get_fd s proc (unat fd);
       (r, s1) \<leftarrow> fs_node_read env bufs s (fd_node f) (fd_offset f) buff count;
       if r < 0 then Some (r, s1)
       else map_option (Pair r) (upd_proc proc (set_fd (unat fd) (\<lambda>f. f\<lparr>fd_offset := fd_offset f + r\<rparr>)) s1)
     }
   }"

subsection \<open>Dispatch\<close>

type_synonym 's syscall_t = "u32 \<Rightarrow> u32 \<Rightarrow> u32 \<Rightarrow> u32 \<Rightarrow> u32 \<Rightarrow> 's \<Rightarrow> (u32 \<times> 's) option"

definition syscall_handlers ::
  "'z proc_state_scheme drivers \<Rightarrow> (nat \<Rightarrow> ptr) \<Rightarrow> 'z proc_state_scheme syscall_t option list" where
  "syscall_handlers env bufs =
     [Some (\<lambda>arg0 arg1 arg2 arg3 arg4 s. Some (nl_getbuildprop arg0, s)),
      Some (\<lambda>arg0 arg1 arg2 arg3 arg4 s. nl_open env s arg0 arg1),
      Some (\<lambda>arg0 arg1 arg2 arg3 arg4 s. nl_close env s arg0),
      Some (\<lambda>arg0 arg1 arg2 arg3 arg4 s. nl_write env bufs s arg0 arg1 arg2),
      Some (\<lambda>arg0 arg1 arg2 arg3 arg4 s. nl_read env bufs s arg0 arg1 arg2)]"

definition syscall_run ::
  "'s syscall_t option list \<Rightarrow> u32 \<Rightarrow> u32 \<Rightarrow> u32 \<Rightarrow> u32 \<Rightarrow> u32 \<Rightarrow> u32 \<Rightarrow> 's \<Rightarrow> (u32 \<times> 's) option" where
  "syscall_run handlers i arg0 arg1 arg2 arg3 arg4 s =
     (if sint i < 0 \<or> unat i \<ge> length handlers then Some (err EINVAL, s)
      else case handlers ! unat i of
        None \<Rightarrow> Some (err ENOSYS, s)
      | Some h \<Rightarrow> h arg0 arg1 arg2 arg3 arg4 s)"

subsection \<open>Lemmas\<close>

lemma curr_nth:
  assumes "proc_rep s xs" "k < length xs" "xs ! k = (proc, p)" "curr_pid s = p_id p"
  shows "process_curr s = Some proc" "proc \<noteq> 0" "deref (proc_heap s) proc = Some p" "proc_wf p" "proc \<in> addrs xs"
proof -
  have wf: "proc_wf p" using assms(1) nth_mem [OF assms(2)] assms(3) by (auto simp: proc_rep_def)
  then have nz: "curr_pid s \<noteq> 0" using assms(4) by (simp add: proc_wf_def)
  show "process_curr s = Some proc"
    using proc_count_pos [OF assms(1,2)] nz process_frompid_nth [OF assms(1,2)] assms(3,4)
    by (simp add: process_curr_def)
  show mem: "proc \<in> addrs xs" using nth_mem [OF assms(2)] assms(3) by force
  then show "proc \<noteq> 0" using proc_rep_nonzero [OF assms(1)] by metis
  show "deref (proc_heap s) proc = Some p" using deref_nth [OF assms(1,2)] assms(3) by simp
  show "proc_wf p" by (rule wf)
qed

lemma fd_in_range_of_nat: "i < OPEN_MAX \<Longrightarrow> fd_in_range (of_nat i) \<and> unat (of_nat i :: u32) = i"
proof -
  assume i: "i < OPEN_MAX"
  then have "unat (of_nat i :: u32) = i" by (intro unat_of_nat_small) (simp add: OPEN_MAX_def)
  moreover have "sint (of_nat i :: u32) = int i"
    using i by (simp add: OPEN_MAX_def sint_uint signed_take_bit_int_eq_self uint_nat calculation)
  ultimately show ?thesis using i by (simp add: fd_in_range_def)
qed

lemma free_fd_SomeD:
  "free_fd p = Some i \<Longrightarrow> i < OPEN_MAX \<and> fd_node (p_fd p ! i) = 0 \<and> (\<forall>j < i. fd_node (p_fd p ! j) \<noteq> 0)"
  by (auto simp: free_fd_def find_Some_iff)

lemma free_fd_None: "free_fd p = None \<longleftrightarrow> (\<forall>i < OPEN_MAX. fd_node (p_fd p ! i) \<noteq> 0)"
  by (auto simp: free_fd_def find_None_iff)

lemma free_fd_SomeI:
  assumes "i < OPEN_MAX" "fd_node (p_fd p ! i) = 0" "\<forall>j < i. fd_node (p_fd p ! j) \<noteq> 0"
  shows "free_fd p = Some i"
  unfolding free_fd_def find_Some_iff using assms by (intro exI [of _ i]) simp

lemma set_fd_keeps [simp]: "keeps_wf (\<lambda>p. set_fd i (f p) p)" "keeps_wf (set_fd i g)"
  by (simp_all add: keeps_wf_def proc_wf_def set_fd_def)

lemma upd_proc_at:
  assumes rep: "proc_rep s xs" and k: "k < length xs" and p: "xs ! k = (proc, p)" and f: "keeps_wf f"
  obtains h where "upd_proc proc f s = Some (s\<lparr>proc_heap := h\<rparr>)"
    "proc_rep (s\<lparr>proc_heap := h\<rparr>) (xs[k := (proc, f p)])" "deref h proc = Some (f p)"
proof -
  have mem: "proc \<in> addrs xs" using nth_mem [OF k] p by force
  obtain h where h: "upd_proc proc f s = Some (s\<lparr>proc_heap := h\<rparr>)" "proc_rep (s\<lparr>proc_heap := h\<rparr>) (slist_upd proc f xs)"
    by (rule upd_proc_rep [OF rep mem f])
  have "slist_upd proc f xs = xs[k := (proc, f p)]"
  proof (rule nth_equalityI)
    fix j assume "j < length (slist_upd proc f xs)"
    then have j: "j < length xs" by simp
    have "fst (xs ! j) = proc \<longleftrightarrow> j = k"
      using j k p slist_rep_distinct [OF proc_rep_list [OF rep]] nth_eq_iff_index_eq [of "map fst xs" j k] by simp
    moreover have "snd (xs ! k) = p" "fst (xs ! k) = proc" using p by simp_all
    ultimately show "slist_upd proc f xs ! j = xs[k := (proc, f p)] ! j"
      using j by (auto simp: nth_slist_upd nth_list_update)
  qed simp
  then have r: "proc_rep (s\<lparr>proc_heap := h\<rparr>) (xs[k := (proc, f p)])" using h(2) by simp
  have "deref h proc = Some (f p)" using deref_nth [OF r, of k] k by simp
  then show ?thesis using that h(1) r by blast
qed

definition opened_fd :: "proc \<Rightarrow> ptr \<Rightarrow> u32 \<Rightarrow> fd" where
  "opened_fd p n mode = \<lparr>fd_node = n, fd_gid = p_gid p, fd_uid = p_uid p, fd_pid = p_id p, fd_offset = 0, fd_mode = mode\<rparr>"

lemma set_fd_open:
  assumes "i < length (p_fd p)"
  shows "set_fd i (init_fd mode (set_fd i (\<lambda>f. f\<lparr>fd_node := n\<rparr>) p)) (set_fd i (\<lambda>f. f\<lparr>fd_node := n\<rparr>) p) =
    set_fd i (\<lambda>_. opened_fd p n mode) p"
  using assms by (cases "p_fd p ! i") (simp add: set_fd_def init_fd_def opened_fd_def)

lemma fd_node_opened [simp]: "fd_node (opened_fd p n mode) = n"
  by (simp add: opened_fd_def)

text \<open>
  The state in which \<open>nl_open\<close> calls the driver, when the path resolves to \<open>n\<close>: the lowest free
  slot holds a fresh descriptor. What follows depends on the driver's answer.
\<close>

lemma nl_open_prepared:
  assumes rep: "proc_rep s xs" and k: "k < length xs" and p: "xs ! k = (proc, p)" and cur: "curr_pid s = p_id p"
    and free: "free_fd p = Some i" and res: "fs_resolve env s path = Some (r, Some n, s1)" "\<not> sint r < 0"
    and s1: "proc_rep s1 xs"
  obtains h where "proc_rep (s1\<lparr>proc_heap := h\<rparr>) (xs[k := (proc, set_fd i (\<lambda>_. opened_fd p n mode) p)])"
    "nl_open env s path mode = (case fs_node_open env (s1\<lparr>proc_heap := h\<rparr>) n (fd_slot proc i) of
       None \<Rightarrow> None
     | Some (r2, s4) \<Rightarrow> if sint r2 < 0 then map_option (Pair r2) (upd_proc proc (set_fd i clear_fd) s4)
         else Some (of_nat i, s4))"
proof -
  note cn = curr_nth [OF rep k p cur]
  have i: "i < length (p_fd p)" using free_fd_SomeD [OF free] cn(4) by (simp add: proc_wf_def)
  let ?f = "set_fd i (\<lambda>f. f\<lparr>fd_node := n\<rparr>)"
  let ?g = "\<lambda>p. set_fd i (init_fd mode p) p"
  obtain h1 where h1: "upd_proc proc ?f s1 = Some (s1\<lparr>proc_heap := h1\<rparr>)"
    "proc_rep (s1\<lparr>proc_heap := h1\<rparr>) (xs[k := (proc, ?f p)])" "deref h1 proc = Some (?f p)"
    by (rule upd_proc_at [OF s1 k p set_fd_keeps(2)])
  have k1: "k < length (xs[k := (proc, ?f p)])" "xs[k := (proc, ?f p)] ! k = (proc, ?f p)" using k by simp_all
  obtain h2 where h2: "upd_proc proc ?g (s1\<lparr>proc_heap := h1\<rparr>) = Some (s1\<lparr>proc_heap := h1\<rparr>\<lparr>proc_heap := h2\<rparr>)"
    "proc_rep (s1\<lparr>proc_heap := h1\<rparr>\<lparr>proc_heap := h2\<rparr>) (xs[k := (proc, ?f p), k := (proc, ?g (?f p))])"
    "deref h2 proc = Some (?g (?f p))"
    by (rule upd_proc_at [OF h1(2) k1 set_fd_keeps(1)])
  have eq: "?g (?f p) = set_fd i (\<lambda>_. opened_fd p n mode) p" by (rule set_fd_open [OF i])
  have "deref h2 proc = Some (set_fd i (\<lambda>_. opened_fd p n mode) p)" using h2(3) unfolding eq .
  then have nd: "get_fd (s1\<lparr>proc_heap := h2\<rparr>) proc i = Some (opened_fd p n mode)"
    using i by (simp add: get_fd_def set_fd_def)
  show ?thesis
  proof (rule that)
    show "proc_rep (s1\<lparr>proc_heap := h2\<rparr>) (xs[k := (proc, set_fd i (\<lambda>_. opened_fd p n mode) p)])"
      using h2(2) by (simp add: eq)
    show "nl_open env s path mode = (case fs_node_open env (s1\<lparr>proc_heap := h2\<rparr>) n (fd_slot proc i) of
       None \<Rightarrow> None
     | Some (r2, s4) \<Rightarrow> if sint r2 < 0 then map_option (Pair r2) (upd_proc proc (set_fd i clear_fd) s4)
         else Some (of_nat i, s4))"
      using cn free res h1(1) h2(1) nd
      by (simp add: nl_open_def split: option.splits)
  qed
qed

lemma nl_open_ok:
  assumes rep: "proc_rep s xs" and k: "k < length xs" and p: "xs ! k = (proc, p)" and cur: "curr_pid s = p_id p"
    and free: "free_fd p = Some i" and res: "fs_resolve env s path = Some (r, Some n, s1)" "\<not> sint r < 0"
    and s1: "proc_rep s1 xs" and nd: "node_heap s1 n = Some nd" "op_open (node_opts nd) = 0"
  obtains t where "nl_open env s path mode = Some (of_nat i, t)"
    "proc_rep t (xs[k := (proc, set_fd i (\<lambda>_. opened_fd p n mode) p)])"
    "curr_pid t = curr_pid s1" "node_heap t = node_heap s1"
proof -
  obtain h where "proc_rep (s1\<lparr>proc_heap := h\<rparr>) (xs[k := (proc, set_fd i (\<lambda>_. opened_fd p n mode) p)])"
    "nl_open env s path mode = (case fs_node_open env (s1\<lparr>proc_heap := h\<rparr>) n (fd_slot proc i) of
       None \<Rightarrow> None
     | Some (r2, s4) \<Rightarrow> if sint r2 < 0 then map_option (Pair r2) (upd_proc proc (set_fd i clear_fd) s4)
         else Some (of_nat i, s4))"
    by (rule nl_open_prepared [OF rep k p cur free res s1])
  then show ?thesis using that [of "s1\<lparr>proc_heap := h\<rparr>"] nd by (simp add: fs_node_open_def)
qed

text \<open>A driver that refuses: the slot is free again, and the next open gets the same number.\<close>

lemma nl_open_refused:
  assumes rep: "proc_rep s xs" and k: "k < length xs" and p: "xs ! k = (proc, p)" and cur: "curr_pid s = p_id p"
    and free: "free_fd p = Some i" and res: "fs_resolve env s path = Some (r, Some n, s1)" "\<not> sint r < 0"
    and s1: "proc_rep s1 xs" and nd: "node_heap s1 n = Some nd" "op_open (node_opts nd) \<noteq> 0"
    and no: "\<And>h. call_open env (op_open (node_opts nd)) n (fd_slot proc i) (s1\<lparr>proc_heap := h\<rparr>) =
      Some (r2, s1\<lparr>proc_heap := h\<rparr>)" "sint r2 < 0"
  shows "\<exists>t q. nl_open env s path mode = Some (r2, t) \<and> proc_rep t (xs[k := (proc, q)]) \<and> free_fd q = Some i"
proof -
  let ?p = "set_fd i (\<lambda>_. opened_fd p n mode) p"
  obtain h where h: "proc_rep (s1\<lparr>proc_heap := h\<rparr>) (xs[k := (proc, ?p)])"
    "nl_open env s path mode = (case fs_node_open env (s1\<lparr>proc_heap := h\<rparr>) n (fd_slot proc i) of
       None \<Rightarrow> None
     | Some (r2, s4) \<Rightarrow> if sint r2 < 0 then map_option (Pair r2) (upd_proc proc (set_fd i clear_fd) s4)
         else Some (of_nat i, s4))"
    by (rule nl_open_prepared [OF rep k p cur free res s1])
  have kk: "k < length (xs[k := (proc, ?p)])" "xs[k := (proc, ?p)] ! k = (proc, ?p)" using k by simp_all
  obtain h2 where h2: "upd_proc proc (set_fd i clear_fd) (s1\<lparr>proc_heap := h\<rparr>) = Some (s1\<lparr>proc_heap := h\<rparr>\<lparr>proc_heap := h2\<rparr>)"
    "proc_rep (s1\<lparr>proc_heap := h\<rparr>\<lparr>proc_heap := h2\<rparr>) (xs[k := (proc, ?p), k := (proc, set_fd i clear_fd ?p)])"
    by (rule upd_proc_at [OF h(1) kk set_fd_keeps(2)])
  have fr: "i < length (p_fd p)" "\<forall>j < i. fd_node (p_fd p ! j) \<noteq> 0" "i < OPEN_MAX"
    using free_fd_SomeD [OF free] curr_nth(4) [OF rep k p cur] by (simp_all add: proc_wf_def)
  have "free_fd (set_fd i clear_fd ?p) = Some i"
    by (rule free_fd_SomeI) (use fr in \<open>simp_all add: set_fd_def clear_fd_def\<close>)
  then show ?thesis using h(2) h2 nd no by (auto simp: fs_node_open_def)
qed

lemma nl_open_full:
  assumes rep: "proc_rep s xs" and k: "k < length xs" and p: "xs ! k = (proc, p)" and cur: "curr_pid s = p_id p"
    and full: "\<forall>i < OPEN_MAX. fd_node (p_fd p ! i) \<noteq> 0"
  shows "nl_open env s path mode = Some (err EMFILE, s)"
  using curr_nth [OF rep k p cur] full free_fd_None [of p] by (simp add: nl_open_def)

lemma nl_close_ok:
  assumes rep: "proc_rep s xs" and k: "k < length xs" and p: "xs ! k = (proc, p)" and cur: "curr_pid s = p_id p"
    and i: "i < OPEN_MAX" and nd: "node_heap s (fd_node (p_fd p ! i)) = Some nd" "op_close (node_opts nd) = 0"
  obtains t where "nl_close env s (of_nat i) = Some (0, t)" "proc_rep t (xs[k := (proc, set_fd i clear_fd p)])"
proof -
  obtain h where "upd_proc proc (set_fd i clear_fd) s = Some (s\<lparr>proc_heap := h\<rparr>)"
    "proc_rep (s\<lparr>proc_heap := h\<rparr>) (xs[k := (proc, set_fd i clear_fd p)])"
    by (rule upd_proc_at [OF rep k p set_fd_keeps(2)])
  then show ?thesis
    using that curr_nth [OF rep k p cur] fd_in_range_of_nat [OF i] nd
    by (simp add: nl_close_def get_fd_def fs_node_close_def)
qed

lemma nl_range:
  assumes "process_curr s = Some proc" "proc \<noteq> 0" "\<not> fd_in_range fd"
  shows "nl_close env s fd = Some (err EINVAL, s)" "nl_read env bufs s fd buff n = Some (err EINVAL, s)"
    "nl_write env bufs s fd buff n = Some (err EINVAL, s)"
  using assms by (simp_all add: nl_close_def nl_read_def nl_write_def)

text \<open>
  Reading and writing advance the offset by whatever the driver answers, an error code
  included.
\<close>

lemma nl_read_offset:
  assumes rep: "proc_rep s xs" and k: "k < length xs" and p: "xs ! k = (proc, p)" and cur: "curr_pid s = p_id p"
    and i: "i < OPEN_MAX" and rd: "fs_node_read env bufs s (fd_node (p_fd p ! i)) (fd_offset (p_fd p ! i)) buff n = Some (r, s1)"
    and s1: "proc_rep s1 xs"
  obtains t where "nl_read env bufs s (of_nat i) buff n = Some (r, t)"
    "proc_rep t (xs[k := (proc, set_fd i (\<lambda>f. f\<lparr>fd_offset := fd_offset f + r\<rparr>) p)])"
proof -
  obtain h where "upd_proc proc (set_fd i (\<lambda>f. f\<lparr>fd_offset := fd_offset f + r\<rparr>)) s1 = Some (s1\<lparr>proc_heap := h\<rparr>)"
    "proc_rep (s1\<lparr>proc_heap := h\<rparr>) (xs[k := (proc, set_fd i (\<lambda>f. f\<lparr>fd_offset := fd_offset f + r\<rparr>) p)])"
    by (rule upd_proc_at [OF s1 k p set_fd_keeps(2)])
  then show ?thesis
    using that curr_nth [OF rep k p cur] fd_in_range_of_nat [OF i] rd
    by (simp add: nl_read_def get_fd_def)
qed

lemma nl_write_offset:
  assumes rep: "proc_rep s xs" and k: "k < length xs" and p: "xs ! k = (proc, p)" and cur: "curr_pid s = p_id p"
    and i: "i < OPEN_MAX" and wr: "fs_node_write env bufs s (fd_node (p_fd p ! i)) (fd_offset (p_fd p ! i)) buff n = Some (r, s1)"
    and s1: "proc_rep s1 xs"
  obtains t where "nl_write env bufs s (of_nat i) buff n = Some (r, t)"
    "proc_rep t (xs[k := (proc, set_fd i (\<lambda>f. f\<lparr>fd_offset := fd_offset f + r\<rparr>) p)])"
proof -
  obtain h where "upd_proc proc (set_fd i (\<lambda>f. f\<lparr>fd_offset := fd_offset f + r\<rparr>)) s1 = Some (s1\<lparr>proc_heap := h\<rparr>)"
    "proc_rep (s1\<lparr>proc_heap := h\<rparr>) (xs[k := (proc, set_fd i (\<lambda>f. f\<lparr>fd_offset := fd_offset f + r\<rparr>) p)])"
    by (rule upd_proc_at [OF s1 k p set_fd_keeps(2)])
  then show ?thesis
    using that curr_nth [OF rep k p cur] fd_in_range_of_nat [OF i] wr
    by (simp add: nl_write_def get_fd_def)
qed

subsection \<open>Properties\<close>

text \<open>C10: \<open>open\<close> takes the lowest free descriptor: when path resolution yields a node and the node's driver
  has no open hook, the call returns the smallest index whose slot holds no node, that slot of the current
  process is filled with the node, the mode, the process's pid, user and group and offset 0, and no other slot and no
  other process changes.\<close>

theorem open_lowest_descriptor:
  assumes "proc_rep s xs" "k < length xs" "xs ! k = (proc, p)" "curr_pid s = p_id p"
    and "i < OPEN_MAX" "fd_node (p_fd p ! i) = 0" "\<forall>j < i. fd_node (p_fd p ! j) \<noteq> 0"
    and "fs_resolve env s path = Some (r, Some n, s1)" "\<not> sint r < 0" "proc_rep s1 xs"
    and "node_heap s1 n = Some nd" "op_open (node_opts nd) = 0"
  shows "\<exists>t. nl_open env s path mode = Some (of_nat i, t) \<and>
    proc_rep t (xs[k := (proc, set_fd i (\<lambda>_. opened_fd p n mode) p)]) \<and>
    curr_pid t = curr_pid s1 \<and> node_heap t = node_heap s1"
  using nl_open_ok [OF assms(1-4) free_fd_SomeI [OF assms(5-7)] assms(8-12)] by metis

definition tree_drivers :: "'s drivers" where
  "tree_drivers = (dir_drivers sample_children)\<lparr>call_open := (\<lambda>_ _ _ s. Some (err EBUSY, s)),
     call_read := (\<lambda>_ _ _ _ _ s. Some (err EIO, s))\<rparr>"

lemma tree_drivers_simps [simp]:
  "call_open tree_drivers h n f s = Some (err EBUSY, s)" "call_read tree_drivers h n j b z s = Some (err EIO, s)"
  "call_get_child tree_drivers = call_get_child (dir_drivers sample_children)"
  by (simp_all add: tree_drivers_def)

abbreviation tree_state :: "string \<Rightarrow> proc_state" where
  "tree_state path \<equiv> with_tree path (table_state sample_table 1)"

lemma tree_state_rep: "proc_rep (tree_state path) sample_table"
  using sample_table_rep [of 1] by (simp add: proc_rep_def with_tree_def)

lemma tree_resolve:
  assumes "CHR 0x00 \<notin> set b" "length b < 4096" "b \<noteq> []" "CHR ''/'' \<notin> set b"
  shows "fs_resolve tree_drivers (tree_state b) 0x100 = Some (case find (\<lambda>c. name_of (tree_state b) c = b) [0x20, 0x30, 0x38] of
      None \<Rightarrow> (err ENOENT, None, tree_state b) | Some c \<Rightarrow> (0, Some c, tree_state b))"
proof -
  have str: "path_at (fs_mem (tree_state b)) 0x100 b" by (rule sample_path [OF assms(1,2)])
  obtain c b' where b: "b = c # b'" "c \<noteq> CHR ''/''" using assms(3,4) by (cases b) auto
  with str have "fs_mem (tree_state b) 0x100 = Some (byte c)" unfolding path_at_def b(1) by (simp only: str_at.simps)
  then have "skip_slash (fs_mem (tree_state b)) 0x100 = Some 0x100"
    using b(2) by (simp only: skip_slash_def) simp
  then have "fs_resolve tree_drivers (tree_state b) 0x100 =
      fs_node_resolve tree_drivers (tree_state b) 0x10 (0x100 + of_nat (length ([] :: string)))"
    using fs_resolve_mounted [OF with_tree_mp_rep [of b "table_state sample_table 1"], of "0x100" "0x100" b
      "0x50" "snd (hd sample_mount)" tree_drivers] str
    by (simp add: path_at_def sample_mount_def strncmp_def del: with_tree_simps)
  also have "\<dots> = fs_node_resolve tree_drivers (tree_state b) 0x10 0x100" by simp
  also note fs_node_resolve_single [OF sample_lists(1) [OF tree_drivers_simps(3)] str assms(3,4)]
  finally show ?thesis .
qed

lemma tree_state_open:
  "fs_resolve tree_drivers (tree_state ''hosts'') 0x100 = Some (0, Some 0x30, tree_state ''hosts'')"
  "fs_resolve tree_drivers (tree_state ''lock'') 0x100 = Some (0, Some 0x38, tree_state ''lock'')"
  by (simp_all add: tree_resolve sample_names del: with_tree_simps)

lemma tree_state_simps:
  "curr_pid (tree_state path) = 1" "node_heap (tree_state path) 0x30 = Some (sample_node ''hosts'' 0 (no_opts\<lparr>op_read := 3\<rparr>))"
  "node_heap (tree_state path) 0x38 = Some (sample_node ''lock'' 0 (no_opts\<lparr>op_open := 2\<rparr>))"
  "node_opts (sample_node nm m opts) = opts" "op_open no_opts = 0"
  by (simp_all add: with_tree_def sample_nodes_def sample_node_def no_opts_def)

lemma sample_fd: "i < OPEN_MAX \<Longrightarrow> fd_node (p_fd (sample_proc pid st) ! i) = 0"
  by (simp add: zero_fd_def)

lemma sample_free_fd: "free_fd (sample_proc pid st) = Some 0"
  by (rule free_fd_SomeI) (simp_all add: zero_fd_def OPEN_MAX_def)

theorem open_lowest_descriptor_witness:
  "\<exists>t. nl_open tree_drivers (tree_state ''hosts'') 0x100 3 = Some (0, t) \<and>
    proc_rep t (sample_table[0 := (0x1000, set_fd 0 (\<lambda>_. opened_fd (sample_proc 1 PROC_RUNNING) 0x30 3) (sample_proc 1 PROC_RUNNING))])"
proof -
  have "0 < OPEN_MAX" by (simp add: OPEN_MAX_def)
  then show ?thesis
    using open_lowest_descriptor [OF tree_state_rep _ _ _ _ _ _ tree_state_open(1) _ tree_state_rep tree_state_simps(2),
        where k = 0 and i = 0 and mode = 3 and proc = "0x1000" and p = "sample_proc 1 PROC_RUNNING"]
    by (simp add: tree_state_simps sample_fd del: sample_proc_simps(9) with_tree_simps) blast
qed

text \<open>C17: an \<open>open\<close> the driver refuses takes no descriptor: when the node's open hook answers an error, the
  call returns that error and the slot it had prepared is the lowest free one again.\<close>

theorem open_refused_frees:
  assumes "proc_rep s xs" "k < length xs" "xs ! k = (proc, p)" "curr_pid s = p_id p" "free_fd p = Some i"
    and "fs_resolve env s path = Some (r, Some n, s1)" "\<not> sint r < 0" "proc_rep s1 xs"
    and "node_heap s1 n = Some nd" "op_open (node_opts nd) \<noteq> 0" "sint r2 < 0"
    and "\<forall>h. call_open env (op_open (node_opts nd)) n (fd_slot proc i) (s1\<lparr>proc_heap := h\<rparr>) =
      Some (r2, s1\<lparr>proc_heap := h\<rparr>)"
  shows "\<exists>t q. nl_open env s path mode = Some (r2, t) \<and> proc_rep t (xs[k := (proc, q)]) \<and> free_fd q = Some i"
  by (rule nl_open_refused [OF assms(1-10)]) (use assms(11,12) in auto)

theorem open_refused_frees_witness:
  "\<exists>t q. nl_open tree_drivers (tree_state ''lock'') 0x100 3 = Some (err EBUSY, t) \<and>
    proc_rep t (sample_table[0 := (0x1000, q)]) \<and> free_fd q = Some 0"
  by (rule open_refused_frees [OF tree_state_rep _ _ _ sample_free_fd tree_state_open(2) _ tree_state_rep tree_state_simps(3)])
    (simp_all add: tree_state_simps)

text \<open>With all 512 descriptors of the current process in use, \<open>open\<close> returns \<open>-NEWLAND_EMFILE\<close> before it
  looks at the path, and changes nothing.\<close>

theorem open_limit:
  assumes "proc_rep s xs" "k < length xs" "xs ! k = (proc, p)" "curr_pid s = p_id p"
    and "\<forall>i < OPEN_MAX. fd_node (p_fd p ! i) \<noteq> 0"
  shows "nl_open env s path mode = Some (err EMFILE, s)"
  by (rule nl_open_full [OF assms])

definition busy_proc :: proc where
  "busy_proc = (sample_proc 1 PROC_RUNNING)\<lparr>p_fd := replicate OPEN_MAX (zero_fd\<lparr>fd_node := 0x30\<rparr>)\<rparr>"

lemma busy_table_rep: "proc_rep (table_state [(0x1000, busy_proc)] cur) [(0x1000, busy_proc)]"
  by (rule table_state_rep) (simp_all add: busy_proc_def pids_def proc_wf_def)

theorem open_limit_witness:
  "nl_open no_drivers (table_state [(0x1000, busy_proc)] 1) 0x100 0 =
    Some (err EMFILE, table_state [(0x1000, busy_proc)] 1)"
  by (rule open_limit [OF busy_table_rep, where k = 0 and p = busy_proc]) (simp_all add: busy_proc_def)

text \<open>\<open>close\<close> of an open descriptor whose driver has no close hook returns 0, clears that slot of the
  current process and no other.\<close>

theorem close_clears:
  assumes "proc_rep s xs" "k < length xs" "xs ! k = (proc, p)" "curr_pid s = p_id p"
    and "i < OPEN_MAX" "node_heap s (fd_node (p_fd p ! i)) = Some nd" "op_close (node_opts nd) = 0"
  shows "\<exists>t. nl_close env s (of_nat i) = Some (0, t) \<and> proc_rep t (xs[k := (proc, set_fd i clear_fd p)])"
  by (rule nl_close_ok [OF assms, of env]) blast

abbreviation busy_state :: proc_state where
  "busy_state \<equiv> with_tree [] (table_state [(0x1000, busy_proc)] 1)"

lemma busy_state_rep: "proc_rep busy_state [(0x1000, busy_proc)]"
  using busy_table_rep [of 1] by (simp add: proc_rep_def with_tree_def)

lemma busy_state_simps:
  "curr_pid busy_state = 1" "p_id busy_proc = 1" "i < OPEN_MAX \<Longrightarrow> p_fd busy_proc ! i = zero_fd\<lparr>fd_node := 0x30\<rparr>"
  by (simp_all add: with_tree_def busy_proc_def)

theorem close_clears_witness:
  "\<exists>t. nl_close no_drivers busy_state 4 = Some (0, t) \<and> proc_rep t [(0x1000, set_fd 4 clear_fd busy_proc)]"
proof -
  have i: "4 < OPEN_MAX" by (simp add: OPEN_MAX_def)
  show ?thesis
    using close_clears [OF busy_state_rep, where k = 0 and i = 4 and proc = "0x1000" and p = busy_proc and env = no_drivers
        and nd = "sample_node ''hosts'' 0 (no_opts\<lparr>op_read := 3\<rparr>)"] i
    by (simp add: busy_state_simps zero_fd_def sample_nodes_def sample_node_def no_opts_def)
qed

text \<open>C18: a failed \<open>read\<close> moves the file offset. The result of the driver is stored in an unsigned variable before
  the test for an error, which is therefore never taken: whatever \<open>fs_node_read\<close> answers is added to
  the offset of the descriptor, a negative error code included, and returned to the caller.\<close>

theorem read_advances_by_result:
  assumes "proc_rep s xs" "k < length xs" "xs ! k = (proc, p)" "curr_pid s = p_id p" "i < OPEN_MAX"
    and "fs_node_read env bufs s (fd_node (p_fd p ! i)) (fd_offset (p_fd p ! i)) buff n = Some (r, s1)" "proc_rep s1 xs"
  shows "\<exists>t. nl_read env bufs s (of_nat i) buff n = Some (r, t) \<and>
    proc_rep t (xs[k := (proc, set_fd i (\<lambda>f. f\<lparr>fd_offset := fd_offset f + r\<rparr>) p)])"
  by (rule nl_read_offset [OF assms]) blast

theorem read_advances_by_result_witness:
  "\<exists>t. nl_read tree_drivers (\<lambda>_. 0) busy_state 4 0x200 16 = Some (err EIO, t) \<and>
    proc_rep t [(0x1000, set_fd 4 (\<lambda>f. f\<lparr>fd_offset := fd_offset f - 6\<rparr>) busy_proc)]"
proof -
  have i: "4 < OPEN_MAX" by (simp add: OPEN_MAX_def)
  have "fs_node_read tree_drivers (\<lambda>_. 0) busy_state 0x30 0 0x200 16 = Some (err EIO, busy_state)"
    by (subst fs_node_read.simps)
      (simp add: sample_nodes_def sample_node_def no_opts_def FS_NODE_TYPE_GET_def FS_NODE_defs)
  then show ?thesis
    using read_advances_by_result [OF busy_state_rep, where k = 0 and i = 4 and proc = "0x1000" and p = busy_proc
        and env = tree_drivers and bufs = "\<lambda>_. 0" and buff = "0x200" and n = 16 and r = "err EIO" and ?s1.0 = busy_state] i
      busy_state_rep
    by (simp add: busy_state_simps zero_fd_def err_def)
qed

text \<open>Descriptors outside \<open>0 \<dots> 511\<close> are refused by every descriptor call with \<open>-NEWLAND_EINVAL\<close>, with no
  effect, so no call indexes the descriptor array out of bounds.\<close>

theorem descriptor_range:
  assumes "process_curr s = Some proc" "proc \<noteq> 0" "sint fd < 0 \<or> int OPEN_MAX \<le> sint fd"
  shows "nl_close env s fd = Some (err EINVAL, s) \<and> nl_read env bufs s fd buff n = Some (err EINVAL, s) \<and>
    nl_write env bufs s fd buff n = Some (err EINVAL, s)"
  using nl_range [OF assms(1,2), of fd] assms(3) by (simp add: fd_in_range_def)

theorem descriptor_range_witness:
  "nl_read tree_drivers (\<lambda>_. 0) busy_state 512 0x200 16 = Some (err EINVAL, busy_state)"
  using descriptor_range [of busy_state "0x1000" 512 tree_drivers "\<lambda>_. 0" "0x200" 16] curr_nth [OF busy_state_rep, of 0]
  by (simp add: OPEN_MAX_def busy_state_simps)

end
