(* ===== verification/Emulator.thy ===== *)
theory Emulator
  imports Nvk System
begin

text \<open>
  The emulator of the virtual kernel, \<^verbatim>\<open>tools/nvk/src/emulator.c\<close>: a program is handed to the Unicorn engine, whose system
  calls come back through a hook.

  Unicorn is not in the repository; the record \<open>unicorn\<close> holds the functions of it that the code calls, on the state
  of the virtual kernel (an engine is always opened for 32-bit x86, and messages on the error stream are left out).
  \<open>word\<close> is the size of a pointer of the host, by which the code scales the offsets of the file.
\<close>

definition UC_ERR_OK :: u32 where "UC_ERR_OK = 0"
definition UC_ERR_ARCH :: u32 where "UC_ERR_ARCH = 2"
definition UC_PROT_READ :: u32 where "UC_PROT_READ = 1"
definition UC_PROT_WRITE :: u32 where "UC_PROT_WRITE = 2"
definition UC_PROT_EXEC :: u32 where "UC_PROT_EXEC = 4"
definition UC_PROT_ALL :: u32 where "UC_PROT_ALL = 7"

definition NVK_RAM_START :: u32 where "NVK_RAM_START = 0"
definition NVK_RAM_SIZE :: u32 where "NVK_RAM_SIZE = 1024 * 1024 * 1024"
definition NVK_RAM_END :: u32 where "NVK_RAM_END = NVK_RAM_START + NVK_RAM_SIZE"
definition NVK_PROG_START :: u32 where "NVK_PROG_START = NVK_RAM_END + 1"

datatype x86_reg = EAX | EDI | ESI | EDX | ECX | EBX

record 's unicorn =
  uc_open :: "'s \<Rightarrow> u32 \<times> ptr \<times> 's"
  uc_close :: "ptr \<Rightarrow> 's \<Rightarrow> 's"
  uc_hook_add :: "ptr \<Rightarrow> ptr \<Rightarrow> 's \<Rightarrow> 's"
  uc_mem_map :: "ptr \<Rightarrow> u32 \<Rightarrow> u32 \<Rightarrow> u32 \<Rightarrow> 's \<Rightarrow> u32 \<times> 's"
  uc_mem_map_ptr :: "ptr \<Rightarrow> u32 \<Rightarrow> u32 \<Rightarrow> u32 \<Rightarrow> ptr \<Rightarrow> 's \<Rightarrow> u32 \<times> 's"
  uc_reg_read :: "ptr \<Rightarrow> x86_reg \<Rightarrow> 's \<Rightarrow> u32"
  uc_reg_write :: "ptr \<Rightarrow> x86_reg \<Rightarrow> u32 \<Rightarrow> 's \<Rightarrow> 's"
  uc_emu_start :: "ptr \<Rightarrow> u32 \<Rightarrow> u32 \<Rightarrow> 's \<Rightarrow> (u32 \<times> 's) option"

subsection \<open>The system call hook\<close>

text \<open>\<open>loc\<close> gives the addresses of the five local variables the registers are read to, whose addresses are the arguments.\<close>

definition hook_syscall ::
  "'z fs_state_scheme unicorn \<Rightarrow> (u32 \<Rightarrow> u32 \<Rightarrow> u32 \<Rightarrow> u32 \<Rightarrow> u32 \<Rightarrow> u32 \<Rightarrow> 'z fs_state_scheme \<Rightarrow> (u32 \<times> 'z fs_state_scheme) option) \<Rightarrow>
   (nat \<Rightarrow> ptr) \<Rightarrow> ptr \<Rightarrow> ptr \<Rightarrow> 'z fs_state_scheme \<Rightarrow> 'z fs_state_scheme option" where
  "hook_syscall u run loc uc userdata s = do {
     machine \<leftarrow> load32 (fs_mem s) userdata;
     if machine = 3 then do {
       let eax = uc_reg_read u uc EAX s;
       m \<leftarrow> foldM (\<lambda>(k, r) m. store32 m (loc k) (uc_reg_read u uc r s)) [(0, EDI), (1, ESI), (2, EDX), (3, ECX), (4, EBX)] (fs_mem s);
       (r, t) \<leftarrow> run eax (loc 0) (loc 1) (loc 2) (loc 3) (loc 4) (s\<lparr>fs_mem := m\<rparr>);
       Some (uc_reg_write u uc EAX r t)
     }
     else Some s
   }"

subsection \<open>Loading a program into the engine\<close>

definition segment_prot :: "u32 \<Rightarrow> u32" where
  "segment_prot flags = (if flags AND ELF_PROG_READ \<noteq> 0 then UC_PROT_READ else 0) OR
     (if flags AND ELF_PROG_WRITE \<noteq> 0 then UC_PROT_WRITE else 0) OR (if flags AND ELF_PROG_EXEC \<noteq> 0 then UC_PROT_EXEC else 0)"

text \<open>The program headers in turn: the error, the entry point and the state; \<open>offset\<close> never moves.\<close>

fun emu_segments ::
  "'z fs_state_scheme unicorn \<Rightarrow> u32 \<Rightarrow> ptr \<Rightarrow> ptr \<Rightarrow> elf_header \<Rightarrow> nat list \<Rightarrow> u32 \<Rightarrow> 'z fs_state_scheme \<Rightarrow>
   (u32 \<times> u32 \<times> 'z fs_state_scheme) option" where
  "emu_segments u word uc prog hdr [] entry s = Some (UC_ERR_OK, entry, s)"
| "emu_segments u word uc prog hdr (i # ks) entry s = do {
     let p = prog + word * (eh_phoff hdr + ucast (eh_phentsize hdr) * of_nat i);
     prg \<leftarrow> elf_program_at (fs_mem s) p;
     if ep_memsz prg = 0 then emu_segments u word uc prog hdr ks entry s
     else (case uc_mem_map_ptr u uc NVK_PROG_START (ep_memsz prg) (segment_prot (ep_flags prg)) (p + 32 * ep_offset prg) s of
       (e, t) \<Rightarrow> if e \<noteq> UC_ERR_OK then Some (e, entry, t)
         else emu_segments u word uc prog hdr ks (if ep_memsz prg \<ge> eh_entry hdr then eh_entry hdr + NVK_PROG_START else entry) t)
   }"

text \<open>The size of the symbol of the entry point; the index of the symbol is not used in its address.\<close>

fun symbol_loop :: "mem \<Rightarrow> ptr \<Rightarrow> elf_header \<Rightarrow> nat \<Rightarrow> u32 option" where
  "symbol_loop m p hdr 0 = Some 0"
| "symbol_loop m p hdr (Suc n) = do {
     sym \<leftarrow> elf_sym_at m p;
     if sy_value sym = eh_entry hdr then Some (sy_size sym) else symbol_loop m p hdr n
   }"

fun entry_size :: "mem \<Rightarrow> u32 \<Rightarrow> ptr \<Rightarrow> elf_header \<Rightarrow> nat list \<Rightarrow> u32 option" where
  "entry_size m word prog hdr [] = Some 0"
| "entry_size m word prog hdr (i # ks) = do {
     sec \<leftarrow> elf_section_at m (prog + word * (eh_shoff hdr + ucast (eh_shentsize hdr) * of_nat i));
     if es_type sec \<noteq> ELFS_SYMTAB then entry_size m word prog hdr ks
     else do {
       n \<leftarrow> symbol_loop m (prog + word * (ucast (es_offset sec) + 16 * of_nat i)) hdr (unat (es_size sec) div 16);
       if n \<noteq> 0 then Some n else entry_size m word prog hdr ks
     }
   }"

text \<open>The last two calls: the argument of the program goes to a register, and the engine runs.\<close>

definition emu_run ::
  "'z fs_state_scheme unicorn \<Rightarrow> ptr \<Rightarrow> ptr \<Rightarrow> u32 \<Rightarrow> u32 \<Rightarrow> 'z fs_state_scheme \<Rightarrow> (u32 \<times> 'z fs_state_scheme) option" where
  "emu_run u uc impl start stop s = map_option (\<lambda>(e, t). (e, uc_close u uc t)) (uc_emu_start u uc start stop (uc_reg_write u uc EAX impl s))"

definition emu_program ::
  "'z fs_state_scheme unicorn \<Rightarrow> u32 \<Rightarrow> ptr \<Rightarrow> ptr \<Rightarrow> elf_header \<Rightarrow> ptr \<Rightarrow> 'z fs_state_scheme \<Rightarrow> (u32 \<times> 'z fs_state_scheme) option" where
  "emu_program u word uc prog hdr impl s = do {
     (e, entry, t) \<leftarrow> emu_segments u word uc prog hdr [0..<unat (eh_phnum hdr)] 0 s;
     if e \<noteq> UC_ERR_OK then Some (e, uc_close u uc t)
     else do {
       entrysize \<leftarrow> entry_size (fs_mem t) word prog hdr [0..<unat (eh_shnum hdr)];
       emu_run u uc impl entry (entrysize - 1) t
     }
   }"

definition emu_raw ::
  "'z fs_state_scheme unicorn \<Rightarrow> ptr \<Rightarrow> ptr \<Rightarrow> u32 \<Rightarrow> ptr \<Rightarrow> 'z fs_state_scheme \<Rightarrow> (u32 \<times> 'z fs_state_scheme) option" where
  "emu_raw u uc prog sz impl s = (case uc_mem_map_ptr u uc NVK_PROG_START sz UC_PROT_ALL prog s of
      (e, t) \<Rightarrow> if e \<noteq> UC_ERR_OK then Some (e, uc_close u uc t)
        else emu_run u uc impl NVK_PROG_START (NVK_PROG_START + sz - 1) t)"

text \<open>The hook is given no data to read the machine from.\<close>

definition nvk_emu ::
  "'z fs_state_scheme unicorn \<Rightarrow> u32 \<Rightarrow> ptr \<Rightarrow> u32 \<Rightarrow> ptr \<Rightarrow> 'z fs_state_scheme \<Rightarrow> (u32 \<times> 'z fs_state_scheme) option" where
  "nvk_emu u word prog sz impl s = do {
     hdr \<leftarrow> (if prog = 0 then Some None else map_option Some (elf_header_at (fs_mem s) prog));
     if (case hdr of None \<Rightarrow> False | Some h \<Rightarrow> eh_machine h \<noteq> 3) then Some (UC_ERR_ARCH, s)
     else (case uc_open u s of (e, uc, s1) \<Rightarrow>
       if e \<noteq> UC_ERR_OK then Some (e, s1)
       else (case uc_mem_map u uc NVK_RAM_START NVK_RAM_END UC_PROT_ALL (uc_hook_add u uc 0 s1) of (e2, s2) \<Rightarrow>
         if e2 \<noteq> UC_ERR_OK then Some (e2, uc_close u uc s2)
         else (case hdr of Some h \<Rightarrow> emu_program u word uc prog h impl s2 | None \<Rightarrow> emu_raw u uc prog sz impl s2)))
   }"

subsection \<open>Program headers\<close>

abbreviation segment_at :: "mem \<Rightarrow> u32 \<Rightarrow> ptr \<Rightarrow> elf_header \<Rightarrow> nat \<Rightarrow> elf_program option" where
  "segment_at m word prog hdr i \<equiv> elf_program_at m (prog + word * (eh_phoff hdr + ucast (eh_phentsize hdr) * of_nat i))"

definition loads :: "mem \<Rightarrow> u32 \<Rightarrow> ptr \<Rightarrow> elf_header \<Rightarrow> nat \<Rightarrow> bool" where
  "loads m word prog hdr i \<longleftrightarrow> (case segment_at m word prog hdr i of None \<Rightarrow> False | Some g \<Rightarrow> ep_memsz g \<noteq> 0)"

text \<open>
  What Unicorn documents of \<^verbatim>\<open>uc_mem_map_ptr\<close>: it does not touch the memory of the caller, and once a region is mapped at
  the address where programs start, mapping another one there is an error.
\<close>

definition no_overlap :: "'z fs_state_scheme unicorn \<Rightarrow> ptr \<Rightarrow> bool" where
  "no_overlap u uc \<longleftrightarrow>
     (\<forall>n p h s. fs_mem (snd (uc_mem_map_ptr u uc NVK_PROG_START n p h s)) = fs_mem s) \<and>
     (\<forall>n p h s n' p' h'. n \<noteq> 0 \<longrightarrow> n' \<noteq> 0 \<longrightarrow> fst (uc_mem_map_ptr u uc NVK_PROG_START n p h s) = UC_ERR_OK \<longrightarrow>
        fst (uc_mem_map_ptr u uc NVK_PROG_START n' p' h' (snd (uc_mem_map_ptr u uc NVK_PROG_START n p h s))) \<noteq> UC_ERR_OK)"

text \<open>With a region in place, the next segment that is not empty ends the loop with the error.\<close>

lemma emu_segments_refused:
  assumes "\<forall>i \<in> set ks. segment_at (fs_mem s) word prog hdr i \<noteq> None" "\<exists>i \<in> set ks. loads (fs_mem s) word prog hdr i"
    and "\<And>n p h. n \<noteq> 0 \<Longrightarrow> fst (uc_mem_map_ptr u uc NVK_PROG_START n p h s) \<noteq> UC_ERR_OK"
  shows "\<exists>e x t. emu_segments u word uc prog hdr ks entry s = Some (e, x, t) \<and> e \<noteq> UC_ERR_OK"
  using assms(1,2)
proof (induction ks)
  case (Cons i ks)
  then obtain g where g: "segment_at (fs_mem s) word prog hdr i = Some g" by auto
  show ?case
  proof (cases "ep_memsz g = 0")
    case True
    then have "\<not> loads (fs_mem s) word prog hdr i" using g by (simp add: loads_def)
    then show ?thesis using Cons g True by simp
  next
    case False
    let ?p = "prog + word * (eh_phoff hdr + ucast (eh_phentsize hdr) * of_nat i)"
    obtain e t where "uc_mem_map_ptr u uc NVK_PROG_START (ep_memsz g) (segment_prot (ep_flags g)) (?p + 32 * ep_offset g) s = (e, t)"
      by fastforce
    moreover from this have "e \<noteq> UC_ERR_OK" using assms(3) [OF False] by (metis fst_conv)
    ultimately show ?thesis using g False by (simp add: Let_def)
  qed
qed simp

lemma emu_segments_two:
  assumes "no_overlap u uc"
    and "\<forall>i \<in> set ks. segment_at (fs_mem s) word prog hdr i \<noteq> None" "2 \<le> length (filter (loads (fs_mem s) word prog hdr) ks)"
  shows "\<exists>e x t. emu_segments u word uc prog hdr ks entry s = Some (e, x, t) \<and> e \<noteq> UC_ERR_OK"
  using assms(2,3)
proof (induction ks)
  case (Cons i ks)
  then obtain g where g: "segment_at (fs_mem s) word prog hdr i = Some g" by auto
  show ?case
  proof (cases "ep_memsz g = 0")
    case True
    then have "\<not> loads (fs_mem s) word prog hdr i" using g by (simp add: loads_def)
    then show ?thesis using Cons g True by simp
  next
    case False
    let ?p = "prog + word * (eh_phoff hdr + ucast (eh_phentsize hdr) * of_nat i)"
    obtain e t where map: "uc_mem_map_ptr u uc NVK_PROG_START (ep_memsz g) (segment_prot (ep_flags g)) (?p + 32 * ep_offset g) s = (e, t)"
      by fastforce
    show ?thesis
    proof (cases "e = UC_ERR_OK")
      case True
      have "fs_mem t = fs_mem s" using assms(1) map unfolding no_overlap_def by (metis snd_conv)
      moreover have "fst (uc_mem_map_ptr u uc NVK_PROG_START n' p' h' t) \<noteq> UC_ERR_OK" if "n' \<noteq> 0" for n' p' h'
        using assms(1) map False that True unfolding no_overlap_def by (metis fst_conv snd_conv)
      moreover have "filter (loads (fs_mem s) word prog hdr) ks \<noteq> []"
        using Cons.prems(2) by (auto split: if_splits)
      then have "\<exists>j \<in> set ks. loads (fs_mem s) word prog hdr j" by (metis filter_False)
      ultimately show ?thesis
        using emu_segments_refused [where s = t and ks = ks and word = word and prog = prog] Cons.prems(1) g map False True by (simp add: Let_def)
    next
      case e: False
      then show ?thesis using g map False by (simp add: Let_def)
    qed
  qed
qed simp

lemma emu_opens:
  assumes "prog \<noteq> 0" "elf_header_at (fs_mem s) prog = Some hdr" "eh_machine hdr = 3" "uc_open u s = (UC_ERR_OK, uc, s1)"
    and "uc_mem_map u uc NVK_RAM_START NVK_RAM_END UC_PROT_ALL (uc_hook_add u uc 0 s1) = (UC_ERR_OK, s2)"
  shows "nvk_emu u word prog sz impl s = emu_program u word uc prog hdr impl s2"
  using assms by (simp add: nvk_emu_def)

subsection \<open>Properties\<close>

text \<open>A machine that keeps the addresses mapped so far, and a file of two segments of four bytes at \<open>0x1000\<close>, on a host with
  pointers of eight bytes.\<close>

record emu_state = nvk_state +
  emu_regions :: "u32 list"

definition region_engine :: "emu_state unicorn" where
  "region_engine = \<lparr>uc_open = (\<lambda>s. (0, 1, s)), uc_close = (\<lambda>_ s. s), uc_hook_add = (\<lambda>_ _ s. s),
     uc_mem_map = (\<lambda>_ a _ _ s. (0, s\<lparr>emu_regions := a # emu_regions s\<rparr>)),
     uc_mem_map_ptr = (\<lambda>_ a _ _ _ s. if a \<in> set (emu_regions s) then (11, s) else (0, s\<lparr>emu_regions := a # emu_regions s\<rparr>)),
     uc_reg_read = (\<lambda>_ _ _. 0), uc_reg_write = (\<lambda>_ _ _ s. s), uc_emu_start = (\<lambda>_ _ _ s. Some (0, s))\<rparr>"

definition sample_segment :: elf_program where
  "sample_segment = \<lparr>ep_type = 1, ep_offset = 0, ep_vaddr = 0x200000, ep_paddr = 0, ep_filesz = 4, ep_memsz = 4, ep_flags = 5, ep_align = 0\<rparr>"

definition segments_mem :: "u16 \<Rightarrow> mem" where
  "segments_mem n = write_bytes (write_bytes (write_bytes Map.empty 0x1000 (header_bytes (sample_header\<lparr>eh_phnum := n\<rparr>)))
     0x11A0 (program_bytes sample_segment)) 0x12A0 (program_bytes sample_segment)"

definition emu_at_start :: "u16 \<Rightarrow> emu_state" where
  "emu_at_start n = (nvk_state.extend nvk_at_start (emu_state.fields []))\<lparr>fs_mem := segments_mem n\<rparr>"

lemma emu_at_start_fields: "fs_mem (emu_at_start n) = segments_mem n" "emu_regions (emu_at_start n) = []"
  by (simp_all add: emu_at_start_def nvk_state.defs emu_state.defs)

lemma bytes_at_kept:
  assumes "bytes_at m p cs" "disjoint p (length cs) q (length bs)" "length cs \<le> 4294967296" "length bs \<le> 4294967296"
  shows "bytes_at (write_bytes m q bs) p cs"
  using assms by (simp add: bytes_at_nth write_bytes_nth disjoint_def)

lemma segments_mem_image:
  "elf_header_at (segments_mem n) 0x1000 = Some (sample_header\<lparr>eh_phnum := n\<rparr>)"
  "elf_program_at (segments_mem n) 0x11A0 = Some sample_segment" "elf_program_at (segments_mem n) 0x12A0 = Some sample_segment"
proof -
  let ?h = "header_bytes (sample_header\<lparr>eh_phnum := n\<rparr>)" and ?g = "program_bytes sample_segment"
  let ?m1 = "write_bytes Map.empty 0x1000 ?h"
  have len: "length ?h = 52" "length ?g = 32" by (simp_all add: header_bytes_def program_bytes_def sample_header_def)
  have id: "length (eh_ident (sample_header\<lparr>eh_phnum := n\<rparr>)) = 16" by (simp add: sample_header_def)
  have "disjoint 0x1000 52 0x11A0 32" "disjoint 0x1000 52 0x12A0 32" "disjoint 0x11A0 32 0x12A0 32"
    by (rule disjointI; simp)+
  note away = this
  have "bytes_at (write_bytes ?m1 0x11A0 ?g) 0x1000 ?h"
    by (rule bytes_at_kept) (use away len bytes_at_write_bytes [of ?h Map.empty "0x1000"] in simp_all)
  then have "bytes_at (segments_mem n) 0x1000 ?h"
    unfolding segments_mem_def by (rule bytes_at_kept) (use away len in simp_all)
  then show "elf_header_at (segments_mem n) 0x1000 = Some (sample_header\<lparr>eh_phnum := n\<rparr>)" by (rule elf_structures_image(1) [OF id])
  have "bytes_at (segments_mem n) 0x11A0 ?g"
    unfolding segments_mem_def
    by (rule bytes_at_kept) (use away len bytes_at_write_bytes [of ?g ?m1 "0x11A0"] in simp_all)
  then show "elf_program_at (segments_mem n) 0x11A0 = Some sample_segment" by (rule elf_structures_image(2) [OF id])
  have "bytes_at (segments_mem n) 0x12A0 ?g"
    unfolding segments_mem_def by (rule bytes_at_write_bytes) (simp add: len)
  then show "elf_program_at (segments_mem n) 0x12A0 = Some sample_segment" by (rule elf_structures_image(2) [OF id])
qed

lemma region_engine_no_overlap: "no_overlap region_engine uc"
  by (simp add: no_overlap_def region_engine_def UC_ERR_OK_def)

lemma sample_opens:
  "uc_open region_engine s = (UC_ERR_OK, 1, s)"
  "uc_mem_map region_engine 1 NVK_RAM_START NVK_RAM_END UC_PROT_ALL (uc_hook_add region_engine 1 0 s) = (UC_ERR_OK, s\<lparr>emu_regions := 0 # emu_regions s\<rparr>)"
  by (simp_all add: region_engine_def UC_ERR_OK_def NVK_RAM_START_def)

text \<open>C23: a program with two segments to load never runs in the virtual kernel: each of them is mapped at the same address, which
  the engine refuses the second time, and \<open>nvk_emu\<close> ends with that error.\<close>

theorem emu_one_segment_only:
  assumes "prog \<noteq> 0" "elf_header_at (fs_mem s) prog = Some hdr" "eh_machine hdr = 3" "uc_open u s = (UC_ERR_OK, uc, s1)"
    and "uc_mem_map u uc NVK_RAM_START NVK_RAM_END UC_PROT_ALL (uc_hook_add u uc 0 s1) = (UC_ERR_OK, s2)" "fs_mem s2 = fs_mem s"
    and "\<forall>i < unat (eh_phnum hdr). segment_at (fs_mem s) word prog hdr i \<noteq> None"
    and "i < j" "j < unat (eh_phnum hdr)" "loads (fs_mem s) word prog hdr i" "loads (fs_mem s) word prog hdr j"
    and "no_overlap u uc"
  shows "\<exists>e t. nvk_emu u word prog sz impl s = Some (e, t) \<and> e \<noteq> UC_ERR_OK"
proof -
  let ?ks = "[0..<unat (eh_phnum hdr)]"
  have "{i, j} \<subseteq> set (filter (loads (fs_mem s) word prog hdr) ?ks)" using assms(8-11) by auto
  then have "card {i, j} \<le> length (filter (loads (fs_mem s) word prog hdr) ?ks)"
    by (meson List.finite_set card_length card_mono le_trans)
  then have "2 \<le> length (filter (loads (fs_mem s2) word prog hdr) ?ks)" using assms(6,8) by simp
  moreover have "\<forall>k \<in> set ?ks. segment_at (fs_mem s2) word prog hdr k \<noteq> None" using assms(6,7) by simp
  ultimately obtain e x t where "emu_segments u word uc prog hdr ?ks 0 s2 = Some (e, x, t)" "e \<noteq> UC_ERR_OK"
    using emu_segments_two [OF assms(12)] by blast
  then show ?thesis using emu_opens [OF assms(1-5)] by (simp add: emu_program_def)
qed

theorem emu_one_segment_only_witness: "\<exists>e t. nvk_emu region_engine 8 0x1000 0 0 (emu_at_start 2) = Some (e, t) \<and> e \<noteq> UC_ERR_OK"
proof -
  let ?s = "emu_at_start 2" and ?h = "sample_header\<lparr>eh_phnum := 2\<rparr>"
  have hdr: "elf_header_at (fs_mem ?s) 0x1000 = Some ?h" using segments_mem_image by (simp add: emu_at_start_fields)
  have h: "eh_phoff ?h = 52" "eh_phentsize ?h = 32" "eh_machine ?h = 3" "unat (eh_phnum ?h) = 2" by (simp_all add: sample_header_def)
  have seg: "segment_at (fs_mem ?s) 8 0x1000 ?h 0 = Some sample_segment" "segment_at (fs_mem ?s) 8 0x1000 ?h 1 = Some sample_segment"
    using segments_mem_image [of 2] h by (simp_all add: emu_at_start_fields)
  then have loads: "loads (fs_mem ?s) 8 0x1000 ?h 0" "loads (fs_mem ?s) 8 0x1000 ?h 1" by (simp_all add: loads_def sample_segment_def)
  have all: "\<forall>i < unat (eh_phnum ?h). segment_at (fs_mem ?s) 8 0x1000 ?h i \<noteq> None"
    unfolding h(4) less_2_cases_iff using seg by auto
  show ?thesis
    by (rule emu_one_segment_only [OF _ hdr h(3) sample_opens _ all _ _ loads region_engine_no_overlap]) (use h(4) in simp_all)
qed

text \<open>A program with one segment and no sections is mapped and started, with its argument in EAX, at its entry point behind
  the start of programs only if the segment is as long as that entry is high, at address 0 otherwise; and the address to stop
  at is the highest, since the size of a symbol that was not found is 0.\<close>

theorem emu_starts_program:
  assumes "prog \<noteq> 0" "elf_header_at (fs_mem s) prog = Some hdr" "eh_machine hdr = 3" "uc_open u s = (UC_ERR_OK, uc, s1)"
    and "uc_mem_map u uc NVK_RAM_START NVK_RAM_END UC_PROT_ALL (uc_hook_add u uc 0 s1) = (UC_ERR_OK, s2)"
    and "eh_phnum hdr = 1" "eh_shnum hdr = 0" "elf_program_at (fs_mem s2) p = Some g" "p = prog + word * eh_phoff hdr" "ep_memsz g \<noteq> 0"
    and "uc_mem_map_ptr u uc NVK_PROG_START (ep_memsz g) (segment_prot (ep_flags g)) (p + 32 * ep_offset g) s2 = (UC_ERR_OK, s3)"
    and "uc_emu_start u uc (if ep_memsz g \<ge> eh_entry hdr then eh_entry hdr + NVK_PROG_START else 0) (- 1)
      (uc_reg_write u uc EAX impl s3) = Some (e, s4)"
  shows "nvk_emu u word prog sz impl s = Some (e, uc_close u uc s4)"
proof -
  have "[0..<unat (eh_phnum hdr)] = [0]" "[0..<unat (eh_shnum hdr)] = []" using assms(6,7) by simp_all
  then have "emu_program u word uc prog hdr impl s2 = Some (e, uc_close u uc s4)"
    using assms(8-12) by (simp add: emu_program_def Let_def emu_run_def split del: if_split)
  then show ?thesis using emu_opens [OF assms(1-5)] by simp
qed

theorem emu_starts_program_witness: "\<exists>t. nvk_emu region_engine 8 0x1000 0 0 (emu_at_start 1) = Some (0, t)"
proof -
  let ?s = "emu_at_start 1" and ?h = "sample_header\<lparr>eh_phnum := 1\<rparr>"
  let ?s2 = "?s\<lparr>emu_regions := 0 # emu_regions ?s\<rparr>"
  let ?s3 = "?s\<lparr>emu_regions := [NVK_PROG_START, 0]\<rparr>"
  have hdr: "elf_header_at (fs_mem ?s) 0x1000 = Some ?h" using segments_mem_image by (simp add: emu_at_start_fields)
  have h: "eh_machine ?h = 3" "eh_phnum ?h = 1" "eh_shnum ?h = 0" "0x11A0 = 0x1000 + 8 * eh_phoff ?h" by (simp_all add: sample_header_def)
  have seg: "elf_program_at (fs_mem ?s2) 0x11A0 = Some sample_segment" using segments_mem_image [of 1] by (simp add: emu_at_start_fields)
  have map: "uc_mem_map_ptr region_engine 1 NVK_PROG_START (ep_memsz sample_segment) (segment_prot (ep_flags sample_segment))
      (0x11A0 + 32 * ep_offset sample_segment) ?s2 = (UC_ERR_OK, ?s3)"
    by (simp add: region_engine_def UC_ERR_OK_def NVK_PROG_START_def NVK_RAM_END_def NVK_RAM_START_def NVK_RAM_SIZE_def emu_at_start_fields)
  have run: "uc_emu_start region_engine 1 a b (uc_reg_write region_engine 1 EAX 0 ?s3) = Some (0, ?s3)" for a b
    by (simp add: region_engine_def)
  have sz: "ep_memsz sample_segment \<noteq> 0" by (simp add: sample_segment_def)
  show ?thesis using emu_starts_program [OF _ hdr h(1) sample_opens h(2,3) seg h(4) sz map run] by simp
qed

text \<open>The first system call of a program faults: the hook is added without data, and address 0 holds none.\<close>

lemma hook_faults: "fs_mem s 0 = None \<Longrightarrow> hook_syscall u run loc uc 0 s = None"
  by (simp add: hook_syscall_def load32_def numeral_eq_Suc)

end
