(* ===== verification/NvkMain.thy ===== *)
theory NvkMain
  imports Boot Emulator
begin

text \<open>
  The start of the virtual kernel, \<^verbatim>\<open>tools/nvk/src/main.c\<close> and \<^verbatim>\<open>time.c\<close>: the tables are filled, the directory of the host
  named by the first argument is mounted at "/", and "/init" is run.

  The state is that of the processes with the table of modules and the time of the start; the file systems of the
  kernel that need more of a state than that are registered, not used. \<open>nvk_env\<close> holds the answers of \<open>malloc\<close>, the addresses of
  the functions stored in tables, and what stands for the host, the emulator and the modules. A message on the error stream is a value.
\<close>

record nvk_main_state = nvk_state +
  nvk_mods :: mod_state
  nvk_boot_time :: u32

record 'd nvk_env =
  ne_host :: "('d, nvk_main_state) host"
  ne_base :: "nvk_main_state drivers"
  ne_blocks :: "nvk_main_state \<Rightarrow> mount_blocks"
  ne_garbage :: fs_node
  ne_mount :: u32
  ne_get_child :: u32
  ne_read :: u32
  ne_write :: u32
  ne_rootfs :: ptr
  ne_root :: ptr
  ne_procfs_block :: ptr
  ne_procfs_opts :: fs_opts
  ne_initrd_block :: ptr
  ne_initrd_opts :: fs_opts
  ne_rootfs_block :: ptr
  ne_rootfs_opts :: fs_opts
  ne_call :: "u32 \<Rightarrow> nvk_main_state mod_state_scheme \<Rightarrow> (u32 \<times> nvk_main_state mod_state_scheme) option"
  ne_mods_start :: ptr
  ne_mods_stop :: ptr
  ne_mp_block :: ptr
  ne_mp_garbage :: mountpoint
  ne_now :: u32
  ne_emu :: "ptr \<Rightarrow> u32 \<Rightarrow> ptr \<Rightarrow> nvk_main_state \<Rightarrow> (u32 \<times> nvk_main_state) option"
  ne_entry :: "u32 \<Rightarrow> ptr \<Rightarrow> nvk_main_state \<Rightarrow> (ptr \<times> nvk_main_state) option"
  ne_bufs :: "nat \<Rightarrow> ptr"
  ne_prog :: ptr
  ne_proc_block :: ptr
  ne_init :: ptr

definition nvk_boottime :: "u32 \<Rightarrow> ptr \<Rightarrow> nvk_main_state \<Rightarrow> (u32 \<times> nvk_main_state) option" where
  "nvk_boottime now t s = (let v = now - nvk_boot_time s in
     if t = 0 then Some (v, s) else map_option (\<lambda>m. (v, s\<lparr>fs_mem := m\<rparr>)) (store32 (fs_mem s) t v))"

subsection \<open>The functions of the root filesystem behind their addresses\<close>

text \<open>The answers of \<open>malloc\<close> for a new child depend on the state.\<close>

definition rootfs_drivers :: "'d nvk_env \<Rightarrow> nvk_main_state drivers" where
  "rootfs_drivers e = (ne_base e)\<lparr>
     call_mount := (\<lambda>code old source flags data s.
       if code = ne_mount e then do {
         path \<leftarrow> cstr_of (fs_mem s) data;
         (r, q, t) \<leftarrow> rootfs_mount (ne_rootfs e) (ne_root e) (ne_garbage e) (ne_get_child e) path s;
         Some (r, case q of None \<Rightarrow> old | Some q \<Rightarrow> q, t)
       }
       else call_mount (ne_base e) code old source flags data s),
     call_get_child := (\<lambda>code node tmp i s.
       if code = ne_get_child e then
         map_option (\<lambda>(r, c, t). (r, case c of None \<Rightarrow> tmp | Some c \<Rightarrow> c, t))
           (rootfs_get_child (ne_host e) (ne_blocks e s) (ne_garbage e) (ne_get_child e) (ne_read e) (ne_write e) s node i)
       else call_get_child (ne_base e) code node tmp i s),
     call_read := (\<lambda>code node offset buff sz s.
       if code = ne_read e then rootfs_read (ne_host e) s node offset buff sz
       else call_read (ne_base e) code node offset buff sz s),
     call_write := (\<lambda>code node offset buff sz s.
       if code = ne_write e then rootfs_write (ne_host e) s node offset buff sz
       else call_write (ne_base e) code node offset buff sz s)\<rparr>"

subsection \<open>The main program\<close>

definition nvk_with_mods ::
  "(nvk_main_state mod_state_scheme \<Rightarrow> (u32 \<times> nvk_main_state mod_state_scheme) option) \<Rightarrow> nvk_main_state \<Rightarrow> (u32 \<times> nvk_main_state) option" where
  "nvk_with_mods f s = map_option (\<lambda>(r, t). (r, (mod_state.more t)\<lparr>nvk_mods := mod_state.truncate t, klog_calls := klog_calls t\<rparr>))
     (f (mod_state.extend ((nvk_mods s)\<lparr>klog_calls := klog_calls s\<rparr>) s))"

definition nvk_tables :: "'d nvk_env \<Rightarrow> nvk_main_state \<Rightarrow> (string option \<times> nvk_main_state) option" where
  "nvk_tables env =
     must ''Failed to initialize procfs'' (\<lambda>s. procfs_init s (ne_procfs_block env) (ne_procfs_opts env)) (
     must ''Failed to initialize initrd'' (\<lambda>s. initrd_init s (ne_initrd_block env) (ne_initrd_opts env)) (
     must ''Failed to load kernel modules'' (nvk_with_mods (modules_init (ne_call env) (ne_mods_start env) (ne_mods_stop env))) (
     must ''Failed to initialize rootfs'' (\<lambda>s. rootfs_init s (ne_rootfs_block env) (ne_rootfs_opts env)) (
     must ''Failed to load kernel modules'' (\<lambda>s. Some (devfs_init, s)) (\<lambda>s. Some (None, s))))))"

definition nvk_mount :: "'d nvk_env \<Rightarrow> ptr \<Rightarrow> nvk_main_state \<Rightarrow> (string option \<times> nvk_main_state) option" where
  "nvk_mount env arg s = do {
     fs \<leftarrow> fs_fromname s ''rootfs'';
     if fs = 0 then Some (Some ''Failed to find fs: rootfs'', s)
     else must ''Failed to find mount rootfs''
       (\<lambda>t. mountpoint_create_fromnode (rootfs_drivers env) t (ne_mp_block env) (ne_mp_garbage env) fs 0 ''/'' 0 arg)
       (\<lambda>t. Some (None, t)) s
   }"

definition nvk_run_init :: "'d nvk_env \<Rightarrow> nvk_main_state \<Rightarrow> (string option \<times> nvk_main_state) option" where
  "nvk_run_init env = must ''Failed to execute init process''
     (\<lambda>s. nvk_proc_exec (ne_emu env) (ne_entry env) (rootfs_drivers env) (ne_bufs env) (ne_prog env) (ne_proc_block env) s (ne_init env))
     (\<lambda>s. Some (None, s))"

text \<open>The status the program exits with, 0 or 1, the message printed, if any, and the state.\<close>

definition nvk_main :: "'d nvk_env \<Rightarrow> u32 \<Rightarrow> ptr \<Rightarrow> nvk_main_state \<Rightarrow> (u32 \<times> string option \<times> nvk_main_state) option" where
  "nvk_main env argc arg s =
     (if sint argc < 2 then Some (1, Some ''Requires the rootfs argument'', s)
      else map_option (\<lambda>(msg, t). (if msg = None then 0 else 1, msg, t))
        (and_then (nvk_tables env) (and_then (nvk_mount env arg) (nvk_run_init env)) (s\<lparr>nvk_boot_time := ne_now env\<rparr>)))"

subsection \<open>Filling the tables\<close>

lemma nvk_no_modules:
  assumes "ne_mods_start env = ne_mods_stop env" "modules_installed (nvk_mods s) = 0"
  shows "\<exists>m c. nvk_with_mods (modules_init (ne_call env) (ne_mods_start env) (ne_mods_stop env)) s =
    Some (0, s\<lparr>nvk_mods := m, klog_calls := c\<rparr>)"
  using assms
  by (simp add: nvk_with_mods_def modules_init_def section_modules_def printk_s_def mod_state.defs init_all.simps) (intro exI, rule refl)

text \<open>The parts of the state that filling the tables leaves alone.\<close>

definition nvk_same :: "nvk_main_state \<Rightarrow> nvk_main_state \<Rightarrow> bool" where
  "nvk_same s t \<longleftrightarrow> fs_mem t = fs_mem s \<and> next_inode t = next_inode s \<and> node_heap t = node_heap s \<and> mp_heap t = mp_heap s \<and>
     mountpoints t = mountpoints s \<and> mp_count t = mp_count s"

lemma register_fs_next:
  assumes "fs_rep s xs" "fs_fresh s p" "length name < NAME_MAX" "name \<notin> fs_name ` snd ` set xs"
  obtains t :: nvk_main_state where "register_fs s p name typ opts = Some (0, t)"
    "fs_rep t ((p, \<lparr>fs_name = name, fs_opts = opts, fs_type = typ\<rparr>) # xs)"
    "nvk_same s t" "nvk_mods t = nvk_mods s" "\<And>q. q \<noteq> p \<Longrightarrow> fs_fresh s q \<Longrightarrow> fs_fresh t q"
proof -
  obtain t where t: "register_fs s p name typ opts = Some (0, t)" "fs_rep t ((p, \<lparr>fs_name = name, fs_opts = opts, fs_type = typ\<rparr>) # xs)"
    "t = s\<lparr>fs_heap := fs_heap t, filesystems := filesystems t, filesystem_count := filesystem_count t\<rparr>"
    by (rule register_fs_free [OF assms])
  have "nvk_same s t" by (rule subst [OF t(3) [symmetric]]) (simp add: nvk_same_def)
  moreover have "nvk_mods t = nvk_mods s" by (subst t(3)) simp
  moreover have "fs_fresh t q" if "q \<noteq> p" "fs_fresh s q" for q using register_fs_other [OF t(1) that(1)] that(2) by (simp add: fs_fresh_def)
  ultimately show ?thesis by (rule that [OF t(1,2)])
qed

lemma nvk_tables_filled:
  assumes fs: "fs_rep s []" "fs_fresh s (ne_procfs_block env)" "fs_fresh s (ne_initrd_block env)" "fs_fresh s (ne_rootfs_block env)"
      "distinct [ne_procfs_block env, ne_initrd_block env, ne_rootfs_block env]"
    and mods: "ne_mods_start env = ne_mods_stop env" "modules_installed (nvk_mods s) = 0"
  obtains t xs where "nvk_tables env s = Some (None, t)"
    "fs_rep t ((ne_rootfs_block env, \<lparr>fs_name = ''rootfs'', fs_opts = ne_rootfs_opts env, fs_type = FS_PSEUDO\<rparr>) # xs)" "nvk_same s t"
proof -
  have len: "length ''procfs'' < NAME_MAX" "length ''initrd'' < NAME_MAX" "length ''rootfs'' < NAME_MAX" by (simp_all add: NAME_MAX_def)
  obtain s1 where s1: "register_fs s (ne_procfs_block env) ''procfs'' FS_PSEUDO (ne_procfs_opts env) = Some (0, s1)"
    "fs_rep s1 [(ne_procfs_block env, \<lparr>fs_name = ''procfs'', fs_opts = ne_procfs_opts env, fs_type = FS_PSEUDO\<rparr>)]"
    "nvk_same s s1" "nvk_mods s1 = nvk_mods s" "\<And>q. q \<noteq> ne_procfs_block env \<Longrightarrow> fs_fresh s q \<Longrightarrow> fs_fresh s1 q"
    by (rule register_fs_next [OF fs(1,2) len(1), of FS_PSEUDO "ne_procfs_opts env"]) auto
  have f1: "fs_fresh s1 (ne_initrd_block env)" "fs_fresh s1 (ne_rootfs_block env)" using s1(5) fs(3-5) by auto
  obtain s2 where s2: "register_fs s1 (ne_initrd_block env) ''initrd'' FS_VIRT (ne_initrd_opts env) = Some (0, s2)"
    "fs_rep s2 [(ne_initrd_block env, \<lparr>fs_name = ''initrd'', fs_opts = ne_initrd_opts env, fs_type = FS_VIRT\<rparr>),
      (ne_procfs_block env, \<lparr>fs_name = ''procfs'', fs_opts = ne_procfs_opts env, fs_type = FS_PSEUDO\<rparr>)]"
    "nvk_same s1 s2" "nvk_mods s2 = nvk_mods s1" "\<And>q. q \<noteq> ne_initrd_block env \<Longrightarrow> fs_fresh s1 q \<Longrightarrow> fs_fresh s2 q"
    by (rule register_fs_next [OF s1(2) f1(1) len(2), of FS_VIRT "ne_initrd_opts env"]) auto
  obtain m c where mc: "nvk_with_mods (modules_init (ne_call env) (ne_mods_start env) (ne_mods_stop env)) s2 = Some (0, s2\<lparr>nvk_mods := m, klog_calls := c\<rparr>)"
    using nvk_no_modules [OF mods(1), of s2] mods(2) s1(4) s2(4) by auto
  let ?s3 = "s2\<lparr>nvk_mods := m, klog_calls := c\<rparr>"
  have s3: "fs_rep ?s3 [(ne_initrd_block env, \<lparr>fs_name = ''initrd'', fs_opts = ne_initrd_opts env, fs_type = FS_VIRT\<rparr>),
      (ne_procfs_block env, \<lparr>fs_name = ''procfs'', fs_opts = ne_procfs_opts env, fs_type = FS_PSEUDO\<rparr>)]"
    "fs_fresh ?s3 (ne_rootfs_block env)"
    using s2(2) s2(5) [of "ne_rootfs_block env"] f1(2) fs(5) by (auto simp: fs_rep_def fs_fresh_def)
  obtain s4 where s4: "register_fs ?s3 (ne_rootfs_block env) ''rootfs'' FS_PSEUDO (ne_rootfs_opts env) = Some (0, s4)"
    "fs_rep s4 [(ne_rootfs_block env, \<lparr>fs_name = ''rootfs'', fs_opts = ne_rootfs_opts env, fs_type = FS_PSEUDO\<rparr>),
      (ne_initrd_block env, \<lparr>fs_name = ''initrd'', fs_opts = ne_initrd_opts env, fs_type = FS_VIRT\<rparr>),
      (ne_procfs_block env, \<lparr>fs_name = ''procfs'', fs_opts = ne_procfs_opts env, fs_type = FS_PSEUDO\<rparr>)]"
    "nvk_same ?s3 s4"
    by (rule register_fs_next [OF s3 len(3), of FS_PSEUDO "ne_rootfs_opts env"]) auto
  have "nvk_tables env s = Some (None, s4)"
    using s1(1) s2(1) mc s4(1) by (simp add: nvk_tables_def must_def procfs_init_def initrd_init_def rootfs_init_def devfs_init_def)
  moreover have "nvk_same s s4" using s1(3) s2(3) s4(3) by (simp add: nvk_same_def)
  ultimately show ?thesis using that s4(2) by blast
qed

subsection \<open>Mounting the directory\<close>

lemma fs_node_create_mem: "fs_node_create s p g name mode = Some (r, c, t) \<Longrightarrow> fs_mem t = fs_mem s"
  by (auto simp: fs_node_create_def bind_eq_Some_conv split: if_splits)

lemma rootfs_make_child_mem:
  "rootfs_make_child hs bl g gc rd wr rootfs path name s = Some (r, c, t) \<Longrightarrow> fs_mem t = fs_mem s"
  unfolding rootfs_make_child_def Let_def
  by (auto simp: bind_eq_Some_conv dest!: fs_node_create_mem split: option.split_asm if_split_asm)

lemma rootfs_get_child_mem:
  "rootfs_get_child hs bl g gc rd wr s node i = Some (r, c, t) \<Longrightarrow> fs_mem t = fs_mem s"
  unfolding rootfs_get_child_def Let_def
  by (auto simp: bind_eq_Some_conv dest: rootfs_make_child_mem split: option.split_asm if_split_asm)

abbreviation root_made :: "'d nvk_env \<Rightarrow> nvk_main_state \<Rightarrow> fs_node" where
  "root_made env s \<equiv> (ne_garbage env)\<lparr>node_name := ''/'', node_mode := push_bit (unat FS_NODE_DIR) 6, node_ino := next_inode s,
     node_impl := ne_rootfs env, node_opts := (node_opts (ne_garbage env))\<lparr>op_get_child := ne_get_child env\<rparr>\<rparr>"

lemma nvk_mounted:
  assumes fs: "fs_rep s ((fp, f) # fss)" "fs_name f = ''rootfs''" "op_mount (fs_opts f) = ne_mount env" "ne_mount env \<noteq> 0"
    and mp: "mp_rep s []" "ne_mp_block env \<noteq> 0" "mp_heap s (ne_mp_block env) = None"
    and nz: "ne_rootfs env \<noteq> 0" "ne_root env \<noteq> 0" and ino: "0 \<le> sint (next_inode s)"
    and arg: "cstr_of (fs_mem s) arg = Some path"
  obtains t v where "nvk_mount env arg s = Some (None, t)" "mp_rep t [(ne_mp_block env, v)]" "mp_target v = []" "mp_rootnode v = ne_root env"
    "node_heap t (ne_root env) = Some (root_made env s)" "rootfses t (ne_rootfs env) = Some \<lparr>rf_path = path, rf_cache = no_list\<rparr>"
    "fs_mem t = fs_mem s" "next_inode t = next_inode s + 1"
proof -
  have list: "slist_rep (fs_heap s) (filesystems s) ((fp, f) # fss)" using fs(1) unfolding fs_rep_def by blast
  have mem: "(fp, f) \<in> set ((fp, f) # fss)" by (rule list.set_intros)
  have fp: "fs_fromname s ''rootfs'' = Some fp" "deref (fs_heap s) fp = Some f" "fp \<noteq> 0"
    using fs_names.lookup_listed [OF fs(1) mem] fs(2) slist_rep_deref [OF list mem] fs_rep_nonzero [OF fs(1)] by (simp_all only:) auto
  define v where "v = (ne_mp_garbage env)\<lparr>mp_target := [], mp_flags := 0, mp_fsname := fs_name f\<rparr>"
  let ?s1 = "s\<lparr>mp_heap := (mp_heap s)(ne_mp_block env \<mapsto> Cell v 0)\<rparr>"
  let ?t = "?s1\<lparr>rootfses := (rootfses s)(ne_rootfs env \<mapsto> \<lparr>rf_path = path, rf_cache = no_list\<rparr>),
    node_heap := (node_heap s)(ne_root env \<mapsto> root_made env s), next_inode := next_inode s + 1\<rparr>"
  have "call_mount (rootfs_drivers env) (op_mount (fs_opts f)) (mp_rootnode v) 0 0 arg ?s1 = Some (0, ne_root env, ?t)"
    using fs(3) arg nz ino by (simp add: rootfs_drivers_def rootfs_mount_def fs_node_create_def strcpy_field_def NAME_MAX_def no_list_def Let_def)
  then obtain u where u: "mountpoint_create_fromnode (rootfs_drivers env) s (ne_mp_block env) (ne_mp_garbage env) fp 0 ''/'' 0 arg = Some (0, u)"
    "mp_rep u [(ne_mp_block env, v\<lparr>mp_rootnode := ne_root env\<rparr>)]"
    "u = ?t\<lparr>mp_heap := mp_heap u, mountpoints := ne_mp_block env, mp_count := mp_count u\<rparr>"
    using fs(3,4) by (rule_tac mountpoint_archive [OF fp(3,2) _ mp v_def, where t = ?t]) auto
  have "nvk_mount env arg s = Some (None, u)"
    using fp u(1) by (simp add: nvk_mount_def must_def)
  moreover have "node_heap u (ne_root env) = Some (root_made env s)" "rootfses u (ne_rootfs env) = Some \<lparr>rf_path = path, rf_cache = no_list\<rparr>"
    "fs_mem u = fs_mem s" "next_inode u = next_inode s + 1" by (subst u(3), simp)+
  ultimately show ?thesis by (intro that [of u "v\<lparr>mp_rootnode := ne_root env\<rparr>"]) (use u(2) in \<open>simp_all add: v_def\<close>)
qed

text \<open>The first file of the directory is found under its name.\<close>

lemma nvk_first_found:
  assumes mp: "mp_rep t [(q, v)]" "mp_target v = []" "mp_rootnode v = ne_root env" "ne_root env \<noteq> 0"
    and root: "node_heap t (ne_root env) = Some n" "node_name n = ''/''" "op_get_child (node_opts n) = ne_get_child env" "ne_get_child env \<noteq> 0"
      "rootfses t (node_impl n) = Some \<lparr>rf_path = dir, rf_cache = l0\<rparr>" "liblist_rep l0 []"
    and bl: "child_blocks (\<lambda>_. ne_blocks env t) (ne_root env) l0 1" "0 \<le> sint (next_inode t)"
    and host: "\<And>s. h_opendir (ne_host env) dir s = Some d" "next_entry (ne_host env) (h_seekdir (ne_host env) 0 d) 0 = Some (Some b)"
      "\<And>s. h_stat (ne_host env) (dir @ CHR ''/'' # b) s = Some (kind, sz)" "kind \<noteq> S_OTHER" "length b < NAME_MAX"
    and path: "path_at (fs_mem t) path (CHR ''/'' # b)" "b \<noteq> []" "CHR ''/'' \<notin> set b" "CHR 0x00 \<notin> set b"
  shows "\<exists>u. fs_resolve (rootfs_drivers env) t path = Some (0, Some (mb_file (ne_blocks env t)), u) \<and>
    map_option node_name (node_heap u (mb_file (ne_blocks env t))) = Some b"
proof -
  let ?e = "rootfs_drivers env" and ?c = "mb_file (ne_blocks env t)"
  have "listing (\<lambda>_. ne_blocks env t) (ne_root env) n dir l0 b (next_inode t) 0 t" using root by (simp add: listing_def)
  note step = listing_step [OF bl(1) _ root(2) host this, where g = "ne_garbage env" and gc = "ne_get_child env" and rd = "ne_read env" and
      wr = "ne_write env"]
  obtain u where
    u: "rootfs_get_child (ne_host env) (ne_blocks env t) (ne_garbage env) (ne_get_child env) (ne_read env) (ne_write env) t (ne_root env) 0
      = Some (0, Some ?c, u)" "listing (\<lambda>_. ne_blocks env t) (ne_root env) n dir l0 b (next_inode t) (Suc 0) u"
    using step bl(2) by auto
  obtain m where m: "node_heap u ?c = Some m" "node_name m = b" using u(2) by (auto simp: listing_def)
  have "unat path + 1 < 4294967296" using path(1) by (simp add: path_at_def)
  then have "unat (path + 1) = unat path + 1" by (simp add: unat_word_ariths)
  then have tail: "path_at (fs_mem t) (path + 1) b" using path(1) by (auto simp: path_at_def word_unat_eq_iff)
  have mem: "fs_mem u = fs_mem t" by (rule rootfs_get_child_mem [OF u(1)])
  have str: "cstr_of (fs_mem u) (path + 1) = Some b" using tail unfolding mem by (simp add: path_at_def cstr_of_str)
  have "fs_resolve ?e t path = fs_node_resolve ?e t (ne_root env) (path + 1)"
    using path tail mp fs_resolve_mounted [OF mp(1), of path "path + 1" b q v ?e]
    by (simp add: path_at_def skip_slash_def SLASH_def strncmp_def)
  also have "\<dots> = resolve_loop ?e t (ne_root env) 0 0 1 (path + 1)"
    by (simp add: fs_node_resolve_def resolve_enter_single [OF tail path(2,3)])
  also have "\<dots> = Some (0, Some ?c, u)"
    using root u(1) m str path(4) by (subst resolve_loop.simps) (simp add: rootfs_drivers_def)
  finally show ?thesis using m by auto
qed

subsection \<open>Properties\<close>

text \<open>C29: with the path of a directory as its argument the virtual kernel mounts that directory at "/", and hands "/init" to
  \<open>proc_exec\<close> in a state in which that path resolves to the file of the host, provided that it is the first one the
  directory lists; the program ends with the status 0 if \<open>proc_exec\<close> does not fail and with 1 if it does.\<close>

theorem nvk_main_runs_init:
  assumes fs: "fs_rep s []" "fs_fresh s (ne_procfs_block env)" "fs_fresh s (ne_initrd_block env)" "fs_fresh s (ne_rootfs_block env)"
      "distinct [ne_procfs_block env, ne_initrd_block env, ne_rootfs_block env]" "op_mount (ne_rootfs_opts env) = ne_mount env" "ne_mount env \<noteq> 0"
    and mods: "ne_mods_start env = ne_mods_stop env" "modules_installed (nvk_mods s) = 0"
    and mp: "mp_rep s []" "ne_mp_block env \<noteq> 0" "mp_heap s (ne_mp_block env) = None"
    and nz: "ne_rootfs env \<noteq> 0" "ne_root env \<noteq> 0" "ne_get_child env \<noteq> 0" and ino: "unat (next_inode s) + 1 < 2147483648"
    and arg: "\<not> sint argc < 2" "cstr_of (fs_mem s) arg = Some dir"
    and bl: "\<And>t. child_blocks (\<lambda>_. ne_blocks env t) (ne_root env) no_list 1"
    and host: "\<And>s. h_opendir (ne_host env) dir s = Some d" "next_entry (ne_host env) (h_seekdir (ne_host env) 0 d) 0 = Some (Some ''init'')"
      "\<And>s. h_stat (ne_host env) (dir @ ''/init'') s = Some (S_IFREG, sz)"
    and path: "path_at (fs_mem s) (ne_init env) ''/init''"
  shows "\<exists>t c u. nvk_main env argc arg s = (case nvk_proc_exec (ne_emu env) (ne_entry env) (rootfs_drivers env) (ne_bufs env) (ne_prog env)
        (ne_proc_block env) t (ne_init env) of None \<Rightarrow> None
      | Some (r, w) \<Rightarrow> Some (if sint r < 0 then (1, Some ''Failed to execute init process'', w) else (0, None, w))) \<and>
    fs_resolve (rootfs_drivers env) t (ne_init env) = Some (0, Some c, u) \<and> map_option node_name (node_heap u c) = Some ''init''"
proof -
  let ?s = "s\<lparr>nvk_boot_time := ne_now env\<rparr>"
  have s: "fs_rep ?s []" "fs_fresh ?s (ne_procfs_block env)" "fs_fresh ?s (ne_initrd_block env)" "fs_fresh ?s (ne_rootfs_block env)"
    "modules_installed (nvk_mods ?s) = 0" using fs(1-4) mods(2) by (simp_all add: fs_rep_def fs_fresh_def)
  obtain t1 xs where t1: "nvk_tables env ?s = Some (None, t1)" "nvk_same ?s t1"
    "fs_rep t1 ((ne_rootfs_block env, \<lparr>fs_name = ''rootfs'', fs_opts = ne_rootfs_opts env, fs_type = FS_PSEUDO\<rparr>) # xs)"
    by (rule nvk_tables_filled [OF s(1-4) fs(5) mods(1) s(5)])
  have same: "mp_rep t1 []" "mp_heap t1 (ne_mp_block env) = None" "next_inode t1 = next_inode s" "fs_mem t1 = fs_mem s"
    using t1(2) mp by (simp_all add: nvk_same_def mp_rep_def)
  have pos: "0 \<le> sint (next_inode t1)" "0 \<le> sint (next_inode t1 + 1)"
    using ino_nonneg [of "next_inode s" 0] ino_nonneg [of "next_inode s" 1] ino same(3) by simp_all
  have arg1: "cstr_of (fs_mem t1) arg = Some dir" using arg(2) same(4) by simp
  obtain t v where t: "nvk_mount env arg t1 = Some (None, t)" "mp_rep t [(ne_mp_block env, v)]" "mp_target v = []" "mp_rootnode v = ne_root env"
    "node_heap t (ne_root env) = Some (root_made env t1)" "rootfses t (ne_rootfs env) = Some \<lparr>rf_path = dir, rf_cache = no_list\<rparr>"
    "fs_mem t = fs_mem t1" "next_inode t = next_inode t1 + 1"
    by (rule nvk_mounted [OF t1(3) _ _ fs(7) same(1) mp(2) same(2) nz(1,2) pos(1) arg1]) (use fs(6) in simp_all)
  have at: "path_at (fs_mem t) (ne_init env) (CHR ''/'' # ''init'')" using path t(7) same(4) by simp
  have "\<exists>u. fs_resolve (rootfs_drivers env) t (ne_init env) = Some (0, Some (mb_file (ne_blocks env t)), u) \<and>
      map_option node_name (node_heap u (mb_file (ne_blocks env t))) = Some ''init''"
    by (rule nvk_first_found [OF t(2-4) nz(2) t(5) _ _ nz(3) _ no_list_rep bl _ host(1,2) _ _ _ at, where kind = S_IFREG and sz = sz])
      (use t(6,8) pos(2) host(3) in \<open>simp_all add: NAME_MAX_def file_kind.distinct\<close>)
  moreover have "nvk_main env argc arg s = (case nvk_proc_exec (ne_emu env) (ne_entry env) (rootfs_drivers env) (ne_bufs env) (ne_prog env)
        (ne_proc_block env) t (ne_init env) of None \<Rightarrow> None
      | Some (r, w) \<Rightarrow> Some (if sint r < 0 then (1, Some ''Failed to execute init process'', w) else (0, None, w)))"
    using arg(1) t1(1) t(1) by (simp add: nvk_main_def and_then_def nvk_run_init_def must_def split: option.splits prod.splits)
  ultimately show ?thesis by blast
qed

text \<open>A host whose directory /home lists ".", "..", "init" and "bin".\<close>

definition init_host :: "(string list, nvk_main_state) host" where
  "init_host = \<lparr>h_open = (\<lambda>p w s. (3, s)), h_read = (\<lambda>fd ofs b n s. Some (n, s)), h_write = (\<lambda>fd ofs b n s. Some (n, s)),
     h_close = (\<lambda>fd s. s), h_opendir = (\<lambda>p s. Some [''.'', ''..'', ''init'', ''bin'']), h_seekdir = (\<lambda>k d. drop (unat k) d),
     h_readdir = (\<lambda>d. case d of [] \<Rightarrow> None | e # d' \<Rightarrow> Some (e, d')),
     h_stat = (\<lambda>p s. Some (S_IFREG, 52))\<rparr>"

definition home_env :: "string list nvk_env" where
  "home_env = \<lparr>ne_host = init_host, ne_base = no_drivers, ne_blocks = (\<lambda>_. zip_blocks 0), ne_garbage = ram_device, ne_mount = 0x70,
     ne_get_child = 0x71, ne_read = 0x72, ne_write = 0x73, ne_rootfs = 0x20, ne_root = 0x30, ne_procfs_block = 0x600,
     ne_procfs_opts = \<lparr>op_mount = 0, op_umount = 0\<rparr>, ne_initrd_block = 0x610, ne_initrd_opts = \<lparr>op_mount = 0, op_umount = 0\<rparr>,
     ne_rootfs_block = 0x620, ne_rootfs_opts = \<lparr>op_mount = 0x70, op_umount = 0x74\<rparr>, ne_call = (\<lambda>_ s. Some (0, s)), ne_mods_start = 0x8000,
     ne_mods_stop = 0x8000, ne_mp_block = 0x650, ne_mp_garbage = \<lparr>mp_rootnode = 0, mp_fsname = [], mp_source = [], mp_target = [], mp_flags = 0\<rparr>,
     ne_now = 1500000000, ne_emu = (\<lambda>_ _ _ s. Some (0, s)), ne_entry = (\<lambda>_ _ s. Some (0, s)), ne_bufs = (\<lambda>_. 0x5000), ne_prog = 0x1000,
     ne_proc_block = 0x4000, ne_init = 0x100\<rparr>"

definition home_state :: nvk_main_state where
  "home_state = nvk_state.extend (rootfs_state.extend (fs_state.extend
      (empty_fs\<lparr>fs_mem := write_bytes (write_bytes Map.empty 0x100 (cstring ''/init'')) 0x200 (cstring ''/home'')\<rparr>)
      (rootfs_state.fields Map.empty Map.empty)) (nvk_state.fields Map.empty 0 1 0 0 0))
    (nvk_main_state.fields \<lparr>klog_calls = [], mod_heap = Map.empty, loaded_heap = Map.empty, modules_installed = 0, modules_loaded = 0\<rparr> 0)"

lemmas home_simps = home_state_def fs_state.defs rootfs_state.defs nvk_state.defs nvk_main_state.defs empty_fs_def

lemma home_mem: "path_at (fs_mem home_state) 0x100 ''/init''" "cstr_of (fs_mem home_state) 0x200 = Some ''/home''"
proof -
  have mem: "fs_mem home_state = write_bytes (write_bytes Map.empty 0x100 (cstring ''/init'')) 0x200 (cstring ''/home'')" by (simp add: home_simps)
  have away: "disjoint 0x100 (length (cstring ''/init'')) 0x200 (length (cstring ''/home''))" by (rule disjointI) simp_all
  have "bytes_at (write_bytes Map.empty 0x100 (cstring ''/init'')) 0x100 (cstring ''/init'')"
    by (rule bytes_at_write_bytes) simp
  then have "bytes_at (fs_mem home_state) 0x100 (cstring ''/init'')"
    unfolding mem by (rule bytes_at_kept [OF _ away]) simp_all
  then show "path_at (fs_mem home_state) 0x100 ''/init''" by (simp add: path_at_def str_at_bytes)
  have "bytes_at (fs_mem home_state) 0x200 (cstring ''/home'')" unfolding mem by (rule bytes_at_write_bytes) simp
  then have "str_at (fs_mem home_state) 0x200 ''/home''" by (simp add: str_at_bytes)
  then show "cstr_of (fs_mem home_state) 0x200 = Some ''/home''" by (rule cstr_of_str)
qed

theorem nvk_main_runs_init_witness:
  "\<exists>t c u. nvk_main home_env 2 0x200 home_state = (case nvk_proc_exec (ne_emu home_env) (ne_entry home_env) (rootfs_drivers home_env)
        (ne_bufs home_env) (ne_prog home_env) (ne_proc_block home_env) t (ne_init home_env) of None \<Rightarrow> None
      | Some (r, w) \<Rightarrow> Some (if sint r < 0 then (1, Some ''Failed to execute init process'', w) else (0, None, w))) \<and>
    fs_resolve (rootfs_drivers home_env) t (ne_init home_env) = Some (0, Some c, u) \<and> map_option node_name (node_heap u c) = Some ''init''"
proof -
  have readdir: "h_readdir init_host d = (case d of [] \<Rightarrow> None | e # d' \<Rightarrow> Some (e, d'))" for d by (simp add: init_host_def)
  have "next_entry init_host [''.'', ''..'', ''init'', ''bin''] 0 = Some (Some ''init'')"
    by (simp add: next_entry.simps [of init_host] readdir del: strcmp.simps)
  then have first: "next_entry (ne_host home_env) (h_seekdir (ne_host home_env) 0 [''.'', ''..'', ''init'', ''bin'']) 0 = Some (Some ''init'')"
    by (simp add: home_env_def init_host_def)
  have host: "h_opendir (ne_host home_env) p s = Some [''.'', ''..'', ''init'', ''bin'']" "h_stat (ne_host home_env) p s = Some (S_IFREG, 52)" for p s
    by (simp_all add: home_env_def init_host_def)
  have blocks: "child_blocks (\<lambda>_. ne_blocks home_env t) (ne_root home_env) no_list 1" for t
    by (simp add: home_env_def child_blocks_def zip_blocks_def liblist_fresh_def no_list_def inj_on_def)
  have fs: "fs_rep home_state []" "fs_fresh home_state (ne_procfs_block home_env)" "fs_fresh home_state (ne_initrd_block home_env)"
      "fs_fresh home_state (ne_rootfs_block home_env)" "distinct [ne_procfs_block home_env, ne_initrd_block home_env, ne_rootfs_block home_env]"
      "op_mount (ne_rootfs_opts home_env) = ne_mount home_env" "ne_mount home_env \<noteq> 0" "ne_mods_start home_env = ne_mods_stop home_env"
      "modules_installed (nvk_mods home_state) = 0" "mp_rep home_state []" "ne_mp_block home_env \<noteq> 0" "mp_heap home_state (ne_mp_block home_env) = None"
      "ne_rootfs home_env \<noteq> 0" "ne_root home_env \<noteq> 0" "ne_get_child home_env \<noteq> 0" "unat (next_inode home_state) + 1 < 2147483648"
    by (simp_all add: home_env_def home_simps fs_rep_def fs_fresh_def mp_rep_def)
  have at: "path_at (fs_mem home_state) (ne_init home_env) ''/init''" using home_mem(1) by (simp add: home_env_def)
  have argc: "\<not> sint (2 :: u32) < 2" by simp
  show ?thesis
    by (rule nvk_main_runs_init [OF fs argc home_mem(2) blocks host(1) first host(2) at])
qed

text \<open>Without an argument nothing is touched.\<close>

lemma nvk_main_needs_argument: "sint argc < 2 \<Longrightarrow> nvk_main env argc arg s = Some (1, Some ''Requires the rootfs argument'', s)"
  by (simp add: nvk_main_def)

end
