(* ===== verification/Bus.thy ===== *)
theory Bus
  imports Dev
begin

text \<open>
  Buses, \<^verbatim>\<open>newland/src/bus.c\<close> and \<^verbatim>\<open>newland/include/newland/bus.h\<close>.

  A bus holds a list of bus devices, each with a list of resources; a bus device may name a
  registered device (\<open>dname\<close>). The three kinds of structure live in three heaps. Memory from
  \<open>kmalloc\<close> is not cleared: what it held is the argument \<open>garbage\<close>, and stays in the members
  the code does not set, the head of a new bus's device list among them. \<open>kfree\<close> is a parameter
  for each kind of structure, since \<open>unregister_bus\<close> reads the links of freed ones.
\<close>

definition BUSDEVRES_IO :: u32 where "BUSDEVRES_IO = 1"
definition BUSDEVRES_MEM :: u32 where "BUSDEVRES_MEM = 2"
definition BUSDEV_INT :: u8 where "BUSDEV_INT = 1"

record bus_dev_res =
  res_value :: u64
  res_size :: u32
  res_type :: u32

record bus_dev =
  bd_name :: string
  bd_dname :: string
  bd_addr :: u32
  bd_res_list :: ptr
  bd_res_count :: u32
  bd_flags :: u8
  bd_interrupt :: u16

record bus =
  bus_name :: string
  bus_type :: string
  bus_dev_list :: ptr
  bus_dev_count :: u32

record bus_state = dev_state +
  bus_heap :: "bus heap"
  busdev_heap :: "bus_dev heap"
  busres_heap :: "bus_dev_res heap"
  buses :: ptr
  buses_count :: u32

subsection \<open>Operations\<close>

definition bus_count :: "'z bus_state_scheme \<Rightarrow> u32" where
  "bus_count s = buses_count s"

definition bus_get :: "'z bus_state_scheme \<Rightarrow> u32 \<Rightarrow> ptr option" where
  "bus_get s i = slist_get (bus_heap s) (buses s) 0 i"

definition bus_fromname :: "'z bus_state_scheme \<Rightarrow> string \<Rightarrow> ptr option" where
  "bus_fromname s name = slist_find (bus_heap s) (\<lambda>b. bus_name b = name) (buses s)"

text \<open>The device registered under the name that a bus device carries.\<close>

partial_function (option) bus_getdev_loop :: "'z bus_state_scheme \<Rightarrow> string \<Rightarrow> ptr \<Rightarrow> ptr option" where
  "bus_getdev_loop s name bdev =
     (if bdev = 0 then Some 0
      else case busdev_heap s bdev of
        None \<Rightarrow> None
      | Some c \<Rightarrow>
          if bd_dname (cell_val c) = [] then bus_getdev_loop s name (sle_next c)
          else (case device_fromname s (bd_dname (cell_val c)) of
            None \<Rightarrow> None
          | Some dev \<Rightarrow>
              if dev = 0 then bus_getdev_loop s name (sle_next c)
              else (case deref (dev_heap s) dev of
                None \<Rightarrow> None
              | Some d \<Rightarrow>
                  if device_name d = name then Some dev
                  else bus_getdev_loop s name (sle_next c))))"

definition bus_getdev :: "'z bus_state_scheme \<Rightarrow> ptr \<Rightarrow> string \<Rightarrow> ptr option" where
  "bus_getdev s bus name = do {
     b \<leftarrow> deref (bus_heap s) bus;
     bus_getdev_loop s name (bus_dev_list b)
   }"

definition bus_getdevbyname :: "'z bus_state_scheme \<Rightarrow> ptr \<Rightarrow> string \<Rightarrow> ptr option" where
  "bus_getdevbyname s bus name = do {
     b \<leftarrow> deref (bus_heap s) bus;
     slist_find (busdev_heap s) (\<lambda>d. bd_name d = name) (bus_dev_list b)
   }"

definition bus_regdev ::
  "'z bus_state_scheme \<Rightarrow> ptr \<Rightarrow> string \<Rightarrow> string \<Rightarrow> (u32 \<times> 'z bus_state_scheme) option" where
  "bus_regdev s bus name dname = do {
     dev \<leftarrow> bus_getdev s bus dname;
     if dev \<noteq> 0 then Some (err EEXIST, s)
     else do {
       bdev \<leftarrow> bus_getdevbyname s bus name;
       if bdev = 0 then Some (err ENOENT, s)
       else do {
         dn \<leftarrow> strcpy_field NAME_MAX dname;
         h \<leftarrow> set_val (busdev_heap s) bdev (\<lambda>d. d\<lparr>bd_dname := dn\<rparr>);
         Some (0, s\<lparr>busdev_heap := h\<rparr>)
       }
     }
   }"

definition bus_unregdev ::
  "'z bus_state_scheme \<Rightarrow> ptr \<Rightarrow> string \<Rightarrow> string \<Rightarrow> (u32 \<times> 'z bus_state_scheme) option" where
  "bus_unregdev s bus name dname = do {
     dev \<leftarrow> bus_getdev s bus dname;
     if dev = 0 then Some (err ENOENT, s)
     else do {
       bdev \<leftarrow> bus_getdevbyname s bus name;
       if bdev = 0 then Some (err ENOENT, s)
       else do {
         h \<leftarrow> set_val (busdev_heap s) bdev (\<lambda>d. d\<lparr>bd_dname := []\<rparr>);
         Some (0, s\<lparr>busdev_heap := h\<rparr>)
       }
     }
   }"

definition bus_adddev ::
  "'z bus_state_scheme \<Rightarrow> ptr \<Rightarrow> bus_dev \<Rightarrow> ptr \<Rightarrow> string \<Rightarrow> (u32 \<times> 'z bus_state_scheme) option" where
  "bus_adddev s p garbage bus name = do {
     dup \<leftarrow> bus_getdevbyname s bus name;
     if dup \<noteq> 0 then Some (err EEXIST, s)
     else if p = 0 then Some (err ENOMEM, s)
     else do {
       nm \<leftarrow> strcpy_field NAME_MAX name;
       b \<leftarrow> deref (bus_heap s) bus;
       (h, head) \<leftarrow> SLIST_INSERT_HEAD ((busdev_heap s)(p \<mapsto> Cell (garbage\<lparr>bd_name := nm\<rparr>) 0)) (bus_dev_list b) p;
       bh \<leftarrow> set_val (bus_heap s) bus (\<lambda>b. b\<lparr>bus_dev_list := head, bus_dev_count := bus_dev_count b + 1\<rparr>);
       Some (0, s\<lparr>busdev_heap := h, bus_heap := bh\<rparr>)
     }
   }"

definition bus_remdev :: "'z bus_state_scheme \<Rightarrow> ptr \<Rightarrow> string \<Rightarrow> (u32 \<times> 'z bus_state_scheme) option" where
  "bus_remdev s bus name = do {
     dev \<leftarrow> bus_getdevbyname s bus name;
     if dev = 0 then Some (err ENOENT, s)
     else do {
       b \<leftarrow> deref (bus_heap s) bus;
       (h, head) \<leftarrow> SLIST_REMOVE (busdev_heap s) (bus_dev_list b) dev;
       bh \<leftarrow> set_val (bus_heap s) bus (\<lambda>b. b\<lparr>bus_dev_list := head, bus_dev_count := bus_dev_count b - 1\<rparr>);
       Some (0, s\<lparr>busdev_heap := h, bus_heap := bh\<rparr>)
     }
   }"

text \<open>The type is \<open>None\<close> for a null pointer.\<close>

definition register_bus ::
  "'z bus_state_scheme \<Rightarrow> ptr \<Rightarrow> bus \<Rightarrow> string option \<Rightarrow> string \<Rightarrow> (u32 \<times> 'z bus_state_scheme) option" where
  "register_bus s p garbage type name =
     (if (case type of None \<Rightarrow> False | Some t \<Rightarrow> length t > NAME_MAX) \<or> length name > NAME_MAX
      then Some (err ENAMETOOLONG, s)
      else if p = 0 then Some (err ENOMEM, s)
      else do {
        ty \<leftarrow> (case type of None \<Rightarrow> Some (bus_type garbage) | Some t \<Rightarrow> strcpy_field NAME_MAX t);
        nm \<leftarrow> strcpy_field NAME_MAX name;
        (h, head) \<leftarrow> SLIST_INSERT_HEAD
          ((bus_heap s)(p \<mapsto> Cell (garbage\<lparr>bus_type := ty, bus_name := nm, bus_dev_count := 0\<rparr>) 0)) (buses s) p;
        Some (0, printk_s (KLOG_INFO @ ''bus: registered: %s'' @ [CHR 0x0A]) name
          (s\<lparr>bus_heap := h, buses := head, buses_count := buses_count s + 1\<rparr>))
      })"

text \<open>Each link is read after the structure that holds it has been freed.\<close>

partial_function (option) free_res_loop ::
  "('a heap \<Rightarrow> ptr \<Rightarrow> 'a heap) \<Rightarrow> 'a heap \<Rightarrow> ptr \<Rightarrow> 'a heap option" where
  "free_res_loop kfree h res =
     (if res = 0 then Some h
      else (case SLIST_NEXT (kfree h res) res of
        None \<Rightarrow> None
      | Some n \<Rightarrow> free_res_loop kfree (kfree h res) n))"

partial_function (option) free_dev_loop ::
  "(bus_dev_res heap \<Rightarrow> ptr \<Rightarrow> bus_dev_res heap) \<Rightarrow> (bus_dev heap \<Rightarrow> ptr \<Rightarrow> bus_dev heap) \<Rightarrow>
   bus_dev_res heap \<Rightarrow> bus_dev heap \<Rightarrow> ptr \<Rightarrow> (bus_dev_res heap \<times> bus_dev heap) option" where
  "free_dev_loop kfree_res kfree_dev rh dh dev =
     (if dev = 0 then Some (rh, dh)
      else (case deref dh dev of
        None \<Rightarrow> None
      | Some d \<Rightarrow> (case free_res_loop kfree_res rh (bd_res_list d) of
          None \<Rightarrow> None
        | Some rh' \<Rightarrow> (case SLIST_NEXT (kfree_dev dh dev) dev of
            None \<Rightarrow> None
          | Some n \<Rightarrow> free_dev_loop kfree_res kfree_dev rh' (kfree_dev dh dev) n))))"

definition unregister_bus ::
  "(bus_dev_res heap \<Rightarrow> ptr \<Rightarrow> bus_dev_res heap) \<Rightarrow> (bus_dev heap \<Rightarrow> ptr \<Rightarrow> bus_dev heap) \<Rightarrow>
   'z bus_state_scheme \<Rightarrow> string \<Rightarrow> (u32 \<times> 'z bus_state_scheme) option" where
  "unregister_bus kfree_res kfree_dev s name = do {
     bus \<leftarrow> bus_fromname s name;
     if bus = 0 then Some (err ENOENT, s)
     else do {
       (h, head) \<leftarrow> SLIST_REMOVE (bus_heap s) (buses s) bus;
       b \<leftarrow> deref h bus;
       (rh, dh) \<leftarrow> free_dev_loop kfree_res kfree_dev (busres_heap s) (busdev_heap s) (bus_dev_list b);
       Some (0, printk_s (KLOG_INFO @ ''bus: unregistered: %s'' @ [CHR 0x0A]) name
         (s\<lparr>bus_heap := heap_free h bus, buses := head, buses_count := buses_count s - 1,
            busres_heap := rh, busdev_heap := dh\<rparr>))
     }
   }"

subsection \<open>The devices of a bus\<close>

definition busdev_rep :: "ptr \<Rightarrow> 'z bus_state_scheme \<Rightarrow> (ptr \<times> bus_dev) list \<Rightarrow> bool" where
  "busdev_rep bus s xs \<longleftrightarrow> (\<exists>b. deref (bus_heap s) bus = Some b \<and>
     slist_rep (busdev_heap s) (bus_dev_list b) xs \<and> bus_dev_count b = of_nat (length xs)) \<and>
     distinct (map (bd_name \<circ> snd) xs)"

definition busdev_fresh :: "'z bus_state_scheme \<Rightarrow> ptr \<Rightarrow> bool" where
  "busdev_fresh s p \<longleftrightarrow> p \<noteq> 0 \<and> busdev_heap s p = None"

definition busdev_adm :: "'z bus_state_scheme \<Rightarrow> bus_dev \<Rightarrow> bool" where
  "busdev_adm s d \<longleftrightarrow> length (bd_name d) < NAME_MAX"

definition busdev_count :: "ptr \<Rightarrow> 'z bus_state_scheme \<Rightarrow> u32" where
  "busdev_count bus s = (case deref (bus_heap s) bus of None \<Rightarrow> 0 | Some b \<Rightarrow> bus_dev_count b)"

definition bus_adddev_entry ::
  "ptr \<Rightarrow> 'z bus_state_scheme \<Rightarrow> ptr \<Rightarrow> bus_dev \<Rightarrow> (u32 \<times> 'z bus_state_scheme) option" where
  "bus_adddev_entry bus s p d = bus_adddev s p d bus (bd_name d)"

lemma busdev_rep_nonzero: "busdev_rep bus s xs \<Longrightarrow> 0 \<notin> addrs xs"
  by (auto simp: busdev_rep_def dest: slist_rep_nonzero)

lemma busdev_rep_keys: "busdev_rep bus s xs \<Longrightarrow> distinct (map (bd_name \<circ> snd) xs)"
  by (simp add: busdev_rep_def)

lemma busdev_repE:
  assumes "busdev_rep bus s xs"
  obtains b where "deref (bus_heap s) bus = Some b" "slist_rep (busdev_heap s) (bus_dev_list b) xs"
    "bus_dev_count b = of_nat (length xs)"
  using assms by (auto simp: busdev_rep_def)

lemma bus_getdevbyname_rep:
  "busdev_rep bus s xs \<Longrightarrow> bus_getdevbyname s bus name = Some (find_ptr (\<lambda>d. bd_name d = name) xs)"
  by (auto simp: busdev_rep_def bus_getdevbyname_def slist_find_rep)

lemma bus_adddev_present:
  assumes "busdev_rep bus s xs" "name \<in> bd_name ` snd ` set xs"
  shows "bus_adddev s p g bus name = Some (err EEXIST, s)"
proof -
  obtain x where x: "x \<in> set xs" "bd_name (snd x) = name" using assms(2) by (auto simp: key_image)
  have "find_ptr (\<lambda>d. bd_name d = name) xs \<noteq> 0"
    by (rule find_ptr_neq_0 [OF busdev_rep_nonzero [OF assms(1)] x(1)]) (rule x(2))
  then show ?thesis by (simp add: bus_adddev_def bus_getdevbyname_rep [OF assms(1)])
qed

lemma busdev_absent:
  assumes "busdev_rep bus s xs" "name \<notin> bd_name ` snd ` set xs"
  shows "bus_getdevbyname s bus name = Some 0"
proof -
  have "find_ptr (\<lambda>d. bd_name d = name) xs = 0"
    by (rule find_ptr_eq_0 [OF busdev_rep_nonzero [OF assms(1)]]) (use assms(2) in \<open>auto simp: key_image\<close>)
  then show ?thesis by (simp add: bus_getdevbyname_rep [OF assms(1)])
qed

lemma deref_set_val: "deref h p = Some v \<Longrightarrow> \<exists>h'. set_val h p f = Some h' \<and> deref h' p = Some (f v)"
  by (auto simp: deref_def set_val_def)

lemma bus_adddev_new:
  assumes rep: "busdev_rep bus s xs" and new: "name \<notin> bd_name ` snd ` set xs" and len: "length name < NAME_MAX"
    and fresh: "busdev_fresh s p"
  shows "\<exists>s'. bus_adddev s p g bus name = Some (0, s') \<and> busdev_rep bus s' ((p, g\<lparr>bd_name := name\<rparr>) # xs)"
proof -
  obtain b where b: "deref (bus_heap s) bus = Some b" "slist_rep (busdev_heap s) (bus_dev_list b) xs"
    "bus_dev_count b = of_nat (length xs)" by (rule busdev_repE [OF rep])
  have pf: "p \<noteq> 0" "p \<notin> addrs xs"
    using fresh fresh_not_listed [OF b(2)] by (simp_all add: busdev_fresh_def)
  let ?d = "g\<lparr>bd_name := name\<rparr>"
  note ins = SLIST_INSERT_HEAD_rep [OF b(2) pf, of ?d]
  obtain bh where bh: "set_val (bus_heap s) bus (\<lambda>b. b\<lparr>bus_dev_list := p, bus_dev_count := bus_dev_count b + 1\<rparr>) = Some bh"
    "deref bh bus = Some (b\<lparr>bus_dev_list := p, bus_dev_count := bus_dev_count b + 1\<rparr>)"
    using deref_set_val [OF b(1)] by blast
  let ?s = "s\<lparr>busdev_heap := (busdev_heap s)(p \<mapsto> Cell ?d (bus_dev_list b)), bus_heap := bh\<rparr>"
  have "bus_adddev s p g bus name = Some (0, ?s)"
    using busdev_absent [OF rep new] pf(1) len b(1) ins(1) bh(1)
    by (simp add: bus_adddev_def strcpy_field_def)
  moreover have "busdev_rep bus ?s ((p, ?d) # xs)"
    using bh(2) ins(2) b(3) new busdev_rep_keys [OF rep]
    by (auto simp: busdev_rep_def key_image)
  ultimately show ?thesis by blast
qed

lemma bus_remdev_present:
  assumes rep: "busdev_rep bus s xs" and p: "(p, d) \<in> set xs"
  shows "\<exists>s'. bus_remdev s bus (bd_name d) = Some (0, s') \<and> busdev_rep bus s' (slist_del p xs)"
proof -
  obtain b where b: "deref (bus_heap s) bus = Some b" "slist_rep (busdev_heap s) (bus_dev_list b) xs"
    "bus_dev_count b = of_nat (length xs)" by (rule busdev_repE [OF rep])
  have inj: "inj_on (bd_name \<circ> snd) (set xs)" using busdev_rep_keys [OF rep] by (simp add: distinct_map)
  have "find_ptr (\<lambda>e. bd_name e = bd_name d) xs = p"
  proof (rule find_ptr_unique [OF p refl])
    fix q w assume "(q, w) \<in> set xs" "bd_name w = bd_name d"
    then have "(q, w) = (p, d)" using p by (intro inj_onD [OF inj]) simp_all
    then show "q = p" by (rule Pair_inject)
  qed
  then have found: "bus_getdevbyname s bus (bd_name d) = Some p" by (simp add: bus_getdevbyname_rep [OF rep])
  have mem: "p \<in> addrs xs" using p by force
  have nz: "p \<noteq> 0" using busdev_rep_nonzero [OF rep] mem by metis
  obtain h head where h: "SLIST_REMOVE (busdev_heap s) (bus_dev_list b) p = Some (h, head)"
    "slist_rep h head (slist_del p xs)" by (rule SLIST_REMOVE_rep [OF b(2) mem])
  obtain bh where bh: "set_val (bus_heap s) bus (\<lambda>b. b\<lparr>bus_dev_list := head, bus_dev_count := bus_dev_count b - 1\<rparr>) = Some bh"
    "deref bh bus = Some (b\<lparr>bus_dev_list := head, bus_dev_count := bus_dev_count b - 1\<rparr>)"
    using deref_set_val [OF b(1)] by blast
  let ?s = "s\<lparr>busdev_heap := h, bus_heap := bh\<rparr>"
  have "xs \<noteq> []" using mem by auto
  then have "(of_nat (length xs) :: u32) - 1 = of_nat (length xs - 1)" by (cases xs) simp_all
  then have "busdev_rep bus ?s (slist_del p xs)"
    using bh(2) h(2) b(3) length_slist_del [OF slist_rep_distinct [OF b(2)] mem] busdev_rep_keys [OF rep]
    by (simp add: busdev_rep_def distinct_map_slist_del)
  moreover have "bus_remdev s bus (bd_name d) = Some (0, ?s)"
    using found nz b(1) h(1) bh(1) by (simp add: bus_remdev_def)
  ultimately show ?thesis by blast
qed

interpretation bus_devices: registry "busdev_rep bus" busdev_fresh busdev_adm bd_name
  "\<lambda>s. bus_getdevbyname s bus" "bus_adddev_entry bus" "busdev_count bus" "\<lambda>s. bus_remdev s bus" ENOENT for bus
proof unfold_locales
  fix s :: "'a bus_state_scheme" and xs
  assume rep: "busdev_rep bus s xs"
  show "0 \<notin> addrs xs" by (rule busdev_rep_nonzero [OF rep])
  show "distinct (map fst xs)" by (rule busdev_repE [OF rep]) (rule slist_rep_distinct)
  show "distinct (map (bd_name \<circ> snd) xs)" by (rule busdev_rep_keys [OF rep])
  show "busdev_count bus s = of_nat (length xs)" by (rule busdev_repE [OF rep]) (simp add: busdev_count_def)
  show "bus_getdevbyname s bus k = Some (find_ptr (\<lambda>e. bd_name e = k) xs)" for k
    by (rule bus_getdevbyname_rep [OF rep])
  show "bus_adddev_entry bus s p e = Some (err EEXIST, s)" if "bd_name e \<in> bd_name ` snd ` set xs" for p e
    unfolding bus_adddev_entry_def by (rule bus_adddev_present [OF rep that])
  show "bus_adddev_entry bus s 0 e = Some (err ENOMEM, s)" if "bd_name e \<notin> bd_name ` snd ` set xs" for e
    using busdev_absent [OF rep that] by (simp add: bus_adddev_entry_def bus_adddev_def)
  show "\<exists>s'. bus_adddev_entry bus s p e = Some (0, s') \<and> busdev_rep bus s' ((p, e) # xs)"
    if "busdev_adm s e" "bd_name e \<notin> bd_name ` snd ` set xs" "busdev_fresh s p" for p e
    using bus_adddev_new [OF rep that(2) _ that(3), of e] that(1)
    by (simp add: bus_adddev_entry_def busdev_adm_def)
  show "bus_remdev s bus k = Some (err ENOENT, s)" if "k \<notin> bd_name ` snd ` set xs" for k
    using busdev_absent [OF rep that] by (simp add: bus_remdev_def)
  show "\<exists>s'. bus_remdev s bus (bd_name e) = Some (0, s') \<and> busdev_rep bus s' (slist_del p xs)"
    if "(p, e) \<in> set xs" for p e
    by (rule bus_remdev_present [OF rep that])
qed

subsection \<open>Devices named by bus devices\<close>

lemma bus_getdev_loop_rep:
  assumes dev: "device_rep s ds"
  shows "slist_rep (busdev_heap s) p xs \<Longrightarrow>
    bus_getdev_loop s name p = (if name \<noteq> [] \<and> name \<in> bd_dname ` snd ` set xs then device_fromname s name else Some 0)"
proof (induction xs arbitrary: p)
  case Nil
  then show ?case by (simp add: bus_getdev_loop.simps)
next
  case (Cons x xs)
  then obtain n where n: "p = fst x" "p \<noteq> 0" "busdev_heap s p = Some (Cell (snd x) n)" "slist_rep (busdev_heap s) n xs"
    by auto
  note ih = Cons.IH [OF n(4)]
  let ?dn = "bd_dname (snd x)"
  have nz: "0 \<notin> addrs ds" using dev by (auto simp: device_rep_def dest: slist_rep_nonzero)
  let ?q = "find_ptr (\<lambda>d. device_name d = ?dn) ds"
  have find: "device_fromname s ?dn = Some ?q" by (rule device_fromname_rep [OF dev])
  show ?case
  proof (cases "?dn = [] \<or> ?q = 0")
    case True
    have "device_fromname s name = Some 0" if "name = ?dn" "name \<noteq> []" using that True find by auto
    then have "(if name \<noteq> [] \<and> name \<in> bd_dname ` snd ` set xs then device_fromname s name else Some 0) =
        (if name \<noteq> [] \<and> name \<in> bd_dname ` snd ` set (x # xs) then device_fromname s name else Some 0)" by auto
    moreover have "bus_getdev_loop s name p = bus_getdev_loop s name n"
      using n(2,3) True find by (subst bus_getdev_loop.simps) auto
    ultimately show ?thesis using ih by argo
  next
    case False
    then obtain v where v: "(?q, v) \<in> set ds" "device_name v = ?dn" using find_ptr_in by blast
    have "slist_rep (dev_heap s) (devices s) ds" using dev by (simp add: device_rep_def)
    then have "deref (dev_heap s) ?q = Some v" using v(1) by (rule slist_rep_deref)
    then have "bus_getdev_loop s name p = (if ?dn = name then Some ?q else bus_getdev_loop s name n)"
      using n(2,3) False find v(2) by (subst bus_getdev_loop.simps) simp
    then show ?thesis using ih False find by auto
  qed
qed

lemma bus_getdev_rep:
  assumes "device_rep s ds" "busdev_rep bus s xs"
  shows "bus_getdev s bus name =
    (if name \<noteq> [] \<and> name \<in> bd_dname ` snd ` set xs then device_fromname s name else Some 0)"
proof -
  obtain b where b: "deref (bus_heap s) bus = Some b" "slist_rep (busdev_heap s) (bus_dev_list b) xs"
    by (rule busdev_repE [OF assms(2)])
  then show ?thesis by (simp add: bus_getdev_def bus_getdev_loop_rep [OF assms(1) b(2)])
qed

lemma busdev_upd_rep:
  assumes rep: "busdev_rep bus s xs" and mem: "e \<in> addrs xs" and f: "\<And>d. bd_name (f d) = bd_name d"
  obtains h where "set_val (busdev_heap s) e f = Some h" "busdev_rep bus (s\<lparr>busdev_heap := h\<rparr>) (slist_upd e f xs)"
proof -
  obtain b where b: "deref (bus_heap s) bus = Some b" "slist_rep (busdev_heap s) (bus_dev_list b) xs"
    "bus_dev_count b = of_nat (length xs)" by (rule busdev_repE [OF rep])
  obtain h where h: "set_val (busdev_heap s) e f = Some h" "slist_rep h (bus_dev_list b) (slist_upd e f xs)"
    by (rule set_val_rep [OF b(2) mem, of f])
  have "map (bd_name \<circ> snd) (slist_upd e f xs) = map (bd_name \<circ> snd) xs" by (rule map_snd_slist_upd) (rule f)
  then have "busdev_rep bus (s\<lparr>busdev_heap := h\<rparr>) (slist_upd e f xs)"
    using b h(2) busdev_rep_keys [OF rep] by (simp add: busdev_rep_def)
  then show ?thesis by (rule that [OF h(1)])
qed

lemma device_rep_busdev [simp]: "device_rep (s\<lparr>busdev_heap := h\<rparr>) ds \<longleftrightarrow> device_rep s ds"
  by (simp add: device_rep_def)

lemma device_fromname_busdev [simp]: "device_fromname (s\<lparr>busdev_heap := h\<rparr>) n = device_fromname s n"
  by (simp add: device_fromname_def)

text \<open>Naming a device makes the bus answer it; the name is refused while it is in use.\<close>

lemma bus_regdev_found:
  assumes dev: "device_rep s ds" and rep: "busdev_rep bus s xs" and p: "(p, d) \<in> set xs"
    and new: "dname \<notin> bd_dname ` snd ` set xs" and dn: "dname \<noteq> []" "length dname < NAME_MAX"
  obtains t where "bus_regdev s bus (bd_name d) dname = Some (0, t)"
    "busdev_rep bus t (slist_upd p (\<lambda>d. d\<lparr>bd_dname := dname\<rparr>) xs)" "device_rep t ds"
    "bus_getdev t bus dname = device_fromname s dname"
proof -
  have none: "bus_getdev s bus dname = Some 0" using new by (simp add: bus_getdev_rep [OF dev rep])
  have found: "bus_getdevbyname s bus (bd_name d) = Some p" by (rule bus_devices.lookup_listed [OF rep p])
  have mem: "p \<in> addrs xs" using p by force
  have nz: "p \<noteq> 0" using busdev_rep_nonzero [OF rep] mem by metis
  let ?f = "\<lambda>d. d\<lparr>bd_dname := dname\<rparr>"
  obtain h where h: "set_val (busdev_heap s) p ?f = Some h" "busdev_rep bus (s\<lparr>busdev_heap := h\<rparr>) (slist_upd p ?f xs)"
    by (rule busdev_upd_rep [OF rep mem, of ?f]) simp
  have "dname \<in> bd_dname ` snd ` set (slist_upd p ?f xs)"
    using slist_upd_mem [OF p, of ?f] by (auto simp: key_image intro: bexI [rotated])
  then have "bus_getdev (s\<lparr>busdev_heap := h\<rparr>) bus dname = device_fromname s dname"
    using dn(1) bus_getdev_rep [OF _ h(2), of ds dname] dev by simp
  moreover have "bus_regdev s bus (bd_name d) dname = Some (0, s\<lparr>busdev_heap := h\<rparr>)"
    using none found nz dn(2) h(1) by (simp add: bus_regdev_def strcpy_field_def)
  ultimately show ?thesis using that h(2) dev by simp
qed

lemma bus_regdev_taken:
  assumes "device_rep s ds" "busdev_rep bus s xs" "dname \<noteq> []" "dname \<in> bd_dname ` snd ` set xs"
    and "device_fromname s dname = Some q" "q \<noteq> 0"
  shows "bus_regdev s bus name dname = Some (err EEXIST, s)"
  using assms bus_getdev_rep [OF assms(1,2), of dname] by (simp add: bus_regdev_def)

text \<open>
  Withdrawing: the name is cleared in the bus device given, whether or not it is the one that
  carries it.
\<close>

lemma bus_unregdev_present:
  assumes dev: "device_rep s ds" and rep: "busdev_rep bus s xs" and p: "(p, d) \<in> set xs"
    and dn: "dname \<noteq> []" "dname \<in> bd_dname ` snd ` set xs" "device_fromname s dname = Some q" "q \<noteq> 0"
  obtains t where "bus_unregdev s bus (bd_name d) dname = Some (0, t)"
    "busdev_rep bus t (slist_upd p (\<lambda>d. d\<lparr>bd_dname := []\<rparr>) xs)"
proof -
  have "bus_getdev s bus dname = Some q" using dn by (simp add: bus_getdev_rep [OF dev rep])
  moreover have "bus_getdevbyname s bus (bd_name d) = Some p" by (rule bus_devices.lookup_listed [OF rep p])
  moreover have mem: "p \<in> addrs xs" using p by force
  moreover have nz: "p \<noteq> 0" using busdev_rep_nonzero [OF rep] mem by metis
  moreover obtain h where "set_val (busdev_heap s) p (\<lambda>d. d\<lparr>bd_dname := []\<rparr>) = Some h"
    "busdev_rep bus (s\<lparr>busdev_heap := h\<rparr>) (slist_upd p (\<lambda>d. d\<lparr>bd_dname := []\<rparr>) xs)"
    by (rule busdev_upd_rep [OF rep mem, of "\<lambda>d. d\<lparr>bd_dname := []\<rparr>"]) simp
  ultimately show ?thesis using that dn(4) by (simp add: bus_unregdev_def)
qed

subsection \<open>The list of buses\<close>

definition bus_rep :: "'z bus_state_scheme \<Rightarrow> (ptr \<times> bus) list \<Rightarrow> bool" where
  "bus_rep s xs \<longleftrightarrow> slist_rep (bus_heap s) (buses s) xs \<and> buses_count s = of_nat (length xs)"

lemma register_bus_new:
  assumes rep: "bus_rep s xs" and fresh: "p \<noteq> 0" "bus_heap s p = None"
    and len: "length name < NAME_MAX" "\<And>t. type = Some t \<Longrightarrow> length t < NAME_MAX"
    and b: "b = g\<lparr>bus_type := (case type of None \<Rightarrow> bus_type g | Some t \<Rightarrow> t), bus_name := name, bus_dev_count := 0\<rparr>"
  obtains t where "register_bus s p g type name = Some (0, t)" "bus_rep t ((p, b) # xs)"
    "busdev_heap t = busdev_heap s"
proof -
  have l: "slist_rep (bus_heap s) (buses s) xs" using rep by (simp add: bus_rep_def)
  note ins = SLIST_INSERT_HEAD_rep [OF l fresh(1) fresh_not_listed [OF l fresh(2)], of b]
  have ty: "(case type of None \<Rightarrow> Some (bus_type g) | Some t \<Rightarrow> strcpy_field NAME_MAX t) =
      Some (case type of None \<Rightarrow> bus_type g | Some t \<Rightarrow> t)"
    using len(2) by (simp add: strcpy_field_def split: option.splits)
  have ok: "\<not> ((case type of None \<Rightarrow> False | Some t \<Rightarrow> length t > NAME_MAX) \<or> length name > NAME_MAX)"
    using len by (auto split: option.splits)
  let ?t = "printk_s (KLOG_INFO @ ''bus: registered: %s'' @ [CHR 0x0A]) name
    (s\<lparr>bus_heap := (bus_heap s)(p \<mapsto> Cell b (buses s)), buses := p, buses_count := buses_count s + 1\<rparr>)"
  have "register_bus s p g type name = Some (0, ?t)"
    using ok ty fresh(1) len(1) ins(1) by (simp add: register_bus_def strcpy_field_def b)
  moreover have "bus_rep ?t ((p, b) # xs)"
    using ins(2) rep by (simp add: bus_rep_def printk_s_def)
  ultimately show ?thesis by (rule that) (simp add: printk_s_def)
qed

text \<open>
  A new bus has no devices only when its memory happened to hold a null list head: any other
  head is followed into memory the bus does not own.
\<close>

lemma register_bus_dev_list:
  assumes "deref (bus_heap s) p = Some b" "bus_dev_list b \<noteq> 0" "busdev_heap s (bus_dev_list b) = None"
  shows "bus_getdevbyname s p name = None"
  using assms by (simp add: bus_getdevbyname_def slist_find.simps)

text \<open>
  Unregistering a bus frees its devices while walking their list. Where freed memory cannot be
  read any more, a bus that has a device faults; a bus without devices goes.
\<close>

lemma free_dev_loop_faults: "dev \<noteq> 0 \<Longrightarrow> free_dev_loop kfree_res heap_free rh dh dev = None"
  by (subst free_dev_loop.simps) (simp add: heap_free_def SLIST_NEXT_def split: option.splits)

lemma bus_fromname_rep: "bus_rep s xs \<Longrightarrow> bus_fromname s name = Some (find_ptr (\<lambda>b. bus_name b = name) xs)"
  by (simp add: bus_rep_def bus_fromname_def slist_find_rep)

lemma unregister_bus_removed:
  assumes rep: "bus_rep s xs" and p: "(p, b) \<in> set xs" "find_ptr (\<lambda>b. bus_name b = name) xs = p"
  obtains h head where "SLIST_REMOVE (bus_heap s) (buses s) p = Some (h, head)" "slist_rep h head (slist_del p xs)"
    "deref h p = Some b" "p \<noteq> 0"
proof -
  have l: "slist_rep (bus_heap s) (buses s) xs" using rep by (simp add: bus_rep_def)
  have mem: "p \<in> addrs xs" using p(1) by force
  have nz: "p \<noteq> 0" using slist_rep_nonzero [OF l] mem by metis
  obtain h head where h: "SLIST_REMOVE (bus_heap s) (buses s) p = Some (h, head)" "slist_rep h head (slist_del p xs)"
    "h p = bus_heap s p" by (rule SLIST_REMOVE_rep [OF l mem])
  have "deref h p = Some b" using h(3) slist_rep_deref [OF l p(1)] by (simp add: deref_def)
  then show ?thesis by (rule that [OF h(1,2) _ nz])
qed

lemma unregister_bus_faults:
  assumes rep: "bus_rep s xs" and p: "(p, b) \<in> set xs" "find_ptr (\<lambda>b. bus_name b = name) xs = p"
    and dev: "bus_dev_list b \<noteq> 0"
  shows "unregister_bus kfree_res heap_free s name = None"
  by (rule unregister_bus_removed [OF rep p])
    (simp add: unregister_bus_def bus_fromname_rep [OF rep] p(2) free_dev_loop_faults dev)

lemma unregister_bus_empty:
  assumes rep: "bus_rep s xs" and p: "(p, b) \<in> set xs" "find_ptr (\<lambda>b. bus_name b = name) xs = p"
    and dev: "bus_dev_list b = 0"
  shows "\<exists>t. unregister_bus kfree_res kfree_dev s name = Some (0, t) \<and> bus_rep t (slist_del p xs)"
proof -
  obtain h head where h: "SLIST_REMOVE (bus_heap s) (buses s) p = Some (h, head)" "slist_rep h head (slist_del p xs)"
    "deref h p = Some b" "p \<noteq> 0" by (rule unregister_bus_removed [OF rep p])
  have mem: "p \<in> addrs xs" using p(1) by force
  have d: "distinct (map fst xs)" using rep by (auto simp: bus_rep_def dest: slist_rep_distinct)
  have "xs \<noteq> []" using mem by auto
  then have "(of_nat (length xs) :: u32) - 1 = of_nat (length xs - 1)" by (cases xs) simp_all
  moreover have "slist_rep (heap_free h p) head (slist_del p xs)"
    using h(2) by (subst heap_free_rep) simp_all
  moreover have "free_dev_loop kfree_res kfree_dev rh dh 0 = Some (rh, dh)" for rh dh
    by (simp add: free_dev_loop.simps)
  ultimately show ?thesis
    using h(1,3,4) dev rep length_slist_del [OF d mem]
    by (simp add: unregister_bus_def bus_fromname_rep [OF rep] p(2) bus_rep_def printk_s_def)
qed

subsection \<open>Properties\<close>

text \<open>The devices of a bus. A bus device added under a free name is found by that name, counted and refused a second
  time with \<open>-NEWLAND_EEXIST\<close>; the other names find what they found; \<open>bus_remdev\<close> restores the list.\<close>

theorem bus_add_remove:
  assumes "busdev_rep bus s xs" "bd_name d \<notin> bd_name ` snd ` set xs" "length (bd_name d) < NAME_MAX"
    and "p \<noteq> 0" "busdev_heap s p = None"
  shows "\<exists>t u. bus_adddev s p d bus (bd_name d) = Some (0, t) \<and> bus_getdevbyname t bus (bd_name d) = Some p \<and>
    (\<forall>k. k \<noteq> bd_name d \<longrightarrow> bus_getdevbyname t bus k = bus_getdevbyname s bus k) \<and>
    bus_adddev t q d bus (bd_name d) = Some (err EEXIST, t) \<and>
    bus_remdev t bus (bd_name d) = Some (0, u) \<and> busdev_rep bus u xs"
proof -
  have adm: "busdev_adm t d" for t :: "'a bus_state_scheme" using assms(3) by (simp add: busdev_adm_def)
  have fresh: "busdev_fresh s p" using assms(4,5) by (simp add: busdev_fresh_def)
  obtain t where t: "bus_adddev_entry bus s p d = Some (0, t)" "bus_getdevbyname t bus (bd_name d) = Some p"
    "\<And>k. k \<noteq> bd_name d \<Longrightarrow> bus_getdevbyname t bus k = bus_getdevbyname s bus k"
    "\<And>q. bus_adddev_entry bus t q d = Some (err EEXIST, t)"
    using bus_devices.register_found [OF assms(1) adm assms(2) fresh] adm by metis
  obtain u where "bus_remdev t bus (bd_name d) = Some (0, u)" "busdev_rep bus u xs"
    using bus_devices.register_unregister [OF assms(1) adm assms(2) fresh] t(1) by auto
  with t show ?thesis by (auto simp: bus_adddev_entry_def)
qed

definition sample_busdev :: "string \<Rightarrow> bus_dev" where
  "sample_busdev name = \<lparr>bd_name = name, bd_dname = [], bd_addr = 0, bd_res_list = 0, bd_res_count = 0, bd_flags = 0, bd_interrupt = 0\<rparr>"

definition one_bus :: "(ptr \<times> bus_dev) list \<Rightarrow> bus_state" where
  "one_bus xs = \<lparr>klog_calls = [], dev_heap = Map.empty, devices = 0, dev_count = 0,
     bus_heap = heap_of [(0x10, \<lparr>bus_name = ''pci'', bus_type = ''pci'', bus_dev_list = first_ptr xs, bus_dev_count = of_nat (length xs)\<rparr>)],
     busdev_heap = heap_of xs, busres_heap = Map.empty, buses = 0x10, buses_count = 1\<rparr>"

theorem bus_add_remove_witness:
  "\<exists>t. bus_adddev (one_bus [(0x20, sample_busdev ''00:1'')]) 0x30 (sample_busdev ''00:2'') 0x10 ''00:2'' = Some (0, t) \<and>
    bus_getdevbyname t 0x10 ''00:2'' = Some 0x30"
proof -
  have "busdev_rep 0x10 (one_bus [(0x20, sample_busdev ''00:1'')]) [(0x20, sample_busdev ''00:1'')]"
    by (simp add: busdev_rep_def one_bus_def deref_def sample_busdev_def)
  from bus_add_remove [OF this, of "sample_busdev ''00:2''" "0x30"] show ?thesis
    by (auto simp: sample_busdev_def NAME_MAX_def one_bus_def)
qed

text \<open>\<open>unregister_bus\<close> of a bus that has a device never works with an allocator that takes freed blocks back: it frees each
  device of the bus while walking the list through it, so that the walk's next step reads freed memory.\<close>

theorem unregister_bus_reads_freed:
  assumes "bus_rep s xs" "(p, b) \<in> set xs" "find_ptr (\<lambda>b. bus_name b = name) xs = p" "bus_dev_list b \<noteq> 0"
  shows "unregister_bus kfree_res heap_free s name = None"
  by (rule unregister_bus_faults [OF assms])

theorem unregister_bus_reads_freed_witness:
  "unregister_bus heap_free heap_free (one_bus [(0x20, sample_busdev ''00:1'')]) ''pci'' = None"
  by (rule unregister_bus_reads_freed [where p = "0x10"
      and xs = "[(0x10, \<lparr>bus_name = ''pci'', bus_type = ''pci'', bus_dev_list = 0x20, bus_dev_count = 1\<rparr>)]"
      and b = "\<lparr>bus_name = ''pci'', bus_type = ''pci'', bus_dev_list = 0x20, bus_dev_count = 1\<rparr>"])
    (simp_all add: bus_rep_def one_bus_def)

end
