(* ===== verification/Pci.thy ===== *)
theory Pci
  imports Bus Charbuf
begin

text \<open>
  The PCI bus driver, \<^verbatim>\<open>newland/arch/x86/modules/bus/pci.c\<close> and
  \<^verbatim>\<open>newland/arch/x86/include/newland/arch/pci.h\<close>.

  The ports are a parameter: a record of the effects of \<open>outl\<close>, \<open>inl\<close> and their narrower forms on
  the state, which may be extended by the state of the hardware. \<open>kmalloc\<close> is a parameter as well:
  \<open>res_alloc\<close> and \<open>dev_alloc\<close> give the address for a resource and for a bus device (0 when it fails),
  \<open>dev_garbage\<close> what that memory held. Scanning a bus calls itself for a bridge: \<open>fuel\<close> bounds the
  nesting, and running out of it is a fault.
\<close>

definition PCI_ADDR :: u16 where "PCI_ADDR = 0xCF8"
definition PCI_VAL :: u16 where "PCI_VAL = 0xCFC"

record pci_dev =
  pd_bus :: u8
  pd_slot :: u8
  pd_func :: u8

record pci_state = bus_state +
  isa :: pci_dev
  hasisa :: bool
  remaps :: "u32 list"

record 's pci_env =
  outl :: "u16 \<Rightarrow> u32 \<Rightarrow> 's \<Rightarrow> 's"
  outw :: "u16 \<Rightarrow> u16 \<Rightarrow> 's \<Rightarrow> 's"
  outbyte :: "u16 \<Rightarrow> u8 \<Rightarrow> 's \<Rightarrow> 's"
  inl :: "u16 \<Rightarrow> 's \<Rightarrow> u32 \<times> 's"
  inw :: "u16 \<Rightarrow> 's \<Rightarrow> u16 \<times> 's"
  inbyte :: "u16 \<Rightarrow> 's \<Rightarrow> u8 \<times> 's"
  res_alloc :: "'s \<Rightarrow> ptr"
  dev_alloc :: "'s \<Rightarrow> ptr"
  dev_garbage :: "'s \<Rightarrow> bus_dev"

subsection \<open>Configuration space\<close>

definition pci_loc :: "pci_dev \<Rightarrow> u32" where
  "pci_loc dev = push_bit 16 (ucast (pd_bus dev)) OR push_bit 11 (ucast (pd_slot dev)) OR push_bit 8 (ucast (pd_func dev))"

definition pci_read32 :: "'s pci_env \<Rightarrow> pci_dev \<Rightarrow> u8 \<Rightarrow> 's \<Rightarrow> u32 \<times> 's" where
  "pci_read32 env dev reg s = inl env PCI_VAL (outl env PCI_ADDR (pci_loc dev OR 0x80000000) s)"

definition pci_read16 :: "'s pci_env \<Rightarrow> pci_dev \<Rightarrow> u8 \<Rightarrow> 's \<Rightarrow> u16 \<times> 's" where
  "pci_read16 env dev reg s =
     inw env (PCI_VAL + ucast (reg AND 3)) (outl env PCI_ADDR (pci_loc dev OR 0x80000000) s)"

definition pci_read8 :: "'s pci_env \<Rightarrow> pci_dev \<Rightarrow> u8 \<Rightarrow> 's \<Rightarrow> u8 \<times> 's" where
  "pci_read8 env dev reg s =
     inbyte env (PCI_VAL + ucast (reg AND 3)) (outl env PCI_ADDR (pci_loc dev OR 0x80000000) s)"

definition pci_write32 :: "'s pci_env \<Rightarrow> pci_dev \<Rightarrow> u8 \<Rightarrow> u32 \<Rightarrow> 's \<Rightarrow> 's" where
  "pci_write32 env dev reg v s = outl env PCI_VAL v (outl env PCI_ADDR (pci_loc dev OR 0x80000000) s)"

definition pci_write16 :: "'s pci_env \<Rightarrow> pci_dev \<Rightarrow> u8 \<Rightarrow> u16 \<Rightarrow> 's \<Rightarrow> 's" where
  "pci_write16 env dev reg v s =
     outw env (PCI_VAL + ucast (reg AND 3)) v (outl env PCI_ADDR (pci_loc dev OR 0x80000000) s)"

definition pci_write8 :: "'s pci_env \<Rightarrow> pci_dev \<Rightarrow> u8 \<Rightarrow> u8 \<Rightarrow> 's \<Rightarrow> 's" where
  "pci_write8 env dev reg v s =
     outbyte env (PCI_VAL + ucast (reg AND 3)) v (outl env PCI_ADDR (pci_loc dev OR 0x80000000) s)"

definition pcidev_getdevice :: "'s pci_env \<Rightarrow> pci_dev \<Rightarrow> 's \<Rightarrow> u32 \<times> 's" where
  "pcidev_getdevice env dev s = (let (v, s) = pci_read32 env dev 0 s in (drop_bit 16 v, s))"

definition pcidev_getvendor :: "'s pci_env \<Rightarrow> pci_dev \<Rightarrow> 's \<Rightarrow> u32 \<times> 's" where
  "pcidev_getvendor env dev s = (let (v, s) = pci_read32 env dev 0 s in (v AND 0xFFFF, s))"

definition pcidev_gethdrtype :: "'s pci_env \<Rightarrow> pci_dev \<Rightarrow> 's \<Rightarrow> u32 \<times> 's" where
  "pcidev_gethdrtype env dev s = (let (v, s) = pci_read32 env dev 12 s in (drop_bit 16 v AND 0xFF, s))"

definition pcidev_get2ndbus :: "'s pci_env \<Rightarrow> pci_dev \<Rightarrow> 's \<Rightarrow> u32 \<times> 's" where
  "pcidev_get2ndbus env dev s = (let (v, s) = pci_read32 env dev 24 s in (drop_bit 24 v AND 0xFF, s))"

definition pcidev_getintpin :: "'s pci_env \<Rightarrow> pci_dev \<Rightarrow> 's \<Rightarrow> u32 \<times> 's" where
  "pcidev_getintpin env dev s = (let (v, s) = pci_read32 env dev 60 s in (drop_bit 24 v AND 0xFF, s))"

definition pcidev_getintline :: "'s pci_env \<Rightarrow> pci_dev \<Rightarrow> 's \<Rightarrow> u32 \<times> 's" where
  "pcidev_getintline env dev s = (let (v, s) = pci_read32 env dev 60 s in (drop_bit 16 v AND 0xFF, s))"

subsection \<open>Interrupt lines\<close>

text \<open>A negative index into the four remappings is a fault.\<close>

definition pci_getint :: "'z pci_state_scheme pci_env \<Rightarrow> pci_dev \<Rightarrow> 'z pci_state_scheme \<Rightarrow> (u8 \<times> 'z pci_state_scheme) option" where
  "pci_getint env addr s =
     (if hasisa s then
        (let (pin, s) = pcidev_getintpin env addr s; irqpin = ucast pin :: u8
         in if irqpin = 0 then (let (l, s) = pcidev_getintline env addr s in Some (ucast l, s))
            else
              (let n = int (unat irqpin) + int (unat (pd_slot addr)) - 2; pirq = nat (n mod 4);
                   (l, s) = pcidev_getintline env addr s; intline = ucast l :: u8
               in if n < 0 then None
                  else if 0x80 \<le> remaps s ! pirq then
                    if intline = 0xFF
                    then Some (10, (pci_write32 env addr 60 (push_bit 16 (10 OR 0xFF)) s)\<lparr>remaps := (remaps s)[pirq := 10]\<rparr>)
                    else Some (intline, s)
                  else Some (ucast (remaps s ! pirq), pci_write32 env addr 60 (push_bit 16 (remaps s ! pirq OR 0xFF)) s)))
      else (let (l, s) = pcidev_getintline env addr s in Some (ucast l, s)))"

subsection \<open>Resources\<close>

definition genres ::
  "'z pci_state_scheme pci_env \<Rightarrow> pci_dev \<Rightarrow> ptr \<Rightarrow> u8 \<Rightarrow> 'z pci_state_scheme \<Rightarrow> (u32 \<times> 'z pci_state_scheme) option" where
  "genres env addr dev barindex s =
     (let reg = barindex * 4 + 16;
          (barval, s1) = pci_read32 env addr reg s;
          s2 = pci_write32 env addr reg 0xFFFFFFFF s1;
          (sz, s3) = pci_read32 env addr reg s2;
          barsize = NOT sz + 1;
          res = res_alloc env s3;
          io = (barval AND 4 = 0 \<and> barval AND 1 \<noteq> 0);
          val = (if io then barval AND NOT 3 AND 0xFFFF else barval AND 0xFFFFFFF0)
      in if sz = 0 \<or> barval = 0 then Some (0, s3)
         else if barsize = 0 then Some (0, s3)
         else if res = 0 then Some (err ENOMEM, s3)
         else if val = 0 \<or> barsize = 0 then Some (0, s3)
         else do {
           d \<leftarrow> deref (busdev_heap s3) dev;
           (h, head) \<leftarrow> SLIST_INSERT_HEAD
             ((busres_heap s3)(res \<mapsto> Cell \<lparr>res_value = ucast val, res_size = barsize,
                res_type = (if io then BUSDEVRES_IO else BUSDEVRES_MEM)\<rparr> 0)) (bd_res_list d) res;
           dh \<leftarrow> set_val (busdev_heap s3) dev (\<lambda>d. d\<lparr>bd_res_list := head, bd_res_count := bd_res_count d + 1\<rparr>);
           Some (0, s3\<lparr>busres_heap := h, busdev_heap := dh\<rparr>)
         })"

subsection \<open>A device that was found\<close>

text \<open>The name \<open>bus.slot.func\<close> as \<open>found_dev\<close> builds it in its array of nine characters.\<close>

definition pci_name :: "pci_dev \<Rightarrow> string option" where
  "pci_name addr = do {
     b0 \<leftarrow> strcpy_at 0 ''000.00.0'' (replicate 9 (CHR 0x00));
     b1 \<leftarrow> itoa_at 0 10 (ucast (pd_bus addr)) b0;
     let b2 = pad_zero 2 (pad_zero 1 b1);
     b3 \<leftarrow> itoa_at 4 10 (ucast (pd_slot addr)) (b2[3 := CHR ''.'']);
     b4 \<leftarrow> itoa_at 7 10 (ucast (pd_func addr)) ((pad_zero 5 b3)[6 := CHR ''.'']);
     Some (text_at 0 b4)
   }"

definition upd_busdev :: "ptr \<Rightarrow> (bus_dev \<Rightarrow> bus_dev) \<Rightarrow> 'z pci_state_scheme \<Rightarrow> 'z pci_state_scheme option" where
  "upd_busdev p f s = map_option (\<lambda>h. s\<lparr>busdev_heap := h\<rparr>) (set_val (busdev_heap s) p f)"

definition found_dev :: "'z pci_state_scheme pci_env \<Rightarrow> pci_dev \<Rightarrow> 'z pci_state_scheme \<Rightarrow> (u32 \<times> 'z pci_state_scheme) option" where
  "found_dev env addr s =
     (let (d, s1) = pcidev_getdevice env addr s; did = ucast d :: u16;
          (v, s2) = pcidev_getvendor env addr s1; vid = ucast v :: u16
      in if vid = 0xFFFF then Some (0, s2)
         else do {
           name \<leftarrow> pci_name addr;
           bus \<leftarrow> bus_fromname s2 ''pci'';
           (r, s3) \<leftarrow> bus_adddev s2 (dev_alloc env s2) (dev_garbage env s2) bus name;
           bdev \<leftarrow> bus_getdevbyname s3 bus name;
           (intr, s4) \<leftarrow> pci_getint env addr s3;
           s5 \<leftarrow> (if intr \<noteq> 0
                 then upd_busdev bdev (\<lambda>d. d\<lparr>bd_flags := bd_flags d OR BUSDEV_INT, bd_interrupt := ucast intr\<rparr>) s4
                 else Some s4);
           s6 \<leftarrow> upd_busdev bdev (\<lambda>d. d\<lparr>bd_addr := pci_loc addr\<rparr>) s5;
           let (hdr, s7) = pcidev_gethdrtype env addr s6;
           (r, s8) \<leftarrow> (if hdr AND 0x80 = 0 then for_r (genres env addr bdev) (map of_nat [0..<6]) s7 else Some (0, s7));
           if sint r < 0 then Some (r, s8)
           else
             (let s9 = (if vid = 0x8086 \<and> (did = 0x7000 \<or> did = 0x7110) then s8\<lparr>isa := addr, hasisa := True\<rparr> else s8)
              in Some (0, printk_s (KLOG_INFO @ ''pci: found device %s'' @ [CHR 0x0A]) name s9))
         })"

subsection \<open>Scanning\<close>

text \<open>\<open>rec\<close> is the call of \<open>check_bus\<close> for the bus behind a bridge.\<close>

definition check_func ::
  "'z pci_state_scheme pci_env \<Rightarrow> (u8 \<Rightarrow> 'z pci_state_scheme \<Rightarrow> (u32 \<times> 'z pci_state_scheme) option) \<Rightarrow>
   pci_dev \<Rightarrow> 'z pci_state_scheme \<Rightarrow> (u32 \<times> 'z pci_state_scheme) option" where
  "check_func env rec addr s =
     (let (vid, s1) = pcidev_getvendor env addr s
      in if vid = 0xFFFF then Some (0, s1)
         else do {
           (r, s2) \<leftarrow> found_dev env addr s1;
           if sint r < 0 then Some (r, s2)
           else
             (let (c, s3) = pci_read32 env addr 8 s2; class = ucast (drop_bit 24 c) :: u8;
                  (sc, s4) = pci_read32 env addr 8 s3; subclass = ucast (drop_bit 16 sc) :: u8
              in if class = 6 \<and> subclass = 4
                 then (let (b, s5) = pcidev_get2ndbus env addr s4 in do {
                   (r, s6) \<leftarrow> rec (ucast b) s5;
                   if sint r < 0 then Some (r, s6) else Some (0, s6)
                 })
                 else Some (0, s4))
         })"

definition check_dev ::
  "'z pci_state_scheme pci_env \<Rightarrow> (u8 \<Rightarrow> 'z pci_state_scheme \<Rightarrow> (u32 \<times> 'z pci_state_scheme) option) \<Rightarrow>
   u8 \<Rightarrow> u8 \<Rightarrow> 'z pci_state_scheme \<Rightarrow> (u32 \<times> 'z pci_state_scheme) option" where
  "check_dev env rec bus dev s =
     (let (vid, s1) = pcidev_getvendor env \<lparr>pd_bus = bus, pd_slot = dev, pd_func = 0\<rparr> s
      in if vid = 0xFFFF then Some (0, s1)
         else for_r (\<lambda>func s.
           (let addr = \<lparr>pd_bus = bus, pd_slot = dev, pd_func = func\<rparr>; (vid, s1) = pcidev_getvendor env addr s
            in if vid \<noteq> 0xFFFF then check_func env rec addr s1 else Some (0, s1))) (map of_nat [0..<8]) s1)"

primrec check_bus ::
  "'z pci_state_scheme pci_env \<Rightarrow> nat \<Rightarrow> u8 \<Rightarrow> 'z pci_state_scheme \<Rightarrow> (u32 \<times> 'z pci_state_scheme) option" where
  "check_bus env 0 bus s = None"
| "check_bus env (Suc n) bus s = for_r (\<lambda>dev. check_dev env (check_bus env n) bus dev) (map of_nat [0..<32]) s"

definition scan_buses :: "'z pci_state_scheme pci_env \<Rightarrow> nat \<Rightarrow> 'z pci_state_scheme \<Rightarrow> (u32 \<times> 'z pci_state_scheme) option" where
  "scan_buses env fuel s =
     (let addr = \<lparr>pd_bus = 0, pd_slot = 0, pd_func = 0\<rparr>; (header_type, s1) = pcidev_gethdrtype env addr s
      in if header_type AND 0x80 = 0 then check_bus env fuel 0 s1
         else for_r (\<lambda>func s.
           (let (vid, s1) = pcidev_getvendor env (addr\<lparr>pd_func := func\<rparr>) s
            in if vid \<noteq> 0xFFFF then check_bus env fuel func s1 else Some (0, s1))) (map of_nat [0..<8]) s1)"

text \<open>The init function of the module; \<open>p\<close> and \<open>g\<close> are the memory for the bus itself.\<close>

definition bus_pci_init ::
  "'z pci_state_scheme pci_env \<Rightarrow> nat \<Rightarrow> ptr \<Rightarrow> bus \<Rightarrow> 'z pci_state_scheme \<Rightarrow> (u32 \<times> 'z pci_state_scheme) option" where
  "bus_pci_init env fuel p g s = do {
     (r, s1) \<leftarrow> register_bus s p g None ''pci'';
     if sint r < 0 then Some (r, s1)
     else do {
       (r, s2) \<leftarrow> scan_buses env fuel s1;
       bus \<leftarrow> bus_fromname s2 ''pci'';
       b \<leftarrow> deref (bus_heap s2) bus;
       Some (r, printk_s (KLOG_INFO @ ''pci: found %d devices'' @ [CHR 0x0A]) (sdec (bus_dev_count b)) s2)
     }
   }"

definition bus_pci_fini ::
  "(bus_dev_res heap \<Rightarrow> ptr \<Rightarrow> bus_dev_res heap) \<Rightarrow> (bus_dev heap \<Rightarrow> ptr \<Rightarrow> bus_dev heap) \<Rightarrow>
   'z pci_state_scheme \<Rightarrow> 'z pci_state_scheme option" where
  "bus_pci_fini kfree_res kfree_dev s = map_option snd (unregister_bus kfree_res kfree_dev s ''pci'')"

subsection \<open>Names\<close>

definition bus_part :: "nat \<Rightarrow> string" where
  "bus_part n =
     (if n < 10 then [digit_char n, CHR ''0'', CHR ''0'']
      else if n < 100 then [digit_char (n div 10), digit_char (n mod 10), CHR ''0'']
      else [digit_char (n div 100), digit_char (n div 10 mod 10), digit_char (n mod 10)])"

definition slot_part :: "nat \<Rightarrow> string" where
  "slot_part n = (if n < 10 then [digit_char n, CHR ''0''] else [digit_char (n div 10), digit_char (n mod 10)])"

lemma length_parts [simp]: "length (bus_part n) = 3" "length (slot_part n) = 2"
  by (simp_all add: bus_part_def slot_part_def)

lemma bus_array:
  assumes "n < 256"
  shows "(do { b0 \<leftarrow> strcpy_at 0 ''000.00.0'' (replicate 9 (CHR 0x00));
       b1 \<leftarrow> poke 0 (dec_digits n @ [CHR 0x00]) b0;
       Some ((pad_zero 2 (pad_zero 1 b1))[3 := CHR ''.'']) }) = Some (bus_part n @ ''.00.0'' @ [CHR 0x00])"
proof -
  have r: "replicate 9 c = [c, c, c, c, c, c, c, c, c]" for c :: char by (simp add: eval_nat_numeral)
  consider "n < 10" | "10 \<le> n" "n < 100" | "100 \<le> n" "n < 1000" using assms by linarith
  then show ?thesis
    by cases (simp_all add: strcpy_at_def r dec_digits_small dec_digits_two dec_digits_three pad_zero_def bus_part_def)
qed

lemma slot_array:
  assumes "n < 100" "length b = 3"
  shows "map_option (\<lambda>b3. (pad_zero 5 b3)[6 := CHR ''.'']) (poke 4 (dec_digits n @ [CHR 0x00]) (b @ ''.00.0'' @ [CHR 0x00])) =
    Some (b @ CHR ''.'' # slot_part n @ ''.0'' @ [CHR 0x00])"
proof -
  obtain x y z where b: "b = [x, y, z]" using assms(2) by (auto simp: length_Suc_conv eval_nat_numeral)
  consider "n < 10" | "10 \<le> n" "n < 100" using assms by linarith
  then show ?thesis
    by cases (simp_all add: b dec_digits_small dec_digits_two pad_zero_def slot_part_def)
qed

lemma pci_name_parts:
  assumes "unat (pd_slot addr) < 100" "unat (pd_func addr) < 10"
  shows "pci_name addr = Some (bus_part (unat (pd_bus addr)) @ CHR ''.'' # slot_part (unat (pd_slot addr)) @
    [CHR ''.'', digit_char (unat (pd_func addr))])"
proof -
  have u: "unat (ucast (w :: u8) :: u32) = unat w" for w
    by (simp add: unsigned_ucast_eq take_bit_nat_eq_self_iff less_trans [OF unat_u8_less])
  obtain b1 where b1: "Option.bind (strcpy_at 0 ''000.00.0'' (replicate 9 (CHR 0x00)))
      (poke 0 (dec_digits (unat (pd_bus addr)) @ [CHR 0x00])) = Some b1"
    "(pad_zero 2 (pad_zero 1 b1))[3 := CHR ''.''] = bus_part (unat (pd_bus addr)) @ ''.00.0'' @ [CHR 0x00]"
    using bus_array [OF unat_u8_less, of "pd_bus addr"] by (auto simp: bind_eq_Some_conv)
  obtain b3 where b3: "poke 4 (dec_digits (unat (pd_slot addr)) @ [CHR 0x00]) (bus_part (unat (pd_bus addr)) @ ''.00.0'' @ [CHR 0x00]) = Some b3"
    "(pad_zero 5 b3)[6 := CHR ''.''] = bus_part (unat (pd_bus addr)) @ CHR ''.'' # slot_part (unat (pd_slot addr)) @ ''.0'' @ [CHR 0x00]"
    using slot_array [OF assms(1), of "bus_part (unat (pd_bus addr))"] by auto
  have nul: "CHR 0x00 \<notin> set (bus_part n)" if "n < 1000" for n using that by (auto simp: bus_part_def)
  have nul2: "CHR 0x00 \<notin> set (slot_part n)" if "n < 100" for n using that by (auto simp: slot_part_def)
  have tw: "takeWhile (\<lambda>c. c \<noteq> CHR 0x00) (xs @ ys) = xs @ takeWhile (\<lambda>c. c \<noteq> CHR 0x00) ys"
    if "CHR 0x00 \<notin> set xs" for xs ys :: string using that by (intro takeWhile_append2) auto
  let ?n = "unat (pd_bus addr)" and ?m = "unat (pd_slot addr)" and ?f = "unat (pd_func addr)"
  have b4: "poke 7 (dec_digits ?f @ [CHR 0x00]) (bus_part ?n @ CHR ''.'' # slot_part ?m @ ''.0'' @ [CHR 0x00]) =
      Some (bus_part ?n @ CHR ''.'' # slot_part ?m @ [CHR ''.'', digit_char ?f, CHR 0x00])"
    using assms(2) by (simp add: dec_digits_small take_Cons' drop_Cons')
  have "text_at 0 (bus_part ?n @ CHR ''.'' # slot_part ?m @ [CHR ''.'', digit_char ?f, CHR 0x00]) =
      bus_part ?n @ CHR ''.'' # slot_part ?m @ [CHR ''.'', digit_char ?f]"
    using nul [OF less_trans [OF unat_u8_less], of "pd_bus addr"] nul2 [OF assms(1)] assms(2)
    by (simp add: text_at_def tw)
  with b1 b3 b4 show ?thesis
    by (auto simp: pci_name_def itoa_at_dec u bind_eq_Some_conv)
qed

lemma slot_part_eq:
  assumes "m < 32" "n < 32"
  shows "slot_part m = slot_part n \<longleftrightarrow> m = n \<or> m = 10 * n \<or> n = 10 * m"
proof -
  have eq: "slot_part m = slot_part n \<longleftrightarrow> n = 10 * m" if "m < 10" "10 \<le> n" "n < 32" for m n
  proof -
    have "slot_part m = slot_part n \<longleftrightarrow> m = n div 10 \<and> 0 = n mod 10"
      using that unfolding slot_part_def digit_char_0 [symmetric] by simp
    also have "\<dots> \<longleftrightarrow> n = 10 * m"
      using div_mult_mod_eq [of n 10] by (auto simp del: div_mult_mod_eq)
    finally show ?thesis .
  qed
  consider "m < 10" "n < 10" | "m < 10" "10 \<le> n" | "10 \<le> m" "n < 10" | "10 \<le> m" "10 \<le> n" by linarith
  then show ?thesis
  proof cases
    case 1
    have "m = n" if "m = 10 * n"
    proof -
      have "n < 1" using that 1 by linarith
      then show ?thesis using that by simp
    qed
    moreover have "m = n" if "n = 10 * m"
    proof -
      have "m < 1" using that 1 by linarith
      then show ?thesis using that by simp
    qed
    moreover have "slot_part m = slot_part n \<longleftrightarrow> m = n" using 1 by (simp add: slot_part_def)
    ultimately show ?thesis by blast
  next
    case 2
    then show ?thesis using eq [of m n] assms by auto
  next
    case 3
    then show ?thesis using eq [of n m] assms by auto
  next
    case 4
    then have "slot_part m = slot_part n \<longleftrightarrow> m div 10 = n div 10 \<and> m mod 10 = n mod 10"
      using assms by (simp add: slot_part_def)
    also have "\<dots> \<longleftrightarrow> m = n" by (metis mult_div_mod_eq)
    finally show ?thesis using 4 assms by auto
  qed
qed

subsection \<open>The ports do not touch the kernel's tables\<close>

definition env_ok :: "'z pci_state_scheme pci_env \<Rightarrow> bool" where
  "env_ok env \<longleftrightarrow> (\<forall>p v s. pci_state.truncate (outl env p v s) = pci_state.truncate s) \<and>
     (\<forall>p s. pci_state.truncate (snd (inl env p s)) = pci_state.truncate s)"

definition same_tables :: "'z pci_state_scheme \<Rightarrow> 'z pci_state_scheme \<Rightarrow> bool" where
  "same_tables s t \<longleftrightarrow> pci_state.truncate s = pci_state.truncate t"

lemma same_tablesD:
  "same_tables s t \<Longrightarrow> bus_heap s = bus_heap t" "same_tables s t \<Longrightarrow> busdev_heap s = busdev_heap t"
  "same_tables s t \<Longrightarrow> buses s = buses t" "same_tables s t \<Longrightarrow> hasisa s = hasisa t"
  unfolding same_tables_def by (simp_all add: pci_state.defs)

lemma busdev_rep_same: "same_tables s t \<Longrightarrow> busdev_rep bus s xs \<longleftrightarrow> busdev_rep bus t xs"
  by (simp add: busdev_rep_def same_tablesD)

lemma bus_fromname_same: "same_tables s t \<Longrightarrow> bus_fromname s n = bus_fromname t n"
  by (simp add: bus_fromname_def same_tablesD)

lemma pci_read32_same: "env_ok env \<Longrightarrow> same_tables (snd (pci_read32 env dev reg s)) s"
  by (simp add: pci_read32_def env_ok_def same_tables_def)

lemma pci_write32_same: "env_ok env \<Longrightarrow> same_tables (pci_write32 env dev reg v s) s"
  by (simp add: pci_write32_def env_ok_def same_tables_def)

lemma pcidev_same:
  assumes "env_ok env"
  shows "same_tables (snd (pcidev_getdevice env dev s)) s" "same_tables (snd (pcidev_getvendor env dev s)) s"
    "same_tables (snd (pcidev_gethdrtype env dev s)) s" "same_tables (snd (pcidev_getintline env dev s)) s"
  using pci_read32_same [OF assms]
  by (simp_all add: pcidev_getdevice_def pcidev_getvendor_def pcidev_gethdrtype_def pcidev_getintline_def split_beta)

text \<open>What a later step of \<open>found_dev\<close> keeps: the names and addresses of the list, and one entry's location.\<close>

definition keys :: "(ptr \<times> bus_dev) list \<Rightarrow> (ptr \<times> string) list" where
  "keys xs = map (\<lambda>x. (fst x, bd_name (snd x))) xs"

definition located :: "ptr \<Rightarrow> (ptr \<times> string) list \<Rightarrow> ptr \<Rightarrow> u32 \<Rightarrow> 'z pci_state_scheme \<Rightarrow> bool" where
  "located bus ks dev a s \<longleftrightarrow> (\<exists>ys d. busdev_rep bus s ys \<and> keys ys = ks \<and> (dev, d) \<in> set ys \<and> bd_addr d = a)"

lemma located_same: "same_tables s t \<Longrightarrow> located bus ks dev a t \<Longrightarrow> located bus ks dev a s"
  by (simp add: located_def busdev_rep_same)

lemma keys_upd: "(\<And>d. bd_name (f d) = bd_name d) \<Longrightarrow> keys (slist_upd e f xs) = keys xs"
  by (simp add: keys_def slist_upd_def)

lemma upd_busdev_located:
  assumes "busdev_rep bus s ys" "keys ys = ks" "(dev, d) \<in> set ys" "\<And>d. bd_name (f d) = bd_name d" "bd_addr (f d) = a"
  shows "\<exists>t. upd_busdev dev f s = Some t \<and> located bus ks dev a t \<and> hasisa t = hasisa s"
proof -
  have "dev \<in> addrs ys" using assms(3) by force
  then obtain h where h: "set_val (busdev_heap s) dev f = Some h" "busdev_rep bus (s\<lparr>busdev_heap := h\<rparr>) (slist_upd dev f ys)"
    using busdev_upd_rep [OF assms(1) _ assms(4)] by metis
  moreover have "(dev, f d) \<in> set (slist_upd dev f ys)" by (rule slist_upd_mem [OF assms(3)])
  ultimately show ?thesis
    using keys_upd [of f dev ys, OF assms(4)] assms(2,5) unfolding located_def upd_busdev_def by auto
qed

lemma located_busres [simp]:
  "located bus ks dev a (s\<lparr>busres_heap := h\<rparr>) \<longleftrightarrow> located bus ks dev a s"
  "located bus ks dev a (s\<lparr>busres_heap := h, busdev_heap := dh\<rparr>) \<longleftrightarrow> located bus ks dev a (s\<lparr>busdev_heap := dh\<rparr>)"
  by (simp_all add: located_def busdev_rep_def)

lemma located_late [simp]:
  "located bus ks dev a (s\<lparr>isa := i, hasisa := b\<rparr>) \<longleftrightarrow> located bus ks dev a s"
  "located bus ks dev a (printk_s f x s) \<longleftrightarrow> located bus ks dev a s"
  by (simp_all add: located_def busdev_rep_def printk_s_def)

lemma genres_located:
  assumes env: "env_ok env" and loc: "located bus ks dev a s"
  shows "\<exists>r t. genres env addr dev i s = Some (r, t) \<and> located bus ks dev a t"
proof -
  let ?reg = "i * 4 + 16"
  obtain barval s1 where 1: "pci_read32 env addr ?reg s = (barval, s1)" by fastforce
  let ?s2 = "pci_write32 env addr ?reg 0xFFFFFFFF s1"
  obtain sz s3 where 3: "pci_read32 env addr ?reg ?s2 = (sz, s3)" by fastforce
  have "same_tables s1 s" using pci_read32_same [OF env, of addr ?reg s] by (simp add: 1)
  moreover have "same_tables ?s2 s1" by (rule pci_write32_same [OF env])
  moreover have "same_tables s3 ?s2" using pci_read32_same [OF env, of addr ?reg ?s2] by (simp add: 3)
  ultimately have "same_tables s3 s" by (simp add: same_tables_def)
  then have loc3: "located bus ks dev a s3" using loc by (rule located_same)
  then obtain ys d where ys: "busdev_rep bus s3 ys" "keys ys = ks" "(dev, d) \<in> set ys" "bd_addr d = a"
    unfolding located_def by blast
  from ys(1) obtain b :: bus where b: "slist_rep (busdev_heap s3) (bus_dev_list b) ys" by (elim busdev_repE) blast
  have d: "deref (busdev_heap s3) dev = Some d" by (rule slist_rep_deref [OF b ys(3)])
  have upd: "\<exists>t. upd_busdev dev (\<lambda>d. d\<lparr>bd_res_list := head, bd_res_count := bd_res_count d + 1\<rparr>) s3 = Some t \<and>
      located bus ks dev a t" for head
    using upd_busdev_located [OF ys(1-3), of "\<lambda>d. d\<lparr>bd_res_list := head, bd_res_count := bd_res_count d + 1\<rparr>" a] ys(4) by auto
  have ins: "\<exists>r t. Option.bind (set_val (busdev_heap s3) dev (\<lambda>d. d\<lparr>bd_res_list := head, bd_res_count := bd_res_count d + 1\<rparr>))
      (\<lambda>dh. Some (0, s3\<lparr>busres_heap := h, busdev_heap := dh\<rparr>)) = Some (r, t) \<and> located bus ks dev a t" for head h
    using upd [of head] by (auto simp: upd_busdev_def)
  show ?thesis
    using loc3 d ins by (auto simp: genres_def 1 3 Let_def SLIST_INSERT_HEAD_def SLIST_SET_NEXT_def)
qed

lemma found_dev_redirects:
  assumes env: "env_ok env" and rep: "busdev_rep bus s xs" and bus: "bus_fromname s ''pci'' = Some bus"
    and name: "pci_name addr = Some name" and old: "(dev, d) \<in> set xs" "bd_name d = name"
    and isa: "\<not> hasisa s" and vid: "\<And>s v. fst (pci_read32 env addr v s) = w" "w AND 0xFFFF \<noteq> 0xFFFF"
  shows "\<exists>r t. found_dev env addr s = Some (r, t) \<and> located bus (keys xs) dev (pci_loc addr) t"
proof -
  obtain did s1 where 1: "pcidev_getdevice env addr s = (did, s1)" by fastforce
  obtain v s2 where 2: "pcidev_getvendor env addr s1 = (v, s2)" by fastforce
  have "v = w AND 0xFFFF" using 2 vid(1) [of 0 s1] by (auto simp: pcidev_getvendor_def split: prod.splits)
  then have v: "(ucast v :: u16) \<noteq> 0xFFFF"
  proof -
    assume vw: "v = w AND 0xFFFF"
    have m: "(0xFFFF :: u32) = mask 16" by (simp add: mask_eq_exp_minus_1)
    have "v = ucast (ucast v :: u16)"
      by (rule bit_word_eqI) (auto simp: vw m bit_simps)
    then show ?thesis using vid(2) vw by fastforce
  qed
  have "same_tables s1 s" "same_tables s2 s1"
    using pcidev_same(1) [OF env, of addr s] pcidev_same(2) [OF env, of addr s1] by (simp_all add: 1 2)
  then have s2: "same_tables s2 s" by (simp add: same_tables_def)
  then have rep2: "busdev_rep bus s2 xs" using rep by (simp add: busdev_rep_same)
  have mem: "name \<in> bd_name ` snd ` set xs" using old by force
  have add: "bus_adddev s2 p g bus name = Some (err EEXIST, s2)" for p g by (rule bus_adddev_present [OF rep2 mem])
  have "find_ptr (\<lambda>d. bd_name d = name) xs = dev"
  proof (rule find_ptr_unique [where P = "\<lambda>d. bd_name d = name", OF old])
    fix b w assume "(b, w) \<in> set xs" "bd_name w = name"
    then have "(b, w) = (dev, d)"
      using busdev_rep_keys [OF rep] old by (intro inj_onD [of "bd_name \<circ> snd" "set xs"]) (simp_all add: distinct_map)
    then show "b = dev" by simp
  qed
  then have get: "bus_getdevbyname s2 bus name = Some dev" by (simp add: bus_getdevbyname_rep [OF rep2])
  obtain l s4 where 4: "pcidev_getintline env addr s2 = (l, s4)" by fastforce
  have s4: "same_tables s4 s2" using pcidev_same(4) [OF env, of addr s2] by (simp add: 4)
  have int: "pci_getint env addr s2 = Some (ucast l, s4)"
    using isa same_tablesD(4) [OF s2] by (simp add: pci_getint_def 4)
  have rep4: "busdev_rep bus s4 xs" using rep2 s4 by (simp add: busdev_rep_same)
  let ?f = "\<lambda>d. d\<lparr>bd_flags := bd_flags d OR BUSDEV_INT, bd_interrupt := ucast (ucast l :: u8)\<rparr>"
  obtain s5 where s5: "(if (ucast l :: u8) \<noteq> 0 then upd_busdev dev ?f s4 else Some s4) = Some s5"
    "located bus (keys xs) dev (bd_addr d) s5"
  proof (cases "(ucast l :: u8) \<noteq> 0")
    case True
    obtain t where "upd_busdev dev ?f s4 = Some t" "located bus (keys xs) dev (bd_addr d) t"
      using upd_busdev_located [OF rep4 refl old(1), of ?f "bd_addr d"] by auto
    then show ?thesis using True that by simp
  next
    case False
    moreover have "located bus (keys xs) dev (bd_addr d) s4" using rep4 old unfolding located_def by blast
    ultimately show ?thesis using that by simp
  qed
  obtain ys d5 where ys: "busdev_rep bus s5 ys" "keys ys = keys xs" "(dev, d5) \<in> set ys"
    using s5(2) unfolding located_def by blast
  obtain s6 where s6: "upd_busdev dev (\<lambda>d. d\<lparr>bd_addr := pci_loc addr\<rparr>) s5 = Some s6"
    "located bus (keys xs) dev (pci_loc addr) s6"
    using upd_busdev_located [OF ys, of "\<lambda>d. d\<lparr>bd_addr := pci_loc addr\<rparr>" "pci_loc addr"] by auto
  obtain hdr s7 where 7: "pcidev_gethdrtype env addr s6 = (hdr, s7)" by fastforce
  have "same_tables s7 s6" using pcidev_same(3) [OF env, of addr s6] by (simp add: 7)
  then have s7: "located bus (keys xs) dev (pci_loc addr) s7" using s6(2) by (rule located_same)
  obtain r s8 where s8: "(if hdr AND 0x80 = 0 then for_r (genres env addr dev) (map of_nat [0..<6]) s7 else Some (0, s7)) = Some (r, s8)"
    "located bus (keys xs) dev (pci_loc addr) s8"
  proof (cases "hdr AND 0x80 = 0")
    case True
    then show ?thesis
      using for_r_total [of "located bus (keys xs) dev (pci_loc addr)", OF s7 genres_located [OF env]] that by fastforce
  qed (use s7 that in simp)
  have bus2: "bus_fromname s2 ''pci'' = Some bus" using bus by (simp add: bus_fromname_same [OF s2])
  show ?thesis
    using v s8(2)
    by (simp add: found_dev_def 1 2 name bus2 add get int s5(1) s6(1) 7 s8(1) split del: if_split cong: if_cong)
      (simp add: Let_def)
qed


subsection \<open>Properties\<close>

text \<open>Every read of the configuration space reads register 0, whatever register was asked for, since the address
  written to the port does not hold it: the header type of a device is the low byte of its device identifier, and the
  interrupt pin and the secondary bus are its high byte.\<close>

theorem config_reads_alias:
  "pci_read32 env dev reg = pci_read32 env dev 0"
  "pcidev_gethdrtype env dev s = (let (did, t) = pcidev_getdevice env dev s in (did AND 0xFF, t))"
  "pcidev_getintline env dev s = pcidev_gethdrtype env dev s"
  "pcidev_getintpin env dev s = (let (did, t) = pcidev_getdevice env dev s in (drop_bit 8 did AND 0xFF, t))"
  "pcidev_get2ndbus env dev s = pcidev_getintpin env dev s"
  by (simp_all add: fun_eq_iff pci_read32_def pcidev_gethdrtype_def pcidev_getdevice_def pcidev_getintline_def
      pcidev_getintpin_def pcidev_get2ndbus_def split_beta Let_def)

text \<open>On one bus two locations have the same name exactly if they have the same function and the slots are equal or
  one is ten times the other: slots 1 and 10, 2 and 20, 3 and 30 share their names.\<close>

theorem slot_names_collide:
  assumes "pd_bus a = pd_bus b" "pd_slot a < 32" "pd_slot b < 32" "pd_func a < 8" "pd_func b < 8"
  shows "pci_name a = pci_name b \<longleftrightarrow> pd_func a = pd_func b \<and>
    (pd_slot a = pd_slot b \<or> unat (pd_slot a) = 10 * unat (pd_slot b) \<or> unat (pd_slot b) = 10 * unat (pd_slot a))"
proof -
  have u: "unat (pd_slot a) < 32" "unat (pd_slot b) < 32" "unat (pd_func a) < 8" "unat (pd_func b) < 8"
    using assms(2-5) by (simp_all add: word_less_nat_alt)
  have "pci_name a = pci_name b \<longleftrightarrow>
      slot_part (unat (pd_slot a)) = slot_part (unat (pd_slot b)) \<and>
      digit_char (unat (pd_func a)) = digit_char (unat (pd_func b))"
    using u assms(1) by (simp add: pci_name_parts)
  then show ?thesis
    using u by (simp add: slot_part_eq digit_char_inj word_unat_eq_iff) blast
qed

theorem slot_names_collide_witness:
  "pci_name \<lparr>pd_bus = 0, pd_slot = 1, pd_func = 0\<rparr> = pci_name \<lparr>pd_bus = 0, pd_slot = 10, pd_func = 0\<rparr>"
  using slot_names_collide [of "\<lparr>pd_bus = 0, pd_slot = 1, pd_func = 0\<rparr>" "\<lparr>pd_bus = 0, pd_slot = 10, pd_func = 0\<rparr>"]
  by simp

text \<open>A function whose name another device of the bus already has is not added to the bus: \<open>found_dev\<close> does not
  look at the result of \<open>bus_adddev\<close>, so that the list keeps its entries and names, and the entry of the other device is
  given the location of the new one.\<close>

theorem found_dev_shared:
  assumes "env_ok env" "busdev_rep bus s xs" "bus_fromname s ''pci'' = Some bus"
    and "pci_name addr = Some name" "(dev, d) \<in> set xs" "bd_name d = name"
    and "\<not> hasisa s" "\<And>s v. fst (pci_read32 env addr v s) = w" "w AND 0xFFFF \<noteq> 0xFFFF"
  shows "\<exists>r t ys d. found_dev env addr s = Some (r, t) \<and> busdev_rep bus t ys \<and> keys ys = keys xs \<and>
    (dev, d) \<in> set ys \<and> bd_addr d = pci_loc addr"
  using found_dev_redirects [OF assms] unfolding located_def by blast

definition fixed_ports :: "u32 \<Rightarrow> pci_state pci_env" where
  "fixed_ports w = \<lparr>outl = \<lambda>p v s. s, outw = \<lambda>p v s. s, outbyte = \<lambda>p v s. s, inl = \<lambda>p s. (w, s), inw = \<lambda>p s. (0, s),
     inbyte = \<lambda>p s. (0, s), res_alloc = \<lambda>s. 0x80, dev_alloc = \<lambda>s. 0x40, dev_garbage = \<lambda>s. sample_busdev []\<rparr>"

definition pci_sample :: "(ptr \<times> bus_dev) list \<Rightarrow> pci_state" where
  "pci_sample xs = bus_state.extend (one_bus xs) \<lparr>isa = \<lparr>pd_bus = 0, pd_slot = 0, pd_func = 0\<rparr>, hasisa = False, remaps = [0, 0, 0, 0]\<rparr>"

lemma fixed_ports_ok: "env_ok (fixed_ports w)" "fst (pci_read32 (fixed_ports w) a r s) = w"
  by (simp_all add: env_ok_def fixed_ports_def pci_read32_def)

theorem found_dev_shared_witness:
  "\<exists>r t ys d. found_dev (fixed_ports 0x10008086) \<lparr>pd_bus = 0, pd_slot = 1, pd_func = 0\<rparr>
      (pci_sample [(0x20, sample_busdev ''000.10.0'')]) = Some (r, t) \<and> busdev_rep 0x10 t ys \<and>
    keys ys = [(0x20, ''000.10.0'')] \<and> (0x20, d) \<in> set ys \<and> bd_addr d = 0x800"
proof -
  let ?s = "pci_sample [(0x20, sample_busdev ''000.10.0'')]" and ?a = "\<lparr>pd_bus = 0, pd_slot = 1, pd_func = 0\<rparr>"
  have rep: "busdev_rep 0x10 ?s [(0x20, sample_busdev ''000.10.0'')]"
    by (simp add: busdev_rep_def pci_sample_def one_bus_def deref_def sample_busdev_def bus_state.defs)
  have bus: "bus_fromname ?s ''pci'' = Some 0x10"
    by (simp add: bus_fromname_rep [where xs = "[(0x10, \<lparr>bus_name = ''pci'', bus_type = ''pci'', bus_dev_list = 0x20, bus_dev_count = 1\<rparr>)]"]
        bus_rep_def pci_sample_def one_bus_def bus_state.defs)
  have name: "pci_name ?a = Some ''000.10.0''"
    by (simp add: pci_name_parts bus_part_def slot_part_def digit_char_0 digit_char_1)
  have isa: "\<not> hasisa ?s" by (simp add: pci_sample_def bus_state.defs)
  show ?thesis
    using found_dev_shared [where env = "fixed_ports 0x10008086" and w = "0x10008086" and d = "sample_busdev ''000.10.0''",
        OF fixed_ports_ok(1) rep bus name _ _ isa fixed_ports_ok(2)]
    by (simp add: keys_def sample_busdev_def pci_loc_def)
qed

text \<open>Scanning a bus on which no location answers with a vendor returns 0 and leaves the kernel's tables alone,
  with any positive amount of fuel.\<close>

theorem empty_bus_scanned:
  assumes "env_ok env" "\<And>a r s. fst (pci_read32 env a r s) AND 0xFFFF = 0xFFFF"
  shows "\<exists>t. check_bus env (Suc n) bus s = Some (0, t) \<and> same_tables t s"
proof -
  have dev: "\<exists>t'. check_dev env rec bus x t = Some (0, t') \<and> same_tables t' s" if "same_tables t s" for rec x t
    using pcidev_same(2) [OF assms(1), of "\<lparr>pd_bus = bus, pd_slot = x, pd_func = 0\<rparr>" t] that assms(2)
    by (auto simp: check_dev_def pcidev_getvendor_def split_beta same_tables_def)
  show ?thesis
    using for_r_zero [where P = "\<lambda>t. same_tables t s" and s = s and f = "check_dev env (check_bus env n) bus", OF _ dev] by (simp add: same_tables_def)
qed

theorem empty_bus_scanned_witness:
  "\<exists>t. check_bus (fixed_ports 0xFFFFFFFF) 1 0 (pci_sample []) = Some (0, t) \<and> same_tables t (pci_sample [])"
  using empty_bus_scanned [where env = "fixed_ports 0xFFFFFFFF" and n = 0, OF fixed_ports_ok(1)]
  by (simp add: fixed_ports_ok(2))

end
