(* ===== verification/Serial.thy ===== *)
theory Serial
  imports Tty Charbuf
begin

text \<open>
  The serial terminal driver, \<^verbatim>\<open>newland/arch/x86/modules/tty/serial.c\<close>.

  The ports and the two \<open>kmalloc\<close> calls of \<open>register_tty\<close> are a parameter, a record over the state. The
  loops that wait for the status bit may not end: they are partial functions, and not returning is
  \<open>None\<close>, like a fault. A terminal hands its name to the read and write operations, which take the
  number of the port from its fourth character.
\<close>

record 's serial_env =
  sr_inb :: "u16 \<Rightarrow> 's \<Rightarrow> u8 \<times> 's"
  sr_outb :: "u16 \<Rightarrow> u8 \<Rightarrow> 's \<Rightarrow> 's"
  sr_tty_alloc :: "'s \<Rightarrow> ptr"
  sr_dev_alloc :: "'s \<Rightarrow> ptr"

definition comport :: "u16 list" where
  "comport = [0x3F8, 0x2F8, 0x3E8, 0x2E8]"

text \<open>An index past the array is a fault.\<close>

definition com :: "u8 \<Rightarrow> u16 option" where
  "com comindex = (if unat comindex < length comport then Some (comport ! unat comindex) else None)"

subsection \<open>Reading and writing\<close>

text \<open>\<open>while (f() == 0);\<close>\<close>

partial_function (option) wait_until :: "('s \<Rightarrow> (u8 \<times> 's) option) \<Rightarrow> 's \<Rightarrow> 's option" where
  "wait_until f s = do {
     (v, t) \<leftarrow> f s;
     if v = 0 then wait_until f t else Some t
   }"

definition isreceived :: "'s serial_env \<Rightarrow> u8 \<Rightarrow> 's \<Rightarrow> (u8 \<times> 's) option" where
  "isreceived env comindex s = do {
     p \<leftarrow> com comindex;
     let (v, t) = sr_inb env (p + 5) s;
     Some (v AND 1, t)
   }"

definition read_char :: "'s serial_env \<Rightarrow> u8 \<Rightarrow> 's \<Rightarrow> (u8 \<times> 's) option" where
  "read_char env comindex s = do {
     t \<leftarrow> wait_until (isreceived env comindex) s;
     p \<leftarrow> com comindex;
     Some (sr_inb env p t)
   }"

definition istransmit :: "'s serial_env \<Rightarrow> u8 \<Rightarrow> 's \<Rightarrow> (u8 \<times> 's) option" where
  "istransmit env comindex s = do {
     p \<leftarrow> com comindex;
     let (v, t) = sr_inb env (p + 5) s;
     Some (v AND 0x20, t)
   }"

definition write_char :: "'s serial_env \<Rightarrow> u8 \<Rightarrow> u8 \<Rightarrow> 's \<Rightarrow> 's option" where
  "write_char env comindex c s = do {
     t \<leftarrow> wait_until (istransmit env comindex) s;
     p \<leftarrow> com comindex;
     Some (sr_outb env p c t)
   }"

subsection \<open>The operations of the terminal\<close>

definition port_index :: "string \<Rightarrow> u8" where
  "port_index name = of_char (name ! 3) - of_char (CHR ''0'')"

primrec read_chars :: "'s serial_env \<Rightarrow> u8 \<Rightarrow> nat \<Rightarrow> 's \<Rightarrow> (u8 list \<times> 's) option" where
  "read_chars env comindex 0 s = Some ([], s)"
| "read_chars env comindex (Suc n) s = do {
     (c, t) \<leftarrow> read_char env comindex s;
     (cs, u) \<leftarrow> read_chars env comindex n t;
     Some (c # cs, u)
   }"

text \<open>The result and the bytes stored in the buffer.\<close>

definition ser_tty_read :: "'s serial_env \<Rightarrow> string \<Rightarrow> u32 \<Rightarrow> 's \<Rightarrow> (u32 \<times> u8 list \<times> 's) option" where
  "ser_tty_read env name sz s =
     map_option (\<lambda>(cs, t). (sz, cs, t)) (read_chars env (port_index name) (unat sz) s)"

primrec write_chars :: "'s serial_env \<Rightarrow> u8 \<Rightarrow> u8 list \<Rightarrow> 's \<Rightarrow> 's option" where
  "write_chars env comindex [] s = Some s"
| "write_chars env comindex (c # cs) s = Option.bind (write_char env comindex c s) (write_chars env comindex cs)"

definition ser_tty_write :: "'s serial_env \<Rightarrow> string \<Rightarrow> u8 list \<Rightarrow> u32 \<Rightarrow> 's \<Rightarrow> (u32 \<times> 's) option" where
  "ser_tty_write env name buff sz s =
     (if length buff < unat sz then None
      else map_option (Pair sz) (write_chars env (port_index name) (take (unat sz) buff) s))"

subsection \<open>The module\<close>

text \<open>The name as \<open>tty_creat\<close> builds it in its array of five characters, of which four are cleared.\<close>

definition ser_name :: "char \<Rightarrow> u8 \<Rightarrow> string option" where
  "ser_name g comindex = do {
     b0 \<leftarrow> strcpy_at 0 ''ser'' (replicate 4 (CHR 0x00) @ [g]);
     b1 \<leftarrow> itoa_at 3 10 (ucast comindex) b0;
     Some (text_at 0 (b1[4 := CHR 0x00]))
   }"

definition ser_setup :: "'s serial_env \<Rightarrow> u16 \<Rightarrow> 's \<Rightarrow> 's" where
  "ser_setup env p s =
     fold (\<lambda>(r, v). sr_outb env (p + r) v)
       [(1, 0x00), (3, 0x80), (0, 0x03), (1, 0x00), (3, 0x03), (2, 0xC7), (4, 0x0B)] s"

text \<open>\<open>g\<close> is what the last character of the array held, \<open>opts\<close> the code addresses of the two operations.\<close>

definition tty_creat ::
  "'z tty_state_scheme serial_env \<Rightarrow> char \<Rightarrow> tty_opts \<Rightarrow> u8 \<Rightarrow> 'z tty_state_scheme \<Rightarrow> (u32 \<times> 'z tty_state_scheme) option" where
  "tty_creat env g opts comindex s = do {
     name \<leftarrow> ser_name g comindex;
     p \<leftarrow> com comindex;
     let t = ser_setup env p s;
     register_tty t (sr_tty_alloc env t) (sr_dev_alloc env t) name opts
   }"

definition tty_serial_init ::
  "'z tty_state_scheme serial_env \<Rightarrow> char \<Rightarrow> tty_opts \<Rightarrow> 'z tty_state_scheme \<Rightarrow> (u32 \<times> 'z tty_state_scheme) option" where
  "tty_serial_init env g opts s = for_r (tty_creat env g opts) (map of_nat [0..<4]) s"

text \<open>The fini function builds the name in an array of four.\<close>

definition fini_name :: "u8 \<Rightarrow> string option" where
  "fini_name i = do {
     b0 \<leftarrow> strcpy_at 0 ''ser'' (replicate 4 (CHR 0x00));
     b1 \<leftarrow> itoa_at 3 10 (ucast i) b0;
     Some (text_at 0 b1)
   }"

definition tty_serial_fini :: "'z tty_state_scheme \<Rightarrow> 'z tty_state_scheme option" where
  "tty_serial_fini s =
     foldM (\<lambda>i s. do { name \<leftarrow> fini_name i; map_option snd (unregister_tty s name) }) (map of_nat [0..<4]) s"


subsection \<open>Waiting\<close>

text \<open>A wait ends when some measure of the device goes down as long as the status is 0, and keeps what polling keeps.\<close>

lemma wait_until_ends:
  assumes "\<And>s. \<exists>v t. f s = Some (v, t) \<and> P t = P s \<and> (v = 0 \<longrightarrow> (d t :: nat) < d s)"
  shows "\<exists>t. wait_until f s = Some t \<and> P t = P s"
proof (induction "d s" arbitrary: s rule: less_induct)
  case less
  obtain v t where t: "f s = Some (v, t)" "P t = P s" "v = 0 \<longrightarrow> d t < d s" using assms by blast
  then show ?case using less [of t] by (auto simp: wait_until.simps [of f s])
qed

lemma com_defined: "unat i < 4 \<Longrightarrow> com i = Some (comport ! unat i)"
  by (simp add: com_def comport_def)

lemma write_chars_sent:
  assumes "com i = Some p"
    and keep: "\<And>s. sent (snd (sr_inb env (p + 5) s)) = sent s"
    and ready: "\<And>s. fst (sr_inb env (p + 5) s) AND 0x20 = 0 \<Longrightarrow> (delay (snd (sr_inb env (p + 5) s)) :: nat) < delay s"
    and out: "\<And>s c. sent (sr_outb env p c s) = sent s @ [c]"
  shows "\<exists>t. write_chars env i cs s = Some t \<and> sent t = sent s @ cs"
proof (induction cs arbitrary: s)
  case (Cons c cs)
  have "\<exists>v t. istransmit env i s = Some (v, t) \<and> sent t = sent s \<and> (v = 0 \<longrightarrow> delay t < delay s)" for s
    using keep [of s] ready [of s] assms(1) by (auto simp: istransmit_def split_beta)
  from wait_until_ends [where P = sent, OF this] obtain t where "wait_until (istransmit env i) s = Some t" "sent t = sent s"
    by blast
  then show ?case
    using Cons.IH [of "sr_outb env p c t"] assms(1) out by (simp add: write_char_def)
qed simp

lemma read_chars_got:
  assumes "com i = Some p"
    and keep: "\<And>s. got (snd (sr_inb env (p + 5) s)) = got s"
    and ready: "\<And>s. fst (sr_inb env (p + 5) s) AND 1 = 0 \<Longrightarrow> (delay (snd (sr_inb env (p + 5) s)) :: nat) < delay s"
    and inp: "\<And>s. got (snd (sr_inb env p s)) = got s @ [fst (sr_inb env p s)]"
  shows "\<exists>cs t. read_chars env i n s = Some (cs, t) \<and> length cs = n \<and> got t = got s @ cs"
proof (induction n arbitrary: s)
  case (Suc n)
  have "\<exists>v t. isreceived env i s = Some (v, t) \<and> got t = got s \<and> (v = 0 \<longrightarrow> delay t < delay s)" for s
    using keep [of s] ready [of s] assms(1) by (auto simp: isreceived_def split_beta)
  from wait_until_ends [where P = got, OF this] obtain t where t: "wait_until (isreceived env i) s = Some t" "got t = got s"
    by blast
  obtain c u where c: "sr_inb env p t = (c, u)" by fastforce
  obtain cs w where "read_chars env i n u = Some (cs, w)" "length cs = n" "got w = got u @ cs" using Suc.IH [of u] by blast
  then show ?case using t c assms(1) inp [of t] by (simp add: read_char_def)
qed simp

text \<open>A status port that never changes is polled for ever.\<close>

lemma wait_until_stuck:
  assumes "f s = Some (0, s)"
  shows "wait_until f s = None"
proof (rule ccontr)
  assume "wait_until f s \<noteq> None"
  then obtain t where "wait_until f s = Some t" by blast
  then have "f s \<noteq> Some (0, s)"
  proof (induction rule: wait_until.raw_induct [rotated, consumes 1])
    case (1 w f s t)
    then show ?case by (auto simp: bind_eq_Some_conv split: if_splits)
  qed
  then show False using assms by simp
qed


subsection \<open>Names and registration\<close>

lemma unat_u8_ucast: "unat (ucast (w :: u8) :: u32) = unat w"
  by (simp add: unsigned_ucast_eq take_bit_nat_eq_self_iff less_trans [OF unat_u8_less])

lemma replicate_4: "replicate 4 c = [c, c, c, c]"
  by (simp add: eval_nat_numeral)

lemma ser_name_text: "unat i < 10 \<Longrightarrow> ser_name g i = Some (''ser'' @ [digit_char (unat i)])"
  by (simp add: ser_name_def strcpy_at_def replicate_4 itoa_at_dec unat_u8_ucast dec_digits_small text_at_def)

lemma fini_name_overrun: "unat i < 10 \<Longrightarrow> fini_name i = None"
  by (simp add: fini_name_def strcpy_at_def replicate_4 itoa_at_dec unat_u8_ucast dec_digits_small poke_overrun)

definition ser :: "nat \<Rightarrow> string" where
  "ser i = ''ser'' @ [digit_char i]"

lemma ser_inj: "i < 10 \<Longrightarrow> j < 10 \<Longrightarrow> ser i = ser j \<longleftrightarrow> i = j"
  by (simp add: ser_def)

text \<open>What the driver needs of the ports and of \<open>kmalloc\<close>: ports leave the kernel's state alone, and allocation gives new
  memory as long as fewer than \<open>N\<close> blocks of the kind are in use.\<close>

definition serial_ok :: "nat \<Rightarrow> 'z tty_state_scheme serial_env \<Rightarrow> bool" where
  "serial_ok N env \<longleftrightarrow> (\<forall>p v s. tty_state.truncate (sr_outb env p v s) = tty_state.truncate s) \<and>
     (\<forall>s. card (dom (tty_heap s)) < N \<longrightarrow> sr_tty_alloc env s \<noteq> 0 \<and> tty_heap s (sr_tty_alloc env s) = None) \<and>
     (\<forall>s. card (dom (dev_heap s)) < N \<longrightarrow> dev_fresh s (sr_dev_alloc env s))"

lemma register_device_dom:
  assumes "register_device s p dev name opts sz = Some (r, t)"
  shows "(dev_heap t = dev_heap s \<or> (\<exists>c. dev_heap t = (dev_heap s)(p \<mapsto> c))) \<and> tty_heap t = tty_heap s"
  using assms
  by (auto simp: register_device_def SLIST_INSERT_HEAD_def SLIST_SET_NEXT_def bind_eq_Some_conv split: if_splits option.splits)

lemma register_tty_dom:
  assumes "register_tty s p q name opts = Some (r, t)"
  shows "dom (tty_heap t) \<subseteq> insert p (dom (tty_heap s)) \<and> dom (dev_heap t) \<subseteq> insert q (dom (dev_heap s))"
  using assms
  by (auto simp: register_tty_def SLIST_INSERT_HEAD_def SLIST_SET_NEXT_def heap_free_def bind_eq_Some_conv Let_def printk_s_def
      dest!: register_device_dom split: if_splits option.splits)

lemma ser_setup_keeps: "serial_ok N env \<Longrightarrow> tty_state.truncate (ser_setup env p s) = tty_state.truncate s"
  by (simp add: ser_setup_def serial_ok_def)

lemma tables_truncate:
  "tty_state.truncate t = tty_state.truncate s \<Longrightarrow> tty_rep t xs \<longleftrightarrow> tty_rep s xs"
  "tty_state.truncate t = tty_state.truncate s \<Longrightarrow> device_rep t ds \<longleftrightarrow> device_rep s ds"
  "tty_state.truncate t = tty_state.truncate s \<Longrightarrow> tty_heap t = tty_heap s"
  "tty_state.truncate t = tty_state.truncate s \<Longrightarrow> dev_heap t = dev_heap s"
  by (simp_all add: tty_rep_def device_rep_def tty_state.defs)

text \<open>The tables after the first \<open>k\<close> ports.\<close>

definition ser_tables :: "nat \<Rightarrow> nat \<Rightarrow> 'z tty_state_scheme \<Rightarrow> bool" where
  "ser_tables N k s \<longleftrightarrow> card (dom (tty_heap s)) + 4 \<le> N + k \<and> card (dom (dev_heap s)) + 4 \<le> N + k \<and>
     (\<exists>xs ds. tty_rep s xs \<and> device_rep s ds \<and> map (tty_name \<circ> snd) xs = rev (map ser [0..<k]) \<and>
     tty_numbered ds xs \<and>
     (\<forall>x \<in> set ds. \<forall>i < 4. k \<le> i \<longrightarrow> device_name (snd x) \<noteq> ser i \<and> device_dev (snd x) \<noteq> MKDEV DEVMAJ_TTY (of_nat i)))"

lemma MKDEV_tty_inj: "i < 4 \<Longrightarrow> j < 4 \<Longrightarrow> MKDEV DEVMAJ_TTY (of_nat i) = MKDEV DEVMAJ_TTY (of_nat j) \<longleftrightarrow> i = j"
proof -
  assume "i < 4" "j < 4"
  then have "i \<in> {0, 1, 2, 3}" "j \<in> {0, 1, 2, 3}" by auto
  then show ?thesis by (auto simp: MKDEV_def DEVMAJ_TTY_def)
qed

lemma tty_creat_registers:
  assumes env: "serial_ok N env" and k: "k < 4" and tabs: "ser_tables N k s"
  shows "\<exists>t. tty_creat env g opts (of_nat k) s = Some (0, t) \<and> ser_tables N (Suc k) t"
proof -
  have room: "card (dom (tty_heap s)) < N" "card (dom (dev_heap s)) < N"
    using tabs k by (simp_all add: ser_tables_def)
  obtain xs ds where reps: "tty_rep s xs" "device_rep s ds" and names: "map (tty_name \<circ> snd) xs = rev (map ser [0..<k])"
    and num: "tty_numbered ds xs"
    and free: "\<forall>x \<in> set ds. \<forall>i < 4. k \<le> i \<longrightarrow> device_name (snd x) \<noteq> ser i \<and> device_dev (snd x) \<noteq> MKDEV DEVMAJ_TTY (of_nat i)"
    using tabs unfolding ser_tables_def by blast
  have uk: "unat (of_nat k :: u8) = k" using k by (simp add: unat_of_nat take_bit_nat_eq_self_iff)
  let ?t = "ser_setup env (comport ! k) s"
  have t: "tty_rep ?t xs" "device_rep ?t ds" using reps by (simp_all add: tables_truncate [OF ser_setup_keeps [OF env]])
  have heaps: "tty_heap ?t = tty_heap s" "dev_heap ?t = dev_heap s"
    by (rule tables_truncate [OF ser_setup_keeps [OF env]])+
  have alloc: "sr_tty_alloc env ?t \<noteq> 0" "tty_heap ?t (sr_tty_alloc env ?t) = None" "dev_fresh ?t (sr_dev_alloc env ?t)"
    using env room unfolding serial_ok_def heaps [symmetric] by blast+
  have len: "length xs = k" using arg_cong [OF names, of length] by simp
  have "set (map (tty_name \<circ> snd) xs) = ser ` {0..<k}" by (simp add: names)
  moreover have "ser k \<notin> ser ` {0..<k}" using k by (auto simp: ser_inj)
  ultimately have "\<forall>x \<in> set xs. tty_name (snd x) \<noteq> ser k" by (metis comp_apply image_eqI list.set_map)
  then have nf: "tty_name_free ds xs (ser k)"
    using free k by (simp add: tty_name_free_def)
  obtain u where u: "register_tty ?t (sr_tty_alloc env ?t) (sr_dev_alloc env ?t) (ser k) opts = Some (0, u)"
    "device_rep u ((sr_dev_alloc env ?t, \<lparr>device_dev = MKDEV DEVMAJ_TTY (of_nat k), device_size = 0, device_name = ser k,
       device_opts = tty_fsopts\<rparr>) # ds)"
    "tty_rep u ((sr_tty_alloc env ?t, \<lparr>tty_name = ser k, tty_opts = opts\<rparr>) # xs)"
    by (rule register_tty_new [OF t(2,1) nf, of "sr_tty_alloc env ?t" "sr_dev_alloc env ?t" opts])
      (use alloc free k len in \<open>simp_all add: ser_def NAME_MAX_def\<close>)
  have "tty_creat env g opts (of_nat k) s = Some (0, u)"
    using u(1) k uk by (simp add: tty_creat_def ser_name_text com_defined ser_def)
  moreover have "ser_tables N (Suc k) u"
    unfolding ser_tables_def
  proof (intro conjI exI)
    show "card (dom (tty_heap u)) + 4 \<le> N + Suc k" "card (dom (dev_heap u)) + 4 \<le> N + Suc k"
      using card_dom_insert [of "tty_heap u" _ "tty_heap ?t"] card_dom_insert [of "dev_heap u" _ "dev_heap ?t"]
        register_tty_dom [OF u(1)] tabs by (fastforce simp: ser_tables_def heaps)+
  qed (rule u(3), rule u(2), use names len num free k in \<open>auto intro: tty_numbered_Cons simp: MKDEV_tty_inj ser_inj\<close>)
  ultimately show ?thesis by blast
qed


subsection \<open>Properties\<close>

text \<open>Writing to a serial terminal sends the bytes of the buffer in order and returns the number of them, on a device
  whose status port does not send anything, is ready after finitely many reads, and whose data port sends the byte written.\<close>

theorem serial_write_sends:
  assumes "port_index name = i" "com i = Some p" "length buff = unat sz"
    and "\<And>s. sent (snd (sr_inb env (p + 5) s)) = sent s"
    and "\<And>s. fst (sr_inb env (p + 5) s) AND 0x20 = 0 \<Longrightarrow> (delay (snd (sr_inb env (p + 5) s)) :: nat) < delay s"
    and "\<And>s c. sent (sr_outb env p c s) = sent s @ [c]"
  shows "\<exists>t. ser_tty_write env name buff sz s = Some (sz, t) \<and> sent t = sent s @ buff"
  using write_chars_sent [where sent = sent and delay = delay, OF assms(2,4,5,6), of buff s] assms(1,3)
  by (auto simp: ser_tty_write_def)

text \<open>A line for the witnesses: the status port is busy a number of times, the data port records what is sent, and answers
  with the number of bytes read so far.\<close>

definition line_env :: "(nat \<times> u8 list) serial_env" where
  "line_env = \<lparr>sr_inb = \<lambda>p (n, l). if p = 0x3FD then (if n = 0 then 0x21 else 0, n - 1, l)
       else (of_nat (length l), n, l @ [of_nat (length l)]),
     sr_outb = \<lambda>p v (n, l). (3, l @ [v]), sr_tty_alloc = \<lambda>_. 0, sr_dev_alloc = \<lambda>_. 0\<rparr>"

lemma line_env_ports [simp]:
  "sr_inb line_env 0x3FD s = (if fst s = 0 then 0x21 else 0, fst s - 1, snd s)"
  "sr_inb line_env 0x3F8 s = (of_nat (length (snd s)), fst s, snd s @ [of_nat (length (snd s))])"
  "sr_outb line_env q c s = (3, snd s @ [c])"
  by (simp_all add: line_env_def split_beta)

lemma line_env_delay [simp]:
  "(if fst (s :: nat \<times> u8 list) = 0 then 33 else 0 :: u8) AND 32 = 0 \<Longrightarrow> fst s - Suc 0 < fst s"
  "(if fst s = 0 then 33 else 0 :: u8) AND 1 = 0 \<Longrightarrow> fst s - Suc 0 < fst s"
  by (cases "fst s = 0"; simp)+

lemma com_0: "port_index ''ser0'' = 0" "com 0 = Some 0x3F8"
  by (simp_all add: port_index_def com_def comport_def)

theorem serial_write_sends_witness:
  "\<exists>t. ser_tty_write line_env ''ser0'' [0x68, 0x69] 2 (5, []) = Some (2, t) \<and> snd t = [0x68, 0x69]"
  using serial_write_sends [OF com_0, where sent = snd and delay = fst and env = line_env and buff = "[0x68, 0x69]" and sz = 2
      and s = "(5, [])"]
  by simp

text \<open>Reading from a serial terminal stores as many bytes as were asked for, in the order in which the data port
  answered, and returns their number.\<close>

theorem serial_read_gets:
  assumes "port_index name = i" "com i = Some p"
    and "\<And>s. got (snd (sr_inb env (p + 5) s)) = got s"
    and "\<And>s. fst (sr_inb env (p + 5) s) AND 1 = 0 \<Longrightarrow> (delay (snd (sr_inb env (p + 5) s)) :: nat) < delay s"
    and "\<And>s. got (snd (sr_inb env p s)) = got s @ [fst (sr_inb env p s)]"
  shows "\<exists>cs t. ser_tty_read env name sz s = Some (sz, cs, t) \<and> length cs = unat sz \<and> got t = got s @ cs"
  using read_chars_got [where got = got and delay = delay, OF assms(2-5), of "unat sz" s] assms(1)
  by (auto simp: ser_tty_read_def)

theorem serial_read_gets_witness:
  "\<exists>cs t. ser_tty_read line_env ''ser0'' 3 (5, []) = Some (3, cs, t) \<and> length cs = 3 \<and> snd t = cs"
  using serial_read_gets [OF com_0, where got = snd and delay = fst and env = line_env and sz = 3 and s = "(5, [])"]
  by simp

text \<open>Writing to a line whose status port always answers 0, such as a port that is not there, never returns.\<close>

theorem serial_write_hangs:
  assumes "port_index name = i" "com i = Some p" "length buff = unat sz" "buff \<noteq> []"
    and "sr_inb env (p + 5) s = (v, s)" "v AND 0x20 = 0"
  shows "ser_tty_write env name buff sz s = None"
proof -
  have "wait_until (istransmit env i) s = None"
    by (rule wait_until_stuck) (simp add: istransmit_def assms)
  then show ?thesis using assms(1-4) by (cases buff) (auto simp: ser_tty_write_def write_char_def)
qed

theorem serial_write_hangs_witness:
  "ser_tty_write (line_env\<lparr>sr_inb := \<lambda>p s. (0, s)\<rparr>) ''ser0'' [0x68] 1 (0, []) = None"
  by (rule serial_write_hangs [OF com_0, where v = 0]) simp_all

text \<open>C20: The init function of the module registers the four terminals ser0 to ser3, with the devices of their numbers,
  in a kernel without terminals in which those names and numbers are free and memory is available.\<close>

theorem serial_init_registers:
  fixes s :: "'z tty_state_scheme"
  assumes "serial_ok N env" "tty_rep s []" "device_rep s ds"
    and "card (dom (tty_heap s)) + 4 \<le> N" "card (dom (dev_heap s)) + 4 \<le> N"
    and "\<forall>x \<in> set ds. \<forall>i < 4. device_name (snd x) \<noteq> ser i \<and> device_dev (snd x) \<noteq> MKDEV DEVMAJ_TTY (of_nat i)"
  shows "\<exists>t xs ds. tty_serial_init env g opts s = Some (0, t) \<and> tty_rep t xs \<and> device_rep t ds \<and>
    map (tty_name \<circ> snd) xs = [''ser3'', ''ser2'', ''ser1'', ''ser0''] \<and> tty_numbered ds xs"
proof -
  have "ser_tables N 0 s" unfolding ser_tables_def by (intro conjI exI [of _ "[]"] exI [of _ ds]) (use assms in auto)
  then obtain t where t: "tty_serial_init env g opts s = Some (0, t)" "ser_tables N 4 t"
    using for_r_counted [where P = "ser_tables N" and n = 4 and f = "tty_creat env g opts" and g = of_nat,
        OF _ tty_creat_registers [OF assms(1)]] by (auto simp: tty_serial_init_def)
  have "rev (map ser [0..<4]) = [''ser3'', ''ser2'', ''ser1'', ''ser0'']" by code_simp
  then show ?thesis using t unfolding ser_tables_def by metis
qed

definition quiet_ports :: "tty_state serial_env" where
  "quiet_ports = \<lparr>sr_inb = \<lambda>p s. (0x21, s), sr_outb = \<lambda>p v s. s, sr_tty_alloc = first_free \<circ> tty_heap, sr_dev_alloc = first_free \<circ> dev_heap\<rparr>"

definition no_ttys :: tty_state where
  "no_ttys = \<lparr>klog_calls = [], dev_heap = Map.empty, devices = 0, dev_count = 0, blk_heap = Map.empty, block_devices = 0,
     block_device_count = 0, tty_heap = Map.empty, ttys = 0, tty_cnt = 0\<rparr>"

theorem serial_init_registers_witness:
  "\<exists>t xs ds. tty_serial_init quiet_ports (CHR ''x'') \<lparr>tty_read = 0x100, tty_write = 0x200, cursor_set = 0, cursor_move = 0, cursor_get = 0,
      win_get = 0, win_set = 0\<rparr> no_ttys = Some (0, t) \<and> tty_rep t xs \<and> device_rep t ds \<and>
    map (tty_name \<circ> snd) xs = [''ser3'', ''ser2'', ''ser1'', ''ser0''] \<and> tty_numbered ds xs"
proof (rule serial_init_registers [where N = 4 and ds = "[]"])
  show "serial_ok 4 quiet_ports"
    by (simp add: serial_ok_def quiet_ports_def dev_fresh_def first_free_fresh)
qed (simp_all add: no_ttys_def tty_rep_def device_rep_def)

text \<open>The fini function of the module always faults: it builds the name of a terminal, four characters and the
  terminator, in an array of four characters.\<close>

theorem serial_fini_overruns: "tty_serial_fini s = None"
  by (simp add: tty_serial_fini_def fini_name_overrun upt_rec)

end
