(* ===== verification/Stdio.thy ===== *)
theory Stdio
  imports Fs Printf
begin

text \<open>
  Streams of the C library: \<^verbatim>\<open>libraries/libc/src/stdio\<close> (\<^verbatim>\<open>vfprintf.c\<close> and its wrappers, \<^verbatim>\<open>__file_read.c\<close>,
  \<^verbatim>\<open>__file_write.c\<close>), the allocation stubs of \<^verbatim>\<open>stdlib\<close>, the standard streams of \<^verbatim>\<open>lib.c\<close>, and the program
  \<^verbatim>\<open>hello\<close> that prints through them.

  The library is built twice, for the kernel and for programs: the flag \<open>inkernel\<close> chooses the code that
  \<^verbatim>\<open>NEWLAND_KERNEL\<close> selects. The function behind a stream's \<open>write\<close> is reached through its code address: \<open>call\<close>. What
  the allocator answers (\<open>alloc\<close>), what its memory held (\<open>garbage\<close>) and what freeing does to it (\<open>kfree\<close>) are arguments;
  \<open>malloc\<close> is the allocator of programs.
\<close>

record FILE =
  file_fd :: u32
  file_impl :: ptr
  file_mode :: string
  file_offset :: u32
  file_write :: u32
  file_read :: u32

record stdio_state = fs_state +
  files :: "ptr \<Rightarrow> FILE option"
  errno_val :: u32

definition set_errno :: "errno \<Rightarrow> 'z stdio_state_scheme \<Rightarrow> 'z stdio_state_scheme" where
  "set_errno e s = s\<lparr>errno_val := errno_code e\<rparr>"

subsection \<open>The functions behind a stream\<close>

definition libc_file_read ::
  "bool \<Rightarrow> 'z stdio_state_scheme drivers \<Rightarrow> (nat \<Rightarrow> ptr) \<Rightarrow> 'z stdio_state_scheme \<Rightarrow> ptr \<Rightarrow> ptr \<Rightarrow> u32 \<Rightarrow>
   (u32 \<times> 'z stdio_state_scheme) option" where
  "libc_file_read inkernel env bufs s stream buff sz =
     (if inkernel then do {
        f \<leftarrow> files s stream;
        fs_node_read env bufs s (file_impl f) (file_offset f) buff sz
      }
      else Some (0, s))"

definition libc_file_write ::
  "bool \<Rightarrow> 'z stdio_state_scheme drivers \<Rightarrow> (nat \<Rightarrow> ptr) \<Rightarrow> 'z stdio_state_scheme \<Rightarrow> ptr \<Rightarrow> ptr \<Rightarrow> u32 \<Rightarrow>
   (u32 \<times> 'z stdio_state_scheme) option" where
  "libc_file_write inkernel env bufs s stream buff sz =
     (if inkernel then do {
        f \<leftarrow> files s stream;
        fs_node_write env bufs s (file_impl f) (file_offset f) buff sz
      }
      else Some (0, s))"

text \<open>\<open>wr\<close> and \<open>rd\<close> are the code addresses of the two.\<close>

definition libc_stdin :: "u32 \<Rightarrow> u32 \<Rightarrow> FILE" where
  "libc_stdin wr rd = \<lparr>file_fd = 0, file_impl = 0, file_mode = ''r'', file_offset = 0, file_write = wr, file_read = rd\<rparr>"

definition libc_stdout :: "u32 \<Rightarrow> u32 \<Rightarrow> FILE" where
  "libc_stdout wr rd = \<lparr>file_fd = 1, file_impl = 0, file_mode = ''w'', file_offset = 0, file_write = wr, file_read = rd\<rparr>"

definition libc_stderr :: "u32 \<Rightarrow> u32 \<Rightarrow> FILE" where
  "libc_stderr wr rd = \<lparr>file_fd = 2, file_impl = 0, file_mode = ''w'', file_offset = 0, file_write = wr, file_read = rd\<rparr>"

definition malloc :: "u32 \<Rightarrow> ptr" where
  "malloc sz = 0"

definition libc_free :: "mem \<Rightarrow> ptr \<Rightarrow> mem" where
  "libc_free m p = m"

subsection \<open>Printing\<close>

text \<open>
  The length of the text is asked of \<open>vsnprintf\<close> with the one character \<open>tmp\<close> as its buffer; \<open>c\<close> is what \<open>tmp\<close> held.
\<close>

definition vfprintf ::
  "(u32 \<Rightarrow> ptr \<Rightarrow> ptr \<Rightarrow> u32 \<Rightarrow> 'z stdio_state_scheme \<Rightarrow> (u32 \<times> 'z stdio_state_scheme) option) \<Rightarrow> (u32 \<Rightarrow> ptr) \<Rightarrow>
   (mem \<Rightarrow> ptr \<Rightarrow> mem) \<Rightarrow> char \<Rightarrow> (nat \<Rightarrow> string) \<Rightarrow> 'z stdio_state_scheme \<Rightarrow> ptr \<Rightarrow> string \<Rightarrow> arg list \<Rightarrow>
   (u32 \<times> 'z stdio_state_scheme) option" where
  "vfprintf call alloc kfree c garbage s stream format ap =
     (if stream = 0 then Some (- 1, set_errno EINVAL s)
      else do {
        f \<leftarrow> files s stream;
        if file_write f = 0 then Some (- 1, set_errno ENOSYS s)
        else do {
          (r, tmp) \<leftarrow> vsnprintf [c] 1 format ap;
          if r < 0 then Some (of_int r, s)
          else do {
            let str = alloc (of_int r);
            if str = 0 then Some (of_int r, s)
            else do {
              (r1, text) \<leftarrow> vsnprintf (garbage (nat r)) (nat r) format ap;
              (n, s1) \<leftarrow> call (file_write f) stream str (of_int r) (s\<lparr>fs_mem := write_bytes (fs_mem s) str (map byte text)\<rparr>);
              f1 \<leftarrow> files s1 stream;
              let s2 = (if sint n > 0 then s1\<lparr>files := (files s1)(stream \<mapsto> f1\<lparr>file_offset := file_offset f1 + n\<rparr>)\<rparr> else s1);
              Some (n, s2\<lparr>fs_mem := kfree (fs_mem s2) str\<rparr>)
            }
          }
        }
      })"

definition fprintf ::
  "(u32 \<Rightarrow> ptr \<Rightarrow> ptr \<Rightarrow> u32 \<Rightarrow> 'z stdio_state_scheme \<Rightarrow> (u32 \<times> 'z stdio_state_scheme) option) \<Rightarrow> (u32 \<Rightarrow> ptr) \<Rightarrow>
   (mem \<Rightarrow> ptr \<Rightarrow> mem) \<Rightarrow> char \<Rightarrow> (nat \<Rightarrow> string) \<Rightarrow> 'z stdio_state_scheme \<Rightarrow> ptr \<Rightarrow> string \<Rightarrow> arg list \<Rightarrow>
   (u32 \<times> 'z stdio_state_scheme) option" where
  "fprintf call alloc kfree c garbage s stream format ap = vfprintf call alloc kfree c garbage s stream format ap"

text \<open>\<open>stdout\<close> is the address of \<open>libc_stdout\<close>.\<close>

definition printf ::
  "(u32 \<Rightarrow> ptr \<Rightarrow> ptr \<Rightarrow> u32 \<Rightarrow> 'z stdio_state_scheme \<Rightarrow> (u32 \<times> 'z stdio_state_scheme) option) \<Rightarrow> (u32 \<Rightarrow> ptr) \<Rightarrow>
   (mem \<Rightarrow> ptr \<Rightarrow> mem) \<Rightarrow> char \<Rightarrow> (nat \<Rightarrow> string) \<Rightarrow> ptr \<Rightarrow> 'z stdio_state_scheme \<Rightarrow> string \<Rightarrow> arg list \<Rightarrow>
   (u32 \<times> 'z stdio_state_scheme) option" where
  "printf call alloc kfree c garbage stdout s format ap = vfprintf call alloc kfree c garbage s stdout format ap"

definition snprintf :: "char list \<Rightarrow> nat \<Rightarrow> string \<Rightarrow> arg list \<Rightarrow> (int \<times> char list) option" where
  "snprintf str sz format ap = vsnprintf str sz format ap"

text \<open>The program \<^verbatim>\<open>hello\<close>, with the allocator and the streams of programs.\<close>

definition hello_main ::
  "(u32 \<Rightarrow> ptr \<Rightarrow> ptr \<Rightarrow> u32 \<Rightarrow> 'z stdio_state_scheme \<Rightarrow> (u32 \<times> 'z stdio_state_scheme) option) \<Rightarrow> char \<Rightarrow>
   (nat \<Rightarrow> string) \<Rightarrow> ptr \<Rightarrow> 'z stdio_state_scheme \<Rightarrow> (u32 \<times> 'z stdio_state_scheme) option" where
  "hello_main call c garbage stdout s = do {
     (r, s1) \<leftarrow> printf call malloc libc_free c garbage stdout s (''Hello, world'' @ [CHR 0x0A]) [];
     Some (0, s1)
   }"

text \<open>The program \<^verbatim>\<open>init\<close> does nothing.\<close>

definition init_main :: "'s \<Rightarrow> u32 \<times> 's" where
  "init_main s = (0, s)"

subsection \<open>Properties\<close>

text \<open>The length that \<open>vfprintf\<close> asks for first.\<close>

text \<open>
  The start of a program. \<open>ini\<close> and \<open>fin\<close> stand for \<^verbatim>\<open>_init\<close> and \<^verbatim>\<open>_fini\<close>, whose ends (\<^verbatim>\<open>crtn.s\<close>) pop into a symbol \<open>ebp\<close> that
  no file defines. A program that has returned from \<open>main\<close> loops for ever, so its result reaches nobody.
\<close>

definition libc_init :: "('s \<Rightarrow> 's option) \<Rightarrow> 's \<Rightarrow> 's option" where
  "libc_init ini s = ini s"

definition libc_fini :: "('s \<Rightarrow> 's option) \<Rightarrow> u32 \<Rightarrow> 's \<Rightarrow> 's option" where
  "libc_fini fin code s = Option.bind (fin s) (\<lambda>_. None)"

definition program_start :: "('s \<Rightarrow> 's option) \<Rightarrow> ('s \<Rightarrow> (u32 \<times> 's) option) \<Rightarrow> ('s \<Rightarrow> 's option) \<Rightarrow> 's \<Rightarrow> 's option" where
  "program_start ini main fin s = do {
     s1 \<leftarrow> libc_init ini s;
     (r, s2) \<leftarrow> main s1;
     libc_fini fin r s2
   }"

lemma measured:
  assumes "text_of format ap = Some t"
  shows "vsnprintf [c] (Suc 0) format ap = (if t = [] then Some (- 1, [CHR 0x00]) else None)"
  using vsnprintf_exact [of "[c]" "Suc 0", OF _ assms] by simp

text \<open>\<open>vfprintf\<close> never gives a stream anything to write. Without a stream, or without a \<open>write\<close>, it returns -1 and
  sets \<open>errno\<close>; an empty text ends with -1, for which \<open>vsnprintf\<close> takes the length of it; and any other text is written
  behind \<open>tmp\<close>, the one character it is measured in: a fault.\<close>

theorem vfprintf_never_writes:
  assumes "text_of format ap = Some t"
  shows "vfprintf call alloc kfree c garbage s stream format ap =
    (if stream = 0 then Some (- 1, set_errno EINVAL s)
     else case files s stream of
       None \<Rightarrow> None
     | Some f \<Rightarrow> if file_write f = 0 then Some (- 1, set_errno ENOSYS s) else if t = [] then Some (- 1, s) else None)"
  by (simp add: vfprintf_def measured [OF assms] split: option.splits)

theorem vfprintf_never_writes_witness:
  "vfprintf (\<lambda>f st p n s. Some (n, s)) (\<lambda>n. 0x9000) (\<lambda>m p. m) CHR 0x00 (\<lambda>n. replicate n CHR 0x00)
     (fs_state.extend empty_fs (stdio_state.fields [0x40 \<mapsto> libc_stdout 0x61 0x62] 0)) 0x40 ''%d'' [AInt 7] = None"
proof -
  have "text_of ''%d'' [AInt 7] = Some (sdec 7)" by (simp add: text_conv_def)
  moreover have "sdec 7 \<noteq> []" by (simp add: sdec_def)
  ultimately show ?thesis
    using vfprintf_never_writes [where format = "''%d''" and ap = "[AInt 7]" and t = "sdec 7" and stream = "0x40"
        and call = "\<lambda>f st p n s. Some (n, s)" and alloc = "\<lambda>n. 0x9000" and kfree = "\<lambda>m p. m" and c = "CHR 0x00"
        and garbage = "\<lambda>n. replicate n CHR 0x00"
        and s = "fs_state.extend empty_fs (stdio_state.fields [0x40 \<mapsto> libc_stdout 0x61 0x62] 0)"]
    by (simp add: fs_state.defs stdio_state.defs libc_stdout_def)
qed

text \<open>So the program \<^verbatim>\<open>hello\<close> does not return: its greeting is written behind a local variable of \<open>vfprintf\<close>.\<close>

theorem hello_faults:
  assumes "files s stdout = Some (libc_stdout wr rd)" "wr \<noteq> 0" "stdout \<noteq> 0"
  shows "hello_main call c garbage stdout s = None"
proof -
  have "text_of (''Hello, world'' @ [CHR 0x0A]) [] = Some (''Hello, world'' @ [CHR 0x0A])" by simp
  note m = measured [OF this, of c]
  show ?thesis using assms by (simp add: hello_main_def printf_def vfprintf_def libc_stdout_def m [simplified])
qed

theorem hello_faults_witness:
  "hello_main (\<lambda>f st p n s. Some (n, s)) CHR 0x00 (\<lambda>n. []) 0x40
     (fs_state.extend empty_fs (stdio_state.fields [0x40 \<mapsto> libc_stdout 0x61 0x62] 0)) = None"
  by (rule hello_faults [of _ _ "0x61" "0x62"]) (simp_all add: fs_state.defs stdio_state.defs)

end
