(* ===== verification/Machine.thy ===== *)
theory Machine
  imports Exec
begin

text \<open>
  The assembly of the kernel, \<^verbatim>\<open>newland/arch/x86/src/asm\<close>: the switch of registers behind \<open>schedule\<close> (\<^verbatim>\<open>proc.s\<close>), the stubs of
  exceptions and interrupts (\<^verbatim>\<open>idt.s\<close>, \<^verbatim>\<open>irq.s\<close>), the paging registers (\<^verbatim>\<open>paging.s\<close>), the segments (\<^verbatim>\<open>gdt.s\<close>) and the start
  (\<^verbatim>\<open>entry.s\<close>), with the two functions of \<^verbatim>\<open>irq.c\<close> that are assembly, as lists of the instructions of the files (source before
  destination, as there) run by a small 80386. The lists of a routine are cut where its lemmas are.

  Memory is a map of words at addresses divisible by four: an access that is not aligned, or not mapped, is a fault
  (\<open>None\<close>), and addresses are those of the kernel, which every page directory maps alike. A call of a C function is a
  map of machine states, which finds its argument on the top of the stack; the return address that the call pushes and the
  return pops is left out. The kernel runs at the highest privilege, at which \<^verbatim>\<open>popf\<close> loads the flags as they are and an
  interrupt does not switch stacks. The flags that \<^verbatim>\<open>add\<close> and \<^verbatim>\<open>or\<close> set are left out: in the switch and in the stubs \<^verbatim>\<open>popf\<close> and
  \<^verbatim>\<open>iret\<close> load all flags after them. A selector is loaded without a look at its descriptor, which \<open>gdt_init\<close> has written.
\<close>

subsection \<open>The machine\<close>

datatype reg = Eax | Ecx | Edx | Ebx | Esp | Ebp | Esi | Edi
datatype sreg = Ds | Es | Fs | Gs | Ss

record cpu =
  x_gpr :: "reg \<Rightarrow> u32"
  x_seg :: "sreg \<Rightarrow> u16"
  x_flags :: u32
  x_ip :: u32
  x_cs :: u32
  x_tr :: u16
  x_cr0 :: u32
  x_cr3 :: u32
  x_ram :: "ptr \<Rightarrow> u32 option"

datatype instr =
    Mov reg reg
  | MovI u32 reg
  | MovW reg reg
  | MovWI u16 reg
  | LoadM u32 reg reg
  | StoreM reg u32 reg
  | Push reg
  | PushI u32
  | Pop reg
  | Pusha
  | Popa
  | Pushf
  | Popf
  | AddI u32 reg
  | OrI u32 reg
  | FromCr0 reg
  | ToCr0 reg
  | FromCr3 reg
  | ToCr3 reg
  | FromSeg sreg reg
  | ToSeg reg sreg
  | XchgTop reg
  | FarJmp u16
  | Ltr reg
  | Cli
  | Sti
  | Call "cpu \<Rightarrow> cpu option"
  | Ret
  | Iret

definition FLAG_IF :: u32 where "FLAG_IF = 0x200"

definition fetch :: "ptr \<Rightarrow> cpu \<Rightarrow> u32 option" where
  "fetch p c = (if p AND 3 = 0 then x_ram c p else None)"

definition put_word :: "ptr \<Rightarrow> u32 \<Rightarrow> cpu \<Rightarrow> cpu option" where
  "put_word p v c = (if p AND 3 = 0 \<and> x_ram c p \<noteq> None then Some (c\<lparr>x_ram := (x_ram c)(p \<mapsto> v)\<rparr>) else None)"

definition set_reg :: "reg \<Rightarrow> u32 \<Rightarrow> cpu \<Rightarrow> cpu" where
  "set_reg r v c = c\<lparr>x_gpr := (x_gpr c)(r := v)\<rparr>"

text \<open>The low half of a register; the high half stays.\<close>

definition set_low :: "reg \<Rightarrow> u16 \<Rightarrow> cpu \<Rightarrow> cpu" where
  "set_low r v c = set_reg r ((x_gpr c r AND 0xFFFF0000) OR ucast v) c"

definition push_word :: "u32 \<Rightarrow> cpu \<Rightarrow> cpu option" where
  "push_word v c = map_option (set_reg Esp (x_gpr c Esp - 4)) (put_word (x_gpr c Esp - 4) v c)"

definition pop_word :: "cpu \<Rightarrow> (u32 \<times> cpu) option" where
  "pop_word c = map_option (\<lambda>v. (v, set_reg Esp (x_gpr c Esp + 4) c)) (fetch (x_gpr c Esp) c)"

fun step :: "instr \<Rightarrow> cpu \<Rightarrow> cpu option" where
  "step (Mov s d) c = Some (set_reg d (x_gpr c s) c)"
| "step (MovI v d) c = Some (set_reg d v c)"
| "step (MovW s d) c = Some (set_low d (ucast (x_gpr c s)) c)"
| "step (MovWI v d) c = Some (set_low d v c)"
| "step (LoadM k b d) c = map_option (\<lambda>v. set_reg d v c) (fetch (x_gpr c b + k) c)"
| "step (StoreM s k b) c = put_word (x_gpr c b + k) (x_gpr c s) c"
| "step (Push r) c = push_word (x_gpr c r) c"
| "step (PushI v) c = push_word v c"
| "step (Pop r) c = map_option (\<lambda>(v, d). set_reg r v d) (pop_word c)"
| "step Pusha c = foldM push_word (map (x_gpr c) [Eax, Ecx, Edx, Ebx, Esp, Ebp, Esi, Edi]) c"
| "step Popa c = foldM (\<lambda>r d. map_option (\<lambda>(v, e). if r = Esp then e else set_reg r v e) (pop_word d)) [Edi, Esi, Ebp, Esp, Ebx, Edx, Ecx, Eax] c"
| "step Pushf c = push_word (x_flags c) c"
| "step Popf c = map_option (\<lambda>(v, d). d\<lparr>x_flags := v\<rparr>) (pop_word c)"
| "step (AddI v r) c = Some (set_reg r (x_gpr c r + v) c)"
| "step (OrI v r) c = Some (set_reg r (x_gpr c r OR v) c)"
| "step (FromCr0 r) c = Some (set_reg r (x_cr0 c) c)"
| "step (ToCr0 r) c = Some (c\<lparr>x_cr0 := x_gpr c r\<rparr>)"
| "step (FromCr3 r) c = Some (set_reg r (x_cr3 c) c)"
| "step (ToCr3 r) c = Some (c\<lparr>x_cr3 := x_gpr c r\<rparr>)"
| "step (FromSeg s r) c = Some (set_low r (x_seg c s) c)"
| "step (ToSeg r s) c = Some (c\<lparr>x_seg := (x_seg c)(s := ucast (x_gpr c r))\<rparr>)"
| "step (XchgTop r) c = do {
     v \<leftarrow> fetch (x_gpr c Esp) c;
     d \<leftarrow> put_word (x_gpr c Esp) (x_gpr c r) c;
     Some (set_reg r v d)
   }"
| "step (FarJmp v) c = Some (c\<lparr>x_cs := ucast v\<rparr>)"
| "step (Ltr r) c = Some (c\<lparr>x_tr := ucast (x_gpr c r)\<rparr>)"
| "step Cli c = Some (c\<lparr>x_flags := x_flags c AND NOT FLAG_IF\<rparr>)"
| "step Sti c = Some (c\<lparr>x_flags := x_flags c OR FLAG_IF\<rparr>)"
| "step (Call f) c = f c"
| "step Ret c = map_option (\<lambda>(v, d). d\<lparr>x_ip := v\<rparr>) (pop_word c)"
| "step Iret c = do {
     (ip, c1) \<leftarrow> pop_word c;
     (cs, c2) \<leftarrow> pop_word c1;
     (fl, c3) \<leftarrow> pop_word c2;
     Some (c3\<lparr>x_ip := ip, x_cs := cs, x_flags := fl\<rparr>)
   }"

fun run_code :: "instr list \<Rightarrow> cpu \<Rightarrow> cpu option" where
  "run_code [] c = Some c"
| "run_code (i # ks) c = Option.bind (step i c) (run_code ks)"

subsection \<open>The routines\<close>

text \<open>\<^verbatim>\<open>proc_regswitch(a, b)\<close>: the registers of the caller go to \<open>a\<close>, those of \<open>b\<close> are loaded.\<close>

definition save_frame :: "instr list" where
  "save_frame = [Pusha, Pushf, FromCr3 Eax, Push Eax]"

definition save_general :: "instr list" where
  "save_general = [LoadM 44 Esp Eax, StoreM Ebx 4 Eax, StoreM Ecx 8 Eax, StoreM Edx 12 Eax, StoreM Esi 16 Eax, StoreM Edi 20 Eax]"

definition read_frame :: "instr list" where
  "read_frame = [LoadM 36 Esp Ebx, LoadM 40 Esp Ecx, LoadM 20 Esp Edx, AddI 4 Edx, LoadM 16 Esp Esi, LoadM 4 Esp Edi]"

definition save_rest :: "instr list" where
  "save_rest = [StoreM Ebx 0 Eax, StoreM Edx 24 Eax, StoreM Esi 28 Eax, StoreM Ecx 32 Eax, StoreM Edi 36 Eax]"

definition save_cr3 :: "instr list" where
  "save_cr3 = [Pop Ebx, StoreM Ebx 40 Eax, Push Ebx]"

definition load_general :: "instr list" where
  "load_general = [LoadM 48 Esp Eax, LoadM 4 Eax Ebx, LoadM 8 Eax Ecx, LoadM 12 Eax Edx, LoadM 16 Eax Esi, LoadM 20 Eax Edi,
     LoadM 28 Eax Ebp]"

definition load_rest :: "instr list" where
  "load_rest = [Push Eax, LoadM 36 Eax Eax, Push Eax, Popf, Pop Eax, LoadM 24 Eax Esp, Push Eax, LoadM 40 Eax Eax, ToCr3 Eax,
     Pop Eax, Push Eax, LoadM 32 Eax Eax, XchgTop Eax, LoadM 0 Eax Eax, Ret]"

definition proc_regswitch :: "instr list" where
  "proc_regswitch = save_frame @ save_general @ read_frame @ save_rest @ save_cr3 @ load_general @ load_rest"

text \<open>The stubs push what the processor has not, save the registers as \<^verbatim>\<open>regs_t\<close> and call the C handler.\<close>

definition isr_enter :: "instr list" where
  "isr_enter = [Pusha, FromSeg Ds Eax, Push Eax, MovWI 0x10 Eax, MovW Eax Edx, ToSeg Eax Es, ToSeg Eax Fs, ToSeg Eax Gs, Push Esp]"

definition irq_enter :: "instr list" where
  "irq_enter = [Pusha, FromSeg Ds Eax, Push Eax, MovWI 0x10 Eax, ToSeg Eax Ds, ToSeg Eax Es, ToSeg Eax Fs, ToSeg Eax Gs, Push Esp]"

definition stub_leave :: "instr list" where
  "stub_leave = [Pop Ebx, Pop Ebx, ToSeg Ebx Ds, ToSeg Ebx Es, ToSeg Ebx Fs, ToSeg Ebx Gs, Popa, AddI 8 Esp, Sti, Iret]"

definition isr_common_stub :: "(cpu \<Rightarrow> cpu option) \<Rightarrow> instr list" where
  "isr_common_stub handler = isr_enter @ [Call handler] @ stub_leave"

definition irq_common_stub :: "(cpu \<Rightarrow> cpu option) \<Rightarrow> instr list" where
  "irq_common_stub handler = irq_enter @ [Call handler] @ stub_leave"

text \<open>The stubs that push no error code have a zero in its place. The macros of exceptions take a number and do not use it.\<close>

definition isr_noerrcode :: "u32 \<Rightarrow> (cpu \<Rightarrow> cpu option) \<Rightarrow> instr list" where
  "isr_noerrcode num handler = [Cli, PushI 0, PushI 1] @ isr_common_stub handler"

definition isr_errcode :: "u32 \<Rightarrow> (cpu \<Rightarrow> cpu option) \<Rightarrow> instr list" where
  "isr_errcode num handler = [Cli, PushI 1] @ isr_common_stub handler"

definition irq_stub :: "u32 \<Rightarrow> (cpu \<Rightarrow> cpu option) \<Rightarrow> instr list" where
  "irq_stub isrnum handler = [Cli, PushI 0, PushI isrnum] @ irq_common_stub handler"

text \<open>\<^verbatim>\<open>isr0\<close> to \<^verbatim>\<open>isr31\<close> and \<^verbatim>\<open>irq0\<close> to \<^verbatim>\<open>irq15\<close>, by number.\<close>

definition isr_stub :: "nat \<Rightarrow> (cpu \<Rightarrow> cpu option) \<Rightarrow> instr list" where
  "isr_stub n = (if n \<in> {10, 11, 12, 13, 14, 17, 30} then isr_errcode (of_nat n) else isr_noerrcode (of_nat n))"

definition irq :: "nat \<Rightarrow> (cpu \<Rightarrow> cpu option) \<Rightarrow> instr list" where
  "irq n = irq_stub (of_nat (32 + n))"

text \<open>
  \<^verbatim>\<open>irq_disable\<close> pops the flags into a register \<open>r\<close> that the compiler chooses, and has no \<^verbatim>\<open>return\<close>: what its caller gets is
  whatever \<^verbatim>\<open>eax\<close> holds then. \<^verbatim>\<open>irq_restore\<close> loads the flags from its argument.
\<close>

definition irq_disable :: "reg \<Rightarrow> instr list" where
  "irq_disable r = [Pushf, Cli, Pop r]"

definition irq_restore :: "u32 \<Rightarrow> instr list" where
  "irq_restore flags = [PushI flags, Popf]"

text \<open>The start of the kernel, up to the loop that halts; the segments after the descriptor table is loaded; the task register.\<close>

definition start_code :: "u32 \<Rightarrow> (cpu \<Rightarrow> cpu option) \<Rightarrow> instr list" where
  "start_code stack_top bootstrap_main = [MovI stack_top Esp, PushI 0, Popf, Push Ebx, Push Eax, Call bootstrap_main, Cli]"

definition gdt_reloadseg :: "instr list" where
  "gdt_reloadseg = [FarJmp 0x08, MovWI 0x10 Eax, ToSeg Eax Ds, ToSeg Eax Es, ToSeg Eax Fs, ToSeg Eax Gs, ToSeg Eax Ss, Ret]"

definition tss_flush :: "instr list" where
  "tss_flush = [MovWI 0x2B Eax, Ltr Eax, Ret]"

definition paging_enable :: "instr list" where
  "paging_enable = [FromCr0 Eax, OrI 0x80000000 Eax, ToCr0 Eax, Ret]"

definition paging_disable :: "instr list" where
  "paging_disable = [FromCr0 Eax, OrI 0x7FFFFFFF Eax, ToCr0 Eax, Ret]"

definition paging_invalidate_tlb :: "instr list" where
  "paging_invalidate_tlb = [FromCr3 Eax, ToCr3 Eax, Ret]"

definition paging_loaddir :: "instr list" where
  "paging_loaddir = [LoadM 4 Esp Eax, ToCr3 Eax, Ret]"

subsection \<open>Addresses and sequences of instructions\<close>

lemma run_code_append: "run_code (ks @ js) c = Option.bind (run_code ks c) (run_code js)"
  by (induction ks arbitrary: c) (auto split: bind_splits)

lemma run_code_call: "run_code ks c = Some d \<Longrightarrow> run_code (ks @ Call f # js) c = Option.bind (f d) (run_code js)"
  by (simp add: run_code_append)

lemma and_3_take_bit: "(p::ptr) AND 3 = take_bit 2 p"
  by (simp add: take_bit_eq_mask mask_eq_exp_minus_1)

lemma aligned_dvd: "((p::ptr) AND 3 = 0) = (4 dvd p)"
  using take_bit_eq_0_iff [of 2 p] by (simp add: and_3_take_bit)

lemma aligned_add: "(e::ptr) AND 3 = 0 \<Longrightarrow> (e + k) AND 3 = 0 \<longleftrightarrow> k AND 3 = 0"
  by (simp add: aligned_dvd dvd_add_right_iff)

lemma shift_back: "(e::ptr) + k - j = e + (k - j)"
  by (simp add: add_diff_eq)

definition words :: "ptr \<Rightarrow> nat \<Rightarrow> ptr list" where
  "words p n = map (\<lambda>k. p + 4 * of_nat k) [0..<n]"

lemma words_one: "words p (Suc 0) = [p]"
  by (simp add: words_def)

definition words_mapped :: "ptr \<Rightarrow> nat \<Rightarrow> cpu \<Rightarrow> bool" where
  "words_mapped p n c \<longleftrightarrow> p AND 3 = 0 \<and> (\<forall>q\<in>set (words p n). x_ram c q \<noteq> None)"

lemma words_11: "words p 11 = [p, p + 4, p + 8, p + 12, p + 16, p + 20, p + 24, p + 28, p + 32, p + 36, p + 40]"
  by (simp add: words_def upt_rec)

lemma words_15: "words p 15 = [p, p + 4, p + 8, p + 12, p + 16, p + 20, p + 24, p + 28, p + 32, p + 36, p + 40, p + 44, p + 48, p + 52, p + 56]"
  by (simp add: words_def upt_rec)

lemmas machine_simps = fetch_def put_word_def push_word_def pop_word_def set_reg_def set_low_def aligned_add shift_back add.assoc

lemma save_frame_runs:
  assumes "x_gpr c Esp = e + 48" "words_mapped e 15 c"
  shows "\<exists>d. run_code save_frame c = Some d \<and> x_gpr d = (x_gpr c)(Eax := x_cr3 c, Esp := e + 8) \<and>
    d = c\<lparr>x_gpr := x_gpr d, x_ram := x_ram d\<rparr> \<and>
    x_ram d = (x_ram c)(e + 44 \<mapsto> x_gpr c Eax, e + 40 \<mapsto> x_gpr c Ecx, e + 36 \<mapsto> x_gpr c Edx, e + 32 \<mapsto> x_gpr c Ebx,
      e + 28 \<mapsto> e + 48, e + 24 \<mapsto> x_gpr c Ebp, e + 20 \<mapsto> x_gpr c Esi, e + 16 \<mapsto> x_gpr c Edi, e + 12 \<mapsto> x_flags c, e + 8 \<mapsto> x_cr3 c)"
  using assms by (simp add: save_frame_def words_mapped_def words_15 machine_simps)

definition cpu_regs :: "cpu \<Rightarrow> proc_regs" where
  "cpu_regs c = \<lparr>r_eax = x_gpr c Eax, r_ebx = x_gpr c Ebx, r_ecx = x_gpr c Ecx, r_edx = x_gpr c Edx, r_esi = x_gpr c Esi,
     r_edi = x_gpr c Edi, r_esp = x_gpr c Esp, r_ebp = x_gpr c Ebp, r_eip = x_ip c, r_eflags = x_flags c, r_cr3 = x_cr3 c\<rparr>"

definition regs_words :: "proc_regs \<Rightarrow> u32 list" where
  "regs_words r = [r_eax r, r_ebx r, r_ecx r, r_edx r, r_esi r, r_edi r, r_esp r, r_ebp r, r_eip r, r_eflags r, r_cr3 r]"

definition regs_at :: "ptr \<Rightarrow> proc_regs \<Rightarrow> (ptr \<Rightarrow> u32 option) \<Rightarrow> bool" where
  "regs_at p r m \<longleftrightarrow> map m (words p 11) = map Some (regs_words r)"

definition apart :: "ptr list \<Rightarrow> ptr list \<Rightarrow> bool" where
  "apart ps qs \<longleftrightarrow> list_all (\<lambda>p. list_all (\<lambda>q. p \<noteq> q) qs) ps"

lemma apart_set: "apart ps qs = (set ps \<inter> set qs = {})"
  by (auto simp: apart_def list_all_iff)

lemma mapped_aligned: "words_mapped p n c \<Longrightarrow> p AND 3 = 0"
  by (simp add: words_mapped_def)

lemma save_general_runs:
  assumes "x_gpr d Esp = e + 8" "e AND 3 = 0" "x_ram d (e + 52) = Some a" "words_mapped a 11 d"
  shows "run_code save_general d = Some (d\<lparr>x_gpr := (x_gpr d)(Eax := a), x_ram := (x_ram d)(a + 4 \<mapsto> x_gpr d Ebx, a + 8 \<mapsto> x_gpr d Ecx,
    a + 12 \<mapsto> x_gpr d Edx, a + 16 \<mapsto> x_gpr d Esi, a + 20 \<mapsto> x_gpr d Edi)\<rparr>)"
  using assms(4) [unfolded words_mapped_def words_11] by (simp add: save_general_def assms machine_simps)

lemma read_frame_runs:
  assumes "x_gpr d Esp = e + 8" "e AND 3 = 0" "x_ram d (e + 44) = Some eax" "x_ram d (e + 48) = Some ret" "x_ram d (e + 28) = Some esp"
    "x_ram d (e + 24) = Some ebp" "x_ram d (e + 12) = Some flags"
  shows "run_code read_frame d = Some (d\<lparr>x_gpr := (x_gpr d)(Ebx := eax, Ecx := ret, Edx := esp + 4, Esi := ebp, Edi := flags)\<rparr>)"
  by (simp add: read_frame_def assms machine_simps)

lemma save_rest_runs:
  assumes "x_gpr d Eax = a" "words_mapped a 11 d"
  shows "run_code save_rest d = Some (d\<lparr>x_ram := (x_ram d)(a \<mapsto> x_gpr d Ebx, a + 24 \<mapsto> x_gpr d Edx,
    a + 28 \<mapsto> x_gpr d Esi, a + 32 \<mapsto> x_gpr d Ecx, a + 36 \<mapsto> x_gpr d Edi)\<rparr>)"
  using assms(2) [unfolded words_mapped_def words_11] by (simp add: save_rest_def assms(1) machine_simps)

lemma save_cr3_runs:
  assumes "x_gpr d Esp = e + 8" "e AND 3 = 0" "x_gpr d Eax = a" "words_mapped a 11 d" "x_ram d (e + 8) = Some cr3" "e + 8 \<notin> set (words a 11)"
  shows "run_code save_cr3 d = Some (d\<lparr>x_gpr := (x_gpr d)(Ebx := cr3), x_ram := (x_ram d)(a + 40 \<mapsto> cr3)\<rparr>)"
proof -
  have "(x_gpr d)(Esp := e + 12, Ebx := cr3, Esp := e + 8) = (x_gpr d)(Ebx := cr3)"
    using assms(1) by (auto simp: fun_eq_iff)
  moreover have "(x_ram d)(a + 40 \<mapsto> cr3, e + 8 \<mapsto> cr3) = (x_ram d)(a + 40 \<mapsto> cr3)"
    using assms(5) by (auto simp: fun_eq_iff)
  moreover have ne: "e + 8 \<noteq> a + 40" using assms(6) unfolding words_11 by (metis list.set_intros)
  moreover obtain z where "x_ram d (a + 40) = Some z" "a AND 3 = 0" using assms(4) unfolding words_mapped_def words_11 by auto
  ultimately show ?thesis
    by (simp only: save_cr3_def run_code.simps step.simps machine_simps) (simp add: machine_simps assms(1,2,3,5))
qed

lemma load_general_runs:
  assumes "x_gpr d Esp = e + 8" "e AND 3 = 0" "x_ram d (e + 56) = Some b" "b AND 3 = 0" "regs_at b r (x_ram d)"
  shows "run_code load_general d = Some (d\<lparr>x_gpr := (x_gpr d)(Eax := b, Ebx := r_ebx r, Ecx := r_ecx r, Edx := r_edx r,
    Esi := r_esi r, Edi := r_edi r, Ebp := r_ebp r)\<rparr>)"
  using assms(5) [unfolded regs_at_def words_11 regs_words_def] by (simp add: load_general_def assms machine_simps)

lemma load_rest_runs:
  assumes "x_gpr d Esp = e + 8" "e AND 3 = 0" "x_gpr d Eax = b" "b AND 3 = 0" "regs_at b r (x_ram d)"
    "words_mapped e 2 d" "r_esp r = u + 4" "words_mapped u 1 d" "apart [e, e + 4, u] (words b 11)"
  shows "\<exists>f. run_code load_rest d = Some f \<and> x_gpr f = (x_gpr d)(Eax := r_eax r, Esp := r_esp r) \<and> x_flags f = r_eflags r \<and>
    x_cr3 f = r_cr3 r \<and> x_ip f = r_eip r \<and> x_ram f = (x_ram d)(e + 4 \<mapsto> b, e \<mapsto> r_eflags r, u \<mapsto> r_eip r)"
proof -
  have ne: "b + 36 \<noteq> e + 4" "b + 24 \<noteq> e + 4" "b + 24 \<noteq> e" "b + 40 \<noteq> e + 4" "b + 40 \<noteq> e" "b + 40 \<noteq> u"
    "b + 32 \<noteq> e + 4" "b + 32 \<noteq> e" "b + 32 \<noteq> u" "b \<noteq> e + 4" "b \<noteq> e" "b \<noteq> u"
    using assms(9) unfolding apart_def words_11 list.pred_inject by metis+
  have m: "x_ram d b = Some (r_eax r)" "x_ram d (b + 24) = Some (r_esp r)" "x_ram d (b + 32) = Some (r_eip r)"
    "x_ram d (b + 36) = Some (r_eflags r)" "x_ram d (b + 40) = Some (r_cr3 r)"
    using assms(5) unfolding regs_at_def words_11 regs_words_def list.map list.inject by blast+
  obtain w1 w2 w3 where w: "x_ram d e = Some w1" "x_ram d (e + 4) = Some w2" "x_ram d u = Some w3" "u AND 3 = 0"
    using assms(6,8) by (auto simp: words_mapped_def words_def numeral_2_eq_2)
  show ?thesis
    by (simp add: load_rest_def assms(1-4,7) ne m w machine_simps)
qed

definition grows :: "cpu \<Rightarrow> cpu \<Rightarrow> bool" where
  "grows c d \<longleftrightarrow> dom (x_ram c) \<subseteq> dom (x_ram d)"

lemma mapped_grows: "words_mapped p n c \<Longrightarrow> grows c d \<Longrightarrow> words_mapped p n d"
  by (fastforce simp: words_mapped_def grows_def dom_def)

lemma save_runs:
  assumes sp: "x_gpr c Esp = e + 48" and st: "words_mapped e 15 c" and fr: "x_ram c (e + 48) = Some ret" "x_ram c (e + 52) = Some a"
    and a: "words_mapped a 11 c" and ap: "apart (words e 15) (words a 11)"
  shows "\<exists>d. run_code (save_frame @ save_general @ read_frame @ save_rest @ save_cr3) c = Some d \<and> x_gpr d Esp = e + 8 \<and>
    regs_at a ((cpu_regs c)\<lparr>r_esp := x_gpr c Esp + 4, r_eip := ret\<rparr>) (x_ram d) \<and> grows c d \<and>
    (\<forall>p. p \<notin> set (words (e + 8) 10) \<union> set (words a 11) \<longrightarrow> x_ram d p = x_ram c p)"
proof -
  have al [simp]: "e AND 3 = 0" using st by (rule mapped_aligned)
  obtain d1 where d1: "run_code save_frame c = Some d1" "x_gpr d1 = (x_gpr c)(Eax := x_cr3 c, Esp := e + 8)"
      "d1 = c\<lparr>x_gpr := x_gpr d1, x_ram := x_ram d1\<rparr>"
    and m1: "x_ram d1 = (x_ram c)(e + 44 \<mapsto> x_gpr c Eax, e + 40 \<mapsto> x_gpr c Ecx, e + 36 \<mapsto> x_gpr c Edx, e + 32 \<mapsto> x_gpr c Ebx,
      e + 28 \<mapsto> e + 48, e + 24 \<mapsto> x_gpr c Ebp, e + 20 \<mapsto> x_gpr c Esi, e + 16 \<mapsto> x_gpr c Edi, e + 12 \<mapsto> x_flags c, e + 8 \<mapsto> x_cr3 c)"
    using save_frame_runs [OF sp st] by blast
  have out: "p \<notin> set (words a 11)" if "p \<in> set (words e 15)" for p using ap that by (auto simp: apart_set)
  have g1: "grows c d1" by (auto simp: grows_def m1)
  define m2 where "m2 = (x_ram d1)(a + 4 \<mapsto> x_gpr c Ebx, a + 8 \<mapsto> x_gpr c Ecx, a + 12 \<mapsto> x_gpr c Edx, a + 16 \<mapsto> x_gpr c Esi,
    a + 20 \<mapsto> x_gpr c Edi)"
  define d2 where "d2 = d1\<lparr>x_gpr := (x_gpr d1)(Eax := a), x_ram := m2\<rparr>"
  have s2: "run_code save_general d1 = Some d2"
    using save_general_runs [of d1 e a] d1(2) fr(2) mapped_grows [OF a g1] by (simp add: d2_def m2_def m1)
  have m2: "m2 p = x_ram d1 p" if "p \<in> set (words e 15)" for p using out [OF that] by (simp add: m2_def words_11)
  define d3 where "d3 = d2\<lparr>x_gpr := (x_gpr d2)(Ebx := x_gpr c Eax, Ecx := ret, Edx := e + 48 + 4, Esi := x_gpr c Ebp, Edi := x_flags c)\<rparr>"
  have s3: "run_code read_frame d2 = Some d3"
    using read_frame_runs [of d2 e "x_gpr c Eax" ret "e + 48" "x_gpr c Ebp" "x_flags c"] d1(2) fr(1)
    by (simp add: d2_def d3_def m2 words_15 m1)
  define m4 where "m4 = m2(a \<mapsto> x_gpr c Eax, a + 24 \<mapsto> e + 48 + 4, a + 28 \<mapsto> x_gpr c Ebp, a + 32 \<mapsto> ret, a + 36 \<mapsto> x_flags c)"
  define d4 where "d4 = d3\<lparr>x_ram := m4\<rparr>"
  have g3: "grows c d3" using g1 by (auto simp: grows_def d3_def d2_def m2_def)
  have s4: "run_code save_rest d3 = Some d4"
    using save_rest_runs [OF _ mapped_grows [OF a g3]] by (simp add: d4_def m4_def d3_def d2_def)
  have g4: "grows c d4" using g3 by (auto simp: grows_def d4_def m4_def d3_def d2_def)
  have m4: "m4 p = x_ram d1 p" if "p \<in> set (words e 15)" for p using out [OF that] m2 [OF that] by (simp add: m4_def words_11)
  define d5 where "d5 = d4\<lparr>x_gpr := (x_gpr d4)(Ebx := x_cr3 c), x_ram := m4(a + 40 \<mapsto> x_cr3 c)\<rparr>"
  have s5: "run_code save_cr3 d4 = Some d5"
    using save_cr3_runs [OF _ al _ mapped_grows [OF a g4], of "x_cr3 c"] out [of "e + 8"] d1(2)
    by (simp add: d5_def d4_def d3_def d2_def m4 words_15 m1)
  have "run_code (save_frame @ save_general @ read_frame @ save_rest @ save_cr3) c = Some d5"
    by (simp add: run_code_append d1(1) s2 s3 s4 s5)
  moreover have "x_gpr d5 Esp = e + 8" by (simp add: d5_def d4_def d3_def d2_def d1(2))
  moreover have "regs_at a ((cpu_regs c)\<lparr>r_esp := x_gpr c Esp + 4, r_eip := ret\<rparr>) (x_ram d5)"
    by (simp add: regs_at_def words_11 regs_words_def cpu_regs_def d5_def m4_def m2_def sp)
  moreover have "grows c d5" using g4 by (auto simp: grows_def d5_def d4_def)
  moreover have "x_ram d5 p = x_ram c p" if "p \<notin> set (words (e + 8) 10)" "p \<notin> set (words a 11)" for p
    using that by (simp add: d5_def m4_def m2_def m1 words_11 words_def upt_rec add.assoc)
  ultimately show ?thesis by (intro exI [of _ d5]) blast
qed

subsection \<open>The switch of registers\<close>

lemma regs_at_frame: "(\<And>p. p \<in> set (words b 11) \<Longrightarrow> m p = n p) \<Longrightarrow> regs_at b r m = regs_at b r n"
  by (simp add: regs_at_def cong: map_cong)

lemma frame_inside: "set (words (e + 8) 10) \<subseteq> set (words e 12)"
proof
  fix p assume "p \<in> set (words (e + 8) 10)"
  then obtain k where k: "k < 10" "p = e + 8 + 4 * of_nat k" by (auto simp: words_def)
  then have "p = e + 4 * of_nat (k + 2)" by (simp add: algebra_simps)
  then show "p \<in> set (words e 12)" using k(1) by (auto simp: words_def intro: image_eqI [of _ _ "k + 2"])
qed

lemma regswitch_runs:
  assumes sp: "x_gpr c Esp = e + 48" and st: "words_mapped e 15 c"
    and fr: "x_ram c (e + 48) = Some ret" "x_ram c (e + 52) = Some a" "x_ram c (e + 56) = Some b"
    and a: "words_mapped a 11 c" and b: "b AND 3 = 0" "regs_at b r (x_ram c)"
    and ap: "apart (words e 15) (words a 11 @ words b 11)" "apart (words a 11) (words b 11)"
    and u: "words_mapped (r_esp r - 4) 1 c" "apart [r_esp r - 4] (words a 11 @ words b 11)"
  shows "\<exists>f. run_code proc_regswitch c = Some f \<and> cpu_regs f = r \<and>
    regs_at a ((cpu_regs c)\<lparr>r_esp := x_gpr c Esp + 4, r_eip := ret\<rparr>) (x_ram f) \<and>
    (\<forall>p. p \<notin> set (words e 12) \<union> set (words a 11) \<union> {r_esp r - 4} \<longrightarrow> x_ram f p = x_ram c p)"
proof -
  have al: "e AND 3 = 0" using st by (rule mapped_aligned)
  have ap1: "apart (words e 15) (words a 11)" and disj: "set (words e 15) \<inter> set (words b 11) = {}"
      "set (words e 15) \<inter> set (words a 11) = {}" "set (words a 11) \<inter> set (words b 11) = {}"
    using ap by (auto simp: apart_set)
  obtain d where d: "run_code (save_frame @ save_general @ read_frame @ save_rest @ save_cr3) c = Some d" "x_gpr d Esp = e + 8"
      "regs_at a ((cpu_regs c)\<lparr>r_esp := x_gpr c Esp + 4, r_eip := ret\<rparr>) (x_ram d)" and g: "grows c d"
    and same: "\<And>p. p \<notin> set (words (e + 8) 10) \<Longrightarrow> p \<notin> set (words a 11) \<Longrightarrow> x_ram d p = x_ram c p"
    using save_runs [OF sp st fr(1,2) a ap1] by blast
  have in15: "set (words e 12) \<subseteq> set (words e 15)" by (auto simp: words_def)
  have keep: "x_ram d p = x_ram c p" if "p \<in> set (words b 11)" for p
    using that disj frame_inside [of e] in15 by (intro same) blast+
  have "e + 56 \<in> set (words e 15)" by (simp add: words_15)
  then have "e + 56 \<notin> set (words a 11)" using disj(2) by blast
  moreover have "e + 56 \<notin> set (words (e + 8) 10)" by (simp add: words_def upt_rec add.assoc)
  ultimately have fb: "x_ram d (e + 56) = Some b" using same fr(3) by simp
  have rb: "regs_at b r (x_ram d)" using b(2) regs_at_frame [of b "x_ram d" "x_ram c"] keep by blast
  define d2 where "d2 = d\<lparr>x_gpr := (x_gpr d)(Eax := b, Ebx := r_ebx r, Ecx := r_ecx r, Edx := r_edx r,
    Esi := r_esi r, Edi := r_edi r, Ebp := r_ebp r)\<rparr>"
  have s2: "run_code load_general d = Some d2" unfolding d2_def by (rule load_general_runs [OF d(2) al fb b(1) rb])
  have g2: "grows c d2" using g by (simp add: d2_def grows_def)
  have e2: "e \<in> set (words e 15)" "e + 4 \<in> set (words e 15)" by (simp_all add: words_15)
  have "apart [e, e + 4, r_esp r - 4] (words b 11)"
    using disj(1) e2 u(2) by (auto simp: apart_set)
  moreover have "words_mapped e 2 d2" using mapped_grows [OF st g2] by (auto simp: words_mapped_def words_def)
  ultimately obtain f where f: "run_code load_rest d2 = Some f" "x_gpr f = (x_gpr d2)(Eax := r_eax r, Esp := r_esp r)"
      "x_flags f = r_eflags r" "x_cr3 f = r_cr3 r" "x_ip f = r_eip r"
      "x_ram f = (x_ram d2)(e + 4 \<mapsto> b, e \<mapsto> r_eflags r, r_esp r - 4 \<mapsto> r_eip r)"
    using load_rest_runs [of d2 e b r "r_esp r - 4"] d(2) al b(1) rb mapped_grows [OF u(1) g2] by (auto simp: d2_def)
  have "run_code proc_regswitch c = Some f"
    using d(1) s2 f(1) by (simp add: proc_regswitch_def run_code_append bind_eq_Some_conv) blast
  moreover have "cpu_regs f = r" by (simp add: cpu_regs_def f d2_def)
  moreover have "regs_at a ((cpu_regs c)\<lparr>r_esp := x_gpr c Esp + 4, r_eip := ret\<rparr>) (x_ram f)"
  proof -
    have "x_ram f p = x_ram d p" if "p \<in> set (words a 11)" for p
      using that e2 disj(2) u(2) by (auto simp: f(6) d2_def apart_set)
    then show ?thesis using d(3) regs_at_frame [of a "x_ram f" "x_ram d"] by blast
  qed
  moreover have "x_ram f p = x_ram c p" if "p \<notin> set (words e 12) \<union> set (words a 11) \<union> {r_esp r - 4}" for p
  proof -
    have "e \<in> set (words e 12)" "e + 4 \<in> set (words e 12)" by (simp_all add: words_def upt_rec)
    then show ?thesis using that frame_inside [of e] same [of p] by (auto simp: f(6) d2_def)
  qed
  ultimately show ?thesis by blast
qed

subsection \<open>The stubs of interrupts\<close>

definition read_regs :: "ptr \<Rightarrow> cpu \<Rightarrow> regs option" where
  "read_regs p c = map_option (\<lambda>w. \<lparr>rg_ds = w ! 0, rg_edi = w ! 1, rg_esi = w ! 2, rg_ebp = w ! 3, rg_esp = w ! 4, rg_ebx = w ! 5,
     rg_edx = w ! 6, rg_ecx = w ! 7, rg_eax = w ! 8, rg_int_no = w ! 9, rg_err_code = w ! 10, rg_eip = w ! 11, rg_cs = w ! 12,
     rg_eflags = w ! 13, rg_useresp = w ! 14, rg_ss = w ! 15\<rparr>) (those (map (\<lambda>q. fetch q c) (words p 16)))"

lemma words_16: "words p 16 = [p, p + 4, p + 8, p + 12, p + 16, p + 20, p + 24, p + 28, p + 32, p + 36, p + 40, p + 44, p + 48, p + 52, p + 56, p + 60]"
  by (simp add: words_def upt_rec)

lemma words_17: "words p 17 = [p, p + 4, p + 8, p + 12, p + 16, p + 20, p + 24, p + 28, p + 32, p + 36, p + 40, p + 44, p + 48, p + 52, p + 56, p + 60, p + 64]"
  by (simp add: words_def upt_rec)

lemma low_of_set_low: fixes s :: u16 and x :: u32 shows "(ucast ((x AND 0xFFFF0000) OR ucast s :: u32) :: u16) = s"
proof -
  have z: "(0xFFFF0000 :: u16) = 0" by simp
  have "(ucast (ucast s :: u32) :: u16) = s" by (rule bit_word_eqI) (simp add: bit_simps)
  then show ?thesis by (simp add: unsigned_or_eq unsigned_and_eq z)
qed

lemma low_of_16: "(ucast ((x AND 0xFFFF0000) OR 0x10 :: u32) :: u16) = 0x10"
  using low_of_set_low [of x "0x10"] by simp

definition seg_word :: "u32 \<Rightarrow> u16 \<Rightarrow> u32" where
  "seg_word x s = (x AND 0xFFFF0000) OR ucast s"

definition frame_ram :: "ptr \<Rightarrow> cpu \<Rightarrow> ptr \<Rightarrow> u32 option" where
  "frame_ram e c = (x_ram c)(e + 36 \<mapsto> x_gpr c Eax, e + 32 \<mapsto> x_gpr c Ecx, e + 28 \<mapsto> x_gpr c Edx, e + 24 \<mapsto> x_gpr c Ebx,
     e + 20 \<mapsto> e + 40, e + 16 \<mapsto> x_gpr c Ebp, e + 12 \<mapsto> x_gpr c Esi, e + 8 \<mapsto> x_gpr c Edi,
     e + 4 \<mapsto> seg_word (x_gpr c Eax) (x_seg c Ds), e \<mapsto> e + 4)"

lemma isr_enter_runs:
  assumes "x_gpr c Esp = e + 40" "words_mapped e 17 c"
  shows "\<exists>d. run_code isr_enter c = Some d \<and> x_gpr d Esp = e \<and> x_flags d = x_flags c \<and>
    x_ram d = frame_ram e c \<and>
    x_seg d Ds = x_seg c Ds"
  using assms by (simp add: isr_enter_def words_mapped_def words_17 machine_simps seg_word_def frame_ram_def)

lemma irq_enter_runs:
  assumes "x_gpr c Esp = e + 40" "words_mapped e 17 c"
  shows "\<exists>d. run_code irq_enter c = Some d \<and> x_gpr d Esp = e \<and> x_flags d = x_flags c \<and>
    x_ram d = frame_ram e c \<and>
    x_seg d Ds = 0x10"
  using assms by (simp add: irq_enter_def words_mapped_def words_17 machine_simps seg_word_def frame_ram_def low_of_16)

definition loaded :: "ptr \<Rightarrow> regs \<Rightarrow> cpu \<Rightarrow> cpu \<Rightarrow> bool" where
  "loaded e R g h \<longleftrightarrow> x_gpr h Eax = rg_eax R \<and> x_gpr h Ecx = rg_ecx R \<and> x_gpr h Edx = rg_edx R \<and> x_gpr h Ebx = rg_ebx R \<and>
     x_gpr h Ebp = rg_ebp R \<and> x_gpr h Esi = rg_esi R \<and> x_gpr h Edi = rg_edi R \<and> x_gpr h Esp = e + 60 \<and>
     x_ip h = rg_eip R \<and> x_cs h = rg_cs R \<and> x_flags h = rg_eflags R \<and>
     (\<forall>s \<in> {Ds, Es, Fs, Gs}. x_seg h s = ucast (rg_ds R)) \<and> x_ram h = x_ram g"

lemma stub_leave_runs:
  assumes "x_gpr g Esp = e" "e AND 3 = 0" "x_ram g e \<noteq> None" "read_regs (e + 4) g = Some R"
  shows "\<exists>h. run_code stub_leave g = Some h \<and> loaded e R g h"
proof -
  obtain y where y: "x_ram g e = Some y" using assms(3) by blast
  show ?thesis
    using assms(4) by (auto simp: stub_leave_def read_regs_def words_16 machine_simps assms(1,2) y loaded_def split: option.splits)
qed

definition holds_regs :: "cpu \<Rightarrow> u32 \<Rightarrow> regs \<Rightarrow> bool" where
  "holds_regs c num R \<longleftrightarrow> rg_int_no R = num \<and> rg_eax R = x_gpr c Eax \<and> rg_ecx R = x_gpr c Ecx \<and> rg_edx R = x_gpr c Edx \<and>
     rg_ebx R = x_gpr c Ebx \<and> rg_ebp R = x_gpr c Ebp \<and> rg_esi R = x_gpr c Esi \<and> rg_edi R = x_gpr c Edi \<and>
     (ucast (rg_ds R) :: u16) = x_seg c Ds"

definition error_code_pushed :: "nat \<Rightarrow> bool" where
  "error_code_pushed n \<longleftrightarrow> n \<in> {10, 11, 12, 13, 14, 17, 30}"

lemma entered_frame:
  assumes "words_mapped e 17 c" "x_ram c (e + 40) = Some num" "x_ram d = frame_ram e c"
  shows "\<exists>R. read_regs (e + 4) d = Some R \<and> holds_regs c num R \<and> Some (rg_eip R) = x_ram c (e + 48) \<and> Some (rg_cs R) = x_ram c (e + 52) \<and>
    Some (rg_eflags R) = x_ram c (e + 56) \<and> x_ram d e = Some (e + 4)"
  using assms by (auto simp: words_mapped_def words_17 read_regs_def words_16 holds_regs_def machine_simps seg_word_def low_of_set_low frame_ram_def)

lemma isr_calls:
  assumes sp: "x_gpr c Esp = e + (if error_code_pushed n then 44 else 48)" and st: "words_mapped e 17 c"
  shows "\<exists>d R. run_code (isr_stub n handler) c = Option.bind (handler d) (run_code stub_leave) \<and> x_gpr d Esp = e \<and> x_ram d e = Some (e + 4) \<and>
    x_flags d = x_flags c AND NOT FLAG_IF \<and> read_regs (e + 4) d = Some R \<and> holds_regs c 1 R"
proof -
  define pre where "pre = (if error_code_pushed n then [Cli, PushI 1] else [Cli, PushI 0, PushI 1])"
  obtain w z where al: "e AND 3 = 0" and w: "x_ram c (e + 40) = Some w" "x_ram c (e + 44) = Some z"
    using st by (auto simp: words_mapped_def words_17)
  obtain c1 where c1: "run_code pre c = Some c1" "x_gpr c1 = (x_gpr c)(Esp := e + 40)" "x_flags c1 = x_flags c AND NOT FLAG_IF"
      "x_seg c1 = x_seg c" "x_ram c1 (e + 40) = Some 1" "grows c c1"
    using sp al w that by (cases "error_code_pushed n") (auto simp: pre_def machine_simps grows_def)
  obtain d where d: "run_code isr_enter c1 = Some d" "x_gpr d Esp = e" "x_flags d = x_flags c1" and m: "x_ram d = frame_ram e c1"
    using isr_enter_runs [of c1 e] c1(2) mapped_grows [OF st c1(6)] by auto
  obtain R where R: "read_regs (e + 4) d = Some R" "holds_regs c1 1 R" "x_ram d e = Some (e + 4)"
    using entered_frame [OF mapped_grows [OF st c1(6)] c1(5) m] by blast
  have "isr_stub n handler = pre @ isr_common_stub handler"
    by (simp add: isr_stub_def pre_def error_code_pushed_def isr_errcode_def isr_noerrcode_def)
  then have "run_code (isr_stub n handler) c = Option.bind (handler d) (run_code stub_leave)"
    by (simp add: run_code_append c1(1) isr_common_stub_def d(1))
  moreover have "holds_regs c 1 R" using R(2) c1(2,4) by (simp add: holds_regs_def)
  ultimately show ?thesis using d R c1(3) by auto
qed

lemma irq_calls:
  assumes sp: "x_gpr c Esp = e + 48" and st: "words_mapped e 17 c"
  shows "\<exists>d R. run_code (irq n handler) c = Option.bind (handler d) (run_code stub_leave) \<and> x_gpr d Esp = e \<and> x_ram d e = Some (e + 4) \<and>
    x_flags d = x_flags c AND NOT FLAG_IF \<and> x_seg d Ds = 0x10 \<and> read_regs (e + 4) d = Some R \<and> holds_regs c (32 + of_nat n) R \<and>
    Some (rg_eip R) = x_ram c (e + 48) \<and> Some (rg_cs R) = x_ram c (e + 52) \<and> Some (rg_eflags R) = x_ram c (e + 56)"
proof -
  obtain w z where al: "e AND 3 = 0" and w: "x_ram c (e + 40) = Some w" "x_ram c (e + 44) = Some z"
    using st by (auto simp: words_mapped_def words_17)
  obtain c1 where c1: "run_code [Cli, PushI 0, PushI (of_nat (32 + n))] c = Some c1" "x_gpr c1 = (x_gpr c)(Esp := e + 40)"
      "x_flags c1 = x_flags c AND NOT FLAG_IF" "x_seg c1 = x_seg c" "x_ram c1 (e + 40) = Some (32 + of_nat n)" "grows c c1"
      "x_ram c1 (e + 48) = x_ram c (e + 48)" "x_ram c1 (e + 52) = x_ram c (e + 52)" "x_ram c1 (e + 56) = x_ram c (e + 56)"
    using sp al w by (auto simp: machine_simps grows_def)
  obtain d where d: "run_code irq_enter c1 = Some d" "x_gpr d Esp = e" "x_flags d = x_flags c1" "x_seg d Ds = 0x10" and m: "x_ram d = frame_ram e c1"
    using irq_enter_runs [of c1 e] c1(2) mapped_grows [OF st c1(6)] by auto
  obtain R where R: "read_regs (e + 4) d = Some R" "holds_regs c1 (32 + of_nat n) R" "x_ram d e = Some (e + 4)"
      "Some (rg_eip R) = x_ram c1 (e + 48)" "Some (rg_cs R) = x_ram c1 (e + 52)" "Some (rg_eflags R) = x_ram c1 (e + 56)"
    using entered_frame [OF mapped_grows [OF st c1(6)] c1(5) m] by blast
  have "run_code (irq n handler) c = Option.bind (handler d) (run_code stub_leave)"
    using c1(1) by (simp only: irq_def irq_stub_def irq_common_stub_def run_code_append d(1) bind.bind_lunit) (simp add: d(1))
  moreover have "holds_regs c (32 + of_nat n) R" using R(2) c1(2,4) by (simp add: holds_regs_def)
  ultimately show ?thesis using d R c1(3,7-9) by auto
qed

lemma loaded_gpr:
  assumes "holds_regs c num R" "loaded e R g h" "r \<noteq> Esp"
  shows "x_gpr h r = x_gpr c r"
  using assms by (cases r) (auto simp: holds_regs_def loaded_def)

lemma irq_returns:
  assumes sp: "x_gpr c Esp = e + 48" and st: "words_mapped e 17 c"
    and handler: "\<And>d. x_gpr d Esp = e \<Longrightarrow> \<exists>g. handler d = Some g \<and> x_gpr g Esp = e \<and> (\<forall>p\<in>set (words e 17). x_ram g p = x_ram d p)"
  shows "\<exists>h. run_code (irq n handler) c = Some h \<and> (\<forall>r. r \<noteq> Esp \<longrightarrow> x_gpr h r = x_gpr c r) \<and> x_gpr h Esp = x_gpr c Esp + 12 \<and>
    Some (x_ip h) = x_ram c (x_gpr c Esp) \<and> Some (x_cs h) = x_ram c (x_gpr c Esp + 4) \<and> Some (x_flags h) = x_ram c (x_gpr c Esp + 8) \<and>
    (\<forall>s\<in>{Ds, Es, Fs, Gs}. x_seg h s = x_seg c Ds)"
proof -
  obtain d R where d: "run_code (irq n handler) c = Option.bind (handler d) (run_code stub_leave)" "x_gpr d Esp = e" "x_ram d e = Some (e + 4)"
    and R: "read_regs (e + 4) d = Some R" "holds_regs c (32 + of_nat n) R"
      "Some (rg_eip R) = x_ram c (e + 48)" "Some (rg_cs R) = x_ram c (e + 52)" "Some (rg_eflags R) = x_ram c (e + 56)"
    using irq_calls [OF sp st, of n handler] by blast
  obtain g where g: "handler d = Some g" "x_gpr g Esp = e" and same: "\<And>p. p \<in> set (words e 17) \<Longrightarrow> x_ram g p = x_ram d p"
    using handler [OF d(2)] by blast
  have "set (words (e + 4) 16) \<subseteq> set (words e 17)" by (simp add: words_16 words_17 add.assoc)
  then have "map (\<lambda>q. fetch q g) (words (e + 4) 16) = map (\<lambda>q. fetch q d) (words (e + 4) 16)"
    by (intro map_cong refl) (auto simp: fetch_def same)
  then have "read_regs (e + 4) g = read_regs (e + 4) d" by (simp only: read_regs_def)
  moreover have "x_ram g e = Some (e + 4)" using same d(3) by (simp add: words_17)
  ultimately obtain h where h: "run_code stub_leave g = Some h" "loaded e R g h"
    using stub_leave_runs [OF g(2) mapped_aligned [OF st]] R(1) by auto
  have "\<forall>s\<in>{Ds, Es, Fs, Gs}. x_seg h s = x_seg c Ds" "x_gpr h Esp = e + 60"
      "x_ip h = rg_eip R" "x_cs h = rg_cs R" "x_flags h = rg_eflags R"
    using h(2) R(2) by (simp_all add: loaded_def holds_regs_def)
  moreover have "run_code (irq n handler) c = Some h" using d(1) g(1) h(1) by simp
  moreover have "e + 60 = x_gpr c Esp + 12" "x_ram c (x_gpr c Esp + 4) = x_ram c (e + 52)" "x_ram c (x_gpr c Esp + 8) = x_ram c (e + 56)"
    by (simp_all add: sp add.assoc)
  ultimately show ?thesis
    using R(3-5) loaded_gpr [OF R(2) h(2)] by (intro exI [of _ h] conjI allI impI) (simp_all only: sp)
qed

lemma isr_first:
  assumes "x_gpr c Esp = e + (if error_code_pushed n then 44 else 48)" "words_mapped e 17 c" "length (idt_handlers s) = 256"
  shows "\<exists>d R. run_code (isr_stub n handler) c = Option.bind (handler d) (run_code stub_leave) \<and> x_gpr d Esp = e \<and>
    x_ram d e = Some (e + 4) \<and> read_regs (e + 4) d = Some R \<and> rg_int_no R = 1 \<and>
    isr_handler call R s = (if idt_handlers s ! 1 \<noteq> 0 then map_option (outb 0x20 0x20) (call (idt_handlers s ! 1) R s)
      else Some (outb 0x20 0x20 (printk_s (KLOG_SOH @ ''2'' @ ''idt: received unhandled interrupt (%d)'') (sdec 1) s)))"
proof -
  obtain d R where d: "run_code (isr_stub n handler) c = Option.bind (handler d) (run_code stub_leave)" "x_gpr d Esp = e"
      "x_ram d e = Some (e + 4)" "read_regs (e + 4) d = Some R" and one: "rg_int_no R = 1"
    using isr_calls [OF assms(1,2), of handler] by (auto simp: holds_regs_def)
  have "isr_handler call R s = (if idt_handlers s ! 1 \<noteq> 0 then map_option (outb 0x20 0x20) (call (idt_handlers s ! 1) R s)
      else Some (outb 0x20 0x20 (printk_s (KLOG_SOH @ ''2'' @ ''idt: received unhandled interrupt (%d)'') (sdec 1) s)))"
    using assms(3) by (simp add: isr_handler_def one guard_def Let_def map_option_case split: option.splits)
  then show ?thesis using d one by blast
qed

subsection \<open>The other routines\<close>

lemma fetch_mapped: "fetch p c = Some v \<Longrightarrow> p AND 3 = 0 \<and> x_ram c p = Some v"
  by (simp add: fetch_def split: if_splits)

lemma paging_on:
  assumes "fetch (x_gpr c Esp) c = Some ret"
  shows "\<exists>f. run_code paging_enable c = Some f \<and> x_cr0 f = x_cr0 c OR 0x80000000 \<and> x_ip f = ret \<and> x_gpr f Esp = x_gpr c Esp + 4"
  using assms [THEN fetch_mapped] by (simp add: paging_enable_def pop_word_def fetch_def set_reg_def)

lemma paging_stays_on:
  assumes "fetch (x_gpr c Esp) c = Some ret"
  shows "\<exists>f. run_code paging_disable c = Some f \<and> bit (x_cr0 f) 31 = bit (x_cr0 c) 31 \<and> x_ip f = ret"
  using assms [THEN fetch_mapped] by (simp add: paging_disable_def pop_word_def fetch_def set_reg_def bit_or_iff)

lemma irq_disable_runs:
  assumes "words_mapped (x_gpr c Esp - 4) 1 c" "r \<noteq> Esp"
  shows "\<exists>f. run_code (irq_disable r) c = Some f \<and> x_flags f = x_flags c AND NOT FLAG_IF \<and>
    x_gpr f = (x_gpr c)(r := x_flags c) \<and> (\<exists>g. run_code (irq_restore (x_gpr f Eax)) f = Some g \<and>
      x_flags g = (if r = Eax then x_flags c else x_gpr c Eax))"
  using assms by (auto simp: irq_disable_def irq_restore_def words_mapped_def words_def machine_simps fun_eq_iff)

lemma start_calls:
  assumes "words_mapped (top - 12) 3 c"
  shows "\<exists>d. run_code (start_code top main) c = Option.bind (main d) (\<lambda>e. Some (e\<lparr>x_flags := x_flags e AND NOT FLAG_IF\<rparr>)) \<and>
    x_flags d = 0 \<and> x_gpr d Esp = top - 8 \<and> x_ram d (top - 8) = Some (x_gpr c Eax) \<and> x_ram d (top - 4) = Some (x_gpr c Ebx)"
proof -
  define u :: u32 where "u = top - 12"
  then have t: "top = u + 12" by simp
  have cli: "run_code [Cli] = (\<lambda>e. Some (e\<lparr>x_flags := x_flags e AND NOT FLAG_IF\<rparr>))" by (simp add: fun_eq_iff)
  obtain d where d: "run_code [MovI top Esp, PushI 0, Popf, Push Ebx, Push Eax] c = Some d" "x_flags d = 0" "x_gpr d Esp = top - 8"
      "x_ram d (top - 8) = Some (x_gpr c Eax)" "x_ram d (top - 4) = Some (x_gpr c Ebx)"
    using assms unfolding t by (auto simp: words_mapped_def words_def upt_rec machine_simps)
  have "start_code top main = [MovI top Esp, PushI 0, Popf, Push Ebx, Push Eax] @ Call main # [Cli]" by (simp add: start_code_def)
  then have "run_code (start_code top main) c = Option.bind (main d) (run_code [Cli])"
    by (simp only: run_code_call [OF d(1)])
  then show ?thesis using d(2-5) unfolding cli by blast
qed

lemma segments_reloaded:
  assumes "fetch (x_gpr c Esp) c = Some ret"
  shows "\<exists>f. run_code gdt_reloadseg c = Some f \<and> x_cs f = 0x08 \<and> (\<forall>s. x_seg f s = 0x10) \<and> x_ip f = ret"
proof -
  have all: "(\<forall>s. P s) = (P Ds \<and> P Es \<and> P Fs \<and> P Gs \<and> P Ss)" for P :: "sreg \<Rightarrow> bool" by (metis sreg.exhaust)
  show ?thesis using assms [THEN fetch_mapped] low_of_16 [of "x_gpr c Eax"]
    by (simp add: gdt_reloadseg_def pop_word_def fetch_def set_reg_def set_low_def all)
qed

subsection \<open>Properties\<close>

text \<open>C3: \<open>proc_regswitch\<close>, called with its two arguments on a mapped stack, always returns. It has then stored every register of its
  caller in the first structure, with the stack pointer behind the return address and the instruction pointer at it; every
  register is as the second structure says, and no other word of memory has changed but twelve below its arguments' frame and the one
  below the new stack pointer.\<close>

theorem regswitch_switches:
  assumes "x_gpr c Esp = e + 48" "words_mapped e 15 c"
    "x_ram c (e + 48) = Some ret" "x_ram c (e + 52) = Some a" "x_ram c (e + 56) = Some b"
    "words_mapped a 11 c" "b AND 3 = 0" "regs_at b r (x_ram c)"
    "apart (words e 15) (words a 11 @ words b 11)" "apart (words a 11) (words b 11)"
    "words_mapped (r_esp r - 4) 1 c" "apart [r_esp r - 4] (words a 11 @ words b 11)"
  shows "\<exists>f. run_code proc_regswitch c = Some f \<and> cpu_regs f = r \<and>
    regs_at a ((cpu_regs c)\<lparr>r_esp := x_gpr c Esp + 4, r_eip := ret\<rparr>) (x_ram f) \<and>
    (\<forall>p. p \<notin> set (words e 12) \<union> set (words a 11) \<union> {r_esp r - 4} \<longrightarrow> x_ram f p = x_ram c p)"
  by (rule regswitch_runs [OF assms])

definition two_tasks :: cpu where
  "two_tasks = \<lparr>x_gpr = (\<lambda>r. 7)(Esp := 0x1030), x_seg = (\<lambda>_. 0x10), x_flags = 0x202, x_ip = 0, x_cs = 8, x_tr = 0x2B, x_cr0 = 0x80000001, x_cr3 = 0x5000,
     x_ram = (\<lambda>_. Some 0)(0x1030 \<mapsto> 0x100040, 0x1034 \<mapsto> 0x2000, 0x1038 \<mapsto> 0x3000, 0x3018 \<mapsto> 0x4004, 0x3020 \<mapsto> 0x100040)\<rparr>"

theorem regswitch_switches_witness:
  "\<exists>f. run_code proc_regswitch two_tasks = Some f \<and> x_ip f = 0x100040 \<and> x_gpr f Esp = 0x4004 \<and> x_gpr f Ebx = 0"
proof -
  let ?r = "zero_regs\<lparr>r_esp := 0x4004, r_eip := 0x100040\<rparr>"
  have "\<exists>f. run_code proc_regswitch two_tasks = Some f \<and> cpu_regs f = ?r \<and>
    regs_at 0x2000 ((cpu_regs two_tasks)\<lparr>r_esp := x_gpr two_tasks Esp + 4, r_eip := 0x100040\<rparr>) (x_ram f) \<and>
    (\<forall>p. p \<notin> set (words 0x1000 12) \<union> set (words 0x2000 11) \<union> {r_esp ?r - 4} \<longrightarrow> x_ram f p = x_ram two_tasks p)"
    by (rule regswitch_switches [of _ _ _ _ "0x3000"])
      (simp_all add: two_tasks_def words_mapped_def words_15 words_11 regs_at_def regs_words_def zero_regs_def apart_def words_one)
  then show ?thesis by (auto simp: cpu_regs_def zero_regs_def)
qed


definition task_back :: cpu where
  "task_back = two_tasks\<lparr>x_gpr := (\<lambda>r. 9)(Esp := 0x4030), x_ram := (\<lambda>_. Some 0)(0x4030 \<mapsto> 0x100080, 0x4034 \<mapsto> 0x3000, 0x4038 \<mapsto> 0x2000)\<rparr>"


text \<open>C5: An interrupt request is transparent to the code it arrives in: when the handler returns, with the saved frame as it found it,
  the stub of every request goes back to the interrupted instruction with each general register, the code segment and the flags
  as they were, the stack without the frame, and all data segments the one that \<open>ds\<close> was.\<close>

theorem irq_transparent:
  assumes "x_gpr c Esp = e + 48" "words_mapped e 17 c"
    "\<And>d. x_gpr d Esp = e \<Longrightarrow> \<exists>g. handler d = Some g \<and> x_gpr g Esp = e \<and> (\<forall>p\<in>set (words e 17). x_ram g p = x_ram d p)"
  shows "\<exists>h. run_code (irq n handler) c = Some h \<and> (\<forall>r. r \<noteq> Esp \<longrightarrow> x_gpr h r = x_gpr c r) \<and> x_gpr h Esp = x_gpr c Esp + 12 \<and>
    Some (x_ip h) = x_ram c (x_gpr c Esp) \<and> Some (x_cs h) = x_ram c (x_gpr c Esp + 4) \<and> Some (x_flags h) = x_ram c (x_gpr c Esp + 8) \<and>
    (\<forall>s\<in>{Ds, Es, Fs, Gs}. x_seg h s = x_seg c Ds)"
  by (rule irq_returns [OF assms])

definition interrupted :: "u32 \<Rightarrow> cpu" where
  "interrupted sp = \<lparr>x_gpr = (\<lambda>r. 5)(Esp := sp), x_seg = (\<lambda>_. 0x23), x_flags = 0x202, x_ip = 0, x_cs = 8, x_tr = 0x2B, x_cr0 = 1, x_cr3 = 0,
     x_ram = (\<lambda>_. Some 0)(sp \<mapsto> 0x100040, sp + 4 \<mapsto> 8, sp + 8 \<mapsto> 0x246)\<rparr>"

theorem irq_transparent_witness:
  "\<exists>h. run_code (irq 0 Some) (interrupted 0x1030) = Some h \<and> x_ip h = 0x100040 \<and> x_gpr h Eax = 5 \<and> x_flags h = 0x246"
proof -
  have "\<exists>h. run_code (irq 0 Some) (interrupted 0x1030) = Some h \<and> (\<forall>r. r \<noteq> Esp \<longrightarrow> x_gpr h r = x_gpr (interrupted 0x1030) r) \<and>
    x_gpr h Esp = x_gpr (interrupted 0x1030) Esp + 12 \<and> Some (x_ip h) = x_ram (interrupted 0x1030) (x_gpr (interrupted 0x1030) Esp) \<and>
    Some (x_cs h) = x_ram (interrupted 0x1030) (x_gpr (interrupted 0x1030) Esp + 4) \<and>
    Some (x_flags h) = x_ram (interrupted 0x1030) (x_gpr (interrupted 0x1030) Esp + 8) \<and>
    (\<forall>s\<in>{Ds, Es, Fs, Gs}. x_seg h s = x_seg (interrupted 0x1030) Ds)"
    by (rule irq_transparent [of _ "0x1000"]) (simp_all add: interrupted_def words_mapped_def words_17)
  then show ?thesis by (auto simp: interrupted_def)
qed

text \<open>C6: No exception of the processor reaches the handler that \<open>sched_init\<close> registers for it. The stubs do not hand on which exception
  it is: the structure they build for \<open>isr_handler\<close> holds 1 for each, and the table has no handler for exception 1, so every exception
  (an invalid instruction, a stack or page fault, a floating point error of a process included) is only written to the log.\<close>

theorem exceptions_reach_no_handler:
  assumes "x_gpr c Esp = e + (if error_code_pushed n then 44 else 48)" "words_mapped e 17 c"
    "length (idt_handlers s) = 256" "idt_handlers s ! 1 = 0" "sched_init exc sched s = Some t"
  shows "\<exists>d R. run_code (isr_stub n handler) c = Option.bind (handler d) (run_code stub_leave) \<and> x_gpr d Esp = e \<and>
    x_ram d e = Some (e + 4) \<and> read_regs (e + 4) d = Some R \<and> rg_int_no R = 1 \<and>
    isr_handler call R t = Some (outb 0x20 0x20 (printk_s (KLOG_SOH @ ''2'' @ ''idt: received unhandled interrupt (%d)'') (sdec 1) t))"
proof -
  have "length (idt_handlers t) = 256" "idt_handlers t ! 1 = 0"
    using assms(3-5) by (auto simp: sched_init_def register_irq_handler_def register_int_handler_def split: if_splits)
  then show ?thesis using isr_first [OF assms(1,2), of t handler call] by simp
qed

text \<open>A page fault (14, with an error code) once the scheduler has been set up.\<close>

definition sched_ints :: int_state where
  "sched_ints = the (sched_init 0x100100 0x100200 blank_int)"

theorem exceptions_reach_no_handler_witness:
  "\<exists>d R. run_code (isr_stub 14 Some) (interrupted 0x102C) = run_code stub_leave d \<and> read_regs 0x1004 d = Some R \<and>
    idt_handlers sched_ints ! 14 = 0x100100 \<and>
    isr_handler (\<lambda>_ _ _. None) R sched_ints =
      Some (outb 0x20 0x20 (printk_s (KLOG_SOH @ ''2'' @ ''idt: received unhandled interrupt (%d)'') (sdec 1) sched_ints))"
proof -
  have t: "sched_init 0x100100 0x100200 blank_int = Some sched_ints" "idt_handlers sched_ints ! 14 = 0x100100"
    by (simp_all add: sched_ints_def sched_init_def register_irq_handler_def register_int_handler_def blank_int_def)
  have "\<exists>d R. run_code (isr_stub 14 Some) (interrupted 0x102C) = Option.bind (Some d) (run_code stub_leave) \<and> x_gpr d Esp = 0x1000 \<and>
    x_ram d 0x1000 = Some (0x1000 + 4) \<and> read_regs (0x1000 + 4) d = Some R \<and> rg_int_no R = 1 \<and> isr_handler (\<lambda>_ _ _. None) R sched_ints =
      Some (outb 0x20 0x20 (printk_s (KLOG_SOH @ ''2'' @ ''idt: received unhandled interrupt (%d)'') (sdec 1) sched_ints))"
    by (rule exceptions_reach_no_handler [OF _ _ _ _ t(1)])
      (simp_all add: interrupted_def words_mapped_def words_17 error_code_pushed_def blank_int_def)
  then show ?thesis using t(2) by auto
qed

end
