(* ===== verification/Lifecycle.thy ===== *)
theory Lifecycle
  imports Proc
begin

text \<open>
  The life of processes as a state machine. The steps of the kernel on its process table (a tick of the timer, the
  creation and destruction of a process, the cleanup of zombies, a signal and its end) are a relation between kernel
  states; the scheduler it implements is a small machine on a queue of pids and states. Each kernel step is shown to be
  a step of the small machine or none, and the invariants of the small machine hold in every reachable kernel state.

  A step is taken under the conditions in which the code does not fault: memory is freed by an allocator that leaves the
  contents of a block alone, a process is destroyed without open descriptors and with its parent listed or none, the
  block of a new process is not in the table, and the counter of pids has not come round.
\<close>

subsection \<open>The abstract scheduler\<close>

record run_queue =
  rq_table :: "(u32 \<times> u32) list"
  rq_curr :: u32
  rq_next :: u32

definition set_status :: "u32 \<Rightarrow> u32 \<Rightarrow> (u32 \<times> u32) list \<Rightarrow> (u32 \<times> u32) list" where
  "set_status k st tbl = map (\<lambda>(k', st'). (k', if k' = k then st else st')) tbl"

inductive queue_step :: "run_queue \<Rightarrow> run_queue \<Rightarrow> bool" where
  idle: "queue_step q q"
| tick: "i < length (rq_table q) \<Longrightarrow> rq_curr q = fst (rq_table q ! i) \<Longrightarrow>
    next = fst (rq_table q ! (Suc i mod length (rq_table q))) \<Longrightarrow>
    queue_step q (q\<lparr>rq_table := set_status next PROC_RUNNING (set_status (rq_curr q) PROC_READY (rq_table q)), rq_curr := next\<rparr>)"
| fork: "rq_next q \<noteq> - 1 \<Longrightarrow>
    queue_step q (q\<lparr>rq_table := (rq_next q, PROC_READY) # rq_table q,
      rq_curr := (if rq_table q = [] \<and> rq_curr q = 0 then rq_next q else rq_curr q), rq_next := rq_next q + 1\<rparr>)"
| kill: "k \<in> fst ` set (rq_table q) \<Longrightarrow>
    queue_step q (q\<lparr>rq_table := filter (\<lambda>x. fst x \<noteq> k) (rq_table q)\<rparr>)"
| reap: "queue_step q (q\<lparr>rq_table := filter (\<lambda>x. snd x \<noteq> PROC_ZOMBIE) (rq_table q)\<rparr>)"
| die: "k \<in> fst ` set (rq_table q) \<Longrightarrow>
    queue_step q (q\<lparr>rq_table := set_status k PROC_ZOMBIE (rq_table q)\<rparr>)"

text \<open>Pids are distinct, not 0 and older than the counter, and no process but the current one is running.\<close>

definition queue_ok :: "run_queue \<Rightarrow> bool" where
  "queue_ok q \<longleftrightarrow> distinct (map fst (rq_table q)) \<and> rq_next q \<noteq> 0 \<and>
     (\<forall>k \<in> set (map fst (rq_table q)). k \<noteq> 0 \<and> k < rq_next q) \<and>
     (\<forall>k. (k, PROC_RUNNING) \<in> set (rq_table q) \<longrightarrow> k = rq_curr q)"

lemmas status_defs = PROC_ZOMBIE_def PROC_RUNNING_def PROC_READY_def

lemma map_fst_set_status [simp]: "map fst (set_status k st tbl) = map fst tbl"
  by (simp add: set_status_def comp_def split_beta)

lemma set_set_status:
  "(k', st') \<in> set (set_status k st tbl) \<longleftrightarrow> (\<exists>st''. (k', st'') \<in> set tbl \<and> st' = (if k' = k then st else st''))"
  by (force simp: set_status_def)

lemma running_set:
  "(k, PROC_RUNNING) \<in> set (set_status k' PROC_RUNNING tbl) \<Longrightarrow> k = k' \<or> (k, PROC_RUNNING) \<in> set tbl"
  "st \<noteq> PROC_RUNNING \<Longrightarrow> (k, PROC_RUNNING) \<in> set (set_status k' st tbl) \<Longrightarrow> k \<noteq> k' \<and> (k, PROC_RUNNING) \<in> set tbl"
  unfolding set_set_status by (auto split: if_splits)

lemma queue_ok_keep:
  assumes "queue_ok q" "map fst (rq_table r) = map fst (rq_table q)" "rq_next r = rq_next q"
    and "\<And>k. (k, PROC_RUNNING) \<in> set (rq_table r) \<Longrightarrow> k = rq_curr r"
  shows "queue_ok r"
  using assms unfolding queue_ok_def by metis

lemma less_succ:
  fixes x :: u32
  assumes "x \<noteq> - 1"
  shows "x < x + 1" "x + 1 \<noteq> 0"
proof -
  have "x + 1 \<noteq> 0" using assms by (simp add: eq_neg_iff_add_eq_0)
  then have "unat (x + 1) \<noteq> 0" by (simp only: unat_eq_0 not_False_eq_True)
  then have "unat (x + 1) = unat x + 1"
    using unat_u32_less [of x] by (cases "unat x + 1 < 4294967296") (auto simp: unat_word_ariths mod_if)
  then show "x < x + 1" "x + 1 \<noteq> 0" using \<open>x + 1 \<noteq> 0\<close> by (simp_all add: word_less_nat_alt)
qed

lemma queue_step_ok: "queue_step q r \<Longrightarrow> queue_ok q \<Longrightarrow> queue_ok r"
proof (induction rule: queue_step.induct)
  case (fork q)
  let ?r = "q\<lparr>rq_table := (rq_next q, PROC_READY) # rq_table q,
      rq_curr := (if rq_table q = [] \<and> rq_curr q = 0 then rq_next q else rq_curr q), rq_next := rq_next q + 1\<rparr>"
  have old: "k \<noteq> 0 \<and> k < rq_next q" if "k \<in> set (map fst (rq_table q))" for k using fork(2) that unfolding queue_ok_def by blast
  have run: "k = rq_curr q" if "(k, PROC_RUNNING) \<in> set (rq_table q)" for k using fork(2) that by (simp add: queue_ok_def)
  have dist: "distinct (map fst (rq_table q))" "rq_next q \<noteq> 0" using fork(2) by (simp_all add: queue_ok_def)
  have "distinct (map fst (rq_table ?r))" using dist(1) old by auto
  moreover have "k \<noteq> 0 \<and> k < rq_next ?r" if "k \<in> set (map fst (rq_table ?r))" for k
    using that old less_trans [OF _ less_succ(1) [OF fork(1)], of k] less_succ(1) [OF fork(1)] dist(2) by auto
  moreover have "k = rq_curr ?r" if "(k, PROC_RUNNING) \<in> set (rq_table ?r)" for k
    using that run by (auto simp: PROC_RUNNING_def PROC_READY_def)
  moreover have "rq_next ?r \<noteq> 0" using less_succ(2) [OF fork(1)] by simp
  ultimately show ?case unfolding queue_ok_def by blast
next
  case (tick i q "next")
  have "k = next" if "(k, PROC_RUNNING) \<in> set (set_status next PROC_RUNNING (set_status (rq_curr q) PROC_READY (rq_table q)))" for k
  proof (rule ccontr)
    assume "k \<noteq> next"
    then have "k \<noteq> rq_curr q \<and> (k, PROC_RUNNING) \<in> set (rq_table q)"
      using running_set(1) [OF that] running_set(2) [of PROC_READY] by (auto simp: status_defs)
    then show False using tick(4) unfolding queue_ok_def by blast
  qed
  then show ?case by (intro queue_ok_keep [OF tick(4)]) simp_all
next
  case (die k q)
  have "PROC_ZOMBIE \<noteq> PROC_RUNNING" by (simp add: status_defs)
  then have "k' = rq_curr q" if "(k', PROC_RUNNING) \<in> set (set_status k PROC_ZOMBIE (rq_table q))" for k'
    using running_set(2) [OF _ that] die(2) unfolding queue_ok_def by blast
  then show ?case by (intro queue_ok_keep [OF die(2)]) simp_all
qed (auto simp: queue_ok_def intro: distinct_map_filter)


subsection \<open>The kernel's steps\<close>

text \<open>The structures the table links, from its head.\<close>

inductive linked :: "'z proc_state_scheme \<Rightarrow> ptr \<Rightarrow> bool" for s where
  head: "processes s \<noteq> 0 \<Longrightarrow> linked s (processes s)"
| link: "linked s p \<Longrightarrow> SLIST_NEXT (proc_heap s) p = Some q \<Longrightarrow> q \<noteq> 0 \<Longrightarrow> linked s q"

lemma linked_addrs:
  assumes "proc_rep s xs"
  shows "linked s p \<longleftrightarrow> p \<in> addrs xs"
proof
  note list = proc_rep_list [OF assms]
  show "p \<in> addrs xs" if "linked s p"
    using that
  proof (induction rule: linked.induct)
    case head
    then show ?case using slist_head_nth [OF list] by (auto split: if_splits)
  next
    case (link p q)
    then obtain i where i: "i < length xs" "p = fst (xs ! i)" by (auto simp: in_set_conv_nth)
    then have "Suc i < length xs" "q = fst (xs ! Suc i)" using link(2,3) SLIST_NEXT_nth [OF list i(1)] by (auto split: if_splits)
    then show ?case by simp
  qed
  have "linked s (fst (xs ! i))" if "i < length xs" for i
    using that
  proof (induction i)
    case 0
    then have "processes s = fst (xs ! 0)" using slist_head_nth [OF list] by (cases xs) simp_all
    then show ?case using 0 proc_rep_nonzero [OF assms] linked.head [of s] by (metis imageI nth_mem)
  next
    case (Suc i)
    then have "SLIST_NEXT (proc_heap s) (fst (xs ! i)) = Some (fst (xs ! Suc i))" using SLIST_NEXT_nth [OF list, of i] by simp
    moreover have "fst (xs ! Suc i) \<noteq> 0" using Suc(2) proc_rep_nonzero [OF assms] by (metis imageI nth_mem)
    ultimately show ?case using Suc linked.link [of s] by simp
  qed
  then have "\<forall>x \<in> set xs. linked s (fst x)" by (simp add: all_set_conv_all_nth)
  then show "linked s p" if "p \<in> addrs xs" using that by auto
qed

inductive kernel_step ::
  "'z proc_state_scheme drivers \<Rightarrow> (ptr \<Rightarrow> ptr \<Rightarrow> 'z proc_state_scheme \<Rightarrow> 'z proc_state_scheme) \<Rightarrow>
   'z proc_state_scheme \<Rightarrow> 'z proc_state_scheme \<Rightarrow> bool" for env rs where
  timer: "schedule rs s = Some t \<Longrightarrow> kernel_step env rs s t"
| create: "\<not> linked s p \<Longrightarrow> parent = 0 \<or> linked s parent \<Longrightarrow> next_pid s \<noteq> - 1 \<Longrightarrow>
    proc_create s p parent name isuser = Some (r, t) \<Longrightarrow> kernel_step env rs s t"
| destroy: "linked s p \<Longrightarrow> deref (proc_heap s) p = Some v \<Longrightarrow> no_open_fds v \<Longrightarrow>
    p_parent v = 0 \<or> process_frompid s (p_parent v) \<noteq> Some 0 \<Longrightarrow>
    proc_destroy kfree_keeps env s p = Some (r, t) \<Longrightarrow> kernel_step env rs s t"
| cleanup: "(\<And>p v. linked s p \<Longrightarrow> deref (proc_heap s) p = Some v \<Longrightarrow> reapable v) \<Longrightarrow>
    processes_cleanup kfree_keeps env s = Some t \<Longrightarrow> kernel_step env rs s t"
| signal: "linked s p \<Longrightarrow> proc_sigenter s p signum 0 n = Some (r, t) \<Longrightarrow> kernel_step env rs s t"
| sigleave: "linked s p \<Longrightarrow> proc_sigleave s p = Some (r, t) \<Longrightarrow> kernel_step env rs s t"

inductive_cases kernel_stepE: "kernel_step env rs s t"

text \<open>The register switch changes the saved registers of processes only.\<close>

definition view :: "(ptr \<times> proc) list \<Rightarrow> (u32 \<times> u32) list" where
  "view xs = map (\<lambda>x. (p_id (snd x), p_status (snd x))) xs"

definition saves_registers :: "(ptr \<Rightarrow> ptr \<Rightarrow> 'z proc_state_scheme \<Rightarrow> 'z proc_state_scheme) \<Rightarrow> bool" where
  "saves_registers rs \<longleftrightarrow>
     (\<forall>a b s. curr_pid (rs a b s) = curr_pid s \<and> next_pid (rs a b s) = next_pid s) \<and>
     (\<forall>a b s xs. proc_rep s xs \<longrightarrow> (\<exists>ys. proc_rep (rs a b s) ys \<and> view ys = view xs))"

inductive reachable ::
  "'z proc_state_scheme drivers \<Rightarrow> (ptr \<Rightarrow> ptr \<Rightarrow> 'z proc_state_scheme \<Rightarrow> 'z proc_state_scheme) \<Rightarrow> 'z proc_state_scheme \<Rightarrow> bool"
  for env rs where
  boot: "proc_rep s [] \<Longrightarrow> next_pid s = 1 \<Longrightarrow> curr_pid s = 0 \<Longrightarrow> reachable env rs s"
| step: "reachable env rs s \<Longrightarrow> kernel_step env rs s t \<Longrightarrow> reachable env rs t"

subsection \<open>Refinement\<close>

text \<open>The queue a table stands for.\<close>

definition refines :: "'z proc_state_scheme \<Rightarrow> run_queue \<Rightarrow> bool" where
  "refines s q \<longleftrightarrow> (\<exists>xs. proc_rep s xs \<and> rq_table q = view xs) \<and> rq_curr q = curr_pid s \<and> rq_next q = next_pid s"

lemma view_Cons [simp]: "view [] = []" "view (x # xs) = (p_id (snd x), p_status (snd x)) # view xs"
  by (simp_all add: view_def)

lemma fst_view [simp]: "map fst (view xs) = pids xs" "length (view xs) = length xs" "view xs = [] \<longleftrightarrow> xs = []"
  by (simp_all add: view_def pids_def)

lemma view_nth: "i < length xs \<Longrightarrow> view xs ! i = (p_id (snd (xs ! i)), p_status (snd (xs ! i)))"
  by (simp add: view_def)

lemma view_upd_same:
  "(\<And>v. p_id (f v) = p_id v \<and> p_status (f v) = p_status v) \<Longrightarrow> view (slist_upd e f xs) = view xs"
  by (simp add: view_def slist_upd_def)

definition keyed :: "(ptr \<times> proc) list \<Rightarrow> bool" where
  "keyed xs \<longleftrightarrow> distinct (map fst xs) \<and> distinct (pids xs)"

lemma proc_rep_keyed: "proc_rep s xs \<Longrightarrow> keyed xs"
  using slist_rep_distinct [OF proc_rep_list] by (simp add: keyed_def proc_rep_def pids_def)

lemma keyed_upd: "(\<And>v. p_id (f v) = p_id v) \<Longrightarrow> keyed (slist_upd e f xs) \<longleftrightarrow> keyed xs"
  by (simp add: keyed_def pids_def map_snd_slist_upd)

lemma keyed_element:
  assumes "keyed xs" "(e, v) \<in> set xs" "x \<in> set xs"
  shows "fst x = e \<longleftrightarrow> p_id (snd x) = p_id v"
proof -
  have "fst x = e \<longleftrightarrow> x = (e, v)" using assms unfolding keyed_def distinct_map inj_on_def by force
  moreover have "p_id (snd x) = p_id v \<longleftrightarrow> x = (e, v)" using assms unfolding keyed_def pids_def distinct_map inj_on_def by force
  ultimately show ?thesis by simp
qed

lemma view_upd_status:
  assumes "keyed xs" "(e, v) \<in> set xs" "\<And>v. p_id (f v) = p_id v \<and> p_status (f v) = st"
  shows "view (slist_upd e f xs) = set_status (p_id v) st (view xs)"
  using keyed_element [OF assms(1,2)] assms(3) by (simp add: view_def slist_upd_def set_status_def)

lemma view_del:
  assumes "keyed xs" "(e, v) \<in> set xs"
  shows "view (slist_del e xs) = filter (\<lambda>x. fst x \<noteq> p_id v) (view xs)"
  using keyed_element [OF assms] by (simp add: view_def slist_del_def filter_map comp_def cong: filter_cong)

lemma view_alive: "view (alive xs) = filter (\<lambda>x. snd x \<noteq> PROC_ZOMBIE) (view xs)"
  by (simp add: view_def alive_def filter_map comp_def)

lemma remove_child_keeps: "p_id (remove_child k v) = p_id v" "p_status (remove_child k v) = p_status v"
  by (simp_all add: remove_child_def split: option.splits)

lemma view_parent_told: "view (parent_told xs p) = view xs"
  by (simp add: parent_told_def view_upd_same remove_child_keeps)

lemma keyed_parent_told: "keyed (parent_told xs p) \<longleftrightarrow> keyed xs"
  by (simp add: parent_told_def keyed_upd remove_child_keeps)

lemma view_after_tick:
  assumes "keyed xs" "i < length xs" "j < length xs"
  shows "view (after_tick hw (fst (xs ! i)) (fst (xs ! j)) xs) =
    set_status (p_id (snd (xs ! j))) PROC_RUNNING (set_status (p_id (snd (xs ! i))) PROC_READY (view xs))"
proof -
  let ?a = "fst (xs ! i)" and ?b = "fst (xs ! j)" and ?ready = "\<lambda>p. p\<lparr>p_status := PROC_READY\<rparr>"
  let ?xs1 = "slist_upd ?a (\<lambda>p. p\<lparr>p_fpu := hw\<rparr>) xs" and ?xs2 = "slist_upd ?a ?ready (slist_upd ?a (\<lambda>p. p\<lparr>p_fpu := hw\<rparr>) xs)"
  have k: "keyed ?xs1" "keyed ?xs2" using assms(1) by (simp_all add: keyed_upd)
  have id1: "p_id (snd (?xs1 ! i)) = p_id (snd (xs ! i))" "fst (?xs1 ! i) = ?a" using assms(2) by (simp_all add: nth_slist_upd)
  have id2: "p_id (snd (?xs2 ! j)) = p_id (snd (xs ! j))" "fst (?xs2 ! j) = ?b" using assms(3) by (simp_all add: nth_slist_upd)
  have m1: "(?a, snd (?xs1 ! i)) \<in> set ?xs1" using nth_mem [of i ?xs1] assms(2) id1(2) by (metis length_slist_upd prod.collapse)
  have m2: "(?b, snd (?xs2 ! j)) \<in> set ?xs2" using nth_mem [of j ?xs2] assms(3) id2(2) by (metis length_slist_upd prod.collapse)
  have "view ?xs2 = set_status (p_id (snd (xs ! i))) PROC_READY (view ?xs1)"
    using view_upd_status [OF k(1) m1, of ?ready PROC_READY] id1(1) by simp
  moreover have "view ?xs1 = view xs" by (simp add: view_upd_same)
  ultimately show ?thesis
    using view_upd_status [OF k(2) m2, of "\<lambda>p. p\<lparr>p_status := PROC_RUNNING\<rparr>" PROC_RUNNING] id2(1) by (simp add: after_tick_def)
qed


text \<open>One lemma for each kind of step; \<open>refinesI\<close> states the goal over the table after the step.\<close>

lemma refinesI:
  "proc_rep t ys \<Longrightarrow> queue_step q \<lparr>rq_table = view ys, rq_curr = curr_pid t, rq_next = next_pid t\<rparr> \<Longrightarrow>
   \<exists>r. queue_step q r \<and> refines t r"
  by (intro exI conjI) (auto simp: refines_def)

lemma refines_idle: "refines s q \<Longrightarrow> \<exists>r. queue_step q r \<and> refines s r"
  using queue_step.idle by blast

lemma refinesE:
  assumes "refines s q"
  obtains xs where "proc_rep s xs" "q = \<lparr>rq_table = view xs, rq_curr = curr_pid s, rq_next = next_pid s\<rparr>"
  using assms by (cases q) (auto simp: refines_def)

lemma schedule_next_pid:
  assumes "schedule rs s = Some t" "\<And>a b u. next_pid (rs a b u) = next_pid u"
  shows "next_pid t = next_pid s"
  using assms by (auto simp: schedule_def bind_eq_Some_conv Let_def upd_proc_def fpu_savectx_def fpu_loadctx_def printk_s_def
      split: if_splits option.splits)

lemma schedule_refines:
  assumes "saves_registers rs" "refines s q" "schedule rs s = Some t"
  shows "\<exists>r. queue_step q r \<and> refines t r"
proof -
  obtain xs where xs: "proc_rep s xs" and q: "q = \<lparr>rq_table = view xs, rq_curr = curr_pid s, rq_next = next_pid s\<rparr>"
    by (rule refinesE [OF assms(2)])
  show ?thesis
  proof (cases "curr_pid s \<in> set (pids xs)")
    case False
    then have "find_ptr (\<lambda>p. p_id p = curr_pid s) xs = 0"
      by (intro find_ptr_eq_0 [OF proc_rep_nonzero [OF xs]]) (simp add: pids_mem)
    then have "t = s" using assms(3)
      by (auto simp: schedule_def process_frompid_rep [OF xs] bind_eq_Some_conv split: if_splits)
    then show ?thesis using refines_idle assms(2) by blast
  next
    case True
    then obtain i where i: "i < length xs" "curr_pid s = p_id (snd (xs ! i))" by (auto simp: pids_def in_set_conv_nth)
    let ?j = "Suc i mod length xs"
    have j: "?j < length xs" by (rule mod_less_divisor) (use i(1) in linarith)
    obtain u where u: "schedule rs s = Some (rs (fst (xs ! i)) (fst (xs ! ?j)) u)"
      "proc_rep u (after_tick (fpu_hw s) (fst (xs ! i)) (fst (xs ! ?j)) xs)" "curr_pid u = p_id (snd (xs ! ?j))"
      by (rule schedule_step [OF xs i refl refl refl, where regswitch = rs]) blast
    obtain ys where ys: "proc_rep t ys" "view ys = view (after_tick (fpu_hw s) (fst (xs ! i)) (fst (xs ! ?j)) xs)"
      using assms(1,3) u(1,2) unfolding saves_registers_def by (metis option.inject)
    have "t = rs (fst (xs ! i)) (fst (xs ! ?j)) u" using assms(3) u(1) by simp
    then have "curr_pid t = p_id (snd (xs ! ?j))" using assms(1) u(3) unfolding saves_registers_def by metis
    moreover have "next_pid t = next_pid s"
      by (rule schedule_next_pid [OF assms(3)]) (use assms(1) in \<open>simp add: saves_registers_def\<close>)
    moreover have "queue_step q (q\<lparr>rq_table := set_status (p_id (snd (xs ! ?j))) PROC_RUNNING (set_status (rq_curr q) PROC_READY (rq_table q)),
        rq_curr := p_id (snd (xs ! ?j))\<rparr>)"
      by (rule queue_step.tick [of i]) (use i j in \<open>simp_all add: q view_nth\<close>)
    ultimately show ?thesis
      using ys by (intro refinesI [OF ys(1)]) (simp add: q ys(2) view_after_tick [OF proc_rep_keyed [OF xs] i(1) j] i(2))
  qed
qed

lemma create_refines:
  assumes "refines s q" "queue_ok q" "\<not> linked s p" "parent = 0 \<or> linked s parent" "next_pid s \<noteq> - 1"
    and run: "proc_create s p parent name isuser = Some (r, t)"
  shows "\<exists>r. queue_step q r \<and> refines t r"
proof -
  obtain xs where xs: "proc_rep s xs" and q: "q = \<lparr>rq_table = view xs, rq_curr = curr_pid s, rq_next = next_pid s\<rparr>"
    by (rule refinesE [OF assms(1)])
  have nx: "next_pid s \<noteq> 0" "next_pid s \<notin> set (pids xs)"
    using assms(2) by (auto simp: queue_ok_def q simp flip: list.set_map)
  have fork: "queue_step q \<lparr>rq_table = (next_pid s, PROC_READY) # view xs,
      rq_curr = (if xs = [] \<and> curr_pid s = 0 then next_pid s else curr_pid s), rq_next = next_pid s + 1\<rparr>"
    using queue_step.fork [of q] assms(5) by (simp add: q cong: if_cong)
  consider "p = 0" | "p \<noteq> 0" "parent = 0" | "p \<noteq> 0" "linked s parent" "parent \<noteq> 0" using assms(4) by blast
  then show ?thesis
  proof cases
    case 1
    then have "t = s" using run by (simp add: proc_create_def)
    then show ?thesis using refines_idle assms(1) by blast
  next
    case 2
    obtain tt cr3 vm where tt: "first_tty_name s = Some tt" "pgdir_for isuser (kernel_vm s) = Some (cr3, vm)"
      using run 2 by (auto simp: proc_create_def bind_eq_Some_conv pgdir_for_def Let_def split: if_splits)
    obtain u where u: "proc_create s p 0 name isuser = Some (p, u)"
      "proc_rep u ((p, new_proc p (fpu_hw s) cr3 (init_proc None tt name isuser (next_pid s))) # xs)"
      "curr_pid u = (if xs = [] \<and> curr_pid s = 0 then next_pid s else curr_pid s)" "next_pid u = next_pid s + 1"
      by (rule proc_create_root [OF xs 2(1) _ nx tt, of name]) (use assms(3) linked_addrs [OF xs] in auto)
    have "t = u" using run u(1) 2 by simp
    then show ?thesis using fork u(3,4) by (intro refinesI [OF u(2) [folded \<open>t = u\<close>]]) (simp add: q)
  next
    case 3
    then obtain k where k: "k < length xs" "fst (xs ! k) = parent" using linked_addrs [OF xs] by (auto simp: in_set_conv_nth)
    let ?pp = "snd (xs ! k)"
    have pp: "xs ! k = (parent, ?pp)" using k(2) by (simp add: prod_eq_iff)
    have d: "deref (proc_heap s) parent = Some ?pp" using deref_nth [OF xs k(1)] k(2) by simp
    show ?thesis
    proof (cases "child_slot ?pp")
      case None
      then have "t = s\<lparr>errno_var := err ECHILD\<rparr>" using run 3 d by (simp add: proc_create_def)
      then show ?thesis using xs by (intro refinesI [of _ xs]) (simp_all add: q queue_step.idle)
    next
      case (Some ic)
      obtain i c where ic: "child_slot ?pp = Some (i, c)" using Some by (cases ic) simp
      obtain cr3 vm where dir: "pgdir_for isuser (kernel_vm s) = Some (cr3, vm)"
        using run 3 d ic by (cases "odd isuser") (auto simp: proc_create_def bind_eq_Some_conv pgdir_for_def Let_def upd_proc_def)
      obtain u where u: "proc_create s p parent name isuser = Some (p, u)"
        "proc_rep u ((p, new_proc p (fpu_hw s) cr3 (init_proc (Some ?pp) [] name isuser (next_pid s))) #
          slist_upd parent (add_child i c (next_pid s)) xs)" "curr_pid u = curr_pid s" "next_pid u = next_pid s + 1"
        by (rule proc_create_child [OF xs k(1) pp 3(1) _ nx ic dir, of name]) (use assms(3) linked_addrs [OF xs] in auto)
      have "t = u" using run u(1) by simp
      moreover have "xs \<noteq> []" using k(1) by auto
      ultimately show ?thesis
        using fork u(3,4) by (intro refinesI [OF u(2) [folded \<open>t = u\<close>]]) (simp add: q view_upd_same add_child_keeps)
    qed
  qed
qed


lemma destroy_refines:
  assumes "refines s q" "linked s p" "deref (proc_heap s) p = Some v" "no_open_fds v"
    and "p_parent v = 0 \<or> process_frompid s (p_parent v) \<noteq> Some 0"
    and run: "proc_destroy kfree_keeps env s p = Some (r, t)"
  shows "\<exists>r. queue_step q r \<and> refines t r"
proof -
  obtain xs where xs: "proc_rep s xs" and q: "q = \<lparr>rq_table = view xs, rq_curr = curr_pid s, rq_next = next_pid s\<rparr>"
    by (rule refinesE [OF assms(1)])
  obtain v' where "(p, v') \<in> set xs" using assms(2) linked_addrs [OF xs] by auto
  then have v: "(p, v) \<in> set xs" using proc_rep_deref [OF xs] assms(3) by force
  have parent: "p_parent v = 0 \<or> p_parent v \<in> set (pids xs)"
    using assms(5) find_ptr_eq_0 [OF proc_rep_nonzero [OF xs], of "\<lambda>a. p_id a = p_parent v"]
    by (auto simp: process_frompid_rep [OF xs] pids_mem)
  obtain u where u: "proc_destroy kfree_keeps env s p = Some (0, u)" "proc_rep u (slist_del p (parent_told xs v))"
    "curr_pid u = curr_pid s" "next_pid u = next_pid s"
    by (rule proc_destroy_kept [OF xs v assms(4) parent]) blast
  have "map fst (parent_told xs v) = map fst xs" by (simp add: parent_told_def)
  then have "p \<in> addrs (parent_told xs v)" using v by (metis fst_conv image_eqI list.set_map)
  then obtain w where w: "(p, w) \<in> set (parent_told xs v)" by auto
  have key: "keyed (parent_told xs v)" using proc_rep_keyed [OF xs] by (simp add: keyed_parent_told)
  have "p_id w \<in> fst ` set (view xs)"
    using w view_parent_told [of xs v] by (metis (mono_tags, lifting) fst_conv fst_view(1) list.set_map pids_mem snd_conv image_eqI)
  then have "queue_step q (q\<lparr>rq_table := filter (\<lambda>x. fst x \<noteq> p_id w) (rq_table q)\<rparr>)"
    by (intro queue_step.kill) (simp add: q)
  then show ?thesis
    using run u by (intro refinesI [of _ "slist_del p (parent_told xs v)"]) (simp_all add: q view_del [OF key w] view_parent_told)
qed

lemma cleanup_refines:
  assumes "refines s q" "\<And>p v. linked s p \<Longrightarrow> deref (proc_heap s) p = Some v \<Longrightarrow> reapable v"
    and run: "processes_cleanup kfree_keeps env s = Some t"
  shows "\<exists>r. queue_step q r \<and> refines t r"
proof -
  obtain xs where xs: "proc_rep s xs" and q: "q = \<lparr>rq_table = view xs, rq_curr = curr_pid s, rq_next = next_pid s\<rparr>"
    by (rule refinesE [OF assms(1)])
  have reap: "\<forall>x \<in> set xs. reapable (snd x)"
  proof
    fix x assume x: "x \<in> set xs"
    then have "deref (proc_heap s) (fst x) = Some (snd x)" by (intro proc_rep_deref [OF xs]) simp
    then show "reapable (snd x)" using x assms(2) linked_addrs [OF xs] by auto
  qed
  obtain u where u: "processes_cleanup kfree_keeps env s = Some u" "proc_rep u (alive xs)" "curr_pid u = curr_pid s" "next_pid u = next_pid s"
    by (rule processes_cleanup_keeps [OF xs reap])
  then show ?thesis
    using run queue_step.reap [of q] by (intro refinesI [of _ "alive xs"]) (simp_all add: q view_alive)
qed

text \<open>An update of one process that keeps its id and its state, or makes it a zombie.\<close>

lemma update_refines:
  assumes "refines s q" "linked s p" "keeps_wf f" "upd_proc p f s = Some t"
    and "(\<forall>v. p_status (f v) = p_status v) \<or> (\<forall>v. p_status (f v) = PROC_ZOMBIE)"
  shows "\<exists>r. queue_step q r \<and> refines t r"
proof -
  obtain xs where xs: "proc_rep s xs" and q: "q = \<lparr>rq_table = view xs, rq_curr = curr_pid s, rq_next = next_pid s\<rparr>"
    by (rule refinesE [OF assms(1)])
  have p: "p \<in> addrs xs" using assms(2) linked_addrs [OF xs] by blast
  then obtain v where v: "(p, v) \<in> set xs" by auto
  have id: "p_id (f v) = p_id v" for v using assms(3) by (simp add: keeps_wf_def)
  obtain h where "upd_proc p f s = Some (s\<lparr>proc_heap := h\<rparr>)" "proc_rep (s\<lparr>proc_heap := h\<rparr>) (slist_upd p f xs)"
    by (rule upd_proc_rep [OF xs p assms(3)])
  then have t: "t = s\<lparr>proc_heap := h\<rparr>" "proc_rep t (slist_upd p f xs)" using assms(4) by simp_all
  from assms(5) show ?thesis
  proof
    assume "\<forall>v. p_status (f v) = p_status v"
    then have "view (slist_upd p f xs) = view xs" by (intro view_upd_same) (simp add: id)
    then show ?thesis using t(1) queue_step.idle by (intro refinesI [OF t(2)]) (simp add: q)
  next
    assume "\<forall>v. p_status (f v) = PROC_ZOMBIE"
    then have "view (slist_upd p f xs) = set_status (p_id v) PROC_ZOMBIE (view xs)"
      by (intro view_upd_status [OF proc_rep_keyed [OF xs] v]) (simp add: id)
    moreover have "p_id v \<in> fst ` set (view xs)" using v by (force simp: view_def)
    ultimately show ?thesis
      using t(1) queue_step.die [of "p_id v" q] by (intro refinesI [OF t(2)]) (simp add: q)
  qed
qed

lemma signal_refines:
  assumes "refines s q" "linked s p" "proc_sigenter s p signum 0 n = Some (r, t)"
  shows "\<exists>r. queue_step q r \<and> refines t r"
proof -
  consider "t = s" | f where "upd_proc p f s = Some t" "keeps_wf f" "(\<forall>v. p_status (f v) = p_status v) \<or> (\<forall>v. p_status (f v) = PROC_ZOMBIE)"
  proof -
    have "t = s \<or> upd_proc p (\<lambda>p. p\<lparr>p_status := PROC_ZOMBIE\<rparr>) s = Some t \<or>
        upd_proc p (\<lambda>p. p\<lparr>p_issignaling := True, p_signum := signum\<rparr>) s = Some t"
      using assms(3) by (auto simp: proc_sigenter_def bind_eq_Some_conv split: if_splits)
    then show ?thesis using that by (elim disjE) (auto intro: that(2))
  qed
  then show ?thesis
  proof cases
    case 1
    then show ?thesis using refines_idle assms(1) by blast
  next
    case (2 f)
    then show ?thesis by (intro update_refines [OF assms(1,2)])
  qed
qed

lemma sigleave_refines:
  assumes "refines s q" "linked s p" "proc_sigleave s p = Some (r, t)"
  shows "\<exists>r. queue_step q r \<and> refines t r"
proof -
  have "t = s \<or> upd_proc p (\<lambda>p. p\<lparr>p_issignaling := False, p_signum := 0\<rparr>) s = Some t"
    using assms(3) by (auto simp: proc_sigleave_def bind_eq_Some_conv split: if_splits)
  then show ?thesis
    using refines_idle [OF assms(1)] update_refines [OF assms(1,2), of "\<lambda>p. p\<lparr>p_issignaling := False, p_signum := 0\<rparr>" t] by auto
qed

lemma step_refines:
  assumes "kernel_step env rs s t" "saves_registers rs" "refines s q" "queue_ok q"
  shows "\<exists>r. queue_step q r \<and> refines t r"
  using assms(1)
proof cases
  case timer
  then show ?thesis by (rule schedule_refines [OF assms(2,3)])
next
  case (create p parent name isuser r)
  then show ?thesis by (intro create_refines [OF assms(3,4)])
next
  case (destroy p v r)
  then show ?thesis by (intro destroy_refines [OF assms(3)])
next
  case cleanup
  then show ?thesis by (intro cleanup_refines [OF assms(3)])
next
  case (signal p signum n r)
  then show ?thesis by (intro signal_refines [OF assms(3)])
next
  case (sigleave p r)
  then show ?thesis by (intro sigleave_refines [OF assms(3)])
qed

lemma reachable_refines:
  assumes "saves_registers rs"
  shows "reachable env rs s \<Longrightarrow> \<exists>q. refines s q \<and> queue_ok q"
proof (induction rule: reachable.induct)
  case (boot s)
  then have "refines s \<lparr>rq_table = [], rq_curr = 0, rq_next = 1\<rparr>" by (auto simp: refines_def)
  moreover have "queue_ok \<lparr>rq_table = [], rq_curr = 0, rq_next = 1\<rparr>" by (simp add: queue_ok_def)
  ultimately show ?case by blast
next
  case (step s t)
  then show ?case using step_refines [OF step(2) assms] queue_step_ok by blast
qed


subsection \<open>Properties\<close>


lemma saves_registers_none: "saves_registers (\<lambda>a b s. s)"
  by (auto simp: saves_registers_def)


text \<open>C9: In every reachable state the table of processes is well formed: the links form a list of the counted length,
  the pids are distinct, not 0 and lower than the counter, the arrays of children and descriptors have their sizes and the
  count of children stays within them, and no process but the current one is marked running.\<close>

theorem reachable_table:
  assumes "reachable env rs s" "saves_registers rs"
  shows "\<exists>xs. slist_rep (proc_heap s) (processes s) xs \<and> proc_count s = of_nat (length xs) \<and> distinct (pids xs) \<and>
    (\<forall>(p, v) \<in> set xs. p_id v \<noteq> 0 \<and> p_id v < next_pid s \<and> length (p_child v) = CHILD_MAX \<and> unat (p_child_count v) \<le> CHILD_MAX \<and>
      length (p_fd v) = OPEN_MAX \<and> (p_status v = PROC_RUNNING \<longrightarrow> p_id v = curr_pid s))"
proof -
  obtain q where q: "refines s q" "queue_ok q" using reachable_refines [OF assms(2,1)] by blast
  obtain xs where xs: "proc_rep s xs" "q = \<lparr>rq_table = view xs, rq_curr = curr_pid s, rq_next = next_pid s\<rparr>"
    by (rule refinesE [OF q(1)])
  have "p_id v < next_pid s \<and> (p_status v = PROC_RUNNING \<longrightarrow> p_id v = curr_pid s)" if "(p, v) \<in> set xs" for p v
  proof -
    have "(p_id v, p_status v) \<in> set (view xs)" using that by (force simp: view_def)
    then show ?thesis using q(2) by (force simp: queue_ok_def xs(2) simp del: fst_view)
  qed
  then show ?thesis using xs(1) by (intro exI [of _ xs]) (auto simp: proc_rep_def pids_def proc_wf_def)
qed

theorem reachable_table_witness:
  "\<exists>t xs. proc_create ((table_state [] 0)\<lparr>next_pid := 1\<rparr>) 0x4000 0 ''init'' 0 = Some (0x4000, t) \<and>
    slist_rep (proc_heap t) (processes t) xs \<and> proc_count t = of_nat (length xs) \<and> distinct (pids xs)"
proof -
  let ?s = "(table_state [] 0)\<lparr>next_pid := 1\<rparr>"
  have rep: "proc_rep ?s []" using table_state_rep [of "[]" 0] by (simp add: pids_def)
  have tty: "first_tty_name ?s = Some []" by (simp add: first_tty_name_def tty_get_def table_state_def slist_get.simps)
  obtain t where t: "proc_create ?s 0x4000 0 ''init'' 0 = Some (0x4000, t)"
    by (rule proc_create_root [OF rep _ _ _ _ tty, of "0x4000" 0]) (simp_all add: pgdir_for_def pids_def)
  have "\<not> linked ?s 0x4000" by (simp add: linked_addrs [OF rep])
  then have "kernel_step no_drivers (\<lambda>a b s. s) ?s t" using t by (intro kernel_step.create [of ?s "0x4000" 0]) simp_all
  moreover have "reachable no_drivers (\<lambda>a b s. s) ?s" by (rule reachable.boot [OF rep]) simp_all
  ultimately have "reachable no_drivers (\<lambda>a b s. s) t" by (rule reachable.step [rotated])
  from reachable_table [OF this saves_registers_none] t show ?thesis by blast
qed

text \<open>The scheduler does not look at the state of a process: the successor of the current process runs after a tick even
  when it is a zombie, and a zombie that is current becomes ready again, so that a process killed by a signal goes on unless
  it is cleaned up before.\<close>

theorem zombie_scheduled:
  assumes "proc_rep s xs" "i < length xs" "curr_pid s = p_id (snd (xs ! i))" "j = Suc i mod length xs" "i \<noteq> j"
    and "p_status (snd (xs ! i)) = PROC_ZOMBIE" "p_status (snd (xs ! j)) = PROC_ZOMBIE"
  shows "\<exists>t ys. schedule rs s = Some (rs (fst (xs ! i)) (fst (xs ! j)) t) \<and> proc_rep t ys \<and> pids ys = pids xs \<and>
    curr_pid t = p_id (snd (ys ! j)) \<and> p_status (snd (ys ! j)) = PROC_RUNNING \<and> p_status (snd (ys ! i)) = PROC_READY"
proof -
  have j: "j < length xs" unfolding assms(4) by (rule mod_less_divisor) (use assms(2) in linarith)
  obtain t where t: "schedule rs s = Some (rs (fst (xs ! i)) (fst (xs ! j)) t)"
    "proc_rep t (after_tick (fpu_hw s) (fst (xs ! i)) (fst (xs ! j)) xs)" "curr_pid t = p_id (snd (xs ! j))"
    by (rule schedule_step [OF assms(1-3) refl assms(4) refl, where regswitch = rs]) blast
  have "distinct (map fst xs)" using proc_rep_keyed [OF assms(1)] by (simp add: keyed_def)
  then have "fst (xs ! i) \<noteq> fst (xs ! j)" using assms(2,5) j by (metis length_map nth_eq_iff_index_eq nth_map)
  then show ?thesis
    using t nth_after_tick [OF j] nth_after_tick [OF assms(2)]
    by (intro exI [of _ t] exI [of _ "after_tick (fpu_hw s) (fst (xs ! i)) (fst (xs ! j)) xs"]) (simp add: pids_after_tick)
qed

theorem zombie_scheduled_witness:
  "\<exists>t ys. schedule (\<lambda>a b s. s) (table_state [(0x1000, sample_proc 1 PROC_ZOMBIE), (0x2000, sample_proc 2 PROC_ZOMBIE)] 1) = Some t \<and>
    proc_rep t ys \<and> p_status (snd (ys ! 1)) = PROC_RUNNING \<and> curr_pid t = p_id (snd (ys ! 1))"
proof -
  have "proc_rep (table_state [(0x1000, sample_proc 1 PROC_ZOMBIE), (0x2000, sample_proc 2 PROC_ZOMBIE)] 1)
      [(0x1000, sample_proc 1 PROC_ZOMBIE), (0x2000, sample_proc 2 PROC_ZOMBIE)]"
    by (rule table_state_rep) (simp_all add: pids_def)
  from zombie_scheduled [OF this, of 0 1 "\<lambda>a b s. s"] show ?thesis by auto
qed

end
