(* ===== verification/Switch.thy ===== *)
theory Switch
  imports Machine Lifecycle
begin

text \<open>
  The switch of registers as the scheduler sees it. \<open>schedule\<close> and the theorems on the process table take what
  \<open>proc_regswitch\<close> does to the kernel as a parameter, with the hypothesis \<open>saves_registers\<close> or \<open>regswitch_ok\<close>; the function here is what the
  assembly does (\<open>regswitch_switches\<close>): it fills in the saved registers of the process that is switched out, and meets both.
\<close>

text \<open>The registers that are stored: those of the machine when \<open>schedule\<close> calls, with the return address \<open>ret\<close>.\<close>

definition stored_regs :: "cpu \<Rightarrow> u32 \<Rightarrow> proc_regs" where
  "stored_regs c ret = (cpu_regs c)\<lparr>r_esp := x_gpr c Esp + 4, r_eip := ret\<rparr>"

definition switch_saves :: "proc_regs \<Rightarrow> ptr \<Rightarrow> ptr \<Rightarrow> 'z proc_state_scheme \<Rightarrow> 'z proc_state_scheme" where
  "switch_saves r a b s = (case upd_proc a (\<lambda>p. p\<lparr>p_regs := r\<rparr>) s of None \<Rightarrow> s | Some t \<Rightarrow> t)"

lemma switch_saves_same: "curr_pid (switch_saves r a b s) = curr_pid s" "next_pid (switch_saves r a b s) = next_pid s"
  by (auto simp: switch_saves_def upd_proc_def split: option.splits)

lemma upd_elsewhere:
  assumes "proc_rep s xs" "a \<notin> addrs xs" "upd_proc a f s = Some t"
  shows "proc_rep t xs"
  using assms by (auto simp: upd_proc_def set_val_def proc_rep_def split: option.splits)

lemma view_slist_upd: "(\<And>p. p_id (f p) = p_id p \<and> p_status (f p) = p_status p) \<Longrightarrow> view (slist_upd a f xs) = view xs"
  by (simp add: view_def slist_upd_def)

lemma switch_saves_listed:
  assumes "proc_rep s xs" "a \<in> addrs xs"
  shows "proc_rep (switch_saves r a b s) (slist_upd a (\<lambda>p. p\<lparr>p_regs := r\<rparr>) xs)"
proof -
  have "keeps_wf (\<lambda>p. p\<lparr>p_regs := r\<rparr>)" by (simp add: keeps_wf_def proc_wf_def)
  then obtain h where "upd_proc a (\<lambda>p. p\<lparr>p_regs := r\<rparr>) s = Some (s\<lparr>proc_heap := h\<rparr>)"
      "proc_rep (s\<lparr>proc_heap := h\<rparr>) (slist_upd a (\<lambda>p. p\<lparr>p_regs := r\<rparr>) xs)"
    using upd_proc_rep [OF assms] by blast
  then show ?thesis by (simp add: switch_saves_def)
qed

lemma switch_saves_elsewhere:
  assumes "proc_rep s xs" "a \<notin> addrs xs"
  shows "proc_rep (switch_saves r a b s) xs"
  unfolding switch_saves_def using assms(1) upd_elsewhere [OF assms] by (simp split: option.split)

lemma switch_saves_rep:
  assumes "proc_rep s xs"
  shows "\<exists>ys. proc_rep (switch_saves r a b s) ys \<and> view ys = view xs"
proof (cases "a \<in> addrs xs")
  case True
  have "view (slist_upd a (\<lambda>p. p\<lparr>p_regs := r\<rparr>) xs) = view xs" by (rule view_slist_upd) simp
  then show ?thesis using switch_saves_listed [OF assms True] by blast
next
  case False
  then show ?thesis using switch_saves_elsewhere [OF assms] by blast
qed

lemma switch_saves_registers: "saves_registers (switch_saves r)"
  unfolding saves_registers_def by (intro conjI allI impI switch_saves_same switch_saves_rep)

lemma pids_view: "pids zs = map fst (view zs)"
  by (simp add: pids_def view_def)

lemma view_pids: "view ys = view xs \<Longrightarrow> pids ys = pids xs"
  by (simp only: pids_view)

lemma switch_saves_ok: "regswitch_ok (switch_saves r)"
  unfolding regswitch_ok_def using switch_saves_rep view_pids by (metis switch_saves_same(1))

text \<open>
  One switch of the kernel, in the assembly and in the table: the structure of the process that is switched out holds, in memory, the
  registers that its entry in the table gets.
\<close>

lemma switch_machine_table:
  assumes "x_gpr c Esp = e + 48" "words_mapped e 15 c"
    "x_ram c (e + 48) = Some ret" "x_ram c (e + 52) = Some ra" "x_ram c (e + 56) = Some rb"
    "words_mapped ra 11 c" "rb AND 3 = 0" "regs_at rb (p_regs q) (x_ram c)"
    "apart (words e 15) (words ra 11 @ words rb 11)" "apart (words ra 11) (words rb 11)"
    "words_mapped (r_esp (p_regs q) - 4) 1 c" "apart [r_esp (p_regs q) - 4] (words ra 11 @ words rb 11)"
    and "proc_rep s xs" "(a, p) \<in> set xs"
  obtains f ys p' where "run_code proc_regswitch c = Some f" "cpu_regs f = p_regs q"
    "proc_rep (switch_saves (stored_regs c ret) a b s) ys" "(a, p') \<in> set ys" "regs_at ra (p_regs p') (x_ram f)"
proof -
  obtain f where f: "run_code proc_regswitch c = Some f" "cpu_regs f = p_regs q" "regs_at ra (stored_regs c ret) (x_ram f)"
    using regswitch_runs [OF assms(1-12)] by (auto simp: stored_regs_def)
  let ?f = "\<lambda>p. p\<lparr>p_regs := stored_regs c ret\<rparr>"
  have mem: "a \<in> addrs xs" using assms(14) by force
  have "(a, ?f p) = (\<lambda>x. if fst x = a then (fst x, ?f (snd x)) else x) (a, p)" by simp
  then have "(a, ?f p) \<in> set (slist_upd a ?f xs)" unfolding slist_upd_def set_map using assms(14) by (rule image_eqI)
  moreover have "regs_at ra (p_regs (?f p)) (x_ram f)" using f(3) by simp
  ultimately show thesis using that [OF f(1,2) switch_saves_listed [OF assms(13) mem]] by blast
qed

end
