(* ===== verification/Spec2Isabelle.thy ===== *)
theory Spec2Isabelle
  imports Boot Ftoa NvkMain Pci Serial Stdio Switch System
begin

text \<open>
  StardustOS: the NewLand kernel, its libraries and its drivers.

  StardustOS is a small operating system in C for 32-bit x86. Under \<^verbatim>\<open>src/newland\<close> lies the kernel NewLand (portable
  parts in \<^verbatim>\<open>src\<close>, the machine in \<^verbatim>\<open>arch/x86\<close>), under \<^verbatim>\<open>src/libraries\<close> the C library, the list library and the ELF
  library it is linked with. The development models the code of these parts function by function and proves what each
  of them does, with its errors: several theorems describe behaviour that its authors did not intend.

  \<^bold>\<open>How the parts interact.\<close> \<^verbatim>\<open>bootstrap_main\<close> sets up the machine (segments, interrupts, timer, paging), the scheduler,
  the boot module devices, the filesystems and the modules, mounts the initial RAM disk and starts \<^verbatim>\<open>/init\<close>. Everything is
  found by name: devices, block devices, terminals, filesystems, mountpoints and buses are entries of global linked
  lists with a count. A driver is a table of function pointers in such an entry. A path is resolved through the
  mountpoints and the nodes' \<open>get_child\<close>; a process holds descriptors on nodes and reaches them with the system calls; a
  timer interrupt calls the scheduler; every part writes to the kernel log.

  \<^bold>\<open>Conventions.\<close> A C \<open>int\<close>, \<open>size_t\<close> or pointer is a \<open>32 word\<close>, so arithmetic wraps as in the code; \<open>sint\<close> reads it with a
  sign, and error codes are \<open>err e\<close>, the negation of a code of \<^verbatim>\<open>errno.h\<close>. A structure is a record, and structures that
  are reached through pointers live in a heap from addresses to them. A function returns \<open>option\<close>: \<open>None\<close> is a fault (an
  unmapped or freed address, a write behind an array, a jump to no function) or a loop that does not end, and the
  theorems that say a function returns say that its value is \<open>Some\<close>. What a call of \<^verbatim>\<open>kmalloc\<close> answers, and what the
  memory it hands out holds, are arguments. Code outside the repository (the miniz library, the hardware's answers at a
  port, the code of drivers behind function pointers) is an argument of the definitions that call it.

  \<^bold>\<open>Libraries.\<close>
  \<^item> \<open>Prelude\<close>: words, error codes, limits, the fault monad, loops over indices that end at the first error (\<open>for_r\<close>),
    fixed size name fields, decimal digits.
  \<^item> \<open>Slist\<close> (\<^verbatim>\<open>liblist.h\<close>): the macros of intrusive lists on a heap of cells. \<open>slist_rep h p xs\<close> says that the list at
    \<open>p\<close> holds \<open>xs\<close>, and each macro and each shape of \<^verbatim>\<open>SLIST_FOREACH\<close> is related to an operation on \<open>xs\<close>.
  \<^item> \<open>Liblist\<close> (\<^verbatim>\<open>list.c\<close>): lists of pointers. The locale \<open>pointer_cache\<close> states what a client relies on; the operations of
    the model interpret it, and the node caches of \<open>Devfs\<close> and \<open>Procfs\<close> use them.
  \<^item> \<open>Registry\<close>: the locales \<open>key_table\<close> (registering an entry, and looking it up by its key) and \<open>registry\<close>, which extends
    it by withdrawing an entry. Interpreted as \<open>dev_numbers\<close>, \<open>dev_names\<close>, \<open>blk_names\<close>, \<open>tty_names\<close>,
    \<open>fs_names\<close> and \<open>bus_devices\<close>, each in the theory of the table.
  \<^item> \<open>LibcString\<close>, \<open>Libgen\<close>, \<open>Printf\<close> (\<^verbatim>\<open>libc/src/string\<close>, \<^verbatim>\<open>libgen\<close>, \<^verbatim>\<open>stdio\<close>, \<^verbatim>\<open>stdlib\<close>): memory blocks and strings in
    a byte memory, \<^verbatim>\<open>dirname\<close> and \<^verbatim>\<open>basename\<close> that cut the caller's string in place, \<^verbatim>\<open>vsnprintf\<close> with its
    conversions; each against a definition on lists (\<open>convert\<close>, \<open>text_of\<close>, \<open>printed\<close>).
  \<^item> \<open>Charbuf\<close>: the character arrays on the stack in which drivers build a name. \<open>Elf\<close> (\<^verbatim>\<open>libfile\<close>): the headers of an ELF
    file, and that reading the image of a header gives it back.

  \<^bold>\<open>Registries and files.\<close>
  \<^item> \<open>Dev\<close>, \<open>Blkdev\<close>, \<open>Tty\<close>, \<open>Bus\<close>, \<open>Module\<close> (\<^verbatim>\<open>dev.c\<close>, \<^verbatim>\<open>dev/block.c\<close>, \<^verbatim>\<open>dev/tty.c\<close>, \<^verbatim>\<open>bus.c\<close>, \<^verbatim>\<open>module.c\<close>): for each
    a representation relation (\<open>device_rep\<close> and so on: the list in the heap, its count, distinct keys, names that fit),
    preserved by registration and removal, the answer of each branch, and round trips. Modules are initialised after the
    modules they depend on; \<open>module_init\<close> ends because the dependencies have no cycle.
  \<^item> \<open>Fs_Types\<close>, \<open>Fs\<close> (\<^verbatim>\<open>fs.h\<close>, \<^verbatim>\<open>fs.c\<close>): nodes and their tables of operations, resolution of paths, mountpoints, reading
    and writing through links. \<open>Devfs\<close>, \<open>Procfs\<close>, \<open>Initrd\<close> (\<^verbatim>\<open>fs/devfs.c\<close>, \<^verbatim>\<open>fs/procfs.c\<close>, \<^verbatim>\<open>fs/initrd.c\<close>): the three
    filesystems of the kernel. \<open>mount_file_step\<close> is the invariant of the loop that mounts an archive.
    \<open>initrd_drivers\<close> is the table of operations as the filesystem layer reaches it, through which the archive of a
    mounted \<open>Initrd\<close> is resolved by path (\<open>archive_resolves\<close>).
  \<^item> \<open>Log\<close>, \<open>Time\<close> (\<^verbatim>\<open>log.c\<close>, \<^verbatim>\<open>time.c\<close>, \<^verbatim>\<open>clock.c\<close>): the ring buffer of the kernel log, with the lines it writes and
    the ones that overrun it; the calendar, proved against the number of days before a date.

  \<^bold>\<open>The machine.\<close>
  \<^item> \<open>PhysMem\<close>, \<open>VirtMem\<close> (\<^verbatim>\<open>mem.c\<close>, \<^verbatim>\<open>alloc.c\<close>): the bitmap of frames is refined to a set (\<open>used_frames\<close>), its
    allocator to a first fit search; two level page tables in physical memory, with translation, mapping, the search for
    a run of free pages and its hooks for the heap. A new page table is itself allocated and mapped, so
    allocation and mapping call each other: the fuel \<open>pgdir_fuel\<close> (4) bounds that nesting, and is enough where the
    tables of the kernel are present (\<open>mem_allocident\<close> needs two).
  \<^item> \<open>Interrupts\<close> (\<^verbatim>\<open>gdt.c\<close>, \<^verbatim>\<open>idt.c\<close>, \<^verbatim>\<open>irq.c\<close>, \<^verbatim>\<open>timer.c\<close>): descriptors and their fields, the handlers of interrupts, the
    divisor of the timer. \<open>Multiboot\<close>, \<open>Pci\<close>, \<open>Serial\<close> (\<^verbatim>\<open>multiboot.c\<close>, \<^verbatim>\<open>pci.c\<close>, \<^verbatim>\<open>serial.c\<close>): the drivers, over the
    answers of the ports. A bridge makes the scan of PCI buses call itself; fuel bounds
    how deep, and one unit is enough for a machine without bridges.
  \<^item> \<open>Proc\<close>, \<open>Exec\<close>, \<open>System\<close> (\<^verbatim>\<open>proc.c\<close>, \<^verbatim>\<open>fpu.c\<close>, \<^verbatim>\<open>system.c\<close>, \<^verbatim>\<open>syscall.c\<close>): the process table (\<open>proc_rep\<close>,
    \<open>proc_wf\<close>), creation, destruction, signals, scheduling, starting a program from an ELF file, the system calls.
  \<^item> \<open>Lifecycle\<close>: the scheduler as a machine on a queue of pids and states (\<open>run_queue\<close>, \<open>queue_step\<close>), the steps of the
    kernel on its table (\<open>kernel_step\<close>), and the proof that each of them is a step of the queue or leaves it alone;
    invariants of the queue then hold in every reachable kernel state.
  \<^item> \<open>Boot\<close> (\<^verbatim>\<open>bootstrap.c\<close>, \<^verbatim>\<open>misc.c\<close>): the sequence of \<^verbatim>\<open>bootstrap_main\<close>, whose panics are values of \<open>boot_end\<close>,
    over one state of the kernel. The states of the components form a chain of records (\<open>klog_state\<close>, \<open>dev_state\<close>,
    \<open>blk_state\<close>, \<open>tty_state\<close>, \<open>fs_state\<close>, \<open>devfs_state\<close>, \<open>initrd_state\<close>, \<open>proc_state\<close>, \<open>procfs_state\<close>, \<open>boot_state\<close>), each
    operation taking any extension of its own, so that one state carries them all; the interrupt and module tables are
    members of the last (\<open>with_ints\<close>, \<open>with_mods\<close>). \<open>boot_mounted\<close> and \<open>boot_tables_filled\<close> are its stages.
  \<^item> \<open>Machine\<close> (\<^verbatim>\<open>asm/proc.s\<close>, \<^verbatim>\<open>idt.s\<close>, \<^verbatim>\<open>irq.s\<close>, \<^verbatim>\<open>gdt.s\<close>, \<^verbatim>\<open>paging.s\<close>, \<^verbatim>\<open>entry.s\<close>): the assembly of the kernel, as lists of
    instructions that a small 80386 runs (\<open>step\<close>, \<open>run_code\<close>). The switch between two processes saves and loads every
    register; the stubs build the structure that \<open>isr_handler\<close> and \<open>irq_handler\<close> of \<open>Interrupts\<close> take (\<open>read_regs\<close>). \<open>Switch\<close> joins the
    two views of a switch: the machine stores what the entry of the process in the table gets (\<open>switch_machine_table\<close>), and the
    function meets the hypotheses of \<open>Proc\<close> and \<open>Lifecycle\<close> about it.
  \<^item> \<open>Stdio\<close> (\<^verbatim>\<open>libc/src/stdio\<close>, \<^verbatim>\<open>lib.c\<close>, \<^verbatim>\<open>programs/hello\<close>): streams and printing for programs.
  \<^item> \<open>Ftoa\<close> (\<^verbatim>\<open>ftoa.c\<close>, \<^verbatim>\<open>pow.c\<close>, \<^verbatim>\<open>arithm.c\<close>): printing floating point numbers. A number is its rational value, and what
    the machine rounds a result to is a parameter that \<open>rounding\<close> describes; the division of \<^verbatim>\<open>long long\<close> is one too, for the helpers
    that the library puts in the place of the compiler's do not do it (\<open>ftoa_linked_faults\<close>).
  \<^item> \<open>Rootfs\<close>, \<open>Nvk\<close>, \<open>Emulator\<close>, \<open>NvkMain\<close> (\<^verbatim>\<open>tools/nvk\<close>): the virtual kernel, which runs the portable parts of the kernel on a
    host. Its root filesystem shows the files of the host, whose system calls are the functions of a record \<open>host\<close>; its
    processes run to their end inside \<^verbatim>\<open>proc_exec\<close>, in an engine whose functions are those of a record \<open>unicorn\<close>; its main program
    puts both together with the file systems and modules of the kernel. A 64-bit program of its own, it is modelled at the
    widths the types have in the kernel. Reading a file into memory may not end there, so the loop is partial, and one lemma
    (\<open>nvk_read_hangs\<close>) gives a case.

  \<^bold>\<open>Properties.\<close> A theorem after a block that begins with C and a number is a property of the program; the theorem of the
  same name with the suffix \<open>_witness\<close> applies it to a concrete state, so that its hypotheses can be met.

  \<^bold>\<open>Not modelled.\<close> The loading of the tables of the processor, the code of \<^verbatim>\<open>_init\<close> and \<^verbatim>\<open>_fini\<close> of programs, infinities and
  NaN, the libraries that are not in the repository (miniz, Unicorn: parameters), the structures of the boot loader that no code reads, and header
  prototypes. Time passes only where the code reads a clock, and interrupts arrive between the operations of the process table, not
  inside them: the kernel turns them off around the creation, the destruction and the start of a process.
\<close>

end
